(* ===== verification/Prelude.thy ===== *)
theory Prelude
  imports Main "HOL-Library.Word" "HOL-Library.Monad_Syntax"
begin

text \<open>
  Shared vocabulary of the development: the machine integers of the C sources, byte
  buffers as lists, and the facts on words and list slices that the components use.
\<close>

unbundle bit_operations_syntax

type_synonym u8 = "8 word"
type_synonym u16 = "16 word"
type_synonym u32 = "32 word"
type_synonym u64 = "64 word"
type_synonym bytes = "u8 list"

named_theorems wordnat \<open>facts that move word arithmetic to the natural numbers\<close>

section \<open>Words as natural numbers\<close>

lemma unat_u8_less [simp]: "unat (x :: u8) < 256"
  using unsigned_less [of x, where 'a = nat] by simp

lemma unat_u16_less [simp]: "unat (x :: u16) < 65536"
  using unsigned_less [of x, where 'a = nat] by simp

lemma unat_u8_of_nat [wordnat]: "unat (of_nat n :: u8) = n mod 256"
  by (simp add: unat_of_nat)

lemma unat_u16_of_nat [wordnat]: "unat (of_nat n :: u16) = n mod 65536"
  by (simp add: unat_of_nat)

lemma unat_u8_add [wordnat]:
  "unat ((a :: u8) + b) = (if unat a + unat b < 256 then unat a + unat b else unat a + unat b - 256)"
  by (simp add: unat_plus_if')

lemma unat_u16_add [wordnat]:
  "unat ((a :: u16) + b) = (if unat a + unat b < 65536 then unat a + unat b else unat a + unat b - 65536)"
  by (simp add: unat_plus_if')

lemma unat_u8_sub [wordnat]:
  "unat ((a :: u8) - b) = (if unat b \<le> unat a then unat a - unat b else unat a + 256 - unat b)"
  by (simp add: unat_sub_if')

lemma unat_u16_sub [wordnat]:
  "unat ((a :: u16) - b) = (if unat b \<le> unat a then unat a - unat b else unat a + 65536 - unat b)"
  by (simp add: unat_sub_if')

lemma u8_less_nat [wordnat]: "(a :: u8) < b \<longleftrightarrow> unat a < unat b"
  by (rule word_less_nat_alt)

lemma u8_le_nat [wordnat]: "(a :: u8) \<le> b \<longleftrightarrow> unat a \<le> unat b"
  by (rule word_le_nat_alt)

lemma u16_less_nat [wordnat]: "(a :: u16) < b \<longleftrightarrow> unat a < unat b"
  by (rule word_less_nat_alt)

lemma u16_le_nat [wordnat]: "(a :: u16) \<le> b \<longleftrightarrow> unat a \<le> unat b"
  by (rule word_le_nat_alt)

lemma u8_eq_nat [wordnat]: "(a :: u8) = b \<longleftrightarrow> unat a = unat b"
  by (simp add: word_unat_eq_iff)

lemma word_and_mask_bound:
  "unat (x AND m) \<le> unat m" for x m :: "'a::len word"
  by (simp add: word_and_le1 flip: word_le_nat_alt)

lemma u8_and_255 [simp]: "x AND 255 = x" for x :: u8
proof -
  have "x AND mask 8 = x"
    by (rule bit_word_eqI) (simp add: bit_simps)
  then show ?thesis by (simp add: mask_numeral)
qed

lemma unat_take_bit_mod: "unat (take_bit k x) = unat x mod 2 ^ k" for x :: "'a::len word"
  unfolding unsigned_take_bit_eq by (simp add: take_bit_eq_mod)

lemma word_and_mask_mod: "unat (x AND (2 ^ k - 1)) = unat x mod 2 ^ k" for x :: "'a::len word"
  using unat_take_bit_mod [of k x] by (simp only: take_bit_eq_mask mask_eq_exp_minus_1)

lemma unat_ucast_u8_u16 [simp]: "unat (ucast (x :: u8) :: u16) = unat x"
proof -
  have "unat x mod 65536 = unat x" by (rule mod_less, rule less_trans [OF unat_u8_less]) simp
  then show ?thesis by (simp add: unsigned_ucast_eq take_bit_eq_mod)
qed

section \<open>Slices of buffers\<close>

text \<open>\<open>sub_at off n xs\<close> reads \<open>n\<close> elements at an offset, \<open>put_at off ys xs\<close> overwrites there.\<close>

definition sub_at :: "nat \<Rightarrow> nat \<Rightarrow> 'a list \<Rightarrow> 'a list" where
  "sub_at off n xs = take n (drop off xs)"

definition put_at :: "nat \<Rightarrow> 'a list \<Rightarrow> 'a list \<Rightarrow> 'a list" where
  "put_at off ys xs = take off xs @ ys @ drop (off + length ys) xs"

lemma length_sub_at [simp]: "length (sub_at off n xs) = min n (length xs - off)"
  by (simp add: sub_at_def min.commute)

lemma length_put_at [simp]: "off + length ys \<le> length xs \<Longrightarrow> length (put_at off ys xs) = length xs"
  by (simp add: put_at_def)

lemma sub_put_same: "off + length ys \<le> length xs \<Longrightarrow> sub_at off (length ys) (put_at off ys xs) = ys"
  by (simp add: sub_at_def put_at_def)

lemma sub_at_add: "sub_at off (n + m) xs = sub_at off n xs @ sub_at (off + n) m xs"
  unfolding sub_at_def by (metis take_add drop_drop add.commute)

lemma sub_at_0 [simp]: "sub_at off 0 xs = []"
  by (simp add: sub_at_def)

lemma sub_at_all [simp]: "sub_at 0 (length xs) xs = xs"
  by (simp add: sub_at_def)

lemma nth_put_at_out:
  "off + length ys \<le> length xs \<Longrightarrow> i < off \<or> off + length ys \<le> i \<Longrightarrow> i < length xs \<Longrightarrow>
   put_at off ys xs ! i = xs ! i"
  by (auto simp: put_at_def nth_append)

end
