(* ===== verification/Tc6_Queue.thy ===== *)
theory Tc6_Queue
  imports Prelude
begin

text \<open>
  The lock-free ring buffers of \<open>tc6-queue.h\<close>: the Ethernet transmit queue (two stages), the SPI
  buffer queue (three stages) and the register operation queue (seven stages). Every queue is
  an array whose length is a power of two and one free-running 8-bit counter per stage; an
  entry is handed from one stage to the next by incrementing the counter of the later stage.
  A pointer into the array is modelled by its index, and the array itself, which the code
  reaches only through the queue, is the component \<open>buffer\<close> of the queue.

  The laws of the counters are proved once in the locale \<open>staged_queue\<close>, the laws of the
  contents in the locale \<open>fifo\<close>; both are interpreted on the three queues.
\<close>

section \<open>The queues of the driver\<close>

subsection \<open>\<open>qtxeth\<close>\<close>

record 'e qtxeth_queue =
  tx_buffer :: "'e list"
  tx_size :: u8
  tx_stage1_enqueue :: u8
  tx_stage2_convert :: u8

definition init_qtxeth_queue :: "'e list \<Rightarrow> u8 \<Rightarrow> 'e qtxeth_queue" where
  "init_qtxeth_queue buffer sz =
     \<lparr>tx_buffer = buffer, tx_size = sz, tx_stage1_enqueue = 0, tx_stage2_convert = 0\<rparr>"

definition qtxeth_stage1_enqueue_ready :: "'e qtxeth_queue \<Rightarrow> bool" where
  "qtxeth_stage1_enqueue_ready q \<longleftrightarrow> tx_stage1_enqueue q - tx_stage2_convert q < tx_size q"

definition qtxeth_stage1_enqueue_ptr :: "'e qtxeth_queue \<Rightarrow> nat" where
  "qtxeth_stage1_enqueue_ptr q = unat (tx_stage1_enqueue q AND (tx_size q - 1))"

definition qtxeth_stage1_enqueue_done :: "'e qtxeth_queue \<Rightarrow> 'e qtxeth_queue" where
  "qtxeth_stage1_enqueue_done q = q\<lparr>tx_stage1_enqueue := tx_stage1_enqueue q + 1\<rparr>"

definition qtxeth_stage1_enqueue_undo :: "'e qtxeth_queue \<Rightarrow> 'e qtxeth_queue" where
  "qtxeth_stage1_enqueue_undo q = q\<lparr>tx_stage1_enqueue := tx_stage1_enqueue q - 1\<rparr>"

definition qtxeth_stage1_enqueue_cap :: "'e qtxeth_queue \<Rightarrow> u8" where
  "qtxeth_stage1_enqueue_cap q = tx_stage2_convert q + tx_size q - tx_stage1_enqueue q"

definition qtxeth_stage2_convert_ready :: "'e qtxeth_queue \<Rightarrow> bool" where
  "qtxeth_stage2_convert_ready q \<longleftrightarrow> tx_stage1_enqueue q - tx_stage2_convert q - 1 < tx_size q"

definition qtxeth_stage2_convert_ptr :: "'e qtxeth_queue \<Rightarrow> nat" where
  "qtxeth_stage2_convert_ptr q = unat (tx_stage2_convert q AND (tx_size q - 1))"

definition qtxeth_stage2_convert_done :: "'e qtxeth_queue \<Rightarrow> 'e qtxeth_queue" where
  "qtxeth_stage2_convert_done q = q\<lparr>tx_stage2_convert := tx_stage2_convert q + 1\<rparr>"

definition qtxeth_stage2_convert_undo :: "'e qtxeth_queue \<Rightarrow> 'e qtxeth_queue" where
  "qtxeth_stage2_convert_undo q = q\<lparr>tx_stage2_convert := tx_stage2_convert q - 1\<rparr>"

definition qtxeth_stage2_convert_cap :: "'e qtxeth_queue \<Rightarrow> u8" where
  "qtxeth_stage2_convert_cap q = tx_stage1_enqueue q - tx_stage2_convert q"

lemmas qtxeth_ready_defs = qtxeth_stage1_enqueue_ready_def qtxeth_stage2_convert_ready_def

lemmas qtxeth_ptr_defs = qtxeth_stage1_enqueue_ptr_def qtxeth_stage2_convert_ptr_def

lemmas qtxeth_done_defs = qtxeth_stage1_enqueue_done_def qtxeth_stage2_convert_done_def

lemmas qtxeth_undo_defs = qtxeth_stage1_enqueue_undo_def qtxeth_stage2_convert_undo_def

lemmas qtxeth_cap_defs = qtxeth_stage1_enqueue_cap_def qtxeth_stage2_convert_cap_def

fun qtxeth_cnt :: "nat \<Rightarrow> 'e qtxeth_queue \<Rightarrow> u8" where
  "qtxeth_cnt 0 q = tx_stage1_enqueue q"
| "qtxeth_cnt (Suc _) q = tx_stage2_convert q"

fun qtxeth_adv :: "nat \<Rightarrow> 'e qtxeth_queue \<Rightarrow> 'e qtxeth_queue" where
  "qtxeth_adv 0 q = qtxeth_stage1_enqueue_done q"
| "qtxeth_adv (Suc _) q = qtxeth_stage2_convert_done q"

subsection \<open>\<open>qspibuf\<close>\<close>

record 'e qspibuf_queue =
  sp_buffer :: "'e list"
  sp_size :: u8
  sp_stage1_transfer :: u8
  sp_stage2_int :: u8
  sp_stage3_process :: u8

definition init_qspibuf_queue :: "'e list \<Rightarrow> u8 \<Rightarrow> 'e qspibuf_queue" where
  "init_qspibuf_queue buffer sz =
     \<lparr>sp_buffer = buffer, sp_size = sz, sp_stage1_transfer = 0, sp_stage2_int = 0, sp_stage3_process = 0\<rparr>"

definition qspibuf_stage1_transfer_ready :: "'e qspibuf_queue \<Rightarrow> bool" where
  "qspibuf_stage1_transfer_ready q \<longleftrightarrow> sp_stage1_transfer q - sp_stage3_process q < sp_size q"

definition qspibuf_stage1_transfer_ptr :: "'e qspibuf_queue \<Rightarrow> nat" where
  "qspibuf_stage1_transfer_ptr q = unat (sp_stage1_transfer q AND (sp_size q - 1))"

definition qspibuf_stage1_transfer_done :: "'e qspibuf_queue \<Rightarrow> 'e qspibuf_queue" where
  "qspibuf_stage1_transfer_done q = q\<lparr>sp_stage1_transfer := sp_stage1_transfer q + 1\<rparr>"

definition qspibuf_stage1_transfer_undo :: "'e qspibuf_queue \<Rightarrow> 'e qspibuf_queue" where
  "qspibuf_stage1_transfer_undo q = q\<lparr>sp_stage1_transfer := sp_stage1_transfer q - 1\<rparr>"

definition qspibuf_stage1_transfer_cap :: "'e qspibuf_queue \<Rightarrow> u8" where
  "qspibuf_stage1_transfer_cap q = sp_stage3_process q + sp_size q - sp_stage1_transfer q"

definition qspibuf_stage2_int_ready :: "'e qspibuf_queue \<Rightarrow> bool" where
  "qspibuf_stage2_int_ready q \<longleftrightarrow> sp_stage1_transfer q - sp_stage2_int q - 1 < sp_size q"

definition qspibuf_stage2_int_ptr :: "'e qspibuf_queue \<Rightarrow> nat" where
  "qspibuf_stage2_int_ptr q = unat (sp_stage2_int q AND (sp_size q - 1))"

definition qspibuf_stage2_int_done :: "'e qspibuf_queue \<Rightarrow> 'e qspibuf_queue" where
  "qspibuf_stage2_int_done q = q\<lparr>sp_stage2_int := sp_stage2_int q + 1\<rparr>"

definition qspibuf_stage2_int_undo :: "'e qspibuf_queue \<Rightarrow> 'e qspibuf_queue" where
  "qspibuf_stage2_int_undo q = q\<lparr>sp_stage2_int := sp_stage2_int q - 1\<rparr>"

definition qspibuf_stage2_int_cap :: "'e qspibuf_queue \<Rightarrow> u8" where
  "qspibuf_stage2_int_cap q = sp_stage1_transfer q - sp_stage2_int q"

definition qspibuf_stage3_process_ready :: "'e qspibuf_queue \<Rightarrow> bool" where
  "qspibuf_stage3_process_ready q \<longleftrightarrow> sp_stage2_int q - sp_stage3_process q - 1 < sp_size q"

definition qspibuf_stage3_process_ptr :: "'e qspibuf_queue \<Rightarrow> nat" where
  "qspibuf_stage3_process_ptr q = unat (sp_stage3_process q AND (sp_size q - 1))"

definition qspibuf_stage3_process_done :: "'e qspibuf_queue \<Rightarrow> 'e qspibuf_queue" where
  "qspibuf_stage3_process_done q = q\<lparr>sp_stage3_process := sp_stage3_process q + 1\<rparr>"

definition qspibuf_stage3_process_undo :: "'e qspibuf_queue \<Rightarrow> 'e qspibuf_queue" where
  "qspibuf_stage3_process_undo q = q\<lparr>sp_stage3_process := sp_stage3_process q - 1\<rparr>"

definition qspibuf_stage3_process_cap :: "'e qspibuf_queue \<Rightarrow> u8" where
  "qspibuf_stage3_process_cap q = sp_stage2_int q - sp_stage3_process q"

lemmas qspibuf_ready_defs = qspibuf_stage1_transfer_ready_def qspibuf_stage2_int_ready_def qspibuf_stage3_process_ready_def

lemmas qspibuf_ptr_defs = qspibuf_stage1_transfer_ptr_def qspibuf_stage2_int_ptr_def qspibuf_stage3_process_ptr_def

lemmas qspibuf_done_defs = qspibuf_stage1_transfer_done_def qspibuf_stage2_int_done_def qspibuf_stage3_process_done_def

lemmas qspibuf_undo_defs = qspibuf_stage1_transfer_undo_def qspibuf_stage2_int_undo_def qspibuf_stage3_process_undo_def

lemmas qspibuf_cap_defs = qspibuf_stage1_transfer_cap_def qspibuf_stage2_int_cap_def qspibuf_stage3_process_cap_def

fun qspibuf_cnt :: "nat \<Rightarrow> 'e qspibuf_queue \<Rightarrow> u8" where
  "qspibuf_cnt 0 q = sp_stage1_transfer q"
| "qspibuf_cnt (Suc 0) q = sp_stage2_int q"
| "qspibuf_cnt (Suc (Suc _)) q = sp_stage3_process q"

fun qspibuf_adv :: "nat \<Rightarrow> 'e qspibuf_queue \<Rightarrow> 'e qspibuf_queue" where
  "qspibuf_adv 0 q = qspibuf_stage1_transfer_done q"
| "qspibuf_adv (Suc 0) q = qspibuf_stage2_int_done q"
| "qspibuf_adv (Suc (Suc _)) q = qspibuf_stage3_process_done q"

subsection \<open>\<open>regop\<close>\<close>

record 'e regop_queue =
  rg_buffer :: "'e list"
  rg_size :: u8
  rg_stage1_enqueue :: u8
  rg_stage2_send :: u8
  rg_stage3_int :: u8
  rg_stage4_modify :: u8
  rg_stage5_send :: u8
  rg_stage6_int :: u8
  rg_stage7_event :: u8

definition init_regop_queue :: "'e list \<Rightarrow> u8 \<Rightarrow> 'e regop_queue" where
  "init_regop_queue buffer sz =
     \<lparr>rg_buffer = buffer, rg_size = sz, rg_stage1_enqueue = 0, rg_stage2_send = 0, rg_stage3_int = 0, rg_stage4_modify = 0, rg_stage5_send = 0, rg_stage6_int = 0, rg_stage7_event = 0\<rparr>"

definition regop_stage1_enqueue_ready :: "'e regop_queue \<Rightarrow> bool" where
  "regop_stage1_enqueue_ready q \<longleftrightarrow> rg_stage1_enqueue q - rg_stage7_event q < rg_size q"

definition regop_stage1_enqueue_ptr :: "'e regop_queue \<Rightarrow> nat" where
  "regop_stage1_enqueue_ptr q = unat (rg_stage1_enqueue q AND (rg_size q - 1))"

definition regop_stage1_enqueue_done :: "'e regop_queue \<Rightarrow> 'e regop_queue" where
  "regop_stage1_enqueue_done q = q\<lparr>rg_stage1_enqueue := rg_stage1_enqueue q + 1\<rparr>"

definition regop_stage1_enqueue_undo :: "'e regop_queue \<Rightarrow> 'e regop_queue" where
  "regop_stage1_enqueue_undo q = q\<lparr>rg_stage1_enqueue := rg_stage1_enqueue q - 1\<rparr>"

definition regop_stage1_enqueue_cap :: "'e regop_queue \<Rightarrow> u8" where
  "regop_stage1_enqueue_cap q = rg_stage7_event q + rg_size q - rg_stage1_enqueue q"

definition regop_stage2_send_ready :: "'e regop_queue \<Rightarrow> bool" where
  "regop_stage2_send_ready q \<longleftrightarrow> rg_stage1_enqueue q - rg_stage2_send q - 1 < rg_size q"

definition regop_stage2_send_ptr :: "'e regop_queue \<Rightarrow> nat" where
  "regop_stage2_send_ptr q = unat (rg_stage2_send q AND (rg_size q - 1))"

definition regop_stage2_send_done :: "'e regop_queue \<Rightarrow> 'e regop_queue" where
  "regop_stage2_send_done q = q\<lparr>rg_stage2_send := rg_stage2_send q + 1\<rparr>"

definition regop_stage2_send_undo :: "'e regop_queue \<Rightarrow> 'e regop_queue" where
  "regop_stage2_send_undo q = q\<lparr>rg_stage2_send := rg_stage2_send q - 1\<rparr>"

definition regop_stage2_send_cap :: "'e regop_queue \<Rightarrow> u8" where
  "regop_stage2_send_cap q = rg_stage1_enqueue q - rg_stage2_send q"

definition regop_stage3_int_ready :: "'e regop_queue \<Rightarrow> bool" where
  "regop_stage3_int_ready q \<longleftrightarrow> rg_stage2_send q - rg_stage3_int q - 1 < rg_size q"

definition regop_stage3_int_ptr :: "'e regop_queue \<Rightarrow> nat" where
  "regop_stage3_int_ptr q = unat (rg_stage3_int q AND (rg_size q - 1))"

definition regop_stage3_int_done :: "'e regop_queue \<Rightarrow> 'e regop_queue" where
  "regop_stage3_int_done q = q\<lparr>rg_stage3_int := rg_stage3_int q + 1\<rparr>"

definition regop_stage3_int_undo :: "'e regop_queue \<Rightarrow> 'e regop_queue" where
  "regop_stage3_int_undo q = q\<lparr>rg_stage3_int := rg_stage3_int q - 1\<rparr>"

definition regop_stage3_int_cap :: "'e regop_queue \<Rightarrow> u8" where
  "regop_stage3_int_cap q = rg_stage2_send q - rg_stage3_int q"

definition regop_stage4_modify_ready :: "'e regop_queue \<Rightarrow> bool" where
  "regop_stage4_modify_ready q \<longleftrightarrow> rg_stage3_int q - rg_stage4_modify q - 1 < rg_size q"

definition regop_stage4_modify_ptr :: "'e regop_queue \<Rightarrow> nat" where
  "regop_stage4_modify_ptr q = unat (rg_stage4_modify q AND (rg_size q - 1))"

definition regop_stage4_modify_done :: "'e regop_queue \<Rightarrow> 'e regop_queue" where
  "regop_stage4_modify_done q = q\<lparr>rg_stage4_modify := rg_stage4_modify q + 1\<rparr>"

definition regop_stage4_modify_undo :: "'e regop_queue \<Rightarrow> 'e regop_queue" where
  "regop_stage4_modify_undo q = q\<lparr>rg_stage4_modify := rg_stage4_modify q - 1\<rparr>"

definition regop_stage4_modify_cap :: "'e regop_queue \<Rightarrow> u8" where
  "regop_stage4_modify_cap q = rg_stage3_int q - rg_stage4_modify q"

definition regop_stage5_send_ready :: "'e regop_queue \<Rightarrow> bool" where
  "regop_stage5_send_ready q \<longleftrightarrow> rg_stage4_modify q - rg_stage5_send q - 1 < rg_size q"

definition regop_stage5_send_ptr :: "'e regop_queue \<Rightarrow> nat" where
  "regop_stage5_send_ptr q = unat (rg_stage5_send q AND (rg_size q - 1))"

definition regop_stage5_send_done :: "'e regop_queue \<Rightarrow> 'e regop_queue" where
  "regop_stage5_send_done q = q\<lparr>rg_stage5_send := rg_stage5_send q + 1\<rparr>"

definition regop_stage5_send_undo :: "'e regop_queue \<Rightarrow> 'e regop_queue" where
  "regop_stage5_send_undo q = q\<lparr>rg_stage5_send := rg_stage5_send q - 1\<rparr>"

definition regop_stage5_send_cap :: "'e regop_queue \<Rightarrow> u8" where
  "regop_stage5_send_cap q = rg_stage4_modify q - rg_stage5_send q"

definition regop_stage6_int_ready :: "'e regop_queue \<Rightarrow> bool" where
  "regop_stage6_int_ready q \<longleftrightarrow> rg_stage5_send q - rg_stage6_int q - 1 < rg_size q"

definition regop_stage6_int_ptr :: "'e regop_queue \<Rightarrow> nat" where
  "regop_stage6_int_ptr q = unat (rg_stage6_int q AND (rg_size q - 1))"

definition regop_stage6_int_done :: "'e regop_queue \<Rightarrow> 'e regop_queue" where
  "regop_stage6_int_done q = q\<lparr>rg_stage6_int := rg_stage6_int q + 1\<rparr>"

definition regop_stage6_int_undo :: "'e regop_queue \<Rightarrow> 'e regop_queue" where
  "regop_stage6_int_undo q = q\<lparr>rg_stage6_int := rg_stage6_int q - 1\<rparr>"

definition regop_stage6_int_cap :: "'e regop_queue \<Rightarrow> u8" where
  "regop_stage6_int_cap q = rg_stage5_send q - rg_stage6_int q"

definition regop_stage7_event_ready :: "'e regop_queue \<Rightarrow> bool" where
  "regop_stage7_event_ready q \<longleftrightarrow> rg_stage6_int q - rg_stage7_event q - 1 < rg_size q"

definition regop_stage7_event_ptr :: "'e regop_queue \<Rightarrow> nat" where
  "regop_stage7_event_ptr q = unat (rg_stage7_event q AND (rg_size q - 1))"

definition regop_stage7_event_done :: "'e regop_queue \<Rightarrow> 'e regop_queue" where
  "regop_stage7_event_done q = q\<lparr>rg_stage7_event := rg_stage7_event q + 1\<rparr>"

definition regop_stage7_event_undo :: "'e regop_queue \<Rightarrow> 'e regop_queue" where
  "regop_stage7_event_undo q = q\<lparr>rg_stage7_event := rg_stage7_event q - 1\<rparr>"

definition regop_stage7_event_cap :: "'e regop_queue \<Rightarrow> u8" where
  "regop_stage7_event_cap q = rg_stage6_int q - rg_stage7_event q"

lemmas regop_ready_defs = regop_stage1_enqueue_ready_def regop_stage2_send_ready_def regop_stage3_int_ready_def regop_stage4_modify_ready_def regop_stage5_send_ready_def regop_stage6_int_ready_def regop_stage7_event_ready_def

lemmas regop_ptr_defs = regop_stage1_enqueue_ptr_def regop_stage2_send_ptr_def regop_stage3_int_ptr_def regop_stage4_modify_ptr_def regop_stage5_send_ptr_def regop_stage6_int_ptr_def regop_stage7_event_ptr_def

lemmas regop_done_defs = regop_stage1_enqueue_done_def regop_stage2_send_done_def regop_stage3_int_done_def regop_stage4_modify_done_def regop_stage5_send_done_def regop_stage6_int_done_def regop_stage7_event_done_def

lemmas regop_undo_defs = regop_stage1_enqueue_undo_def regop_stage2_send_undo_def regop_stage3_int_undo_def regop_stage4_modify_undo_def regop_stage5_send_undo_def regop_stage6_int_undo_def regop_stage7_event_undo_def

lemmas regop_cap_defs = regop_stage1_enqueue_cap_def regop_stage2_send_cap_def regop_stage3_int_cap_def regop_stage4_modify_cap_def regop_stage5_send_cap_def regop_stage6_int_cap_def regop_stage7_event_cap_def

fun regop_cnt :: "nat \<Rightarrow> 'e regop_queue \<Rightarrow> u8" where
  "regop_cnt 0 q = rg_stage1_enqueue q"
| "regop_cnt (Suc 0) q = rg_stage2_send q"
| "regop_cnt (Suc (Suc 0)) q = rg_stage3_int q"
| "regop_cnt (Suc (Suc (Suc 0))) q = rg_stage4_modify q"
| "regop_cnt (Suc (Suc (Suc (Suc 0)))) q = rg_stage5_send q"
| "regop_cnt (Suc (Suc (Suc (Suc (Suc 0))))) q = rg_stage6_int q"
| "regop_cnt (Suc (Suc (Suc (Suc (Suc (Suc _)))))) q = rg_stage7_event q"

fun regop_adv :: "nat \<Rightarrow> 'e regop_queue \<Rightarrow> 'e regop_queue" where
  "regop_adv 0 q = regop_stage1_enqueue_done q"
| "regop_adv (Suc 0) q = regop_stage2_send_done q"
| "regop_adv (Suc (Suc 0)) q = regop_stage3_int_done q"
| "regop_adv (Suc (Suc (Suc 0))) q = regop_stage4_modify_done q"
| "regop_adv (Suc (Suc (Suc (Suc 0)))) q = regop_stage5_send_done q"
| "regop_adv (Suc (Suc (Suc (Suc (Suc 0))))) q = regop_stage6_int_done q"
| "regop_adv (Suc (Suc (Suc (Suc (Suc (Suc _)))))) q = regop_stage7_event_done q"

section \<open>Counting what waits between two stages\<close>

text \<open>\<open>pend cnt i q\<close>: entries that passed stage \<open>i\<close> and wait for stage \<open>i + 1\<close>.\<close>

definition pend :: "(nat \<Rightarrow> 'q \<Rightarrow> u8) \<Rightarrow> nat \<Rightarrow> 'q \<Rightarrow> nat" where
  "pend cnt i q = unat (cnt i q - cnt (Suc i) q)"

definition staged_ok :: "(nat \<Rightarrow> 'q \<Rightarrow> u8) \<Rightarrow> ('q \<Rightarrow> u8) \<Rightarrow> nat \<Rightarrow> 'q \<Rightarrow> bool" where
  "staged_ok cnt sz lst q \<longleftrightarrow>
     0 < sz q \<and> unat (sz q) \<le> 128 \<and> (\<Sum>i<lst. pend cnt i q) \<le> unat (sz q)"

lemma unat_diff_trans:
  "unat ((a :: u8) - b) + unat (b - c) < 256 \<Longrightarrow> unat (a - c) = unat (a - b) + unat (b - c)"
proof -
  assume "unat (a - b) + unat (b - c) < 256"
  then have "unat ((a - b) + (b - c)) = unat (a - b) + unat (b - c)"
    by (subst unat_u8_add) simp
  then show ?thesis by simp
qed

lemma unat_diff_succ: "unat ((a :: u8) - b) < 255 \<Longrightarrow> unat (a + 1 - b) = unat (a - b) + 1"
proof -
  assume "unat (a - b) < 255"
  moreover have "a + 1 - b = (a - b) + 1" by simp
  ultimately show ?thesis by (simp only: unat_u8_add) simp
qed

lemma unat_diff_pred: "0 < unat ((a :: u8) - b) \<Longrightarrow> unat (a - (b + 1)) = unat (a - b) - 1"
proof -
  assume "0 < unat (a - b)"
  moreover have "a - (b + 1) = (a - b) - 1" by simp
  ultimately show ?thesis by (simp only: unat_u8_sub [of _ 1]) simp
qed

lemma u8_pred_less_iff:
  "unat (n :: u8) \<le> unat s \<Longrightarrow> unat s < 256 \<Longrightarrow> 0 < unat s \<Longrightarrow> unat s \<le> 128 \<Longrightarrow> n - 1 < s \<longleftrightarrow> 0 < unat n"
  by (auto simp: u8_less_nat unat_u8_sub)

locale staged_queue =
  fixes cnt :: "nat \<Rightarrow> 'q \<Rightarrow> u8" and adv :: "nat \<Rightarrow> 'q \<Rightarrow> 'q"
    and sz :: "'q \<Rightarrow> u8" and lst :: nat
  assumes cnt_adv: "i \<le> lst \<Longrightarrow> j \<le> lst \<Longrightarrow> cnt i (adv j q) = (if i = j then cnt i q + 1 else cnt i q)"
    and sz_adv [simp]: "sz (adv j q) = sz q"
    and lst_pos: "0 < lst"
begin

lemma okD:
  assumes "staged_ok cnt sz lst q"
  shows "0 < unat (sz q)" "unat (sz q) \<le> 128" "(\<Sum>i<lst. pend cnt i q) \<le> unat (sz q)"
  using assms by (auto simp: staged_ok_def word_less_nat_alt)

lemma pend_le_size:
  assumes "staged_ok cnt sz lst q" "i < lst"
  shows "pend cnt i q \<le> unat (sz q)"
proof -
  have "pend cnt i q \<le> (\<Sum>i<lst. pend cnt i q)"
    using assms(2) by (intro member_le_sum) auto
  also have "\<dots> \<le> unat (sz q)" using okD [OF assms(1)] by simp
  finally show ?thesis .
qed

lemma partial_total:
  assumes "staged_ok cnt sz lst q" "k \<le> lst"
  shows "unat (cnt 0 q - cnt k q) = (\<Sum>i<k. pend cnt i q)"
  using assms(2)
proof (induction k)
  case (Suc k)
  have "(\<Sum>i<Suc k. pend cnt i q) \<le> (\<Sum>i<lst. pend cnt i q)"
    using Suc.prems by (intro sum_mono2) auto
  then have "(\<Sum>i<k. pend cnt i q) + pend cnt k q < 256"
    using okD [OF assms(1)] by simp
  with Suc show ?case
    using unat_diff_trans [of "cnt 0 q" "cnt k q" "cnt (Suc k) q"] by (simp add: pend_def)
qed simp

lemmas total = partial_total [OF _ order_refl]

lemma ready_iff:
  "staged_ok cnt sz lst q \<Longrightarrow> i < lst \<Longrightarrow> cnt i q - cnt (Suc i) q - 1 < sz q \<longleftrightarrow> 0 < pend cnt i q"
  using pend_le_size [of q i] okD [of q] by (simp add: pend_def u8_pred_less_iff)

lemma room_iff:
  "staged_ok cnt sz lst q \<Longrightarrow> cnt 0 q - cnt lst q < sz q \<longleftrightarrow> (\<Sum>i<lst. pend cnt i q) < unat (sz q)"
  by (simp add: word_less_nat_alt total)

lemma pend_adv_first:
  assumes "staged_ok cnt sz lst q" "i < lst"
  shows "pend cnt i (adv 0 q) = (if i = 0 then pend cnt i q + 1 else pend cnt i q)"
  using assms pend_le_size [OF assms] okD [OF assms(1)]
  by (auto simp: pend_def cnt_adv unat_diff_succ)

lemma pend_adv:
  assumes "staged_ok cnt sz lst q" "i < lst" "j < lst" "0 < pend cnt j q"
  shows "pend cnt i (adv (Suc j) q) =
    (if i = j then pend cnt i q - 1 else if i = Suc j then pend cnt i q + 1 else pend cnt i q)"
  using assms pend_le_size [OF assms(1,2)] okD [OF assms(1)]
  by (auto simp: pend_def cnt_adv unat_diff_succ unat_diff_pred)

lemma ok_adv_first:
  assumes "staged_ok cnt sz lst q" "(\<Sum>i<lst. pend cnt i q) < unat (sz q)"
  shows "staged_ok cnt sz lst (adv 0 q)"
proof -
  have "(\<Sum>i<lst. pend cnt i (adv 0 q)) = (\<Sum>i<lst. pend cnt i q + (if i = 0 then 1 else 0))"
    using assms by (intro sum.cong) (auto simp: pend_adv_first)
  also have "\<dots> = (\<Sum>i<lst. pend cnt i q) + 1"
    using lst_pos by (simp add: sum.distrib)
  finally show ?thesis using assms by (simp add: staged_ok_def)
qed

lemma ok_adv:
  assumes "staged_ok cnt sz lst q" "j < lst" "0 < pend cnt j q"
  shows "staged_ok cnt sz lst (adv (Suc j) q)"
proof -
  have "(\<Sum>i<lst. pend cnt i (adv (Suc j) q)) + (\<Sum>i<lst. if i = j then 1 else 0)
      = (\<Sum>i<lst. pend cnt i q + (if i = Suc j then 1 else 0))"
    unfolding sum.distrib [symmetric]
    using assms by (intro sum.cong) (auto simp: pend_adv)
  also have "\<dots> \<le> (\<Sum>i<lst. pend cnt i q) + 1"
    by (simp add: sum.distrib)
  finally show ?thesis using assms by (simp add: staged_ok_def)
qed

end

lemma staged_ok_fresh:
  assumes "0 < sz q" "unat (sz q) \<le> 128" "\<And>i. i \<le> lst \<Longrightarrow> cnt i q = 0"
  shows "staged_ok cnt sz lst q"
  using assms by (simp add: staged_ok_def pend_def)

interpretation txq: staged_queue qtxeth_cnt qtxeth_adv tx_size "Suc 0"
proof
  fix i j :: nat and q :: "'a qtxeth_queue"
  assume "i \<le> Suc 0" "j \<le> Suc 0"
  then show "qtxeth_cnt i (qtxeth_adv j q) = (if i = j then qtxeth_cnt i q + 1 else qtxeth_cnt i q)"
    by (auto simp: le_Suc_eq qtxeth_done_defs)
next
  fix j :: nat and q :: "'a qtxeth_queue"
  show "tx_size (qtxeth_adv j q) = tx_size q"
    by (cases j) (auto simp: qtxeth_done_defs)
qed simp

interpretation spq: staged_queue qspibuf_cnt qspibuf_adv sp_size "Suc (Suc 0)"
proof
  fix i j :: nat and q :: "'a qspibuf_queue"
  assume "i \<le> Suc (Suc 0)" "j \<le> Suc (Suc 0)"
  then show "qspibuf_cnt i (qspibuf_adv j q) = (if i = j then qspibuf_cnt i q + 1 else qspibuf_cnt i q)"
    by (auto simp: le_Suc_eq qspibuf_done_defs)
next
  fix j :: nat and q :: "'a qspibuf_queue"
  show "sp_size (qspibuf_adv j q) = sp_size q"
    by (cases "(j, q)" rule: qspibuf_adv.cases) (auto simp: qspibuf_done_defs)
qed simp

interpretation rgq: staged_queue regop_cnt regop_adv rg_size 6
proof
  fix i j :: nat and q :: "'a regop_queue"
  assume "i \<le> 6" "j \<le> 6"
  then show "regop_cnt i (regop_adv j q) = (if i = j then regop_cnt i q + 1 else regop_cnt i q)"
    by (cases "(i, q)" rule: regop_cnt.cases; cases "(j, q)" rule: regop_adv.cases)
       (auto simp: regop_done_defs)
next
  fix j :: nat and q :: "'a regop_queue"
  show "rg_size (regop_adv j q) = rg_size q"
    by (cases "(j, q)" rule: regop_adv.cases) (auto simp: regop_done_defs)
qed simp

section \<open>The contents of a ring\<close>

definition ring_idx :: "u8 \<Rightarrow> u8 \<Rightarrow> nat" where
  "ring_idx s sz = unat (s AND (sz - 1))"

definition ring_view :: "'e list \<Rightarrow> u8 \<Rightarrow> u8 \<Rightarrow> u8 \<Rightarrow> 'e list" where
  "ring_view buf sz lo hi = map (\<lambda>k. buf ! ring_idx (lo + of_nat k) sz) [0..<unat (hi - lo)]"

definition ring_ok :: "'e list \<Rightarrow> u8 \<Rightarrow> bool" where
  "ring_ok buf sz \<longleftrightarrow> sz \<in> {1, 2, 4, 8, 16, 32, 64, 128} \<and> length buf = unat sz"

lemma ring_ok_pow2:
  assumes "ring_ok buf sz"
  obtains k where "k \<le> 7" "unat sz = 2 ^ k" "sz = 2 ^ k"
proof -
  from assms have "\<exists>k\<le>7. unat sz = 2 ^ k \<and> sz = 2 ^ k"
    unfolding ring_ok_def
    by (auto intro: exI [of _ 0] exI [of _ 1] exI [of _ 2] exI [of _ 3] exI [of _ 4]
        exI [of _ 5] exI [of _ 6] exI [of _ 7])
  with that show ?thesis by blast
qed

lemma ring_idx_mod:
  assumes "ring_ok buf sz"
  shows "ring_idx s sz = unat s mod unat sz"
proof -
  obtain k where k: "k \<le> 7" "unat sz = 2 ^ k" "sz = 2 ^ k"
    using assms by (rule ring_ok_pow2)
  then show ?thesis
    by (simp only: ring_idx_def k(2,3) word_and_mask_mod)
qed

lemma ring_idx_less: "ring_ok buf sz \<Longrightarrow> ring_idx s sz < length buf"
  by (auto simp: ring_idx_mod ring_ok_def)

lemma ring_size_dvd: "ring_ok buf sz \<Longrightarrow> unat sz dvd 256"
  by (elim ring_ok_pow2) (auto intro: le_imp_power_dvd [of _ 8 "2::nat", simplified])

lemma ring_idx_add:
  assumes "ring_ok buf sz" "n < 256"
  shows "ring_idx (s + of_nat n) sz = (unat s + n) mod unat sz"
proof -
  have "unat (s + of_nat n) = (unat s + n) mod 256"
    using assms(2) by (simp add: unat_word_ariths unat_of_nat mod_simps)
  then show ?thesis
    using ring_size_dvd [OF assms(1)] by (simp add: ring_idx_mod [OF assms(1)] mod_mod_cancel)
qed

lemma ring_idx_inj:
  assumes "ring_ok buf sz" "m < unat sz" "n < m"
  shows "ring_idx (s + of_nat m) sz \<noteq> ring_idx (s + of_nat n) sz"
proof
  have "unat sz \<le> 128"
    using assms(1) by (auto simp: ring_ok_def)
  moreover assume "ring_idx (s + of_nat m) sz = ring_idx (s + of_nat n) sz"
  ultimately have "(unat s + m) mod unat sz = (unat s + n) mod unat sz"
    using assms by (simp add: ring_idx_add)
  then have "unat sz dvd (m - n)"
    using assms(3) by (metis add_diff_cancel_left le_add1 less_imp_le_nat mod_eq_dvd_iff_nat
        nat_add_left_cancel_le)
  with assms show False by (auto dest: dvd_imp_le)
qed

lemma length_ring_view [simp]: "length (ring_view buf sz lo hi) = unat (hi - lo)"
  by (simp add: ring_view_def)

lemma ring_view_empty [simp]: "ring_view buf sz lo lo = []"
  by (simp add: ring_view_def)

lemma ring_view_push:
  assumes "ring_ok buf sz" "unat (hi - lo) < unat sz"
  shows "ring_view (buf[ring_idx hi sz := x]) sz lo (hi + 1) = ring_view buf sz lo hi @ [x]"
proof -
  let ?n = "unat (hi - lo)"
  have "unat sz \<le> 128" using assms(1) by (auto simp: ring_ok_def)
  then have n1: "unat (hi + 1 - lo) = ?n + 1"
    using assms(2) by (intro unat_diff_succ) simp
  have hi: "hi = lo + of_nat ?n" by simp
  have "ring_idx hi sz \<noteq> ring_idx (lo + of_nat k) sz" if "k < ?n" for k
    using ring_idx_inj [OF assms that, of lo] hi by metis
  then show ?thesis
    using ring_idx_less [OF assms(1), of hi] hi by (auto simp: ring_view_def n1)
qed

lemma ring_view_pop:
  assumes "0 < unat (hi - lo)"
  shows "ring_view buf sz lo hi = buf ! ring_idx lo sz # ring_view buf sz (lo + 1) hi"
proof -
  have n1: "unat (hi - lo) = Suc (unat (hi - (lo + 1)))"
    using unat_diff_pred [OF assms] assms by simp
  show ?thesis
    unfolding ring_view_def n1 upt_conv_Cons [OF zero_less_Suc] map_Suc_upt [symmetric]
    by (simp add: comp_def algebra_simps)
qed

lemma ring_view_nth:
  "i < unat (hi - lo) \<Longrightarrow> ring_view buf sz lo hi ! i = buf ! ring_idx (lo + of_nat i) sz"
  by (simp add: ring_view_def)

section \<open>The queue contract\<close>

locale fifo =
  fixes abs :: "'q \<Rightarrow> 'e list" and inv :: "'q \<Rightarrow> bool" and capacity :: "'q \<Rightarrow> nat"
    and can_put :: "'q \<Rightarrow> bool" and put :: "'e \<Rightarrow> 'q \<Rightarrow> 'q"
    and can_get :: "'q \<Rightarrow> bool" and front :: "'q \<Rightarrow> 'e" and get :: "'q \<Rightarrow> 'q"
  assumes can_put: "inv q \<Longrightarrow> can_put q \<longleftrightarrow> length (abs q) < capacity q"
    and bounded: "inv q \<Longrightarrow> length (abs q) \<le> capacity q"
    and abs_put: "inv q \<Longrightarrow> can_put q \<Longrightarrow> abs (put x q) = abs q @ [x]"
    and inv_put: "inv q \<Longrightarrow> can_put q \<Longrightarrow> inv (put x q)"
    and capacity_put: "capacity (put x q) = capacity q"
    and abs_get: "inv q \<Longrightarrow> can_get q \<Longrightarrow> abs q = front q # abs (get q)"
    and inv_get: "inv q \<Longrightarrow> can_get q \<Longrightarrow> inv (get q)"
    and capacity_get: "capacity (get q) = capacity q"
begin

lemma put_many:
  assumes "inv q" "length (abs q) + length xs \<le> capacity q"
  shows "inv (fold put xs q) \<and> abs (fold put xs q) = abs q @ xs"
  using assms
proof (induction xs arbitrary: q)
  case (Cons x xs)
  then have "can_put q" by (simp add: can_put)
  with Cons show ?case by (simp add: abs_put inv_put capacity_put)
qed simp

end

locale fifo_exact = fifo +
  assumes can_get_iff: "inv q \<Longrightarrow> can_get q \<longleftrightarrow> abs q \<noteq> []"
begin

fun get_many :: "nat \<Rightarrow> 'a \<Rightarrow> 'b list" where
  "get_many 0 q = []"
| "get_many (Suc n) q = (if can_get q then front q # get_many n (get q) else [])"

lemma get_many_abs: "inv q \<Longrightarrow> get_many n q = take n (abs q)"
proof (induction n arbitrary: q)
  case (Suc n)
  show ?case
  proof (cases "can_get q")
    case True
    then have "take (Suc n) (abs q) = front q # take n (abs (get q))"
      using abs_get [OF Suc.prems] by (metis take_Suc_Cons)
    with True Suc show ?thesis by (simp add: inv_get)
  next
    case False
    with Suc.prems show ?thesis by (simp add: can_get_iff)
  qed
qed simp

lemma fifo_order:
  assumes "inv q" "abs q = []" "length xs \<le> capacity q"
  shows "get_many (length xs) (fold put xs q) = xs"
  using put_many [of q xs] assms by (simp add: get_many_abs)

end

subsection \<open>The transmit queue as a first-in first-out list\<close>

definition qtxeth_put :: "'e \<Rightarrow> 'e qtxeth_queue \<Rightarrow> 'e qtxeth_queue" where
  "qtxeth_put x q =
     qtxeth_stage1_enqueue_done (q\<lparr>tx_buffer := (tx_buffer q)[qtxeth_stage1_enqueue_ptr q := x]\<rparr>)"

definition qtxeth_front :: "'e qtxeth_queue \<Rightarrow> 'e" where
  "qtxeth_front q = tx_buffer q ! qtxeth_stage2_convert_ptr q"

definition qtxeth_list :: "'e qtxeth_queue \<Rightarrow> 'e list" where
  "qtxeth_list q = ring_view (tx_buffer q) (tx_size q) (tx_stage2_convert q) (tx_stage1_enqueue q)"

definition qtxeth_inv :: "'e qtxeth_queue \<Rightarrow> bool" where
  "qtxeth_inv q \<longleftrightarrow> ring_ok (tx_buffer q) (tx_size q) \<and> staged_ok qtxeth_cnt tx_size (Suc 0) q"

lemma ptr_ring_idx:
  "qtxeth_stage1_enqueue_ptr q = ring_idx (tx_stage1_enqueue q) (tx_size q)"
  "qtxeth_stage2_convert_ptr q = ring_idx (tx_stage2_convert q) (tx_size q)"
  by (simp_all add: qtxeth_ptr_defs ring_idx_def)

lemma ring_ok_update [simp]: "ring_ok (buf[i := x]) sz = ring_ok buf sz"
  by (simp add: ring_ok_def)

lemma staged_ok_buffer [simp]:
  "staged_ok qtxeth_cnt tx_size (Suc 0) (q\<lparr>tx_buffer := b\<rparr>) = staged_ok qtxeth_cnt tx_size (Suc 0) q"
  by (simp add: staged_ok_def pend_def)

interpretation txf: fifo_exact qtxeth_list qtxeth_inv "\<lambda>q. unat (tx_size q)"
  qtxeth_stage1_enqueue_ready qtxeth_put qtxeth_stage2_convert_ready qtxeth_front qtxeth_stage2_convert_done
proof (unfold_locales, goal_cases)
  case (1 q)
  then show ?case
    by (simp add: qtxeth_inv_def qtxeth_list_def qtxeth_ready_defs word_less_nat_alt)
next
  case (2 q)
  then show ?case
    by (simp add: qtxeth_inv_def qtxeth_list_def staged_ok_def pend_def)
next
  case (3 q x)
  then show ?case
    using ring_view_push [of "tx_buffer q" "tx_size q" "tx_stage1_enqueue q" "tx_stage2_convert q" x]
    by (simp add: qtxeth_inv_def qtxeth_list_def qtxeth_put_def ptr_ring_idx qtxeth_ready_defs
        qtxeth_done_defs word_less_nat_alt)
next
  case (4 q x)
  then have "staged_ok qtxeth_cnt tx_size (Suc 0) (qtxeth_adv 0 q)"
    using txq.ok_adv_first [of q] txq.room_iff [of q]
    by (simp add: qtxeth_inv_def qtxeth_ready_defs)
  with 4 show ?case
    by (simp add: qtxeth_inv_def qtxeth_put_def qtxeth_done_defs staged_ok_def pend_def)
next
  case (6 q)
  then have "0 < unat (tx_stage1_enqueue q - tx_stage2_convert q)"
    using txq.ready_iff [of q 0] by (simp add: qtxeth_inv_def qtxeth_ready_defs pend_def)
  then show ?case
    by (simp add: qtxeth_list_def qtxeth_front_def qtxeth_done_defs ptr_ring_idx ring_view_pop)
next
  case (7 q)
  then have "staged_ok qtxeth_cnt tx_size (Suc 0) (qtxeth_adv (Suc 0) q)"
    using txq.ok_adv [of q 0] txq.ready_iff [of q 0]
    by (simp add: qtxeth_inv_def qtxeth_ready_defs)
  with 7 show ?case
    by (simp add: qtxeth_inv_def qtxeth_done_defs)
next
  case (9 q)
  then have "qtxeth_stage2_convert_ready q \<longleftrightarrow> 0 < length (qtxeth_list q)"
    using txq.ready_iff [of q 0]
    by (simp add: qtxeth_inv_def qtxeth_ready_defs pend_def qtxeth_list_def)
  then show ?case by simp
qed (simp_all add: qtxeth_put_def qtxeth_done_defs)

end
