(* ===== verification/Tc6_Frame.thy ===== *)
theory Tc6_Frame
  imports Prelude
begin

text \<open>
  The wire format of the OPEN Alliance TC6 protocol as \<open>tc6.cpp\<close> builds and reads it: bit
  fields of the 32-bit headers and footers, the parity bit, and the plain and protected
  control transactions.
\<close>

section \<open>Bit fields of headers and footers\<close>

text \<open>A field is the triple (byte position, bit position, width) of the macro \<open>FLD\<close>.\<close>

type_synonym fld = "nat \<times> nat \<times> nat"

abbreviation (input) HDR_DNC :: fld where "HDR_DNC \<equiv> (0, 7, 1)"
abbreviation (input) HDR_SEQ :: fld where "HDR_SEQ \<equiv> (0, 6, 1)"
abbreviation (input) HDR_DV :: fld where "HDR_DV \<equiv> (1, 5, 1)"
abbreviation (input) HDR_SV :: fld where "HDR_SV \<equiv> (1, 4, 1)"
abbreviation (input) HDR_SWO :: fld where "HDR_SWO \<equiv> (1, 0, 4)"
abbreviation (input) HDR_EV :: fld where "HDR_EV \<equiv> (2, 6, 1)"
abbreviation (input) HDR_EBO :: fld where "HDR_EBO \<equiv> (2, 0, 6)"
abbreviation (input) HDR_TSC :: fld where "HDR_TSC \<equiv> (3, 6, 2)"
abbreviation (input) HDR_P :: fld where "HDR_P \<equiv> (3, 0, 1)"

abbreviation (input) HDR_C_DNC :: fld where "HDR_C_DNC \<equiv> (0, 7, 1)"
abbreviation (input) HDR_C_WNR :: fld where "HDR_C_WNR \<equiv> (0, 5, 1)"
abbreviation (input) HDR_C_AID :: fld where "HDR_C_AID \<equiv> (0, 4, 1)"
abbreviation (input) HDR_C_MMS :: fld where "HDR_C_MMS \<equiv> (0, 0, 4)"
abbreviation (input) HDR_C_ADDR_HI :: fld where "HDR_C_ADDR_HI \<equiv> (1, 0, 8)"
abbreviation (input) HDR_C_ADDR_LO :: fld where "HDR_C_ADDR_LO \<equiv> (2, 0, 8)"
abbreviation (input) HDR_C_LEN :: fld where "HDR_C_LEN \<equiv> (3, 1, 7)"
abbreviation (input) HDR_C_P :: fld where "HDR_C_P \<equiv> (3, 0, 1)"

abbreviation (input) FTR_EXST :: fld where "FTR_EXST \<equiv> (0, 7, 1)"
abbreviation (input) FTR_HDRB :: fld where "FTR_HDRB \<equiv> (0, 6, 1)"
abbreviation (input) FTR_SYNC :: fld where "FTR_SYNC \<equiv> (0, 5, 1)"
abbreviation (input) FTR_RCA :: fld where "FTR_RCA \<equiv> (0, 0, 5)"
abbreviation (input) FTR_DV :: fld where "FTR_DV \<equiv> (1, 5, 1)"
abbreviation (input) FTR_SV :: fld where "FTR_SV \<equiv> (1, 4, 1)"
abbreviation (input) FTR_SWO :: fld where "FTR_SWO \<equiv> (1, 0, 4)"
abbreviation (input) FTR_FD :: fld where "FTR_FD \<equiv> (2, 7, 1)"
abbreviation (input) FTR_EV :: fld where "FTR_EV \<equiv> (2, 6, 1)"
abbreviation (input) FTR_EBO :: fld where "FTR_EBO \<equiv> (2, 0, 6)"
abbreviation (input) FTR_RTSA :: fld where "FTR_RTSA \<equiv> (3, 7, 1)"
abbreviation (input) FTR_RTSP :: fld where "FTR_RTSP \<equiv> (3, 6, 1)"
abbreviation (input) FTR_TXC :: fld where "FTR_TXC \<equiv> (3, 1, 5)"

definition MASK :: "u8 list" where
  "MASK = [0x00, 0x01, 0x03, 0x07, 0x0F, 0x1F, 0x3F, 0x7F, 0xFF]"

fun GET_VAL :: "fld \<Rightarrow> bytes \<Rightarrow> u8" where
  "GET_VAL (bytePos, bitpos, width) pIn = drop_bit bitpos (pIn ! bytePos) AND MASK ! width"

fun SET_VAL :: "fld \<Rightarrow> u8 \<Rightarrow> bytes \<Rightarrow> bytes" where
  "SET_VAL (bytePos, bitpos, width) val pOut =
     pOut[bytePos := pOut ! bytePos OR push_bit bitpos (val AND MASK ! width)]"

definition CLEAR_HEADER :: "bytes \<Rightarrow> bytes" where
  "CLEAR_HEADER pOut = put_at 0 [0, 0, 0, 0] pOut"

section \<open>Words on the wire\<close>

definition value2net :: "u32 \<Rightarrow> bytes" where
  "value2net value = [ucast (drop_bit 24 value), ucast (drop_bit 16 value),
     ucast (drop_bit 8 value), ucast value]"

definition net2value :: "bytes \<Rightarrow> u32" where
  "net2value buf = push_bit 24 (ucast (buf ! 0)) OR push_bit 16 (ucast (buf ! 1))
     OR push_bit 8 (ucast (buf ! 2)) OR ucast (buf ! 3)"

text \<open>The parity of a header: the branch for machines with a 32-bit \<open>int\<close>, and the one for
  16-bit machines, whose two-byte loads are little endian.\<close>

definition get_parity :: "bytes \<Rightarrow> u8" where
  "get_parity pVal =
    (let v = ucast (pVal ! 0) OR push_bit 8 (ucast (pVal ! 1)) OR push_bit 16 (ucast (pVal ! 2))
             OR push_bit 24 (ucast (pVal ! 3)) :: u32;
         v = v XOR drop_bit 16 v;
         v = v XOR drop_bit 8 v;
         v = v XOR drop_bit 4 v;
         v = v XOR drop_bit 2 v;
         v = v XOR drop_bit 1 v;
         v = NOT v AND 1
     in ucast v)"

definition get_parity_16bit :: "bytes \<Rightarrow> u8" where
  "get_parity_16bit pVal =
    (let h = ucast (pVal ! 0) OR push_bit 8 (ucast (pVal ! 1)) :: u16;
         l = ucast (pVal ! 2) OR push_bit 8 (ucast (pVal ! 3)) :: u16;
         h = h XOR drop_bit 8 h; h = h XOR drop_bit 4 h; h = h XOR drop_bit 2 h; h = h XOR drop_bit 1 h;
         l = l XOR drop_bit 8 l; l = l XOR drop_bit 4 l; l = l XOR drop_bit 2 l; l = l XOR drop_bit 1 l
     in ucast (NOT (h XOR l) AND 1))"

section \<open>Control transactions\<close>

definition ctrl_header :: "bool \<Rightarrow> bool \<Rightarrow> u32 \<Rightarrow> u8 \<Rightarrow> bytes \<Rightarrow> bytes" where
  "ctrl_header wnr aid addr num_regs tx_buf =
    (let b = CLEAR_HEADER tx_buf;
         b = SET_VAL HDR_C_DNC 0 b;
         b = SET_VAL HDR_C_WNR (of_bool wnr) b;
         b = SET_VAL HDR_C_AID (of_bool aid) b;
         b = SET_VAL HDR_C_MMS (ucast (drop_bit 16 addr)) b;
         b = SET_VAL HDR_C_ADDR_HI (ucast (drop_bit 8 addr)) b;
         b = SET_VAL HDR_C_ADDR_LO (ucast addr) b;
         b = SET_VAL HDR_C_LEN (num_regs - 1) b
     in SET_VAL HDR_C_P (get_parity b) b)"

text \<open>The two copy loops run from the last register down to the first.\<close>

fun copy_regs :: "nat \<Rightarrow> u32 list \<Rightarrow> bytes \<Rightarrow> bytes" where
  "copy_regs 0 regs buf = buf"
| "copy_regs (Suc i) regs buf = copy_regs i regs (put_at (Suc i * 4) (value2net (regs ! i)) buf)"

fun copy_regs_secure :: "nat \<Rightarrow> u32 list \<Rightarrow> bytes \<Rightarrow> bytes" where
  "copy_regs_secure 0 regs buf = buf"
| "copy_regs_secure (Suc i) regs buf =
     copy_regs_secure i regs
       (put_at (Suc i * 8 - 4) (value2net (regs ! i))
         (put_at (Suc i * 8) (value2net (NOT (regs ! i))) buf))"

definition mk_ctrl_req ::
  "bool \<Rightarrow> bool \<Rightarrow> u32 \<Rightarrow> u8 \<Rightarrow> u32 list \<Rightarrow> bytes \<Rightarrow> u16 \<Rightarrow> u16 \<times> bytes" where
  "mk_ctrl_req wnr aid addr num_regs regs tx_buf tx_buf_size =
    (let success = \<not> (num_regs < 1 \<or> num_regs > 128);
         success = (success \<and> \<not> (unat num_regs + 2 > unat tx_buf_size div 4))
     in if success
        then (of_nat (unat num_regs * 4 + 8),
              ctrl_header wnr aid addr num_regs
                (if wnr then copy_regs (unat num_regs) regs tx_buf else tx_buf))
        else (0, tx_buf))"

definition mk_secure_ctrl_req ::
  "bool \<Rightarrow> bool \<Rightarrow> u32 \<Rightarrow> u8 \<Rightarrow> u32 list \<Rightarrow> bytes \<Rightarrow> u16 \<Rightarrow> u16 \<times> bytes" where
  "mk_secure_ctrl_req wnr aid addr num_regs regs tx_buf tx_buf_size =
    (let success = \<not> (num_regs < 1 \<or> num_regs > 128);
         success = (success \<and> \<not> (unat num_regs * 2 + 2 > unat tx_buf_size div 4))
     in if success
        then (of_nat (unat num_regs * 8 + 8),
              ctrl_header wnr aid addr num_regs
                (if wnr then copy_regs_secure (unat num_regs) regs tx_buf else tx_buf))
        else (0, tx_buf))"

text \<open>
  \<open>read_rx_ctrl_buffer\<close> walks the receive buffer in steps of 8 (protected) or 4 bytes. The
  first protected loop sets \<open>num\<close> to 0 at the first word that differs from the complement
  stored behind it, which also ends the loop.
\<close>

fun check_secure :: "nat \<Rightarrow> nat \<Rightarrow> bytes \<Rightarrow> bool" where
  "check_secure 0 pos rx = True"
| "check_secure (Suc n) pos rx =
     (if net2value (drop pos rx) \<noteq> NOT (net2value (drop (pos + 4) rx)) then False
      else check_secure n (pos + 8) rx)"

fun copy_back :: "nat \<Rightarrow> nat \<Rightarrow> nat \<Rightarrow> nat \<Rightarrow> bytes \<Rightarrow> u32 list \<Rightarrow> u32 list" where
  "copy_back 0 i pos stp rx regs = regs"
| "copy_back (Suc n) i pos stp rx regs =
     copy_back n (Suc i) (pos + stp) stp rx (regs[i := net2value (drop pos rx)])"

definition read_rx_ctrl_buffer ::
  "bytes \<Rightarrow> u16 \<Rightarrow> u32 list \<Rightarrow> u8 \<Rightarrow> bool \<Rightarrow> u16 \<times> u32 list" where
  "read_rx_ctrl_buffer rx_buf rx_buf_size regs_buf regs_buf_size secure =
    (if secure then
       let num = (if rx_buf_size mod 8 = 0 \<and> rx_buf_size div 8 \<ge> 2 then rx_buf_size div 8 - 1 else 0);
           num = (if unat (regs_buf_size div 4) < unat num then 0 else num);
           num = (if check_secure (unat num) 8 rx_buf then num else 0)
       in (num, copy_back (unat num) 0 8 8 rx_buf regs_buf)
     else
       let num = ucast (((ucast rx_buf_size :: u32) - 8) div 4) :: u16
       in if unat (regs_buf_size div 4) < unat num then (0, regs_buf)
          else (num, copy_back (unat num) 0 8 4 rx_buf regs_buf))"

section \<open>Reading back what was written\<close>

lemma MASK_mask: "w \<le> 8 \<Longrightarrow> MASK ! w = mask w"
proof -
  assume "w \<le> 8"
  then have "w \<in> {0, 1, 2, 3, 4, 5, 6, 7, 8}" by auto
  then show ?thesis by (auto simp: MASK_def mask_numeral)
qed

lemma length_value2net [simp]: "length (value2net v) = 4"
  by (simp add: value2net_def)

lemma bit_net2value:
  "bit (net2value b) n \<longleftrightarrow>
    (if n < 8 then bit (b ! 3) n else if n < 16 then bit (b ! 2) (n - 8)
     else if n < 24 then bit (b ! 1) (n - 16) else n < 32 \<and> bit (b ! 0) (n - 24))"
proof -
  have "\<not> bit x n" if "8 \<le> n" for x :: u8 and n
    using that bit_imp_le_length [of x n] by fastforce
  then show ?thesis
    by (auto simp: net2value_def bit_simps)
qed

lemma net2value_value2net [simp]: "net2value (value2net v @ rest) = v"
proof (rule bit_word_eqI)
  fix n :: nat
  assume "n < LENGTH(32)"
  then show "bit (net2value (value2net v @ rest)) n = bit v n"
    by (auto simp: bit_net2value value2net_def bit_simps)
qed

lemma net2value_take: "net2value (take 4 xs) = net2value xs"
  by (simp add: net2value_def)

lemma SET_VAL_length [simp]: "length (SET_VAL f v b) = length b"
  by (cases f) simp

subsection \<open>Parity\<close>

text \<open>The number of one bits of a header, and the parity of the first \<open>m\<close> values of a predicate.\<close>

definition ones :: "bytes \<Rightarrow> nat" where
  "ones p = (\<Sum>i<4. \<Sum>n<8. of_bool (bit (p ! i) n))"

primrec par :: "(nat \<Rightarrow> bool) \<Rightarrow> nat \<Rightarrow> bool" where
  "par f 0 = False"
| "par f (Suc m) = (par f m \<noteq> f m)"

lemma par_odd: "par f m \<longleftrightarrow> odd (\<Sum>n<m. of_bool (f n) :: nat)"
  by (induction m) (simp_all del: sum_of_bool_eq)

lemma par_add: "par f (k + m) \<longleftrightarrow> (par f k \<noteq> par (\<lambda>n. f (k + n)) m)"
  by (induction m) auto

lemma par_neq: "par (\<lambda>n. f n \<noteq> g n) m \<longleftrightarrow> (par f m \<noteq> par g m)"
  by (induction m) auto

lemma par_cong: "(\<And>n. n < m \<Longrightarrow> f n = g n) \<Longrightarrow> par f m = par g m"
  by (induction m) auto

lemma par_fold: "par (bit (v XOR drop_bit k v)) k \<longleftrightarrow> par (bit v) (k + k)" for v :: "'a::len word"
proof -
  have "bit (v XOR drop_bit k v) = (\<lambda>n. bit v n \<noteq> bit v (k + n))"
    by (auto simp: bit_simps fun_eq_iff)
  then show ?thesis by (simp only: par_add par_neq)
qed

lemma par_fold_steps:
  "par (bit (v XOR drop_bit 1 v)) 1 = par (bit v) 2"
  "par (bit (v XOR drop_bit 2 v)) 2 = par (bit v) 4"
  "par (bit (v XOR drop_bit 4 v)) 4 = par (bit v) 8"
  "par (bit (v XOR drop_bit 8 v)) 8 = par (bit v) 16"
  "par (bit (v XOR drop_bit 16 v)) 16 = par (bit v) 32" for v :: "'a::len word"
  using par_fold [of v 1] par_fold [of v 2] par_fold [of v 4] par_fold [of v 8] par_fold [of v 16]
  by (simp_all only: numeral_plus_numeral one_add_one add_num_simps)

lemma not_bit_u8: "8 \<le> n \<Longrightarrow> \<not> bit (x :: u8) n"
  using bit_imp_le_length [of x n] by fastforce

lemma par_bytes:
  "par (bit (ucast a OR push_bit 8 (ucast b) :: u16)) 16 \<longleftrightarrow> (par (bit (a :: u8)) 8 \<noteq> par (bit (b :: u8)) 8)"
proof -
  have "par (bit (ucast a OR push_bit 8 (ucast b) :: u16)) 8 = par (bit a) 8"
    by (rule par_cong) (simp add: bit_simps)
  moreover have "par (\<lambda>n. bit (ucast a OR push_bit 8 (ucast b) :: u16) (8 + n)) 8 = par (bit b) 8"
    by (rule par_cong) (simp add: bit_simps not_bit_u8)
  ultimately show ?thesis
    using par_add [of "bit (ucast a OR push_bit 8 (ucast b) :: u16)" 8 8] by simp
qed

lemma word_even_bit: "NOT v AND 1 = (if bit v 0 then 0 else 1)" for v :: "'a::len word"
  by (rule bit_word_eqI) (auto simp: bit_simps)

lemma odd_ones:
  "odd (ones p) \<longleftrightarrow> ((par (bit (p ! 0)) 8 \<noteq> par (bit (p ! 1)) 8) \<noteq> (par (bit (p ! 2)) 8 \<noteq> par (bit (p ! 3)) 8))"
proof -
  have "ones p = (\<Sum>n<8. of_bool (bit (p ! 0) n)) + (\<Sum>n<8. of_bool (bit (p ! 1) n))
     + (\<Sum>n<8. of_bool (bit (p ! 2) n)) + (\<Sum>n<8. of_bool (bit (p ! 3) n))"
    unfolding ones_def by (simp add: eval_nat_numeral del: sum_of_bool_eq)
  then show ?thesis by (simp only: par_odd odd_add) blast
qed

lemma get_parity_ones: "get_parity p = (if even (ones p) then 1 else 0)"
proof -
  define v :: u32 where "v = ucast (p ! 0) OR push_bit 8 (ucast (p ! 1)) OR push_bit 16 (ucast (p ! 2))
             OR push_bit 24 (ucast (p ! 3))"
  define v1 where "v1 = v XOR drop_bit 16 v"
  define v2 where "v2 = v1 XOR drop_bit 8 v1"
  define v3 where "v3 = v2 XOR drop_bit 4 v2"
  define v4 where "v4 = v3 XOR drop_bit 2 v3"
  define v5 where "v5 = v4 XOR drop_bit 1 v4"
  have "bit v5 0 \<longleftrightarrow> par (bit v5) 1" by simp
  also have "\<dots> \<longleftrightarrow> par (bit v) 32"
    by (simp only: v1_def v2_def v3_def v4_def v5_def par_fold_steps)
  also have "par (bit v) 32 \<longleftrightarrow> odd (ones p)"
  proof -
    have "bit v n = bit (p ! 0) n" "bit v (8 + n) = bit (p ! 1) n"
      "bit v (16 + n) = bit (p ! 2) n" "bit v (24 + n) = bit (p ! 3) n" if "n < 8" for n
      using that by (auto simp: v_def bit_simps not_bit_u8)
    then have "par (bit v) 8 = par (bit (p ! 0)) 8" "par (\<lambda>n. bit v (8 + n)) 8 = par (bit (p ! 1)) 8"
      "par (\<lambda>n. bit v (16 + n)) 8 = par (bit (p ! 2)) 8" "par (\<lambda>n. bit v (24 + n)) 8 = par (bit (p ! 3)) 8"
      by (auto intro!: par_cong)
    then show ?thesis
      using par_add [of "bit v" 24 8] par_add [of "bit v" 16 8] par_add [of "bit v" 8 8]
      by (auto simp: odd_ones)
  qed
  finally have "bit v5 0 \<longleftrightarrow> odd (ones p)" .
  moreover have "get_parity p = ucast (NOT v5 AND 1)"
    by (simp only: get_parity_def Let_def v_def v1_def v2_def v3_def v4_def v5_def)
  ultimately show ?thesis by (simp add: word_even_bit)
qed

lemma get_parity_16bit_ones: "get_parity_16bit p = (if even (ones p) then 1 else 0)"
proof -
  define h :: u16 where "h = ucast (p ! 0) OR push_bit 8 (ucast (p ! 1))"
  define l :: u16 where "l = ucast (p ! 2) OR push_bit 8 (ucast (p ! 3))"
  define fold16 where "fold16 v = (let v = v XOR drop_bit 8 v; v = v XOR drop_bit 4 v;
      v = v XOR drop_bit 2 v in v XOR drop_bit 1 v)" for v :: u16
  have f: "bit (fold16 v) 0 \<longleftrightarrow> par (bit v) 16" for v
  proof -
    have "bit (fold16 v) 0 \<longleftrightarrow> par (bit (fold16 v)) 1" by simp
    then show ?thesis by (simp only: fold16_def Let_def par_fold_steps)
  qed
  have "bit (fold16 h XOR fold16 l) 0 \<longleftrightarrow> odd (ones p)"
    by (simp only: bit_xor_iff f h_def l_def par_bytes odd_ones)
  moreover have "get_parity_16bit p = ucast (NOT (fold16 h XOR fold16 l) AND 1)"
    by (simp only: get_parity_16bit_def fold16_def Let_def h_def l_def)
  ultimately show ?thesis by (simp add: word_even_bit)
qed

lemma par_update: "par (f(n := b)) m \<longleftrightarrow> (par f m \<noteq> (n < m \<and> f n \<noteq> b))"
  by (induction m) auto

lemma par_flip:
  assumes "n < 8"
  shows "par (bit (x XOR 2 ^ n :: u8)) 8 \<longleftrightarrow> \<not> par (bit x) 8"
proof -
  have "par (bit (x XOR 2 ^ n)) 8 = par ((bit x)(n := \<not> bit x n)) 8"
    using assms by (intro par_cong) (auto simp: bit_simps)
  with assms show ?thesis by (simp add: par_update)
qed

lemma four_bytes:
  assumes "4 \<le> length p"
  obtains a b c d r where "p = a # b # c # d # r"
  using assms by (auto simp: eval_nat_numeral Suc_le_length_iff)

lemma less_4_cases: "i < 4 \<Longrightarrow> i = 0 \<or> i = Suc 0 \<or> i = Suc (Suc 0) \<or> i = Suc (Suc (Suc 0))"
  by auto

lemma even_ones_Cons:
  "even (ones (a # b # c # d # r)) \<longleftrightarrow>
    ((par (bit a) 8 \<noteq> par (bit b) 8) = (par (bit c) 8 \<noteq> par (bit d) 8))"
  using odd_ones [of "a # b # c # d # r"] by (simp del: par.simps) blast

lemma get_parity_flip:
  assumes "4 \<le> length p" "i < 4" "n < 8"
  shows "get_parity (p[i := p ! i XOR 2 ^ n]) = 1 - get_parity p"
proof -
  obtain a b c d r where p: "p = a # b # c # d # r"
    using assms(1) by (rule four_bytes)
  have "even (ones (p[i := p ! i XOR 2 ^ n])) \<longleftrightarrow> odd (ones p)"
    using less_4_cases [OF assms(2)] par_flip [OF assms(3)]
    by (elim disjE) (simp_all add: p even_ones_Cons del: par.simps, blast+)
  then show ?thesis by (simp add: get_parity_ones)
qed

subsection \<open>Fields of the control header\<close>

lemma get_parity_le_1: "get_parity p = 0 \<or> get_parity p = 1"
  by (simp add: get_parity_ones)

lemma field_above:
  fixes x p :: u8
  assumes "\<And>n. bit x n \<Longrightarrow> n + k < 8"
  shows "drop_bit k (push_bit k x OR p AND mask k) = x"
  using assms by (intro bit_word_eqI) (auto simp: bit_simps, metis add.commute)

lemma len_field: "drop_bit 1 (push_bit 1 (m AND 127) OR p AND 1) = m AND 127" for m p :: u8
proof -
  have "n + 1 < 8" if "bit (m AND mask 7) n" for n
    using that by (auto simp: bit_simps)
  then show ?thesis
    using field_above [of "m AND mask 7" 1 p] by (simp add: mask_numeral del: push_bit_and)
qed

lemma ctrl_header_bytes:
  assumes "4 \<le> length buf"
  shows "\<exists>b3. ctrl_header wnr aid addr n buf =
     ((push_bit 5 (of_bool wnr) OR push_bit 4 (of_bool aid)) OR ucast (drop_bit 16 addr) AND 15)
     # ucast (drop_bit 8 addr) # ucast addr # b3 # drop 4 buf \<and>
     drop_bit 1 b3 = (n - 1) AND 127"
proof -
  obtain a b c d r where buf: "buf = a # b # c # d # r"
    using assms by (rule four_bytes)
  define h where "h = ((push_bit 5 (of_bool wnr) OR push_bit 4 (of_bool aid)) OR ucast (drop_bit 16 addr) AND 15)
     # ucast (drop_bit 8 addr) # ucast addr # push_bit 1 ((n - 1) AND 127) # r"
  have "ctrl_header wnr aid addr n buf = SET_VAL HDR_C_P (get_parity h) h"
    unfolding h_def
    by (cases wnr; cases aid)
       (simp_all add: ctrl_header_def Let_def buf CLEAR_HEADER_def put_at_def MASK_mask mask_numeral)
  moreover have "drop_bit 1 (push_bit 1 ((n - 1) AND 127) OR get_parity h AND 1) = (n - 1) AND 127"
    by (rule len_field)
  ultimately show ?thesis
    unfolding h_def by (simp add: buf MASK_mask mask_numeral)
qed

lemma ctrl_header_tail:
  assumes "4 \<le> length buf"
  shows "\<exists>h. length h = 4 \<and> ctrl_header wnr aid addr n buf = h @ drop 4 buf"
  using ctrl_header_bytes [OF assms, of wnr aid addr n]
  by (auto intro!: exI [of _ "take 4 (ctrl_header wnr aid addr n buf)"])

subsection \<open>The register copy loops\<close>

lemma put_at_drop:
  "off + length ys \<le> length xs \<Longrightarrow> drop off (put_at off ys xs) = ys @ drop (off + length ys) xs"
  by (simp add: put_at_def)

lemma put_at_take: "n \<le> off \<Longrightarrow> off \<le> length xs \<Longrightarrow> take n (put_at off ys xs) = take n xs"
  by (simp add: put_at_def min_def)

lemma copy_regs_layout:
  "n \<le> length regs \<Longrightarrow> 4 * n + 4 \<le> length buf \<Longrightarrow>
   copy_regs n regs buf = take 4 buf @ concat (map value2net (take n regs)) @ drop (4 * n + 4) buf"
proof (induction n arbitrary: buf)
  case (Suc n)
  then show ?case
    by (simp add: put_at_drop put_at_take take_Suc_conv_app_nth algebra_simps)
qed simp

lemma copy_regs_secure_layout:
  "n \<le> length regs \<Longrightarrow> 8 * n + 4 \<le> length buf \<Longrightarrow>
   copy_regs_secure n regs buf =
     take 4 buf @ concat (map (\<lambda>r. value2net r @ value2net (NOT r)) (take n regs)) @ drop (8 * n + 4) buf"
proof (induction n arbitrary: buf)
  case (Suc n)
  let ?b = "put_at (Suc n * 8 - 4) (value2net (regs ! n)) (put_at (Suc n * 8) (value2net (NOT (regs ! n))) buf)"
  have "drop (8 * n + 4) ?b = value2net (regs ! n) @ value2net (NOT (regs ! n)) @ drop (8 * n + 12) buf"
    using Suc.prems put_at_drop [of "8 * n + 4" "value2net (regs ! n)"]
      put_at_drop [of "8 * n + 8" "value2net (NOT (regs ! n))" buf]
    by (simp add: algebra_simps)
  moreover have "take 4 ?b = take 4 buf"
    using Suc.prems by (simp add: put_at_take)
  ultimately show ?case
    using Suc by (simp add: take_Suc_conv_app_nth add.commute)
qed simp

lemma length_copy_regs: "4 * n + 4 \<le> length buf \<Longrightarrow> length (copy_regs n regs buf) = length buf"
  by (induction n arbitrary: buf) simp_all

lemma length_copy_regs_secure:
  "8 * n + 4 \<le> length buf \<Longrightarrow> length (copy_regs_secure n regs buf) = length buf"
  by (induction n arbitrary: buf) simp_all

lemma drop_concat_chunks:
  assumes "\<And>x. length (f x) = w" "k < length xs"
  shows "drop (k * w) (concat (map f xs) @ r) = f (xs ! k) @ concat (map f (drop (Suc k) xs)) @ r"
  using assms(2)
proof (induction xs arbitrary: k)
  case (Cons x xs)
  then show ?case by (cases k) (simp_all add: assms(1))
qed simp

lemma copy_back_layout:
  "i + n \<le> length regs \<Longrightarrow> copy_back n i pos stp rx regs =
    take i regs @ map (\<lambda>k. net2value (drop (pos + k * stp) rx)) [0..<n] @ drop (i + n) regs"
proof (induction n arbitrary: i pos regs)
  case (Suc n)
  have "map (\<lambda>k. net2value (drop (pos + k * stp) rx)) [0..<Suc n] =
      net2value (drop pos rx) # map (\<lambda>k. net2value (drop (pos + stp + k * stp) rx)) [0..<n]"
    by (simp add: upt_conv_Cons map_Suc_upt [symmetric] del: upt_Suc)
      (simp add: algebra_simps)
  with Suc show ?case by (simp add: take_Suc_conv_app_nth)
qed simp

lemma check_secure_iff:
  "check_secure n pos rx \<longleftrightarrow>
    (\<forall>k<n. net2value (drop (pos + k * 8) rx) = NOT (net2value (drop (pos + k * 8 + 4) rx)))"
proof (induction n arbitrary: pos)
  case (Suc n)
  show ?case
    by (auto simp: Suc.IH less_Suc_eq_0_disj algebra_simps)
qed simp

subsection \<open>Layout of a request\<close>

lemma mk_ctrl_req_layout:
  assumes "1 \<le> n" "n \<le> 128" "length regs = n" "length buf = unat sz" "n + 2 \<le> unat sz div 4"
  shows "\<exists>h. length h = 4 \<and> mk_ctrl_req True aid addr (of_nat n) regs buf sz =
     (of_nat (4 * n + 8), h @ concat (map value2net regs) @ drop (4 * n + 4) buf)"
proof -
  have n: "unat (of_nat n :: u8) = n" "\<not> (of_nat n :: u8) < 1" "\<not> 128 < (of_nat n :: u8)"
    using assms by (simp_all add: unat_of_nat u8_less_nat)
  have len: "4 * n + 8 \<le> length buf" using assms by linarith
  have "4 \<le> length (copy_regs n regs buf)"
    using assms len by (simp add: copy_regs_layout)
  then obtain h where "length h = 4"
    "ctrl_header True aid addr (of_nat n) (copy_regs n regs buf) = h @ drop 4 (copy_regs n regs buf)"
    using ctrl_header_tail by blast
  then show ?thesis
    using assms len n
    by (intro exI [of _ h])
      (simp add: mk_ctrl_req_def Let_def copy_regs_layout mult.commute)
qed

lemma mk_secure_ctrl_req_layout:
  assumes "1 \<le> n" "n \<le> 128" "length regs = n" "length buf = unat sz" "2 * n + 2 \<le> unat sz div 4"
  shows "\<exists>h. length h = 4 \<and> mk_secure_ctrl_req True aid addr (of_nat n) regs buf sz =
     (of_nat (8 * n + 8), h @ concat (map (\<lambda>r. value2net r @ value2net (NOT r)) regs) @ drop (8 * n + 4) buf)"
proof -
  have n: "unat (of_nat n :: u8) = n" "\<not> (of_nat n :: u8) < 1" "\<not> 128 < (of_nat n :: u8)"
    using assms by (simp_all add: unat_of_nat u8_less_nat)
  have len: "8 * n + 8 \<le> length buf" using assms by linarith
  have "4 \<le> length (copy_regs_secure n regs buf)"
    using assms len by (simp add: copy_regs_secure_layout)
  then obtain h where "length h = 4"
    "ctrl_header True aid addr (of_nat n) (copy_regs_secure n regs buf) = h @ drop 4 (copy_regs_secure n regs buf)"
    using ctrl_header_tail by blast
  then show ?thesis
    using assms len n
    by (intro exI [of _ h])
      (simp add: mk_secure_ctrl_req_def Let_def copy_regs_secure_layout mult.commute)
qed

lemma map_nth_upt: "map (\<lambda>k. xs ! k) [0..<length xs] = xs"
  by (rule map_nth)

lemma read_back_plain:
  assumes "length pre = 8" "length regs = n" "length out = n" "n \<le> 63"
  shows "read_rx_ctrl_buffer (pre @ concat (map value2net regs) @ r) (of_nat (4 * n + 8)) out (of_nat (4 * n)) False
    = (of_nat n, regs)"
proof -
  have num: "ucast (((ucast (of_nat (4 * n + 8) :: u16) :: u32) - 8) div 4) = (of_nat n :: u16)"
    using assms(4)
    by (intro word_unat_eq_iff [THEN iffD2])
      (simp add: unat_of_nat unat_div unsigned_ucast_eq take_bit_eq_mod unat_sub_if' unat_word_ariths)
  have d: "drop (8 + k * 4) (pre @ concat (map value2net regs) @ r) =
      value2net (regs ! k) @ concat (map value2net (drop (Suc k) regs)) @ r" if "k < n" for k
    using that assms(1,2) by (subst drop_append) (simp add: drop_concat_chunks del: drop_append)
  have "map (\<lambda>k. net2value (drop (8 + k * 4) (pre @ concat (map value2net regs) @ r))) [0..<n] = regs"
    using assms(2) by (intro nth_equalityI) (simp_all add: d del: drop_append)
  then show ?thesis
    using assms num copy_back_layout [of 0 n out 8 4 "pre @ concat (map value2net regs) @ r"]
    by (simp add: read_rx_ctrl_buffer_def Let_def unat_of_nat unat_div del: of_nat_add of_nat_mult drop_append)
qed

lemma read_back_secure:
  assumes "length pre = 8" "length regs = n" "length out = n" "1 \<le> n" "n \<le> 63"
    and rx: "rx = pre @ concat (map (\<lambda>r. value2net r @ value2net (NOT r)) regs) @ r"
  shows "read_rx_ctrl_buffer rx (of_nat (8 * n + 8)) out (of_nat (4 * n)) True = (of_nat n, regs)"
proof -
  have sz: "unat (of_nat (8 * n + 8) :: u16) = 8 * n + 8"
    using assms(5) by (simp add: unat_of_nat del: of_nat_add of_nat_mult)
  have num: "(of_nat (8 * n + 8) :: u16) mod 8 = 0" "2 \<le> (of_nat (8 * n + 8) :: u16) div 8"
    "(of_nat (8 * n + 8) :: u16) div 8 - 1 = of_nat n"
    using assms(4,5)
    by (auto simp: word_unat_eq_iff word_le_nat_alt unat_mod unat_div unat_sub_if' sz unat_of_nat
        simp del: of_nat_add of_nat_mult)
  have d: "drop (8 + k * 8) rx = value2net (regs ! k) @ value2net (NOT (regs ! k))
      @ concat (map (\<lambda>r. value2net r @ value2net (NOT r)) (drop (Suc k) regs)) @ r" if "k < n" for k
    unfolding rx using that assms(1,2)
    by (subst drop_append) (simp add: drop_concat_chunks [where w = 8] del: drop_append)
  have d4: "drop (8 + k * 8 + 4) rx = drop 4 (drop (8 + k * 8) rx)" for k
    by (simp add: add.commute)
  have "net2value (drop (8 + k * 8 + 4) rx) = NOT (regs ! k)" if "k < n" for k
    unfolding d4 by (simp add: d [OF that] del: drop_drop)
  then have "check_secure n 8 rx"
    unfolding check_secure_iff by (simp add: d)
  moreover have "map (\<lambda>k. net2value (drop (8 + k * 8) rx)) [0..<n] = regs"
    using assms(2) by (intro nth_equalityI) (simp_all add: d)
  ultimately show ?thesis
    using assms(1-5) num copy_back_layout [of 0 n out 8 8 rx]
    by (simp add: read_rx_ctrl_buffer_def Let_def unat_of_nat unat_div del: of_nat_add of_nat_mult)
qed

section \<open>Properties of control transactions\<close>

text \<open>
  A control write is confirmed: when the MACPHY echoes what the driver sent (four
  dummy bytes followed by the request without its last four bytes), \<open>read_rx_ctrl_buffer\<close>
  returns the number of registers and exactly the values that were written, for plain and
  for protected requests.
\<close>

theorem ctrl_write_roundtrip:
  assumes "1 \<le> n" "n \<le> 63" "length regs = n" "length out = n" "length dummy = 4"
    and "length buf = unat sz" "2 * n + 2 \<le> unat sz div 4"
    and "(len, tx) = (if secure then mk_secure_ctrl_req True aid addr (of_nat n) regs buf sz
                      else mk_ctrl_req True aid addr (of_nat n) regs buf sz)"
  shows "read_rx_ctrl_buffer (dummy @ take (unat len - 4) tx) len out (of_nat (4 * n)) secure
    = (of_nat n, regs)"
proof (cases secure)
  case True
  obtain h where h: "length h = 4" "len = of_nat (8 * n + 8)"
    "tx = h @ concat (map (\<lambda>r. value2net r @ value2net (NOT r)) regs) @ drop (8 * n + 4) buf"
    using mk_secure_ctrl_req_layout [of n regs buf sz aid addr] assms True by auto
  have len: "unat len - 4 = 4 + 8 * n"
    using h(2) assms(2) by (simp add: unat_of_nat del: of_nat_add of_nat_mult)
  have "length (concat (map (\<lambda>r. value2net r @ value2net (NOT r)) regs)) = 8 * n"
    using assms(3) by (simp add: length_concat comp_def sum_list_triv)
  then have "take (unat len - 4) tx = h @ concat (map (\<lambda>r. value2net r @ value2net (NOT r)) regs)"
    by (simp add: len h(1,3))
  then show ?thesis
    using True assms h(1) unfolding h(2)
    by (simp add: read_back_secure [where pre = "dummy @ h" and r = "[]"] del: of_nat_add of_nat_mult)
next
  case False
  obtain h where h: "length h = 4" "len = of_nat (4 * n + 8)"
    "tx = h @ concat (map value2net regs) @ drop (4 * n + 4) buf"
    using mk_ctrl_req_layout [of n regs buf sz aid addr] assms False by auto
  have len: "unat len - 4 = 4 + 4 * n"
    using h(2) assms(2) by (simp add: unat_of_nat del: of_nat_add of_nat_mult)
  have "length (concat (map value2net regs)) = 4 * n"
    using assms(3) by (simp add: length_concat comp_def sum_list_triv)
  then have "take (unat len - 4) tx = h @ concat (map value2net regs)"
    by (simp add: len h(1,3))
  then show ?thesis
    using False assms h(1) read_back_plain [of "dummy @ h" regs n out "[]"] unfolding h(2)
    by (simp del: of_nat_add of_nat_mult)
qed

theorem ctrl_write_roundtrip_witness:
  "let r = mk_secure_ctrl_req True False 0x00040087 (of_nat 1) [0xDEADBEEF] (replicate 16 0) 16 in
   read_rx_ctrl_buffer ([1, 2, 3, 4] @ take (unat (fst r) - 4) (snd r)) (fst r) [0] (of_nat (4 * 1)) True
     = (of_nat 1, [0xDEADBEEF])"
  unfolding Let_def
  by (rule ctrl_write_roundtrip
      [where secure = True and aid = False and addr = "0x00040087" and buf = "replicate 16 0" and sz = 16])
    simp_all

lemma set_parity_odd:
  assumes "4 \<le> length b" "\<not> bit (b ! 3) 0"
  shows "get_parity (SET_VAL HDR_P (get_parity b) b) = 0"
proof (cases "get_parity b = 0")
  case True
  then show ?thesis by simp
next
  case False
  then have p: "get_parity b = 1" using get_parity_le_1 by blast
  have "b ! 3 OR 1 = b ! 3 XOR 2 ^ 0"
    using assms(2) by (intro bit_word_eqI) (auto simp: bit_simps intro: gr0I)
  then have "SET_VAL HDR_P (get_parity b) b = b[3 := b ! 3 XOR 2 ^ 0]"
    by (simp add: p MASK_mask)
  then show ?thesis
    using get_parity_flip [of b 3 0] assms(1) p by simp
qed

lemma ctrl_header_parity:
  assumes "4 \<le> length buf"
  shows "get_parity (ctrl_header wnr aid addr n buf) = 0"
proof -
  obtain a b c d r where buf: "buf = a # b # c # d # r"
    using assms by (rule four_bytes)
  show ?thesis
    unfolding ctrl_header_def Let_def
    by (rule set_parity_odd) (simp_all add: buf CLEAR_HEADER_def put_at_def MASK_mask bit_simps bit_0 even_and_iff)
qed

text \<open>The fields of a header that was filled in.\<close>

lemma ctrl_header_fields:
  assumes "4 \<le> length b" and "tx = ctrl_header wnr aid addr n b"
  shows "GET_VAL HDR_C_DNC tx = 0" "GET_VAL HDR_C_WNR tx = of_bool wnr" "GET_VAL HDR_C_AID tx = of_bool aid"
    "GET_VAL HDR_C_MMS tx = ucast (drop_bit 16 addr) AND 15"
    "GET_VAL HDR_C_ADDR_HI tx = ucast (drop_bit 8 addr)" "GET_VAL HDR_C_ADDR_LO tx = ucast addr"
    "GET_VAL HDR_C_LEN tx = (n - 1) AND 127" "get_parity tx = 0"
proof -
  obtain b3 where tx: "tx = ((push_bit 5 (of_bool wnr) OR push_bit 4 (of_bool aid)) OR ucast (drop_bit 16 addr) AND 15)
     # ucast (drop_bit 8 addr) # ucast addr # b3 # drop 4 b" "drop_bit 1 b3 = (n - 1) AND 127"
    using ctrl_header_bytes [OF assms(1)] assms(2) by blast
  define m :: u8 where "m = ucast (drop_bit 16 addr) AND 15"
  have m: "\<not> bit m k" if "4 \<le> k" for k
  proof -
    have "m = ucast (drop_bit 16 addr) AND mask 4" by (simp add: m_def mask_numeral)
    with that show ?thesis by (simp only: bit_and_iff bit_mask_iff) simp
  qed
  have b0: "tx ! 0 = (push_bit 5 (of_bool wnr) OR push_bit 4 (of_bool aid)) OR m"
    by (simp add: tx(1) m_def)
  have "drop_bit 7 (tx ! 0) AND 1 = 0" "drop_bit 5 (tx ! 0) AND 1 = of_bool wnr"
    "drop_bit 4 (tx ! 0) AND 1 = of_bool aid" "tx ! 0 AND mask 4 = m"
    unfolding b0 using m
    by (intro bit_word_eqI; auto simp: bit_simps intro: ccontr)+
  then show "GET_VAL HDR_C_DNC tx = 0" "GET_VAL HDR_C_WNR tx = of_bool wnr" "GET_VAL HDR_C_AID tx = of_bool aid"
    "GET_VAL HDR_C_MMS tx = ucast (drop_bit 16 addr) AND 15"
    by (simp_all add: MASK_mask mask_numeral m_def)
  show "GET_VAL HDR_C_ADDR_HI tx = ucast (drop_bit 8 addr)" "GET_VAL HDR_C_ADDR_LO tx = ucast addr"
    "GET_VAL HDR_C_LEN tx = (n - 1) AND 127"
    using tx(2) by (simp_all add: MASK_mask mask_numeral tx(1))
  show "get_parity tx = 0" using ctrl_header_parity [OF assms(1)] assms(2) by simp
qed

text \<open>
  The header of a control request, plain or protected, says what the caller asked for: the
  control (not data) bit, the write and address-increment bits, the memory map selector and
  the register address, the register count minus one, and an odd number of one bits, so that
  \<open>get_parity\<close> of the finished header is 0.
\<close>

theorem ctrl_request_header:
  assumes "1 \<le> n" "n \<le> 128" "length regs = n" "length buf = unat sz" "2 * n + 2 \<le> unat sz div 4"
    and "tx = snd (if secure then mk_secure_ctrl_req wnr aid addr (of_nat n) regs buf sz
                   else mk_ctrl_req wnr aid addr (of_nat n) regs buf sz)"
  shows "GET_VAL HDR_C_DNC tx = 0 \<and> GET_VAL HDR_C_WNR tx = of_bool wnr \<and> GET_VAL HDR_C_AID tx = of_bool aid
    \<and> GET_VAL HDR_C_MMS tx = ucast (drop_bit 16 addr) AND 15
    \<and> GET_VAL HDR_C_ADDR_HI tx = ucast (drop_bit 8 addr) \<and> GET_VAL HDR_C_ADDR_LO tx = ucast addr
    \<and> GET_VAL HDR_C_LEN tx = of_nat (n - 1) AND 127 \<and> get_parity tx = 0"
proof -
  have n: "unat (of_nat n :: u8) = n" "\<not> (of_nat n :: u8) < 1" "\<not> 128 < (of_nat n :: u8)"
    using assms by (simp_all add: unat_of_nat u8_less_nat)
  have len: "8 * n + 8 \<le> length buf" using assms by linarith
  define b where "b = (if wnr then if secure then copy_regs_secure n regs buf else copy_regs n regs buf else buf)"
  have b: "4 \<le> length b" "tx = ctrl_header wnr aid addr (of_nat n) b"
    using assms n len
    by (simp_all add: b_def mk_secure_ctrl_req_def mk_ctrl_req_def Let_def length_copy_regs length_copy_regs_secure)
  have "(of_nat n - 1 :: u8) = of_nat (n - 1)" using assms(1) by simp
  then show ?thesis using ctrl_header_fields [OF b] by (simp del: GET_VAL.simps)
qed

theorem ctrl_request_header_witness:
  "GET_VAL HDR_C_MMS (snd (mk_ctrl_req False True 0x000A0094 (of_nat 1) [0] (replicate 16 0) 16)) = 0xA"
  using ctrl_request_header [of 1 "[0]" "replicate 16 0" 16
      "snd (mk_ctrl_req False True 0x000A0094 (of_nat 1) [0] (replicate 16 0) 16)" False False True "0x000A0094"]
  by simp

text \<open>
  \<open>get_parity\<close> computes odd parity: it is 1 exactly for headers with an even number of one
  bits, its 16-bit variant computes the same, and flipping any single bit of a header changes it,
  so a single bit error in a footer never passes the check of \<open>enqueue_rx_spi\<close>.
\<close>

theorem parity_detects_bit_errors:
  assumes "4 \<le> length p" "i < 4" "n < 8"
  shows "get_parity p = (if even (ones p) then 1 else 0) \<and> get_parity_16bit p = get_parity p \<and>
    get_parity (p[i := p ! i XOR 2 ^ n]) = 1 - get_parity p"
  using get_parity_flip [OF assms] by (simp add: get_parity_ones get_parity_16bit_ones)

theorem parity_detects_bit_errors_witness:
  "get_parity ([0x80, 0x20, 0, 0][2 := 0 XOR 2 ^ 5]) = 1 - get_parity [0x80, 0x20, 0, 0]"
  using parity_detects_bit_errors [of "[0x80, 0x20, 0, 0]" 2 5] by simp

text \<open>
  C33. A protected answer is taken only if every register is followed by its complement: one
  word that disagrees with its copy makes \<open>read_rx_ctrl_buffer\<close> report no register and leave
  the caller's variable untouched.
\<close>

theorem secure_read_rejects_corruption:
  assumes "k < unat sz div 8 - 1"
    and "net2value (drop (8 + k * 8) rx) \<noteq> NOT (net2value (drop (8 + k * 8 + 4) rx))"
  shows "read_rx_ctrl_buffer rx sz out osz True = (0, out)"
proof -
  define num :: u16 where "num = (if sz mod 8 = 0 \<and> sz div 8 \<ge> 2 then sz div 8 - 1 else 0)"
  have "num = 0 \<or> unat num = unat sz div 8 - 1"
    by (auto simp: num_def word_le_nat_alt unat_sub_if' unat_div)
  then have "num = 0 \<or> \<not> check_secure (unat num) 8 rx"
    using assms by (auto simp: check_secure_iff)
  then show ?thesis
    by (auto simp: read_rx_ctrl_buffer_def Let_def num_def [symmetric])
qed

theorem secure_read_rejects_corruption_witness:
  "read_rx_ctrl_buffer [0,0,0,0, 0x20,4,0,0, 0,0,0,7, 0xFF,0xFF,0xFF,0xF9] 16 [42] 4 True = (0, [42])"
  by (rule secure_read_rejects_corruption [where k = 0]) (simp_all add: net2value_def)

end
