(* ===== verification/Tc6_State.thy ===== *)
theory Tc6_State
  imports Tc6_Queue Tc6_Frame
begin

text \<open>
  The data of the TC6 driver: the configuration of \<open>tc6-conf.h\<close>, the queue entries of
  \<open>tc6-queue.h\<close>, and the instance structure \<open>struct TC6_t\<close> of \<open>tc6.cpp\<close>.

  A pointer to payload is modelled by the bytes it points to, a function pointer by a number
  (\<open>None\<close> for \<open>NULL\<close>). The calls the driver makes to its integrator (the \<open>TC6_CB_*\<close> functions
  and the callbacks given along with a request) are appended to the component \<open>calls\<close> of the
  instance, in the order they are made. \<open>TC6_ASSERT\<close> expands to nothing in the build without
  \<open>DEBUG\<close> and is not modelled.
\<close>

section \<open>Configuration\<close>

abbreviation (input) TC6_HEADER_SIZE :: nat where "TC6_HEADER_SIZE \<equiv> 4"
abbreviation (input) TC6_CHUNK_SIZE :: nat where "TC6_CHUNK_SIZE \<equiv> 64"
abbreviation (input) TC6_CHUNK_BUF_SIZE :: nat where "TC6_CHUNK_BUF_SIZE \<equiv> 68"
abbreviation (input) REG_OP_ARRAY_SIZE :: nat where "REG_OP_ARRAY_SIZE \<equiv> 4"
abbreviation (input) TC6_CHUNKS_XACT :: nat where "TC6_CHUNKS_XACT \<equiv> 31"
abbreviation (input) TC6_CONCAT_THRESHOLD :: nat where "TC6_CONCAT_THRESHOLD \<equiv> 1024"
abbreviation (input) SPI_FULL_BUFFERS :: nat where "SPI_FULL_BUFFERS \<equiv> 1"
abbreviation (input) TC6_TX_ETH_QSIZE :: nat where "TC6_TX_ETH_QSIZE \<equiv> 4"
abbreviation (input) TC6_TX_ETH_MAX_SEGMENTS :: nat where "TC6_TX_ETH_MAX_SEGMENTS \<equiv> 8"
abbreviation (input) TC6_CNTRL_BUF_SIZE :: nat where "TC6_CNTRL_BUF_SIZE \<equiv> 16"
abbreviation (input) TC6_SPI_BUF_SIZE :: nat where "TC6_SPI_BUF_SIZE \<equiv> 2108"
abbreviation (input) TC6_CHUNKS_PER_ISR :: nat where "TC6_CHUNKS_PER_ISR \<equiv> 2"
abbreviation (input) TC6_MAGIC :: u32 where "TC6_MAGIC \<equiv> 0x48423578"

section \<open>Queue entries\<close>

record TC6_RawTxSegment =
  pEth :: bytes
  segLen :: u16

record qtxeth =
  priv :: nat
  txCallback :: "nat option"
  ethSegs :: "TC6_RawTxSegment list"
  totalLen :: u16
  segCount :: u8
  tsc :: u8

record qspibuf =
  txBuff :: bytes
  rxBuff :: bytes
  sp_length :: u16

datatype register_op_type =
    REGISTER_OP_INVALLID
  | REGISTER_OP_WRITE
  | REGISTER_OP_READ
  | REGISTER_OP_READWRITE_STAGE1
  | REGISTER_OP_READWRITE_STAGE2

record register_operation =
  tx_buf :: bytes
  rx_buf :: bytes
  callback :: "nat option"
  tag :: nat
  regop :: register_op_type
  modifyValue :: u32
  modifyMask :: u32
  regAddr :: u32
  rg_length :: u16
  secure :: bool

section \<open>The instance\<close>

datatype TC6_Error_t =
    TC6Error_Succeeded
  | TC6Error_NoHardware
  | TC6Error_UnexpectedSv
  | TC6Error_UnexpectedDvEv
  | TC6Error_BadChecksum
  | TC6Error_UnexpectedCtrl
  | TC6Error_BadTxData
  | TC6Error_SyncLost
  | TC6Error_SpiError
  | TC6Error_ControlTxFail

datatype SpiOp_t = SPI_OP_INVALID | SPI_OP_DATA | SPI_OP_REG

text \<open>
  The calls to the integrator with their arguments. \<open>OnRxEthernetSlice pRx offset len\<close> carries
  the memory at \<open>pRx\<close>; \<open>TxCallback\<close> is a call of the function given along with a frame,
  \<open>RegCallback\<close> of the one given along with a register access.
\<close>

datatype tc6_call =
    OnNeedService
  | OnRxEthernetSlice bytes u16 u16
  | OnRxEthernetPacket bool u16 "u64 option"
  | OnError TC6_Error_t
  | OnExtendedStatus
  | TxCallback nat bytes u16 nat
  | RegCallback nat bool u32 u32 nat

record tc6 =
  eth_q :: "qtxeth qtxeth_queue"
  qSpi :: "qspibuf qspibuf_queue"
  regop_q :: "register_operation regop_queue"
  gTag :: nat
  ts :: u64
  currentOp :: SpiOp_t
  magic :: u32
  buf_len :: u16
  offsetEth :: u16
  offsetRx :: u16
  segOffset :: u16
  segCurr :: u8
  inst :: u8
  seq_num :: u8
  txc :: u8
  rca :: u8
  alreadyInControlService :: bool
  alreadyInDataService :: bool
  enableData :: bool
  intContext :: bool
  synced :: bool
  exst_locked :: bool
  eth_started :: bool
  eth_error :: bool
  calls :: "tc6_call list"

definition call :: "tc6_call \<Rightarrow> tc6 \<Rightarrow> tc6" where
  "call c g = g\<lparr>calls := calls g @ [c]\<rparr>"

text \<open>An instance whose memory is zero except for the given queues.\<close>

definition tc6_zeroed :: "qtxeth qtxeth_queue \<Rightarrow> qspibuf qspibuf_queue \<Rightarrow> register_operation regop_queue \<Rightarrow> tc6" where
  "tc6_zeroed qe qs qr =
    \<lparr>eth_q = qe, qSpi = qs, regop_q = qr, gTag = 0, ts = 0, currentOp = SPI_OP_INVALID, magic = 0,
     buf_len = 0, offsetEth = 0, offsetRx = 0, segOffset = 0, segCurr = 0, inst = 0, seq_num = 0,
     txc = 0, rca = 0, alreadyInControlService = False, alreadyInDataService = False,
     enableData = False, intContext = False, synced = False, exst_locked = False,
     eth_started = False, eth_error = False, calls = []\<rparr>"

definition qtxeth_zeroed :: qtxeth where
  "qtxeth_zeroed = \<lparr>priv = 0, txCallback = None,
     ethSegs = replicate TC6_TX_ETH_MAX_SEGMENTS \<lparr>pEth = [], segLen = 0\<rparr>,
     totalLen = 0, segCount = 0, tsc = 0\<rparr>"

end
