(* ===== verification/Tc6_Spec.thy ===== *)
theory Tc6_Spec
  imports Tc6_Frame
begin

text \<open>
  What the chunks of a data transaction mean, from the TC6 specification and independent of the
  code: a chunk carries 64 bytes of payload, the word at which a frame starts and the byte at which
  a frame ends, if any. Both directions use it: the MACPHY reads the chunks the driver sends, the
  driver those the MACPHY sends.
\<close>

section \<open>Chunks as a protocol\<close>

text \<open>
  The state of a reader is the frame in progress and the frames completed. The result is \<open>None\<close> for a
  chunk that has no meaning: a frame that starts inside another one, or data outside of a frame.
\<close>

fun chunk_accept :: "nat option \<Rightarrow> nat option \<Rightarrow> bytes \<Rightarrow> bytes option \<times> bytes list
    \<Rightarrow> (bytes option \<times> bytes list) option" where
  "chunk_accept st fin p (None, got) =
     (case (st, fin) of
        (Some w, None) \<Rightarrow> Some (Some (drop (4 * w) p), got)
      | (Some w, Some x) \<Rightarrow> if 4 * w \<le> x then Some (None, got @ [sub_at (4 * w) (x + 1 - 4 * w) p]) else None
      | _ \<Rightarrow> None)"
| "chunk_accept st fin p (Some part, got) =
     (case (st, fin) of
        (None, None) \<Rightarrow> Some (Some (part @ p), got)
      | (None, Some x) \<Rightarrow> Some (None, got @ [part @ take (x + 1) p])
      | (Some w, Some x) \<Rightarrow> if x < 4 * w then Some (Some (drop (4 * w) p), got @ [part @ take (x + 1) p]) else None
      | _ \<Rightarrow> None)"

lemma chunk_accept_got:
  "chunk_accept st fin p (cur, got) =
     map_option (\<lambda>(cur', new). (cur', got @ new)) (chunk_accept st fin p (cur, []))"
  by (cases cur) (auto split: option.splits)

section \<open>The MACPHY as reader of transmit chunks\<close>

text \<open>
  A transmit chunk is a header and 64 bytes. The MACPHY refuses it if it is not a data chunk or if
  its parity is even.
\<close>

definition fld_opt :: "u8 \<Rightarrow> u8 \<Rightarrow> nat option" where
  "fld_opt valid v = (if valid = 0 then None else Some (unat v))"

definition mac_accept :: "bytes option \<times> bytes list \<Rightarrow> bytes \<Rightarrow> (bytes option \<times> bytes list) option" where
  "mac_accept s chunk =
    (if GET_VAL HDR_DNC chunk = 0 \<or> get_parity chunk \<noteq> 0 \<or> length chunk \<noteq> 68 then None
     else if GET_VAL HDR_DV chunk = 0 then Some s
     else chunk_accept (fld_opt (GET_VAL HDR_SV chunk) (GET_VAL HDR_SWO chunk))
            (fld_opt (GET_VAL HDR_EV chunk) (GET_VAL HDR_EBO chunk)) (drop 4 chunk) s)"

fun mac_accept_all :: "bytes option \<times> bytes list \<Rightarrow> bytes list \<Rightarrow> (bytes option \<times> bytes list) option" where
  "mac_accept_all st [] = Some st"
| "mac_accept_all st (c # cs) = Option.bind (mac_accept st c) (\<lambda>st. mac_accept_all st cs)"

lemma mac_accept_all_append:
  "mac_accept_all st (xs @ ys) = Option.bind (mac_accept_all st xs) (\<lambda>st. mac_accept_all st ys)"
  by (induction xs arbitrary: st) (auto simp: bind_assoc)

end
