(* ===== verification/Tc6_Tx.thy ===== *)
theory Tc6_Tx
  imports Tc6_State Tc6_Spec
begin

text \<open>
  The transmit half of the data path of \<open>tc6.cpp\<close>: \<open>process_tx\<close> cuts the queued Ethernet frames
  into 64-byte chunks with a 4-byte header, \<open>mk_data_tx\<close> fills the SPI buffer with such chunks.

  Both copy loops of \<open>process_tx\<close> are the function \<open>copy_segs\<close>. Its result is \<open>None\<close> where
  the loop does not end, where the segment index leaves the array \<open>ethSegs\<close>, or where the copy
  would read past the end of a segment.
\<close>

section \<open>Cutting frames into chunks\<close>

partial_function (option) copy_segs ::
  "qtxeth \<Rightarrow> nat \<Rightarrow> u16 \<Rightarrow> u16 \<Rightarrow> u8 \<Rightarrow> u16 \<Rightarrow> bytes \<Rightarrow> (u16 \<times> u8 \<times> u16 \<times> bytes) option" where
  "copy_segs entry base limit copy_pos sc so buf =
    (if copy_pos < limit then
       if unat sc < length (ethSegs entry) then
         let seg = ethSegs entry ! unat sc;
             len = segLen seg - so;
             diff = limit - copy_pos;
             len = (if len > diff then diff else len)
         in if unat so + unat len \<le> length (pEth seg) then
              let buf = put_at (base + unat copy_pos) (sub_at (unat so) (unat len) (pEth seg)) buf;
                  copy_pos = copy_pos + len;
                  so = so + len
              in if so = segLen seg
                 then copy_segs entry base limit copy_pos (if sc + 1 = segCount entry then 0 else sc + 1) 0 buf
                 else copy_segs entry base limit copy_pos sc so buf
            else None
       else None
     else Some (copy_pos, sc, so, buf))"

declare copy_segs.simps [code]

definition on_tx_eth_done :: "tc6 \<Rightarrow> bytes \<Rightarrow> u16 \<Rightarrow> nat option \<Rightarrow> nat \<Rightarrow> tc6" where
  "on_tx_eth_done g ptr len cb prv =
     (case cb of None \<Rightarrow> g | Some f \<Rightarrow> call (TxCallback f ptr len prv) g)"

text \<open>The part of \<open>process_tx\<close> that runs when the current frame is fully enqueued.\<close>

definition tx_frame_end :: "tc6 \<Rightarrow> qtxeth \<Rightarrow> u16 \<Rightarrow> bool \<Rightarrow> bytes \<Rightarrow> (tc6 \<times> bytes) option" where
  "tx_frame_end g entry tocopy_len sv b =
    (let b = SET_VAL HDR_EV 1 b;
         b = SET_VAL HDR_EBO (ucast (tocopy_len - 1)) b;
         g = g\<lparr>offsetEth := 0\<rparr>;
         g = on_tx_eth_done g (pEth (ethSegs entry ! 0)) (totalLen entry) (txCallback entry) (priv entry);
         g = g\<lparr>eth_q := qtxeth_stage2_convert_done (eth_q g)\<rparr>
     in if \<not> sv \<and> qtxeth_stage2_convert_ready (eth_q g) then
          let tocopy_len = push_bit 2 (drop_bit 2 (tocopy_len + 3));
              entry = qtxeth_front (eth_q g);
              remaining_len = of_nat TC6_CHUNK_SIZE - tocopy_len
          in if unat (totalLen entry) \<le> TC6_CONCAT_THRESHOLD \<and> remaining_len \<noteq> 0 \<and> totalLen entry > remaining_len
             then
               let b = SET_VAL HDR_SV 1 b;
                   b = SET_VAL HDR_SWO (ucast (tocopy_len div 4)) b;
                   b = (if tsc entry \<noteq> 0 then SET_VAL HDR_TSC (tsc entry) b else b)
               in do {
                 (copy_pos, sc, so, b) \<leftarrow>
                    copy_segs entry (TC6_HEADER_SIZE + unat tocopy_len) remaining_len 0 (segCurr g) (segOffset g) b;
                 Some (g\<lparr>offsetEth := offsetEth g + copy_pos, segCurr := sc, segOffset := so\<rparr>, b)
               }
             else Some (g, b)
        else Some (g, b))"

definition process_tx :: "tc6 \<Rightarrow> bytes \<Rightarrow> (u16 \<times> tc6 \<times> bytes) option" where
  "process_tx g buf =
    (if qtxeth_stage2_convert_ready (eth_q g) then
       let entry = qtxeth_front (eth_q g);
           b = CLEAR_HEADER buf;
           b = SET_VAL HDR_DNC 1 b;
           b = SET_VAL HDR_DV 1 b;
           b = SET_VAL HDR_SEQ (seq_num g) b;
           g = g\<lparr>seq_num := seq_num g + 1\<rparr>;
           sv = (offsetEth g = 0);
           b = (if sv then
                  let b = SET_VAL HDR_SV 1 b;
                      b = SET_VAL HDR_SWO 0 b
                  in if tsc entry \<noteq> 0 then SET_VAL HDR_TSC (tsc entry) b else b
                else b);
           tocopy_len = totalLen entry - offsetEth g;
           tocopy_len = (if unat tocopy_len \<le> TC6_CHUNK_SIZE then tocopy_len else of_nat TC6_CHUNK_SIZE);
           padded_len = of_nat TC6_CHUNK_SIZE - tocopy_len
       in do {
         (copy_pos, sc, so, b) \<leftarrow> copy_segs entry TC6_HEADER_SIZE tocopy_len 0 (segCurr g) (segOffset g) b;
         let b = (if padded_len \<noteq> 0
                  then put_at (TC6_HEADER_SIZE + unat tocopy_len) (replicate (unat padded_len) 0) b else b);
         let g = g\<lparr>segCurr := sc, segOffset := so, offsetEth := offsetEth g + tocopy_len\<rparr>;
         (g, b) \<leftarrow> (if offsetEth g = totalLen entry then tx_frame_end g entry tocopy_len sv b else Some (g, b));
         Some (of_nat TC6_CHUNK_BUF_SIZE, g, SET_VAL HDR_P (get_parity b) b)
       }
     else Some (0, g, buf))"

text \<open>\<open>mk_data_tx\<close> calls \<open>process_tx\<close> on the chunk at \<open>pos\<close>; a chunk that leaves the buffer is \<open>None\<close>.\<close>

partial_function (option) mk_data_tx_loop :: "u16 \<Rightarrow> u16 \<Rightarrow> tc6 \<Rightarrow> bytes \<Rightarrow> (u16 \<times> tc6 \<times> bytes) option" where
  "mk_data_tx_loop tx_buf_len pos g buf =
    (if pos < tx_buf_len then
       if unat pos + TC6_CHUNK_BUF_SIZE \<le> length buf then
         Option.bind (process_tx g (sub_at (unat pos) TC6_CHUNK_BUF_SIZE buf)) (\<lambda>(result, g, chunk).
           if result = 0 then Some (pos, g, buf)
           else mk_data_tx_loop tx_buf_len (pos + result) g (put_at (unat pos) chunk buf))
       else None
     else Some (pos, g, buf))"

declare mk_data_tx_loop.simps [code]

definition mk_data_tx :: "tc6 \<Rightarrow> bytes \<Rightarrow> u16 \<Rightarrow> (u16 \<times> tc6 \<times> bytes) option" where
  "mk_data_tx g buf tx_buf_len = mk_data_tx_loop tx_buf_len 0 g buf"

section \<open>Frames and positions in them\<close>

definition segs :: "qtxeth \<Rightarrow> TC6_RawTxSegment list" where
  "segs e = take (unat (segCount e)) (ethSegs e)"

definition seg_data :: "TC6_RawTxSegment \<Rightarrow> bytes" where
  "seg_data s = take (unat (segLen s)) (pEth s)"

text \<open>The Ethernet frame an entry stands for.\<close>

definition frame :: "qtxeth \<Rightarrow> bytes" where
  "frame e = concat (map seg_data (segs e))"

text \<open>
  What the driver relies on: at least one segment, no empty segment, every segment backed by
  memory, and a total length that is the sum of the segment lengths.
\<close>

definition wf_entry :: "qtxeth \<Rightarrow> bool" where
  "wf_entry e \<longleftrightarrow> 0 < unat (segCount e) \<and> unat (segCount e) \<le> length (ethSegs e) \<and>
     length (ethSegs e) \<le> TC6_TX_ETH_MAX_SEGMENTS \<and>
     list_all (\<lambda>s. 0 < unat (segLen s) \<and> unat (segLen s) \<le> length (pEth s)) (segs e) \<and>
     unat (totalLen e) = length (frame e)"

text \<open>
  Segment index and offset that stand for position \<open>o\<close> of the frame; at the end of the frame the
  loop has wrapped to the first segment.
\<close>

definition seg_at :: "qtxeth \<Rightarrow> nat \<Rightarrow> nat \<Rightarrow> nat \<Rightarrow> bool" where
  "seg_at e p sc so \<longleftrightarrow>
     (if p = length (frame e) then sc = 0 \<and> so = 0
      else sc < length (segs e) \<and> so < length (seg_data (segs e ! sc)) \<and>
           p = length (concat (map seg_data (take sc (segs e)))) + so)"

lemma wf_entryD:
  assumes "wf_entry e"
  shows "segs e \<noteq> []" "length (segs e) = unat (segCount e)" "length (segs e) \<le> 8"
    "\<And>i. i < length (segs e) \<Longrightarrow> segs e ! i = ethSegs e ! i \<and> i < length (ethSegs e) \<and>
       0 < unat (segLen (segs e ! i)) \<and> unat (segLen (segs e ! i)) \<le> length (pEth (segs e ! i))"
    "\<And>i. i < length (segs e) \<Longrightarrow> length (seg_data (segs e ! i)) = unat (segLen (segs e ! i))"
    "unat (totalLen e) = length (frame e)" "0 < length (frame e)"
proof -
  from assms show 1: "segs e \<noteq> []" "length (segs e) = unat (segCount e)" "length (segs e) \<le> 8"
    by (auto simp: wf_entry_def segs_def)
  show 2: "segs e ! i = ethSegs e ! i \<and> i < length (ethSegs e) \<and>
       0 < unat (segLen (segs e ! i)) \<and> unat (segLen (segs e ! i)) \<le> length (pEth (segs e ! i))"
    if "i < length (segs e)" for i
    using assms that 1(2) unfolding wf_entry_def list_all_length by (auto simp: segs_def)
  show 3: "length (seg_data (segs e ! i)) = unat (segLen (segs e ! i))" if "i < length (segs e)" for i
  proof -
    have "unat (segLen (segs e ! i)) \<le> length (pEth (segs e ! i))" using 2 [OF that] by blast
    then show ?thesis by (simp add: seg_data_def)
  qed
  show "unat (totalLen e) = length (frame e)" using assms by (simp add: wf_entry_def)
  obtain s ss where "segs e = s # ss" using 1(1) by (cases "segs e") auto
  moreover from 2 [of 0] 3 [of 0] have "0 < length (seg_data (segs e ! 0))"
    using 1(1) by (metis length_greater_0_conv)
  ultimately show "0 < length (frame e)"
    by (simp add: frame_def)
qed

lemma concat_split_at:
  assumes "i < length xs"
  shows "concat (map f xs) = concat (map f (take i xs)) @ f (xs ! i) @ concat (map f (drop (Suc i) xs))"
  using assms by (subst id_take_nth_drop [OF assms]) simp

lemma seg_at_0: "wf_entry e \<Longrightarrow> seg_at e 0 0 0"
proof -
  assume e: "wf_entry e"
  then have "0 < length (segs e)" using wf_entryD(1) by auto
  moreover from wf_entryD(4,5) [OF e this] have "0 < length (seg_data (segs e ! 0))"
    by metis
  ultimately show ?thesis
    using wf_entryD(7) [OF e] by (auto simp: seg_at_def)
qed

text \<open>Reading \<open>k\<close> bytes inside the current segment reads the frame at the current position.\<close>

lemma seg_read:
  assumes "wf_entry e" "seg_at e p sc so" "p < length (frame e)" "so + k \<le> unat (segLen (ethSegs e ! sc))"
  shows "sub_at so k (pEth (ethSegs e ! sc)) = sub_at p k (frame e)"
proof -
  have sc: "sc < length (segs e)" "p = length (concat (map seg_data (take sc (segs e)))) + so"
    using assms(2,3) by (auto simp: seg_at_def split: if_splits)
  note d = wf_entryD(4) [OF assms(1) sc(1)]
  have "frame e = concat (map seg_data (take sc (segs e))) @ seg_data (segs e ! sc)
      @ concat (map seg_data (drop (Suc sc) (segs e)))"
    unfolding frame_def by (rule concat_split_at [OF sc(1)])
  then have "sub_at p k (frame e) = take k (drop so (seg_data (segs e ! sc))
      @ concat (map seg_data (drop (Suc sc) (segs e))))"
    using sc(2) wf_entryD(5) [OF assms(1) sc(1)] assms(4) d by (simp add: sub_at_def)
  also have "\<dots> = take k (drop so (seg_data (ethSegs e ! sc)))"
    using assms(4) d wf_entryD(5) [OF assms(1) sc(1)] by simp
  also have "\<dots> = take k (drop so (pEth (ethSegs e ! sc)))"
    using assms(4) by (simp add: seg_data_def drop_take)
  finally show ?thesis by (simp add: sub_at_def)
qed

text \<open>Advancing inside the segment, and advancing to the next one.\<close>

lemma seg_at_inside:
  assumes "wf_entry e" "seg_at e p sc so" "p < length (frame e)" "so + k < unat (segLen (ethSegs e ! sc))"
  shows "seg_at e (p + k) sc (so + k)"
proof -
  have sc: "sc < length (segs e)" "p = length (concat (map seg_data (take sc (segs e)))) + so"
    using assms(2,3) by (auto simp: seg_at_def split: if_splits)
  have "length (frame e) \<ge> length (concat (map seg_data (take sc (segs e)))) + length (seg_data (segs e ! sc))"
    unfolding frame_def by (subst concat_split_at [OF sc(1)]) simp
  with sc assms(4) wf_entryD(4,5) [OF assms(1) sc(1)] show ?thesis
    by (auto simp: seg_at_def)
qed

lemma seg_at_next:
  assumes "wf_entry e" "seg_at e p sc so" "p < length (frame e)" "so + k = unat (segLen (ethSegs e ! sc))"
  shows "p + k \<le> length (frame e)"
    and "seg_at e (p + k) (if Suc sc = unat (segCount e) then 0 else Suc sc) 0"
    and "Suc sc \<noteq> unat (segCount e) \<Longrightarrow> p + k < length (frame e)"
proof -
  have sc: "sc < length (segs e)" "p = length (concat (map seg_data (take sc (segs e)))) + so"
    using assms(2,3) by (auto simp: seg_at_def split: if_splits)
  note d = wf_entryD(4,5) [OF assms(1) sc(1)] and n = wf_entryD(2) [OF assms(1)]
  have fr: "frame e = concat (map seg_data (take (Suc sc) (segs e))) @ concat (map seg_data (drop (Suc sc) (segs e)))"
    by (simp add: frame_def flip: concat_append map_append)
  have pk: "p + k = length (concat (map seg_data (take (Suc sc) (segs e))))"
    using sc assms(4) d by (simp add: take_Suc_conv_app_nth)
  show "p + k \<le> length (frame e)" using fr pk by simp
  have last: "length (frame e) = p + k" if "Suc sc = unat (segCount e)"
    using that fr pk n by simp
  show less: "p + k < length (frame e)" if "Suc sc \<noteq> unat (segCount e)"
  proof -
    from that sc n have Suc: "Suc sc < length (segs e)" by simp
    have "0 < length (seg_data (segs e ! Suc sc))"
      using wf_entryD(4,5) [OF assms(1) Suc] by metis
    moreover have "length (concat (map seg_data (drop (Suc sc) (segs e)))) \<ge> length (seg_data (segs e ! Suc sc))"
      using Suc by (subst Cons_nth_drop_Suc [symmetric]) simp_all
    ultimately have "0 < length (concat (map seg_data (drop (Suc sc) (segs e))))" by linarith
    then show ?thesis unfolding fr pk length_append by linarith
  qed
  show "seg_at e (p + k) (if Suc sc = unat (segCount e) then 0 else Suc sc) 0"
  proof (cases "Suc sc = unat (segCount e)")
    case True
    then show ?thesis using last by (simp add: seg_at_def)
  next
    case False
    then have "Suc sc < length (segs e)" using sc n by simp
    moreover from wf_entryD(4,5) [OF assms(1) this] have "0 < length (seg_data (segs e ! Suc sc))"
      by metis
    ultimately show ?thesis
      using False less [OF False] pk by (simp add: seg_at_def)
  qed
qed

lemma put_at_append:
  "off + length xs + length ys \<le> length b \<Longrightarrow>
   put_at (off + length xs) ys (put_at off xs b) = put_at off (xs @ ys) b"
proof -
  assume le: "off + length xs + length ys \<le> length b"
  then have "min (length b) off = off" by simp
  with le show ?thesis by (simp add: put_at_def ac_simps)
qed

text \<open>The copy loop ends and copies the next bytes of the frame.\<close>

lemma copy_segs_correct:
  assumes "wf_entry e" "seg_at e p (unat sc) (unat so)" "unat pos \<le> unat limit"
    and "p + (unat limit - unat pos) \<le> length (frame e)"
    and "base + unat limit \<le> length b"
  shows "\<exists>sc' so'. copy_segs e base limit pos sc so b =
      Some (limit, sc', so', put_at (base + unat pos) (sub_at p (unat limit - unat pos) (frame e)) b)
    \<and> seg_at e (p + (unat limit - unat pos)) (unat sc') (unat so')"
  using assms(2-)
proof (induction "unat limit - unat pos" arbitrary: p pos sc so b rule: less_induct)
  case less
  show ?case
  proof (cases "pos < limit")
    case False
    then have "pos = limit" using less.prems(2) by (simp add: word_unat_eq_iff word_less_nat_alt)
    then show ?thesis
      using less.prems by (subst copy_segs.simps) (auto simp: put_at_def)
  next
    case True
    then have lim: "unat pos < unat limit" by (simp add: word_less_nat_alt)
    then have p: "p < length (frame e)" using less.prems(3) by simp
    have sc: "unat sc < length (segs e)" "unat so < length (seg_data (segs e ! unat sc))"
      using less.prems(1) p by (auto simp: seg_at_def split: if_splits)
    note d = wf_entryD(4,5) [OF assms(1) sc(1)] and n = wf_entryD(2,3) [OF assms(1)]
    define seg where "seg = ethSegs e ! unat sc"
    have so: "unat so < unat (segLen seg)" using sc(2) d by (simp add: seg_def)
    define len where "len = (if segLen seg - so > limit - pos then limit - pos else segLen seg - so)"
    have ulen: "unat len = min (unat (segLen seg) - unat so) (unat limit - unat pos)"
      using so lim by (auto simp: len_def word_less_nat_alt unat_u16_sub)
    then have "unat pos + unat len < 65536" "unat so + unat len < 65536"
      using so lim unat_u16_less [of limit] unat_u16_less [of "segLen seg"] by linarith+
    then have pos': "unat (pos + len) = unat pos + unat len" and so': "unat (so + len) = unat so + unat len"
      by (simp_all add: unat_u16_add)
    have rd: "sub_at (unat so) (unat len) (pEth seg) = sub_at p (unat len) (frame e)"
      unfolding seg_def using less.prems(1) p ulen so by (intro seg_read [OF assms(1)]) (auto simp: seg_def)
    define b' where "b' = put_at (base + unat pos) (sub_at p (unat len) (frame e)) b"
    have lb: "length (sub_at p (unat len) (frame e)) = unat len"
      using less.prems(3) ulen by simp
    have b'len: "base + unat limit \<le> length b'"
    proof -
      have "base + unat pos + unat len \<le> length b" using less.prems(4) ulen lim by linarith
      then show ?thesis using less.prems(4) lb by (simp only: b'_def length_put_at)
    qed
    have step: "copy_segs e base limit pos sc so b =
        (if so + len = segLen seg
         then copy_segs e base limit (pos + len) (if sc + 1 = segCount e then 0 else sc + 1) 0 b'
         else copy_segs e base limit (pos + len) sc (so + len) b')"
      using True sc(1) d ulen so rd
      by (subst copy_segs.simps) (auto simp: Let_def seg_def [symmetric] len_def [symmetric] b'_def)
    have dec: "unat limit - unat (pos + len) < unat limit - unat pos"
      using ulen so lim pos' by linarith
    have lenpos: "unat (pos + len) \<le> unat limit" "p + unat len + (unat limit - unat (pos + len)) \<le> length (frame e)"
      using ulen lim pos' less.prems(3) by linarith+
    have fin: "put_at (base + unat (pos + len)) (sub_at (p + unat len) (unat limit - unat (pos + len)) (frame e)) b'
        = put_at (base + unat pos) (sub_at p (unat limit - unat pos) (frame e)) b"
    proof -
      have "unat limit - unat pos = unat len + (unat limit - unat (pos + len))" using ulen lim pos' by linarith
      then have "sub_at p (unat limit - unat pos) (frame e) = sub_at p (unat len) (frame e)
          @ sub_at (p + unat len) (unat limit - unat (pos + len)) (frame e)"
        by (simp only: sub_at_add)
      then show ?thesis
        using less.prems(4) lb lenpos(1) lenpos(2) pos'
          put_at_append [of "base + unat pos" "sub_at p (unat len) (frame e)"
            "sub_at (p + unat len) (unat limit - unat (pos + len)) (frame e)" b]
        by (simp add: b'_def add.assoc del: length_sub_at) (simp add: min_def)
    qed
    have tot: "p + (unat limit - unat pos) = p + unat len + (unat limit - unat (pos + len))"
      using ulen lim pos' by linarith
    show ?thesis
    proof (cases "so + len = segLen seg")
      case True
      let ?sc = "if sc + 1 = segCount e then 0 else sc + 1"
      have "unat so + unat len = unat (segLen (ethSegs e ! unat sc))"
        using True so' by (metis seg_def)
      note nx = seg_at_next [OF assms(1) less.prems(1) p this]
      have "unat (sc + 1) = Suc (unat sc)" using sc(1) n by (simp add: unat_u8_add)
      then have "unat ?sc = (if Suc (unat sc) = unat (segCount e) then 0 else Suc (unat sc))"
        by (simp add: u8_eq_nat)
      then have "seg_at e (p + unat len) (unat ?sc) (unat (0 :: u16))" using nx(2) by simp
      from less.hyps [OF dec this lenpos b'len] True show ?thesis
        unfolding step fin tot by simp
    next
      case False
      then have "unat so + unat len < unat (segLen (ethSegs e ! unat sc))"
        using ulen so so' by (metis seg_def diff_add_inverse le_neq_implies_less less_imp_le_nat min.cobounded1
            nat_add_left_cancel_le le_add_diff_inverse word_unat_eq_iff)
      from seg_at_inside [OF assms(1) less.prems(1) p this]
      have "seg_at e (p + unat len) (unat sc) (unat (so + len))" by (simp add: so')
      from less.hyps [OF dec this lenpos b'len] False show ?thesis
        unfolding step fin tot by simp
    qed
  qed
qed

section \<open>Headers of data chunks\<close>

text \<open>
  The header of a chunk by its contents: sequence bit, word at which a frame starts, byte at
  which a frame ends, time stamp request.
\<close>

definition hdr_fields :: "u8 \<Rightarrow> nat option \<Rightarrow> nat option \<Rightarrow> u8 \<Rightarrow> bytes" where
  "hdr_fields sq st fin tc =
     [0x80 OR push_bit 6 (sq AND 1),
      0x20 OR (case st of None \<Rightarrow> 0 | Some w \<Rightarrow> 0x10 OR (of_nat w AND 15)),
      (case fin of None \<Rightarrow> 0 | Some x \<Rightarrow> 0x40 OR (of_nat x AND 63)),
      push_bit 6 (tc AND 3)]"

definition tx_hdr :: "u8 \<Rightarrow> nat option \<Rightarrow> nat option \<Rightarrow> u8 \<Rightarrow> bytes" where
  "tx_hdr sq st fin tc = SET_VAL HDR_P (get_parity (hdr_fields sq st fin tc)) (hdr_fields sq st fin tc)"

lemma length_hdr_fields [simp]: "length (hdr_fields sq st fin tc) = 4"
  by (simp add: hdr_fields_def)

lemma length_tx_hdr [simp]: "length (tx_hdr sq st fin tc) = 4"
  by (simp add: tx_hdr_def)

lemma SET_VAL_append: "fst f < length h \<Longrightarrow> SET_VAL f v (h @ p) = SET_VAL f v h @ p"
  by (cases f) (simp add: list_update_append nth_append)

lemma GET_VAL_append: "fst f < length h \<Longrightarrow> GET_VAL f (h @ p) = GET_VAL f h"
  by (cases f) (simp add: nth_append)

lemma get_parity_append: "length h = 4 \<Longrightarrow> get_parity (h @ p) = get_parity h"
  by (simp add: get_parity_def nth_append)

lemma put_at_prefix: "put_at (length h + k) ys (h @ p) = h @ put_at k ys p"
  by (simp add: put_at_def)

lemma MASK_1: "MASK ! 1 = 1" and MASK_2: "MASK ! 2 = 3" and MASK_4: "MASK ! 4 = 15"
  and MASK_6: "MASK ! 6 = 63" and MASK_0: "MASK ! Suc 0 = 1"
  by (simp_all add: MASK_def)

lemmas MASKs = MASK_0 MASK_1 MASK_2 MASK_4 MASK_6

text \<open>The steps of \<open>process_tx\<close> on the header.\<close>

lemma hdr_begin: "length h = 4 \<Longrightarrow> SET_VAL HDR_SEQ sq (SET_VAL HDR_DV 1 (SET_VAL HDR_DNC 1 (CLEAR_HEADER (h @ p))))
    = hdr_fields sq None None 0 @ p"
  by (simp add: CLEAR_HEADER_def put_at_def hdr_fields_def MASKs)

lemma hdr_start: "SET_VAL HDR_SWO v (SET_VAL HDR_SV 1 (hdr_fields sq None fin tc @ p)) = hdr_fields sq (Some (unat v)) fin tc @ p"
  by (simp add: hdr_fields_def MASKs flip: or.assoc)

lemma hdr_tsc: "SET_VAL HDR_TSC tc (hdr_fields sq st fin 0 @ p) = hdr_fields sq st fin tc @ p"
  by (simp add: hdr_fields_def MASKs)

lemma hdr_end: "SET_VAL HDR_EBO v (SET_VAL HDR_EV 1 (hdr_fields sq st None tc @ p)) = hdr_fields sq st (Some (unat v)) tc @ p"
  by (simp add: hdr_fields_def MASKs)

lemma hdr_finish: "SET_VAL HDR_P (get_parity (hdr_fields sq st fin tc @ p)) (hdr_fields sq st fin tc @ p) = tx_hdr sq st fin tc @ p"
  by (simp add: tx_hdr_def SET_VAL_append get_parity_append del: SET_VAL.simps)

lemmas hdr_steps = hdr_begin hdr_start hdr_tsc hdr_end hdr_finish

text \<open>Reading the fields back.\<close>


lemma u8_bits: "n < 8 \<Longrightarrow> n \<in> {0, 1, 2, 3, 4, 5, 6, 7 :: nat}"
  by auto

lemma hdr_byte1:
  fixes x :: u8
  shows "drop_bit 5 (0x20 OR (0x10 OR (x AND 15))) AND 1 = 1" "drop_bit 4 (0x20 OR (0x10 OR (x AND 15))) AND 1 = 1"
    "drop_bit 5 0x20 AND 1 = (1 :: u8)" "drop_bit 4 0x20 AND 1 = (0 :: u8)"
    "(0x20 OR (0x10 OR (x AND 15))) AND 15 = x AND 15"
  by (rule bit_word_eqI; auto simp: bit_simps dest!: u8_bits; fail)+

lemma hdr_byte2:
  fixes x :: u8
  shows "drop_bit 6 (0x40 OR (x AND 63)) AND 1 = 1" "(0x40 OR (x AND 63)) AND 63 = x AND 63"
  by (rule bit_word_eqI; auto simp: bit_simps dest!: u8_bits; fail)+

lemma hdr_byte0:
  fixes x :: u8
  shows "drop_bit 7 (0x80 OR push_bit 6 (x AND 1)) AND 1 = 1" "drop_bit 6 (0x80 OR push_bit 6 (x AND 1)) AND 1 = x AND 1"
proof -
  have "x AND 1 = 0 \<or> x AND 1 = 1" by (simp add: and_one_eq mod_2_eq_odd)
  then show "drop_bit 7 (0x80 OR push_bit 6 (x AND 1)) AND 1 = 1" "drop_bit 6 (0x80 OR push_bit 6 (x AND 1)) AND 1 = x AND 1"
    by (elim disjE; simp)+
qed

lemma of_nat_and_u8: "w < 2 ^ k \<Longrightarrow> k < 8 \<Longrightarrow> unat (of_nat w AND mask k :: u8) = w"
proof -
  assume k: "w < 2 ^ k" "k < 8"
  then have "w < 256" using power_strict_increasing [of k 8 "2 :: nat"] by simp
  with k show ?thesis by (simp add: unat_take_bit_mod unat_u8_of_nat flip: take_bit_eq_mask)
qed

lemma tx_hdr_fields:
  assumes "case st of None \<Rightarrow> True | Some w \<Rightarrow> w < 16" "case fin of None \<Rightarrow> True | Some x \<Rightarrow> x < 64"
  shows "GET_VAL HDR_DNC (tx_hdr sq st fin tc) = 1" "GET_VAL HDR_SEQ (tx_hdr sq st fin tc) = sq AND 1"
    "GET_VAL HDR_DV (tx_hdr sq st fin tc) = 1"
    "GET_VAL HDR_SV (tx_hdr sq st fin tc) = of_bool (st \<noteq> None)"
    "GET_VAL HDR_EV (tx_hdr sq st fin tc) = of_bool (fin \<noteq> None)"
    "st = Some w \<Longrightarrow> unat (GET_VAL HDR_SWO (tx_hdr sq st fin tc)) = w"
    "fin = Some x \<Longrightarrow> unat (GET_VAL HDR_EBO (tx_hdr sq st fin tc)) = x"
    "get_parity (tx_hdr sq st fin tc) = 0"
proof -
  note fs = tx_hdr_def hdr_fields_def MASKs hdr_byte0 hdr_byte1 hdr_byte2
  show "GET_VAL HDR_SEQ (tx_hdr sq st fin tc) = sq AND 1"
    using hdr_byte0(2) [of sq] by (simp add: fs)
  show "GET_VAL HDR_DNC (tx_hdr sq st fin tc) = 1"
    "GET_VAL HDR_DV (tx_hdr sq st fin tc) = 1"
    "GET_VAL HDR_SV (tx_hdr sq st fin tc) = of_bool (st \<noteq> None)"
    "GET_VAL HDR_EV (tx_hdr sq st fin tc) = of_bool (fin \<noteq> None)"
    by (auto simp: fs split: option.splits)
  show "st = Some w \<Longrightarrow> unat (GET_VAL HDR_SWO (tx_hdr sq st fin tc)) = w"
    using assms(1) of_nat_and_u8 [of w 4] by (simp add: fs mask_numeral)
  show "fin = Some x \<Longrightarrow> unat (GET_VAL HDR_EBO (tx_hdr sq st fin tc)) = x"
    using assms(2) of_nat_and_u8 [of x 6] by (simp add: fs mask_numeral)
  show "get_parity (tx_hdr sq st fin tc) = 0"
    unfolding tx_hdr_def by (rule set_parity_odd) (simp_all add: hdr_fields_def bit_0 even_and_iff)
qed

section \<open>Chunks as the MACPHY reads them\<close>

lemma mac_tx_hdr:
  assumes "length p = 64" "case st of None \<Rightarrow> True | Some w \<Rightarrow> w < 16" "case fin of None \<Rightarrow> True | Some x \<Rightarrow> x < 64"
  shows "mac_accept s (tx_hdr sq st fin tc @ p) = chunk_accept st fin p s"
proof -
  note f = tx_hdr_fields [OF assms(2,3), where sq = sq and tc = tc]
  have "fld_opt (GET_VAL HDR_SV (tx_hdr sq st fin tc @ p)) (GET_VAL HDR_SWO (tx_hdr sq st fin tc @ p)) = st"
    "fld_opt (GET_VAL HDR_EV (tx_hdr sq st fin tc @ p)) (GET_VAL HDR_EBO (tx_hdr sq st fin tc @ p)) = fin"
    "GET_VAL HDR_DNC (tx_hdr sq st fin tc @ p) = 1" "GET_VAL HDR_DV (tx_hdr sq st fin tc @ p) = 1"
    "get_parity (tx_hdr sq st fin tc @ p) = 0"
    using f by (auto simp: fld_opt_def GET_VAL_append get_parity_append simp del: GET_VAL.simps)
  with assms(1) show ?thesis
    by (simp add: mac_accept_def del: GET_VAL.simps)
qed

section \<open>One chunk\<close>

text \<open>
  The invariant of the transmit path: the entries of the queue are frames, and the offsets of the
  instance stand for one position inside the frame in front.
\<close>

definition tx_ok :: "tc6 \<Rightarrow> bool" where
  "tx_ok g \<longleftrightarrow> qtxeth_inv (eth_q g) \<and> list_all wf_entry (qtxeth_list (eth_q g)) \<and>
     (case qtxeth_list (eth_q g) of
        [] \<Rightarrow> offsetEth g = 0 \<and> segCurr g = 0 \<and> segOffset g = 0
      | e # _ \<Rightarrow> unat (offsetEth g) < length (frame e) \<and>
          seg_at e (unat (offsetEth g)) (unat (segCurr g)) (unat (segOffset g)))"

text \<open>The frames that wait, the part of the first one that was sent, and what completion reports.\<close>

definition tx_frames :: "tc6 \<Rightarrow> bytes list" where
  "tx_frames g = map frame (qtxeth_list (eth_q g))"

definition tx_part :: "tc6 \<Rightarrow> bytes option" where
  "tx_part g = (if offsetEth g = 0 then None else Some (take (unat (offsetEth g)) (hd (tx_frames g))))"

definition tx_note :: "qtxeth \<Rightarrow> tc6_call list" where
  "tx_note e = (case txCallback e of None \<Rightarrow> []
     | Some f \<Rightarrow> [TxCallback f (pEth (ethSegs e ! 0)) (totalLen e) (priv e)])"

lemma calls_on_tx_eth_done:
  "on_tx_eth_done g (pEth (ethSegs e ! 0)) (totalLen e) (txCallback e) (priv e) = g\<lparr>calls := calls g @ tx_note e\<rparr>"
  by (simp add: on_tx_eth_done_def tx_note_def call_def split: option.splits)

lemma seg_at_end: "seg_at e (length (frame e)) sc so \<Longrightarrow> sc = 0 \<and> so = 0"
  by (simp add: seg_at_def)

lemma round_up_4:
  fixes n :: u16
  assumes "unat n \<le> 64"
  shows "unat (push_bit 2 (drop_bit 2 (n + 3))) = 4 * ((unat n + 3) div 4)"
proof -
  have "unat (n + 3) = unat n + 3" using assms by (simp add: unat_u16_add)
  then have d: "unat (drop_bit 2 (n + 3)) = (unat n + 3) div 4"
    by (simp add: drop_bit_eq_div unat_div)
  have "unat (push_bit 2 (drop_bit 2 (n + 3))) = unat (4 * drop_bit 2 (n + 3))"
    by (simp add: push_bit_eq_mult mult.commute)
  also have "\<dots> = 4 * ((unat n + 3) div 4)"
  proof -
    have "4 * ((unat n + 3) div 4) < 65536" using assms by linarith
    then show ?thesis using d by (simp add: unat_mult_lem [THEN iffD1] unat_word_ariths)
  qed
  finally show ?thesis .
qed

lemma process_tx_idle: "tx_ok g \<Longrightarrow> tx_frames g = [] \<Longrightarrow> process_tx g buf = Some (0, g, buf)"
  by (simp add: process_tx_def tx_ok_def tx_frames_def txf.can_get_iff)

lemma pad_chunk:
  assumes "length d \<le> 64" "length p = 64"
  shows "(if 64 - length d \<noteq> 0 then put_at (length d) (replicate (64 - length d) 0) (put_at 0 d p) else put_at 0 d p)
    = d @ replicate (64 - length d) 0"
  using assms by (simp add: put_at_def)

text \<open>The first half of \<open>process_tx\<close>: header and payload from the frame in front.\<close>

lemma process_tx_copy:
  assumes ok: "tx_ok g" and q: "qtxeth_list (eth_q g) = e # es" and buf: "length buf = 68"
  defines "p \<equiv> unat (offsetEth g)"
  defines "n \<equiv> min 64 (length (frame e) - p)"
  shows "\<exists>sc so. seg_at e (p + n) (unat sc) (unat so) \<and> process_tx g buf =
    Option.bind
      (if p + n = length (frame e)
       then tx_frame_end (g\<lparr>seq_num := seq_num g + 1, segCurr := sc, segOffset := so, offsetEth := of_nat (p + n)\<rparr>)
          e (of_nat n) (p = 0)
          (hdr_fields (seq_num g) (if p = 0 then Some 0 else None) None (if p = 0 then tsc e else 0)
            @ sub_at p n (frame e) @ replicate (64 - n) 0)
       else Some (g\<lparr>seq_num := seq_num g + 1, segCurr := sc, segOffset := so, offsetEth := of_nat (p + n)\<rparr>,
          hdr_fields (seq_num g) (if p = 0 then Some 0 else None) None (if p = 0 then tsc e else 0)
            @ sub_at p n (frame e) @ replicate (64 - n) 0))
      (\<lambda>(g, b). Some (68, g, SET_VAL HDR_P (get_parity b) b))"
proof -
  have wf: "wf_entry e" and p: "p < length (frame e)" "seg_at e p (unat (segCurr g)) (unat (segOffset g))"
    and inv: "qtxeth_inv (eth_q g)"
    using ok q by (auto simp: tx_ok_def p_def)
  have rdy: "qtxeth_stage2_convert_ready (eth_q g)" and fr: "qtxeth_front (eth_q g) = e"
    using inv q txf.can_get_iff [OF inv] txf.abs_get [OF inv] by auto
  have tot: "unat (totalLen e) = length (frame e)" and tot16: "length (frame e) < 65536"
    using wf_entryD(6) [OF wf] unat_u16_less [of "totalLen e"] by auto
  have left: "unat (totalLen e - offsetEth g) = length (frame e) - p"
    using p(1) tot by (simp add: unat_u16_sub p_def)
  define cl :: u16 where "cl = (if unat (totalLen e - offsetEth g) \<le> 64 then totalLen e - offsetEth g else 64)"
  have cl: "unat cl = n" "cl = of_nat n" "n \<le> 64" "p + n \<le> length (frame e)"
    using left p by (auto simp: cl_def n_def word_unat_eq_iff unat_u16_of_nat)
  obtain h r where hr: "buf = h @ r" "length h = 4" "length r = 64"
    using buf that [of "take 4 buf" "drop 4 buf"] by simp
  define H where "H = hdr_fields (seq_num g) (if p = 0 then Some 0 else None) None (if p = 0 then tsc e else 0)"
  have Hl: "length H = 4" by (simp add: H_def)
  have sv: "offsetEth g = 0 \<longleftrightarrow> p = 0" by (simp add: p_def unat_eq_0)
  have hdr: "(if p = 0 then
        if tsc e \<noteq> 0 then SET_VAL HDR_TSC (tsc e) (SET_VAL HDR_SWO 0 (SET_VAL HDR_SV 1 (hdr_fields (seq_num g) None None 0 @ r)))
        else SET_VAL HDR_SWO 0 (SET_VAL HDR_SV 1 (hdr_fields (seq_num g) None None 0 @ r))
      else hdr_fields (seq_num g) None None 0 @ r) = H @ r"
    by (simp add: Let_def hdr_steps H_def del: SET_VAL.simps One_nat_def)
  define d where "d = sub_at p n (frame e)"
  have dl: "length d = n" using cl by (simp add: d_def)
  have "\<exists>sc so. copy_segs e 4 cl 0 (segCurr g) (segOffset g) (H @ r) =
      Some (cl, sc, so, put_at (4 + unat (0 :: u16)) (sub_at p (unat cl - unat (0 :: u16)) (frame e)) (H @ r))
    \<and> seg_at e (p + (unat cl - unat (0 :: u16))) (unat sc) (unat so)"
    using p(2) cl hr Hl by (intro copy_segs_correct [OF wf]) simp_all
  then obtain sc so where cp: "copy_segs e 4 cl 0 (segCurr g) (segOffset g) (H @ r) = Some (cl, sc, so, H @ put_at 0 d r)"
    and at: "seg_at e (p + n) (unat sc) (unat so)"
    using put_at_prefix [of H 0 d r] by (auto simp: cl(1) Hl d_def)
  have pl: "unat (64 - cl) = 64 - n" using cl by (simp add: unat_u16_sub)
  have pad: "(if cl \<noteq> 64 then put_at (4 + unat cl) (replicate (unat (64 - cl)) 0) (H @ put_at 0 d r) else H @ put_at 0 d r)
      = H @ d @ replicate (64 - n) 0"
    using pad_chunk [of d r] put_at_prefix [of H n "replicate (64 - n) 0" "put_at 0 d r"] hr cl(3)
    by (auto simp: dl Hl cl(1) pl word_unat_eq_iff)
  have off: "offsetEth g + cl = of_nat (p + n)" by (simp add: cl(2) p_def)
  have tot': "totalLen e = of_nat (length (frame e))"
    using tot by (metis of_nat_unat ucast_id)
  have cl_eq: "(if unat (of_nat (length (frame e)) - offsetEth g) \<le> 64
      then of_nat (length (frame e)) - offsetEth g else 64) = cl"
    by (simp add: cl_def tot')
  have fin: "of_nat (p + n) = (of_nat (length (frame e)) :: u16) \<longleftrightarrow> p + n = length (frame e)"
    using cl(4) tot tot16 by (simp add: word_unat_eq_iff unat_u16_of_nat del: of_nat_add)
  have "process_tx g buf = Option.bind
      (if p + n = length (frame e)
       then tx_frame_end (g\<lparr>seq_num := seq_num g + 1, segCurr := sc, segOffset := so, offsetEth := of_nat (p + n)\<rparr>)
          e (of_nat n) (p = 0) (H @ d @ replicate (64 - n) 0)
       else Some (g\<lparr>seq_num := seq_num g + 1, segCurr := sc, segOffset := so, offsetEth := of_nat (p + n)\<rparr>,
          H @ d @ replicate (64 - n) 0))
      (\<lambda>(g, b). Some (68, g, SET_VAL HDR_P (get_parity b) b))"
    unfolding process_tx_def hr(1)
    by (simp add: Let_def tot' rdy fr hdr_begin hr(2) hdr cl_eq cp pad off fin sv
        cl(2) [symmetric] del: SET_VAL.simps of_nat_add One_nat_def cong: if_cong)
  with at show ?thesis unfolding H_def d_def by blast
qed

end
