(* ===== verification/Tc6_Rx.thy ===== *)
theory Tc6_Rx
  imports Tc6_State Tc6_Spec
begin

text \<open>
  The receive half of the data path of \<open>tc6.cpp\<close>: \<open>enqueue_rx_spi\<close> checks the footer of every
  received chunk, \<open>process_rx\<close> passes its payload to the integrator, \<open>update_credit_cnt\<close> takes over
  the buffer credits.

  A pointer into the receive buffer is the list of bytes from there on. The bytes that a call of
  \<open>TC6_CB_OnRxEthernetSlice\<close> hands over are in the call itself.
\<close>

section \<open>Receiving chunks\<close>

definition on_rx_slice :: "tc6 \<Rightarrow> bytes \<Rightarrow> u16 \<Rightarrow> u16 \<Rightarrow> bool \<Rightarrow> bool \<Rightarrow> tc6" where
  "on_rx_slice g pBuf offset bufLen rtsa rtsp =
    (let g = (if offset = 0 then g\<lparr>buf_len := 0, ts := 0\<rparr> else g);
         (g, buff, blen) =
           (if rtsa then
              (g\<lparr>ts := push_bit 56 (ucast (pBuf ! 0)) OR push_bit 48 (ucast (pBuf ! 1))
                 OR push_bit 40 (ucast (pBuf ! 2)) OR push_bit 32 (ucast (pBuf ! 3))
                 OR push_bit 24 (ucast (pBuf ! 4)) OR push_bit 16 (ucast (pBuf ! 5))
                 OR push_bit 8 (ucast (pBuf ! 6)) OR ucast (pBuf ! 7)\<rparr>, drop 8 pBuf, bufLen - 8)
            else (g, pBuf, bufLen))
     in call (OnRxEthernetSlice (take (unat blen) buff) offset blen) (g\<lparr>buf_len := buf_len g + blen\<rparr>))"

definition on_rx_done :: "tc6 \<Rightarrow> u16 \<Rightarrow> bool \<Rightarrow> tc6" where
  "on_rx_done g blen mfd =
    (let success = (\<not> mfd \<and> \<not> eth_error g);
         g = g\<lparr>eth_error := False\<rparr>
     in if success
        then call (OnRxEthernetPacket True (buf_len g) (if ts g \<noteq> 0 then Some (ts g) else None)) g
        else call (OnRxEthernetPacket False 0 None) g)"

definition signal_rx_error :: "tc6 \<Rightarrow> TC6_Error_t \<Rightarrow> tc6" where
  "signal_rx_error g err =
     call (OnError err) (g\<lparr>eth_error := True, eth_started := False, offsetRx := 0\<rparr>)"

text \<open>
  \<open>process_rx\<close> reads the footer; \<open>process_rx_frames\<close> is its body for a chunk with data, with the
  positions it has computed.
\<close>

definition process_rx_frames ::
  "tc6 \<Rightarrow> bytes \<Rightarrow> bool \<Rightarrow> u8 \<Rightarrow> bool \<Rightarrow> u8 \<Rightarrow> bool \<Rightarrow> bool \<Rightarrow> bool \<Rightarrow> tc6" where
  "process_rx_frames g buff sv sbo ev ebo mfd rtsa rtsp =
    (let twoFrames = (ebo \<le> sbo);
         (g, len) =
           (if twoFrames then
              let g = on_rx_slice g buff (offsetRx g) (ucast ebo) False False;
                  g = on_rx_done g (offsetRx g + ucast ebo) mfd
              in (g\<lparr>offsetRx := 0\<rparr>, 64 - ucast sbo :: u16)
            else (g, ucast ebo - ucast sbo));
         (g, success) =
           (if \<not> twoFrames \<and> sv \<and> eth_started g then (signal_rx_error g TC6Error_UnexpectedSv, False)
            else (g, True));
         (g, success) =
           (if success \<and> \<not> eth_started g \<and> \<not> eth_error g \<and> \<not> sv
            then (signal_rx_error g TC6Error_UnexpectedDvEv, False) else (g, success));
         success = (if (\<not> sv \<or> twoFrames) \<and> eth_error g then False else success)
     in if success then
          let g = g\<lparr>eth_started := True, eth_error := False\<rparr>;
              g = on_rx_slice g (drop (unat sbo) buff) (offsetRx g) len rtsa rtsp;
              len = (if rtsa then len - 8 else len)
          in if \<not> twoFrames \<and> ev
             then let offset = offsetRx g
                  in on_rx_done (g\<lparr>eth_started := False, offsetRx := 0\<rparr>) (offset + len) mfd
             else g\<lparr>offsetRx := offsetRx g + len\<rparr>
        else g)"

definition process_rx :: "tc6 \<Rightarrow> bytes \<Rightarrow> tc6" where
  "process_rx g buff =
    (let fptr = drop TC6_CHUNK_SIZE buff
     in if GET_VAL FTR_SV fptr \<noteq> 0 \<or> GET_VAL FTR_DV fptr \<noteq> 0 \<or> GET_VAL FTR_EV fptr \<noteq> 0 then
          let sv = (GET_VAL FTR_SV fptr \<noteq> 0);
              sbo = (if sv then GET_VAL FTR_SWO fptr * 4 else 0);
              ev = (GET_VAL FTR_EV fptr \<noteq> 0);
              ebo = (if ev then GET_VAL FTR_EBO fptr + 1 else 64);
              mfd = (GET_VAL FTR_FD fptr \<noteq> 0)
          in process_rx_frames g buff sv sbo ev ebo mfd
               (sv \<and> GET_VAL FTR_RTSA fptr \<noteq> 0) (sv \<and> GET_VAL FTR_RTSP fptr \<noteq> 0)
        else g\<lparr>eth_error := False\<rparr>)"

text \<open>
  One round of the loop of \<open>enqueue_rx_spi\<close> on the memory from the chunk on; the flag says whether
  the loop goes on. Then the loop itself, over the number of chunks left.
\<close>

definition enqueue_rx_chunk :: "tc6 \<Rightarrow> bytes \<Rightarrow> tc6 \<times> bool" where
  "enqueue_rx_chunk g buff =
    (let pFooter = drop TC6_CHUNK_SIZE buff;
         (g, success) =
           (if (pFooter ! 0 = 0 \<and> pFooter ! 1 = 0 \<and> pFooter ! 2 = 0 \<and> pFooter ! 3 = 0) \<or>
               (pFooter ! 0 = 0xFF \<and> pFooter ! 1 = 0xFF \<and> pFooter ! 2 = 0xFF \<and> pFooter ! 3 = 0xFF)
            then (signal_rx_error g TC6Error_NoHardware, False) else (g, True));
         (g, success) =
           (if success \<and> get_parity pFooter \<noteq> 0
            then (signal_rx_error g TC6Error_BadChecksum, False) else (g, success));
         (g, success) =
           (if success \<and> GET_VAL FTR_HDRB pFooter \<noteq> 0
            then (signal_rx_error g TC6Error_BadTxData, False) else (g, success));
         g = g\<lparr>synced := GET_VAL FTR_SYNC pFooter \<noteq> 0\<rparr>;
         (g, success) =
           (if success \<and> \<not> synced g
            then (signal_rx_error g TC6Error_SyncLost, False) else (g, success));
         (g, success) =
           (if success \<and> GET_VAL FTR_FD pFooter \<noteq> 0
            then (call (OnRxEthernetPacket False 0 None) g, False) else (g, success))
     in if success then
          let g = (if \<not> exst_locked g \<and> GET_VAL FTR_EXST pFooter \<noteq> 0
                   then call OnExtendedStatus (g\<lparr>exst_locked := True\<rparr>) else g)
          in (process_rx g buff, True)
        else (g\<lparr>offsetRx := 0, eth_error := False\<rparr>, False))"

fun enqueue_rx_loop :: "nat \<Rightarrow> tc6 \<Rightarrow> bytes \<Rightarrow> tc6" where
  "enqueue_rx_loop 0 g buff = g"
| "enqueue_rx_loop (Suc n) g buff =
     (let (g, success) = enqueue_rx_chunk g buff
      in if success then enqueue_rx_loop n g (drop TC6_CHUNK_BUF_SIZE buff) else g)"

definition enqueue_rx_spi :: "tc6 \<Rightarrow> bytes \<Rightarrow> u16 \<Rightarrow> tc6" where
  "enqueue_rx_spi g buff blen =
    (if blen = 0 \<or> unat blen mod TC6_CHUNK_BUF_SIZE \<noteq> 0 then g
     else enqueue_rx_loop (unat blen div TC6_CHUNK_BUF_SIZE) g buff)"

definition update_credit_cnt :: "tc6 \<Rightarrow> bytes \<Rightarrow> u16 \<Rightarrow> tc6" where
  "update_credit_cnt g buff blen =
    (let pFooter = drop (unat blen - TC6_HEADER_SIZE) buff;
         success = (GET_VAL FTR_HDRB pFooter = 0);
         success = (success \<and> GET_VAL FTR_SYNC pFooter \<noteq> 0)
     in if success then g\<lparr>txc := GET_VAL FTR_TXC pFooter, rca := GET_VAL FTR_RCA pFooter\<rparr> else g)"

end
