(* ===== verification/Tc6_Core.thy ===== *)
theory Tc6_Core
  imports Tc6_Tx Tc6_Rx "HOL-Library.While_Combinator"
begin

text \<open>
  The service loop and the public functions of \<open>tc6.cpp\<close>: register access, the control and the data
  service, the SPI interrupt, sending frames, reset.

  The SPI driver is the integrator's \<open>TC6_CB_OnSpiTransaction\<close>, a parameter here: applied to the state
  of the hardware and the bytes to send it refuses the transaction, starts it (the interrupt calls
  \<open>TC6_SpiBufferDone\<close> later, \<open>spi_interrupt\<close>), or finishes it at once with the bytes received, as the
  driver of this repository does. Calls that the integrator's callbacks make back into the driver
  are not part of a call; they are calls of their own.
\<close>

section \<open>SPI transactions\<close>

datatype spi_outcome = Spi_Refused | Spi_Started | Spi_Finished bytes

type_synonym 'h spi = "'h \<Rightarrow> bytes \<Rightarrow> spi_outcome \<times> 'h"

definition TC6_SpiBufferDone :: "tc6 \<Rightarrow> bool \<Rightarrow> tc6" where
  "TC6_SpiBufferDone g success =
    (let g = g\<lparr>intContext := True\<rparr>;
         g = (if \<not> success then signal_rx_error g TC6Error_SpiError else g);
         g = (case currentOp g of
                SPI_OP_DATA \<Rightarrow>
                  if \<not> qspibuf_stage2_int_ready (qSpi g) then g
                  else let entry = sp_buffer (qSpi g) ! qspibuf_stage2_int_ptr (qSpi g);
                           g = update_credit_cnt g (rxBuff entry) (sp_length entry)
                       in g\<lparr>qSpi := qspibuf_stage2_int_done (qSpi g)\<rparr>
              | SPI_OP_REG \<Rightarrow>
                  let g = (if regop_stage3_int_ready (regop_q g)
                           then g\<lparr>regop_q := regop_stage3_int_done (regop_q g)\<rparr> else g)
                  in if regop_stage6_int_ready (regop_q g)
                     then g\<lparr>regop_q := regop_stage6_int_done (regop_q g)\<rparr> else g
              | SPI_OP_INVALID \<Rightarrow> g)
     in call OnNeedService (g\<lparr>currentOp := SPI_OP_INVALID, intContext := False\<rparr>))"

text \<open>What the SPI hardware writes: the receive buffer of the entry at index \<open>i\<close>.\<close>

definition store_data_rx :: "nat \<Rightarrow> bytes \<Rightarrow> tc6 \<Rightarrow> tc6" where
  "store_data_rx i rx g =
     g\<lparr>qSpi := (qSpi g)\<lparr>sp_buffer := (sp_buffer (qSpi g))
        [i := (sp_buffer (qSpi g) ! i)\<lparr>rxBuff := put_at 0 rx (rxBuff (sp_buffer (qSpi g) ! i))\<rparr>]\<rparr>\<rparr>"

definition store_reg_rx :: "nat \<Rightarrow> bytes \<Rightarrow> tc6 \<Rightarrow> tc6" where
  "store_reg_rx i rx g =
     g\<lparr>regop_q := (regop_q g)\<lparr>rg_buffer := (rg_buffer (regop_q g))
        [i := (rg_buffer (regop_q g) ! i)\<lparr>rx_buf := put_at 0 rx (rx_buf (rg_buffer (regop_q g) ! i))\<rparr>]\<rparr>\<rparr>"

definition OnSpiTransaction :: "'h spi \<Rightarrow> bytes \<Rightarrow> (bytes \<Rightarrow> tc6 \<Rightarrow> tc6) \<Rightarrow> tc6 \<Rightarrow> 'h \<Rightarrow> bool \<times> tc6 \<times> 'h" where
  "OnSpiTransaction spi pTx store g h =
    (case spi h pTx of
       (Spi_Refused, h) \<Rightarrow> (False, g, h)
     | (Spi_Started, h) \<Rightarrow> (True, g, h)
     | (Spi_Finished rx, h) \<Rightarrow> (True, TC6_SpiBufferDone (store rx g) True, h))"

text \<open>
  The driver of the repository, \<open>TC6_Io::spiTransaction\<close>: the bytes to send are copied to the receive
  buffer, where \<open>_spi.transfer\<close> (the device \<open>dev\<close>, a parameter) replaces them by the bytes received; then
  \<open>TC6_CB_OnSpiTransaction\<close> calls \<open>TC6_SpiBufferDone\<close>.
\<close>

definition TC6_Io_spiTransaction :: "('h \<Rightarrow> bytes \<Rightarrow> bytes \<times> 'h) \<Rightarrow> 'h spi" where
  "TC6_Io_spiTransaction dev h pTx =
    (let (answer, h) = dev h pTx in (Spi_Finished (put_at 0 (take (length pTx) answer) pTx), h))"

text \<open>The interrupt at the end of a transaction that was started.\<close>

definition spi_interrupt :: "bool \<Rightarrow> bytes \<Rightarrow> tc6 \<Rightarrow> tc6" where
  "spi_interrupt success rx g =
    (case currentOp g of
       SPI_OP_DATA \<Rightarrow> TC6_SpiBufferDone (store_data_rx (qspibuf_stage2_int_ptr (qSpi g)) rx g) success
     | SPI_OP_REG \<Rightarrow>
         TC6_SpiBufferDone (store_reg_rx (if regop_stage3_int_ready (regop_q g)
            then regop_stage3_int_ptr (regop_q g) else regop_stage6_int_ptr (regop_q g)) rx g) success
     | SPI_OP_INVALID \<Rightarrow> g)"

definition spiTransaction ::
  "'h spi \<Rightarrow> bytes \<Rightarrow> (bytes \<Rightarrow> tc6 \<Rightarrow> tc6) \<Rightarrow> SpiOp_t \<Rightarrow> tc6 \<Rightarrow> 'h \<Rightarrow> bool \<times> tc6 \<times> 'h" where
  "spiTransaction spi pTx store op g h =
    (if currentOp g = SPI_OP_INVALID then
       let (success, g, h) = OnSpiTransaction spi pTx store (g\<lparr>currentOp := op\<rparr>) h
       in (success, if \<not> success then g\<lparr>currentOp := SPI_OP_INVALID\<rparr> else g, h)
     else (False, g, h))"

section \<open>Register access\<close>

text \<open>The request for one register, in a cleared buffer.\<close>

definition ctrl_req :: "bool \<Rightarrow> bool \<Rightarrow> u32 \<Rightarrow> u32 \<Rightarrow> u16 \<times> bytes" where
  "ctrl_req secur write addr value =
    (let zero = replicate TC6_CNTRL_BUF_SIZE 0
     in if secur then mk_secure_ctrl_req write False addr 1 [value] zero (of_nat TC6_CNTRL_BUF_SIZE)
        else mk_ctrl_req write False addr 1 [value] zero (of_nat TC6_CNTRL_BUF_SIZE))"

definition accessRegisters ::
  "tc6 \<Rightarrow> register_op_type \<Rightarrow> u32 \<Rightarrow> u32 \<Rightarrow> bool \<Rightarrow> u32 \<Rightarrow> nat option \<Rightarrow> nat \<Rightarrow> bool \<times> tc6" where
  "accessRegisters g op addr value secur msk cb tg =
    (let success = (regop_stage1_enqueue_ready (regop_q g) \<and> op \<noteq> REGISTER_OP_INVALLID);
         write = (op = REGISTER_OP_WRITE \<or> op = REGISTER_OP_READWRITE_STAGE2);
         i = regop_stage1_enqueue_ptr (regop_q g);
         reg_op = rg_buffer (regop_q g) ! i
     in if success then
          let (payloadSize, txb) = ctrl_req secur write addr value
          in if payloadSize = 0 then
               (False, call (OnError TC6Error_ControlTxFail)
                 (g\<lparr>regop_q := (regop_q g)\<lparr>rg_buffer := (rg_buffer (regop_q g))[i := reg_op\<lparr>tx_buf := txb\<rparr>]\<rparr>\<rparr>))
             else
               let reg_op = reg_op\<lparr>tx_buf := txb, regAddr := addr, rg_length := payloadSize, regop := op,
                     secure := secur, callback := cb, tag := tg, modifyValue := value, modifyMask := msk\<rparr>;
                   q = (regop_q g)\<lparr>rg_buffer := (rg_buffer (regop_q g))[i := reg_op]\<rparr>
               in (True, call OnNeedService (g\<lparr>regop_q := regop_stage1_enqueue_done q\<rparr>))
        else (False, g))"

definition TC6_ReadRegister :: "tc6 \<Rightarrow> u32 \<Rightarrow> bool \<Rightarrow> nat option \<Rightarrow> nat \<Rightarrow> bool \<times> tc6" where
  "TC6_ReadRegister g addr secur cb tg = accessRegisters g REGISTER_OP_READ addr 0 secur 0 cb tg"

definition TC6_WriteRegister :: "tc6 \<Rightarrow> u32 \<Rightarrow> u32 \<Rightarrow> bool \<Rightarrow> nat option \<Rightarrow> nat \<Rightarrow> bool \<times> tc6" where
  "TC6_WriteRegister g addr value secur cb tg = accessRegisters g REGISTER_OP_WRITE addr value secur 0 cb tg"

definition TC6_ReadModifyWriteRegister ::
  "tc6 \<Rightarrow> u32 \<Rightarrow> u32 \<Rightarrow> u32 \<Rightarrow> bool \<Rightarrow> nat option \<Rightarrow> nat \<Rightarrow> bool \<times> tc6" where
  "TC6_ReadModifyWriteRegister g addr value msk secur cb tg =
     accessRegisters g REGISTER_OP_READWRITE_STAGE1 addr value secur msk cb tg"

datatype MemoryOp_t = MemOp_Write | MemOp_ReadModifyWrite | MemOp_Read

record MemoryMap_t =
  address :: u32
  mvalue :: u32
  mmask :: u32
  mop :: MemoryOp_t
  msecure :: bool

text \<open>The loop ends at the first entry that does not fit into the queue.\<close>

fun TC6_MultipleRegisterAccess :: "tc6 \<Rightarrow> MemoryMap_t list \<Rightarrow> nat option \<Rightarrow> nat \<Rightarrow> u16 \<times> tc6" where
  "TC6_MultipleRegisterAccess g [] cb tg = (0, g)"
| "TC6_MultipleRegisterAccess g (m # pMap) cb tg =
    (let (ok, g) =
       (case mop m of
          MemOp_Write \<Rightarrow> accessRegisters g REGISTER_OP_WRITE (address m) (mvalue m) (msecure m) 0 cb tg
        | MemOp_ReadModifyWrite \<Rightarrow>
            accessRegisters g REGISTER_OP_READWRITE_STAGE1 (address m) (mvalue m) (msecure m) (mmask m) cb tg
        | MemOp_Read \<Rightarrow> accessRegisters g REGISTER_OP_READ (address m) 0 (msecure m) 0 cb tg)
     in if ok then let (t, g) = TC6_MultipleRegisterAccess g pMap cb tg in (1 + t, g) else (0, g))"

section \<open>The control service\<close>

definition modify :: "tc6 \<Rightarrow> u32 \<Rightarrow> bool \<times> tc6" where
  "modify g value =
    (let i = regop_stage4_modify_ptr (regop_q g);
         reg_op = (rg_buffer (regop_q g) ! i)\<lparr>regop := REGISTER_OP_READWRITE_STAGE2\<rparr>;
         val = (value AND NOT (modifyMask reg_op)) OR modifyValue reg_op;
         (len, txb) = ctrl_req (secure reg_op) True (regAddr reg_op) val;
         reg_op = reg_op\<lparr>tx_buf := txb, rg_length := len\<rparr>;
         g = g\<lparr>regop_q := (regop_q g)\<lparr>rg_buffer := (rg_buffer (regop_q g))[i := reg_op]\<rparr>\<rparr>
     in if len \<noteq> 0 then (True, g\<lparr>regop_q := regop_stage4_modify_done (regop_q g)\<rparr>)
        else (False, call (OnError TC6Error_ControlTxFail) g))"

definition read_regop :: "register_operation \<Rightarrow> u16 \<times> u32" where
  "read_regop r =
    (let (num, vals) = read_rx_ctrl_buffer (rx_buf r) (rg_length r) [0xFFFFFFFF] 4 (secure r) in (num, vals ! 0))"

definition control_rx :: "tc6 \<Rightarrow> tc6" where
  "control_rx g =
    (let reg_op = rg_buffer (regop_q g) ! regop_stage4_modify_ptr (regop_q g);
         (num, regVal) = read_regop reg_op;
         (modified, g) =
           (if num = 0 \<or> regop reg_op \<noteq> REGISTER_OP_READWRITE_STAGE1 then (False, g) else modify g regVal)
     in if modified then g
        else g\<lparr>regop_q := regop_stage6_int_done (regop_stage5_send_done (regop_stage4_modify_done (regop_q g)))\<rparr>)"

definition control_event :: "tc6 \<Rightarrow> tc6" where
  "control_event g =
    (let reg_op = rg_buffer (regop_q g) ! regop_stage7_event_ptr (regop_q g);
         (num, regVal) = read_regop reg_op;
         success = (num \<noteq> 0);
         g = g\<lparr>regop_q := regop_stage7_event_done (regop_q g)\<rparr>
     in case callback reg_op of
          Some cb \<Rightarrow> call (RegCallback cb success (regAddr reg_op) regVal (tag reg_op)) g
        | None \<Rightarrow> if \<not> success then call (OnError TC6Error_NoHardware) g else g)"

text \<open>The two transmit branches: a modified value (stage 5) and a new request (stage 2).\<close>

definition reg_tx :: "register_operation \<Rightarrow> bytes" where
  "reg_tx r = take (unat (rg_length r)) (tx_buf r)"

definition control_tx5 :: "'h spi \<Rightarrow> bool \<times> tc6 \<times> 'h \<Rightarrow> bool \<times> tc6 \<times> 'h" where
  "control_tx5 spi s =
    (case s of (sent, g, h) \<Rightarrow>
       if currentOp g = SPI_OP_INVALID \<and> regop_stage5_send_ready (regop_q g) then
         let i = regop_stage5_send_ptr (regop_q g);
             reg_op = rg_buffer (regop_q g) ! i;
             g = g\<lparr>regop_q := regop_stage5_send_done (regop_q g), currentOp := SPI_OP_REG\<rparr>;
             (ok, g, h) = OnSpiTransaction spi (reg_tx reg_op) (store_reg_rx i) g h
         in if ok then (True, g, h)
            else (False, g\<lparr>currentOp := SPI_OP_INVALID, regop_q := regop_stage5_send_undo (regop_q g)\<rparr>, h)
       else s)"

definition control_tx2 :: "'h spi \<Rightarrow> bool \<times> tc6 \<times> 'h \<Rightarrow> bool \<times> tc6 \<times> 'h" where
  "control_tx2 spi s =
    (case s of (sent, g, h) \<Rightarrow>
       if currentOp g = SPI_OP_INVALID \<and> regop_stage2_send_ready (regop_q g) then
         let i = regop_stage2_send_ptr (regop_q g);
             reg_op = rg_buffer (regop_q g) ! i;
             g = g\<lparr>regop_q := regop_stage2_send_done (regop_q g), currentOp := SPI_OP_REG\<rparr>;
             (ok, g, h) = OnSpiTransaction spi (reg_tx reg_op) (store_reg_rx i) g h
         in if ok then (True, g, h)
            else (False, g\<lparr>currentOp := SPI_OP_INVALID, regop_q := regop_stage2_send_undo (regop_q g)\<rparr>, h)
       else s)"

definition serviceControl :: "'h spi \<Rightarrow> tc6 \<Rightarrow> 'h \<Rightarrow> bool \<times> tc6 \<times> 'h" where
  "serviceControl spi g h =
    (if alreadyInControlService g then (False, g, h)
     else
       let g = g\<lparr>alreadyInControlService := True\<rparr>;
           g = while (\<lambda>g. regop_stage4_modify_ready (regop_q g)) control_rx g;
           g = while (\<lambda>g. regop_stage7_event_ready (regop_q g)) control_event g;
           (sentControl, g, h) = control_tx2 spi (control_tx5 spi (False, g, h))
       in (sentControl, g\<lparr>alreadyInControlService := False\<rparr>, h))"

section \<open>The data service\<close>

definition initializeSpiEntry :: "qspibuf \<Rightarrow> qspibuf" where
  "initializeSpiEntry e = e\<lparr>sp_length := 0\<rparr>"

definition getTrail :: "tc6 \<Rightarrow> bool \<Rightarrow> u16" where
  "getTrail g enqueueEmpty =
    (if rca g \<noteq> 0 then ucast (rca g) * of_nat TC6_CHUNK_SIZE
     else if enqueueEmpty then
       if txc g = 0 then of_nat TC6_CHUNK_SIZE else of_nat (TC6_CHUNKS_PER_ISR * TC6_CHUNK_SIZE)
     else 0)"

text \<open>The loop of \<open>addEmptyChunks\<close>, over the number of steps of 64 from 0 to \<open>trail\<close>.\<close>

fun add_empty_loop :: "nat \<Rightarrow> qspibuf \<Rightarrow> qspibuf" where
  "add_empty_loop 0 e = e"
| "add_empty_loop (Suc n) e =
    (if unat (sp_length e) < TC6_SPI_BUF_SIZE then
       add_empty_loop n
         (e\<lparr>txBuff := put_at (unat (sp_length e)) ([0x80, 0, 0, 0] @ replicate TC6_CHUNK_SIZE 0) (txBuff e),
            sp_length := sp_length e + of_nat TC6_CHUNK_BUF_SIZE\<rparr>)
     else e)"

definition addEmptyChunks :: "tc6 \<Rightarrow> qspibuf \<Rightarrow> bool \<Rightarrow> qspibuf" where
  "addEmptyChunks g e enqueueEmpty =
    (let trail = getTrail g enqueueEmpty
     in if trail > 0 then add_empty_loop ((unat trail + TC6_CHUNK_SIZE - 1) div TC6_CHUNK_SIZE) e else e)"

definition max_tx_len :: "tc6 \<Rightarrow> u16" where
  "max_tx_len g =
    (let maxTxLen = ucast (txc g) * of_nat TC6_CHUNK_BUF_SIZE
     in if unat maxTxLen > TC6_SPI_BUF_SIZE then of_nat TC6_SPI_BUF_SIZE else maxTxLen)"

definition serviceData :: "'h spi \<Rightarrow> bool \<Rightarrow> tc6 \<Rightarrow> 'h \<Rightarrow> (bool \<times> tc6 \<times> 'h) option" where
  "serviceData spi sendEmpty g h =
    (if alreadyInDataService g then Some (False, g, h)
     else
       let g = g\<lparr>alreadyInDataService := True\<rparr>
       in if enableData g \<and> currentOp g = SPI_OP_INVALID \<and> qspibuf_stage1_transfer_ready (qSpi g) then
            let i = qspibuf_stage1_transfer_ptr (qSpi g);
                entry = initializeSpiEntry (sp_buffer (qSpi g) ! i)
            in do {
              (len, g, txb) \<leftarrow> mk_data_tx g (txBuff entry) (max_tx_len g);
              let entry = entry\<lparr>txBuff := txb, sp_length := len\<rparr>;
              let enqueueEmpty = (if len \<noteq> 0 then False else sendEmpty);
              let entry = addEmptyChunks g entry (enqueueEmpty \<or> rca g \<noteq> 0);
              let g = g\<lparr>qSpi := (qSpi g)\<lparr>sp_buffer := (sp_buffer (qSpi g))[i := entry]\<rparr>\<rparr>;
              let (dataSent, g, h) =
                (if sp_length entry \<noteq> 0 then
                   let g = g\<lparr>qSpi := qspibuf_stage1_transfer_done (qSpi g)\<rparr>;
                       (ok, g, h) = spiTransaction spi (take (unat (sp_length entry)) (txBuff entry))
                                      (store_data_rx i) SPI_OP_DATA g h
                   in if ok then (True, g, h)
                      else (False, g\<lparr>qSpi := qspibuf_stage1_transfer_undo (qSpi g)\<rparr>, h)
                 else (False, g, h));
              Some (dataSent, g\<lparr>alreadyInDataService := False\<rparr>, h)
            }
          else Some (False, g\<lparr>alreadyInDataService := False\<rparr>, h))"

definition process_data_step :: "tc6 \<Rightarrow> tc6" where
  "process_data_step g =
    (let entry = sp_buffer (qSpi g) ! qspibuf_stage3_process_ptr (qSpi g);
         g = enqueue_rx_spi g (rxBuff entry) (sp_length entry)
     in g\<lparr>qSpi := qspibuf_stage3_process_done (qSpi g)\<rparr>)"

definition processDataRx :: "tc6 \<Rightarrow> tc6" where
  "processDataRx g = while (\<lambda>g. qspibuf_stage3_process_ready (qSpi g)) process_data_step g"

section \<open>Public functions\<close>

definition TC6_Service :: "'h spi \<Rightarrow> bool \<Rightarrow> tc6 \<Rightarrow> 'h \<Rightarrow> (bool \<times> tc6 \<times> 'h) option" where
  "TC6_Service spi interruptLevel g h =
    (if intContext g then Some (True, g, h)
     else case serviceControl spi g h of
       (True, g, h) \<Rightarrow> Some (interruptLevel, g, h)
     | (False, g, h) \<Rightarrow>
         if enableData g then do {
           let g = processDataRx g;
           (sent, g, h) \<leftarrow> serviceData spi (\<not> interruptLevel) g h;
           Some (sent \<or> interruptLevel, processDataRx g, h)
         }
         else Some (interruptLevel, g, h))"

definition TC6_EnableData :: "'h spi \<Rightarrow> bool \<Rightarrow> tc6 \<Rightarrow> 'h \<Rightarrow> (tc6 \<times> 'h) option" where
  "TC6_EnableData spi enable g h =
    (let g = g\<lparr>enableData := enable\<rparr>
     in if enableData g \<and> \<not> intContext g
        then map_option snd (serviceData spi True g h) else Some (g, h))"

definition TC6_GetInstance :: "tc6 \<Rightarrow> u8" where
  "TC6_GetInstance g = inst g"

definition TC6_GetState :: "tc6 \<Rightarrow> u8 \<times> u8 \<times> bool" where
  "TC6_GetState g = (txc g, rca g, synced g)"

text \<open>A frame is enqueued at the next free entry; \<open>pTx\<close> is \<open>None\<close> for \<open>NULL\<close>.\<close>

definition TC6_SendRawEthernetPacket ::
  "'h spi \<Rightarrow> tc6 \<Rightarrow> 'h \<Rightarrow> bytes option \<Rightarrow> u16 \<Rightarrow> u8 \<Rightarrow> nat option \<Rightarrow> nat \<Rightarrow> (bool \<times> tc6 \<times> 'h) option" where
  "TC6_SendRawEthernetPacket spi g h pTx len ts_capture cb tg =
    (case pTx of
       None \<Rightarrow> Some (False, g, h)
     | Some p \<Rightarrow>
         if len \<noteq> 0 \<and> enableData g \<and> qtxeth_stage1_enqueue_ready (eth_q g) then
           let i = qtxeth_stage1_enqueue_ptr (eth_q g);
               old = tx_buffer (eth_q g) ! i;
               entry = old\<lparr>ethSegs := (ethSegs old)[0 := \<lparr>pEth = p, segLen = len\<rparr>], totalLen := len,
                           segCount := 1, tsc := ts_capture, txCallback := cb, priv := tg\<rparr>;
               g = g\<lparr>eth_q := qtxeth_put entry (eth_q g)\<rparr>
           in if \<not> intContext g
              then map_option (\<lambda>(_, g, h). (True, g, h)) (serviceData spi False g h)
              else Some (True, g, h)
         else Some (False, g, h))"

text \<open>
  The segments that \<open>TC6_GetRawSegments\<close> gives out are those of the next free entry (\<open>None\<close> if there
  is none); the integrator fills them in (\<open>fill_segments\<close>) before it sends them.
\<close>

definition TC6_GetRawSegments :: "tc6 \<Rightarrow> (nat \<times> TC6_RawTxSegment list) option" where
  "TC6_GetRawSegments g =
    (if enableData g \<and> qtxeth_stage1_enqueue_ready (eth_q g)
     then Some (TC6_TX_ETH_MAX_SEGMENTS, ethSegs (tx_buffer (eth_q g) ! qtxeth_stage1_enqueue_ptr (eth_q g)))
     else None)"

definition fill_segments :: "TC6_RawTxSegment list \<Rightarrow> tc6 \<Rightarrow> tc6" where
  "fill_segments ss g =
    (let i = qtxeth_stage1_enqueue_ptr (eth_q g);
         old = tx_buffer (eth_q g) ! i
     in g\<lparr>eth_q := (eth_q g)\<lparr>tx_buffer := (tx_buffer (eth_q g))[i := old\<lparr>ethSegs := ss\<rparr>]\<rparr>\<rparr>)"

definition TC6_SendRawEthernetSegments ::
  "'h spi \<Rightarrow> tc6 \<Rightarrow> 'h \<Rightarrow> u8 \<Rightarrow> u16 \<Rightarrow> u8 \<Rightarrow> nat option \<Rightarrow> nat \<Rightarrow> (bool \<times> tc6 \<times> 'h) option" where
  "TC6_SendRawEthernetSegments spi g h segmentCount totLen ts_capture cb tg =
    (if enableData g then
       let old = tx_buffer (eth_q g) ! qtxeth_stage1_enqueue_ptr (eth_q g);
           entry = old\<lparr>segCount := segmentCount, totalLen := totLen, tsc := ts_capture, txCallback := cb, priv := tg\<rparr>;
           g = g\<lparr>eth_q := qtxeth_put entry (eth_q g)\<rparr>
       in if \<not> intContext g
          then map_option (\<lambda>(_, g, h). (True, g, h)) (serviceData spi False g h)
          else Some (True, g, h)
     else Some (False, g, h))"

definition TC6_UnlockExtendedStatus :: "tc6 \<Rightarrow> tc6" where
  "TC6_UnlockExtendedStatus g = g\<lparr>exst_locked := False\<rparr>"

section \<open>Initialisation and reset\<close>

definition spi_zeroed :: qspibuf where
  "spi_zeroed = \<lparr>txBuff = replicate TC6_SPI_BUF_SIZE 0, rxBuff = replicate TC6_SPI_BUF_SIZE 0, sp_length = 0\<rparr>"

definition regop_zeroed :: register_operation where
  "regop_zeroed = \<lparr>tx_buf = replicate TC6_CNTRL_BUF_SIZE 0, rx_buf = replicate TC6_CNTRL_BUF_SIZE 0,
     callback = None, tag = 0, regop = REGISTER_OP_INVALLID, modifyValue = 0, modifyMask = 0, regAddr = 0,
     rg_length = 0, secure = False\<rparr>"

text \<open>\<open>valid\<close> is the array \<open>m_tc6Valid\<close>; the result is the index of the instance taken, if any.\<close>

fun free_index :: "bool list \<Rightarrow> nat option" where
  "free_index [] = None"
| "free_index (v # vs) = (if \<not> v then Some 0 else map_option Suc (free_index vs))"

definition TC6_Init :: "bool list \<Rightarrow> nat \<Rightarrow> (nat \<times> tc6) option \<times> bool list" where
  "TC6_Init valid pGlobalTag =
    (case free_index valid of
       None \<Rightarrow> (None, valid)
     | Some i \<Rightarrow>
         (Some (i, (tc6_zeroed
            (init_qtxeth_queue (replicate TC6_TX_ETH_QSIZE qtxeth_zeroed) (of_nat TC6_TX_ETH_QSIZE))
            (init_qspibuf_queue (replicate SPI_FULL_BUFFERS spi_zeroed) (of_nat SPI_FULL_BUFFERS))
            (init_regop_queue (replicate REG_OP_ARRAY_SIZE regop_zeroed) (of_nat REG_OP_ARRAY_SIZE)))
              \<lparr>inst := of_nat i, magic := TC6_MAGIC, txc := 24, gTag := pGlobalTag\<rparr>),
          valid[i := True]))"

definition reset_tx_step :: "tc6 \<Rightarrow> tc6" where
  "reset_tx_step g =
    (let entry = qtxeth_front (eth_q g);
         g = (case txCallback entry of
                Some f \<Rightarrow> call (TxCallback f (pEth (ethSegs entry ! 0)) (segLen (ethSegs entry ! 0)) (priv entry)) g
              | None \<Rightarrow> g)
     in g\<lparr>eth_q := qtxeth_stage2_convert_done (eth_q g)\<rparr>)"

definition reset_event_step :: "tc6 \<Rightarrow> tc6" where
  "reset_event_step g =
    (let entry = rg_buffer (regop_q g) ! regop_stage7_event_ptr (regop_q g);
         g = (case callback entry of
                Some f \<Rightarrow> call (RegCallback f False (regAddr entry) 0 (tag entry)) g
              | None \<Rightarrow> g)
     in g\<lparr>regop_q := regop_stage7_event_done (regop_q g)\<rparr>)"

text \<open>\<open>TC6_Reset\<close> waits for the end of a transaction; without one, it runs through.\<close>

definition TC6_Reset :: "tc6 \<Rightarrow> tc6 option" where
  "TC6_Reset g =
    (if currentOp g \<noteq> SPI_OP_INVALID then None
     else
       let g = while (\<lambda>g. qtxeth_stage2_convert_ready (eth_q g)) reset_tx_step g;
           q = while regop_stage2_send_ready regop_stage2_send_done (regop_q g);
           q = while regop_stage3_int_ready regop_stage3_int_done q;
           q = while regop_stage4_modify_ready regop_stage4_modify_done q;
           q = while regop_stage5_send_ready regop_stage5_send_done q;
           q = while regop_stage6_int_ready regop_stage6_int_done q;
           g = while (\<lambda>g. regop_stage7_event_ready (regop_q g)) reset_event_step (g\<lparr>regop_q := q\<rparr>);
           g = (if eth_started g then call (OnRxEthernetPacket False 0 None) g else g)
       in Some (g\<lparr>txc := 24, enableData := False, synced := False\<rparr>))"

definition TC6_Destroy :: "nat \<Rightarrow> tc6 \<Rightarrow> bool list \<Rightarrow> (tc6 \<times> bool list) option" where
  "TC6_Destroy i g valid = map_option (\<lambda>g. (g, valid[i := False])) (TC6_Reset g)"

end
