(* ===== verification/Tc6_Regs.thy ===== *)
theory Tc6_Regs
  imports Tc6_Core
begin

text \<open>
  The register settings of the LAN865x, \<open>tc6-regs.cpp\<close>: the contexts, the chain of callbacks that reads and clears the
  status registers, the initialisation of the chip and the public functions. The callbacks run inside of
  \<open>TC6_Service\<close>, so the service call is composed again here with them in place.
\<close>

section \<open>Data\<close>

datatype TC6Regs_Event_t =
    TC6Regs_Event_UnknownError
  | TC6Regs_Event_Transmit_Protocol_Error
  | TC6Regs_Event_Transmit_Buffer_Overflow_Error
  | TC6Regs_Event_Transmit_Buffer_Underflow_Error
  | TC6Regs_Event_Receive_Buffer_Overflow_Error
  | TC6Regs_Event_Loss_of_Framing_Error
  | TC6Regs_Event_Header_Error
  | TC6Regs_Event_Reset_Complete
  | TC6Regs_Event_PHY_Interrupt
  | TC6Regs_Event_Transmit_Timestamp_Capture_Available_A
  | TC6Regs_Event_Transmit_Timestamp_Capture_Available_B
  | TC6Regs_Event_Transmit_Timestamp_Capture_Available_C
  | TC6Regs_Event_Transmit_Frame_Check_Sequence_Error
  | TC6Regs_Event_Control_Data_Protection_Error
  | TC6Regs_Event_RX_Non_Recoverable_Error
  | TC6Regs_Event_TX_Non_Recoverable_Error
  | TC6Regs_Event_FSM_State_Error
  | TC6Regs_Event_SRAM_ECC_Error
  | TC6Regs_Event_Undervoltage
  | TC6Regs_Event_Internal_Bus_Error
  | TC6Regs_Event_TX_Timestamp_Capture_Overflow_A
  | TC6Regs_Event_TX_Timestamp_Capture_Overflow_B
  | TC6Regs_Event_TX_Timestamp_Capture_Overflow_C
  | TC6Regs_Event_TX_Timestamp_Capture_Missed_A
  | TC6Regs_Event_TX_Timestamp_Capture_Missed_B
  | TC6Regs_Event_TX_Timestamp_Capture_Missed_C
  | TC6Regs_Event_MCLK_GEN_Status
  | TC6Regs_Event_gPTP_PA_TS_EG_Status
  | TC6Regs_Event_Extended_Block_Status
  | TC6Regs_Event_SPI_Err_Int
  | TC6Regs_Event_MAC_BMGR_Int
  | TC6Regs_Event_MAC_Int
  | TC6Regs_Event_HMX_Int
  | TC6Regs_Event_GINT_Mask
  | TC6Regs_Event_Chip_Error
  | TC6Regs_Event_Unsupported_Hardware

text \<open>The context of an instance; \<open>pTC6\<close> is the instance it belongs to, \<open>None\<close> for \<open>NULL\<close>.\<close>

record TC6Reg_t =
  mac :: bytes
  pTC6 :: "nat option"
  pTag :: nat
  unlockExtTime :: u32
  readResult :: u32
  nodeId :: u8
  nodeCount :: u8
  burstCount :: u8
  burstTimer :: u8
  chipRev :: u8
  extBlock :: bool
  initialized :: bool
  initDone :: bool
  enablePlca :: bool
  plcaChanged :: bool
  promiscuous :: bool
  txCutThrough :: bool
  rxCutThrough :: bool

text \<open>
  What the code of this component works on: the driver instance, the context \<open>pReg\<close>, the hardware and
  the calls of \<open>TC6Regs_CB_OnEvent\<close> so far, and the flag that the callbacks of the pin functions set.
\<close>

record 'h regs =
  tc :: tc6
  reg :: TC6Reg_t
  hw :: 'h
  events :: "TC6Regs_Event_t list"
  is_dio_a0_op_done :: bool
  is_dio_a1_op_done :: bool

text \<open>The register callbacks of this component, and the function pointers that stand for them.\<close>

datatype reg_cb = OnSoftResetCB_ptr | OnReadId1_ptr | OnReadId2_ptr | OnInitialRegCB_ptr | OnChipResult_ptr
  | OnInitDone_ptr | OnExtendedBlock_ptr | OnClearStatus1_ptr | OnStatus1_ptr | OnClearStatus0_ptr | OnStatus0_ptr
  | TC6_Dio_A0_Callback_ptr | TC6_Dio_A1_Callback_ptr

definition reg_cbs :: "reg_cb list" where
  "reg_cbs = [OnSoftResetCB_ptr, OnReadId1_ptr, OnReadId2_ptr, OnInitialRegCB_ptr, OnChipResult_ptr, OnInitDone_ptr,
     OnExtendedBlock_ptr, OnClearStatus1_ptr, OnStatus1_ptr, OnClearStatus0_ptr, OnStatus0_ptr, TC6_Dio_A0_Callback_ptr,
     TC6_Dio_A1_Callback_ptr]"

fun cb_index :: "reg_cb list \<Rightarrow> reg_cb \<Rightarrow> nat" where
  "cb_index [] c = 0"
| "cb_index (x # xs) c = (if x = c then 0 else Suc (cb_index xs c))"

definition cb_id :: "reg_cb \<Rightarrow> nat" where
  "cb_id c = cb_index reg_cbs c"

definition cb_of :: "nat \<Rightarrow> reg_cb option" where
  "cb_of n = (if n < length reg_cbs then Some (reg_cbs ! n) else None)"

lemma cb_of_cb_id [simp]: "cb_of (cb_id c) = Some c"
  by (cases c) (simp_all add: cb_of_def cb_id_def reg_cbs_def)

definition TC6Regs_CB_OnEvent :: "TC6Regs_Event_t \<Rightarrow> 'h regs \<Rightarrow> 'h regs" where
  "TC6Regs_CB_OnEvent e s = s\<lparr>events := events s @ [e]\<rparr>"

abbreviation (input) CONTROL_PROTECTION :: bool where "CONTROL_PROTECTION \<equiv> True"
abbreviation (input) DELAY_UNLOCK_EXT :: u32 where "DELAY_UNLOCK_EXT \<equiv> 100"

section \<open>Contexts\<close>

text \<open>
  The context of an instance: its own, else the first free one, which is taken. The result is the index into
  \<open>m_reg\<close> (\<open>None\<close> for \<open>NULL\<close>).
\<close>

fun find_context :: "nat option \<Rightarrow> TC6Reg_t list \<Rightarrow> nat option" where
  "find_context p [] = None"
| "find_context p (r # rs) = (if pTC6 r = p then Some 0 else map_option Suc (find_context p rs))"

definition GetContext :: "nat option \<Rightarrow> TC6Reg_t list \<Rightarrow> nat option \<times> TC6Reg_t list" where
  "GetContext p m_reg =
    (case find_context p m_reg of
       Some i \<Rightarrow> (Some i, m_reg)
     | None \<Rightarrow>
         (case find_context None m_reg of
            Some i \<Rightarrow> (Some i, m_reg[i := (m_reg ! i)\<lparr>pTC6 := p\<rparr>])
          | None \<Rightarrow> (None, m_reg)))"

definition TC6Regs_GetInitDone :: "nat option \<Rightarrow> TC6Reg_t list \<Rightarrow> bool \<times> TC6Reg_t list" where
  "TC6Regs_GetInitDone p m_reg =
    (case GetContext p m_reg of
       (Some i, m_reg) \<Rightarrow> (initialized (m_reg ! i) \<and> initDone (m_reg ! i), m_reg)
     | (None, m_reg) \<Rightarrow> (False, m_reg))"

definition TC6Regs_Reinit :: "nat option \<Rightarrow> TC6Reg_t list \<Rightarrow> TC6Reg_t list" where
  "TC6Regs_Reinit p m_reg =
    (case GetContext p m_reg of
       (Some i, m_reg) \<Rightarrow> m_reg[i := (m_reg ! i)\<lparr>initialized := False, initDone := False\<rparr>]
     | (None, m_reg) \<Rightarrow> m_reg)"

definition TC6Regs_SetPlca :: "nat option \<Rightarrow> bool \<Rightarrow> u8 \<Rightarrow> u8 \<Rightarrow> TC6Reg_t list \<Rightarrow> bool \<times> TC6Reg_t list" where
  "TC6Regs_SetPlca p plcaEnable ni nc m_reg =
    (case GetContext p m_reg of
       (Some i, m_reg) \<Rightarrow>
         (True, m_reg[i := (m_reg ! i)\<lparr>enablePlca := plcaEnable, nodeId := ni, nodeCount := nc, plcaChanged := True\<rparr>])
     | (None, m_reg) \<Rightarrow> (False, m_reg))"

definition TC6Regs_GetChipRevision :: "nat option \<Rightarrow> TC6Reg_t list \<Rightarrow> u8 option \<times> TC6Reg_t list" where
  "TC6Regs_GetChipRevision p m_reg =
    (case GetContext p m_reg of
       (Some i, m_reg) \<Rightarrow> (Some (chipRev (m_reg ! i)), m_reg)
     | (None, m_reg) \<Rightarrow> (None, m_reg))"

section \<open>Callbacks of the driver\<close>

text \<open>
  A callback that starts a register access repeats the call, with a service call in between, until the access is
  accepted. \<open>srv\<close> is that service call; inside of a callback it finds the control service already running.
\<close>

type_synonym 'h srv = "tc6 \<Rightarrow> 'h \<Rightarrow> (bool \<times> tc6 \<times> 'h) option"

partial_function (option) enqueue_wait :: "'h srv \<Rightarrow> (tc6 \<Rightarrow> bool \<times> tc6) \<Rightarrow> 'h regs \<Rightarrow> 'h regs option" where
  "enqueue_wait srv access s =
    (let (ok, g) = access (tc s)
     in if ok then Some (s\<lparr>tc := g\<rparr>)
        else Option.bind (srv g (hw s)) (\<lambda>(_, g, h). enqueue_wait srv access (s\<lparr>tc := g, hw := h\<rparr>)))"

declare enqueue_wait.simps [code]

definition OnSoftResetCB :: "bool \<Rightarrow> 'h regs \<Rightarrow> 'h regs" where
  "OnSoftResetCB success s = s"

definition OnReadId1 :: "bool \<Rightarrow> u32 \<Rightarrow> 'h regs \<Rightarrow> 'h regs" where
  "OnReadId1 success value s =
    (let s = s\<lparr>reg := (reg s)\<lparr>initialized := initialized (reg s) \<and> success\<rparr>\<rparr>
     in if success then
          let oui = drop_bit 10 value;
              model = drop_bit 4 value AND 0x3FF
          in if 0x1F0 \<noteq> oui \<or> 0x1B \<noteq> model
             then (TC6Regs_CB_OnEvent TC6Regs_Event_Unsupported_Hardware s)\<lparr>reg := (reg s)\<lparr>initialized := False\<rparr>\<rparr>
             else s
        else s)"

definition OnReadId2 :: "bool \<Rightarrow> u32 \<Rightarrow> 'h regs \<Rightarrow> 'h regs" where
  "OnReadId2 success value s =
    (let s = s\<lparr>reg := (reg s)\<lparr>initialized := initialized (reg s) \<and> success\<rparr>\<rparr>
     in if success then
          let s = s\<lparr>reg := (reg s)\<lparr>chipRev := ucast (value AND 0xF)\<rparr>\<rparr>
          in if chipRev (reg s) = 0
             then (TC6Regs_CB_OnEvent TC6Regs_Event_Unsupported_Hardware s)\<lparr>reg := (reg s)\<lparr>initialized := False\<rparr>\<rparr>
             else s
        else s)"

definition OnInitialRegCB :: "bool \<Rightarrow> 'h regs \<Rightarrow> 'h regs" where
  "OnInitialRegCB success s = s\<lparr>reg := (reg s)\<lparr>initialized := initialized (reg s) \<and> success\<rparr>\<rparr>"

definition OnChipResult :: "bool \<Rightarrow> u32 \<Rightarrow> 'h regs \<Rightarrow> 'h regs" where
  "OnChipResult success value s =
     s\<lparr>reg := (reg s)\<lparr>initialized := initialized (reg s) \<and> success,
                      readResult := (if success then value else 0xFFFFFFFE)\<rparr>\<rparr>"

definition OnInitDone :: "'h spi \<Rightarrow> 'h regs \<Rightarrow> 'h regs option" where
  "OnInitDone spi s =
     map_option (\<lambda>(g, h). s\<lparr>tc := g, hw := h, reg := (reg s)\<lparr>initDone := True\<rparr>\<rparr>) (TC6_EnableData spi True (tc s) (hw s))"

text \<open>The loops over the bits of a status register, and the event for each bit.\<close>

fun report_bits :: "(nat \<Rightarrow> TC6Regs_Event_t) \<Rightarrow> u32 \<Rightarrow> nat list \<Rightarrow> 'h regs \<Rightarrow> 'h regs" where
  "report_bits ev value [] s = s"
| "report_bits ev value (i # is) s =
     report_bits ev value is (if value AND push_bit i 1 \<noteq> 0 then TC6Regs_CB_OnEvent (ev i) s else s)"

definition status0_event :: "nat \<Rightarrow> TC6Regs_Event_t" where
  "status0_event i =
    (if i = 0 then TC6Regs_Event_Transmit_Protocol_Error
     else if i = 1 then TC6Regs_Event_Transmit_Buffer_Overflow_Error
     else if i = 2 then TC6Regs_Event_Transmit_Buffer_Underflow_Error
     else if i = 3 then TC6Regs_Event_Receive_Buffer_Overflow_Error
     else if i = 4 then TC6Regs_Event_Loss_of_Framing_Error
     else if i = 5 then TC6Regs_Event_Header_Error
     else if i = 6 then TC6Regs_Event_Reset_Complete
     else if i = 7 then TC6Regs_Event_PHY_Interrupt
     else if i = 8 then TC6Regs_Event_Transmit_Timestamp_Capture_Available_A
     else if i = 9 then TC6Regs_Event_Transmit_Timestamp_Capture_Available_B
     else if i = 10 then TC6Regs_Event_Transmit_Timestamp_Capture_Available_C
     else if i = 11 then TC6Regs_Event_Transmit_Frame_Check_Sequence_Error
     else if i = 12 then TC6Regs_Event_Control_Data_Protection_Error
     else TC6Regs_Event_UnknownError)"

definition status1_event :: "nat \<Rightarrow> TC6Regs_Event_t" where
  "status1_event i =
    (if i = 0 then TC6Regs_Event_RX_Non_Recoverable_Error
     else if i = 1 then TC6Regs_Event_TX_Non_Recoverable_Error
     else if i = 17 then TC6Regs_Event_FSM_State_Error
     else if i = 18 then TC6Regs_Event_SRAM_ECC_Error
     else if i = 19 then TC6Regs_Event_Undervoltage
     else if i = 20 then TC6Regs_Event_Internal_Bus_Error
     else if i = 21 then TC6Regs_Event_TX_Timestamp_Capture_Overflow_A
     else if i = 22 then TC6Regs_Event_TX_Timestamp_Capture_Overflow_B
     else if i = 23 then TC6Regs_Event_TX_Timestamp_Capture_Overflow_C
     else if i = 24 then TC6Regs_Event_TX_Timestamp_Capture_Missed_A
     else if i = 25 then TC6Regs_Event_TX_Timestamp_Capture_Missed_B
     else if i = 26 then TC6Regs_Event_TX_Timestamp_Capture_Missed_C
     else if i = 27 then TC6Regs_Event_MCLK_GEN_Status
     else if i = 28 then TC6Regs_Event_gPTP_PA_TS_EG_Status
     else if i = 29 then TC6Regs_Event_Extended_Block_Status
     else TC6Regs_Event_UnknownError)"

definition ext_block_event :: "nat \<Rightarrow> TC6Regs_Event_t" where
  "ext_block_event i =
    (if i = 0 then TC6Regs_Event_SPI_Err_Int
     else if i = 1 then TC6Regs_Event_MAC_BMGR_Int
     else if i = 2 then TC6Regs_Event_MAC_Int
     else if i = 3 then TC6Regs_Event_HMX_Int
     else if i = 31 then TC6Regs_Event_GINT_Mask
     else TC6Regs_Event_UnknownError)"

definition OnExtendedBlock :: "bool \<Rightarrow> u32 \<Rightarrow> 'h regs \<Rightarrow> 'h regs" where
  "OnExtendedBlock success value s =
    (if success then report_bits ext_block_event value [0..<32] s
     else TC6Regs_CB_OnEvent TC6Regs_Event_UnknownError s)"

definition OnClearStatus1 :: "'h srv \<Rightarrow> 'h regs \<Rightarrow> 'h regs option" where
  "OnClearStatus1 srv s =
    (if extBlock (reg s)
     then enqueue_wait srv (\<lambda>g. TC6_ReadRegister g 0x000A0087 CONTROL_PROTECTION (Some (cb_id OnExtendedBlock_ptr)) 0)
            (s\<lparr>reg := (reg s)\<lparr>extBlock := False\<rparr>\<rparr>)
     else Some s)"

text \<open>The bit 29 also notes that the extended block status is to be read.\<close>

definition OnStatus1 :: "'h srv \<Rightarrow> bool \<Rightarrow> u32 \<Rightarrow> u32 \<Rightarrow> 'h regs \<Rightarrow> 'h regs option" where
  "OnStatus1 srv success addr value s =
    (let s = s\<lparr>reg := (reg s)\<lparr>extBlock := False\<rparr>\<rparr>
     in if success then
          let s = report_bits status1_event value [0..<32] s;
              s = (if value AND push_bit 29 1 \<noteq> 0 then s\<lparr>reg := (reg s)\<lparr>extBlock := True\<rparr>\<rparr> else s)
          in if value \<noteq> 0
             then enqueue_wait srv (\<lambda>g. TC6_WriteRegister g addr value CONTROL_PROTECTION (Some (cb_id OnClearStatus1_ptr)) 0) s
             else Some s
        else Some (TC6Regs_CB_OnEvent TC6Regs_Event_UnknownError s))"

definition OnClearStatus0 :: "'h srv \<Rightarrow> 'h regs \<Rightarrow> 'h regs option" where
  "OnClearStatus0 srv s =
     enqueue_wait srv (\<lambda>g. TC6_ReadRegister g 0x00000009 CONTROL_PROTECTION (Some (cb_id OnStatus1_ptr)) 0) s"

definition OnStatus0 :: "'h srv \<Rightarrow> bool \<Rightarrow> u32 \<Rightarrow> u32 \<Rightarrow> 'h regs \<Rightarrow> 'h regs option" where
  "OnStatus0 srv success addr value s =
    (if success then
       let s = report_bits status0_event value [0..<32] s
       in if value = 0
          then enqueue_wait srv (\<lambda>g. TC6_ReadRegister g 0x00000009 CONTROL_PROTECTION (Some (cb_id OnStatus1_ptr)) 0) s
          else enqueue_wait srv (\<lambda>g. TC6_WriteRegister g addr value CONTROL_PROTECTION (Some (cb_id OnClearStatus0_ptr)) 0) s
     else Some (TC6Regs_CB_OnEvent TC6Regs_Event_UnknownError s))"

definition TC6_Dio_A0_Callback :: "'h regs \<Rightarrow> 'h regs" where
  "TC6_Dio_A0_Callback s = s\<lparr>is_dio_a0_op_done := True\<rparr>"

definition TC6_Dio_A1_Callback :: "'h regs \<Rightarrow> 'h regs" where
  "TC6_Dio_A1_Callback s = s\<lparr>is_dio_a1_op_done := True\<rparr>"

text \<open>A call through a function pointer. Pointers of other components do not lead back here.\<close>

definition reg_callback :: "'h spi \<Rightarrow> 'h srv \<Rightarrow> nat \<Rightarrow> bool \<Rightarrow> u32 \<Rightarrow> u32 \<Rightarrow> 'h regs \<Rightarrow> 'h regs option" where
  "reg_callback spi srv ptr success addr value s =
    (case cb_of ptr of
       None \<Rightarrow> Some s
     | Some c \<Rightarrow>
         (case c of
            OnSoftResetCB_ptr \<Rightarrow> Some (OnSoftResetCB success s)
          | OnReadId1_ptr \<Rightarrow> Some (OnReadId1 success value s)
          | OnReadId2_ptr \<Rightarrow> Some (OnReadId2 success value s)
          | OnInitialRegCB_ptr \<Rightarrow> Some (OnInitialRegCB success s)
          | OnChipResult_ptr \<Rightarrow> Some (OnChipResult success value s)
          | OnInitDone_ptr \<Rightarrow> OnInitDone spi s
          | OnExtendedBlock_ptr \<Rightarrow> Some (OnExtendedBlock success value s)
          | OnClearStatus1_ptr \<Rightarrow> OnClearStatus1 srv s
          | OnStatus1_ptr \<Rightarrow> OnStatus1 srv success addr value s
          | OnClearStatus0_ptr \<Rightarrow> OnClearStatus0 srv s
          | OnStatus0_ptr \<Rightarrow> OnStatus0 srv success addr value s
          | TC6_Dio_A0_Callback_ptr \<Rightarrow> Some (TC6_Dio_A0_Callback s)
          | TC6_Dio_A1_Callback_ptr \<Rightarrow> Some (TC6_Dio_A1_Callback s)))"

section \<open>The service call with the callbacks of this component\<close>

text \<open>
  \<open>TC6_Service\<close> again, with each register callback run at the place where \<open>serviceControl\<close> makes it. The
  callback \<open>TC6_CB_OnExtendedStatus\<close> of the receive path is a call of its own.
\<close>

definition control_event_cb :: "'h spi \<Rightarrow> 'h regs \<Rightarrow> 'h regs option" where
  "control_event_cb spi s =
    (let reg_op = rg_buffer (regop_q (tc s)) ! regop_stage7_event_ptr (regop_q (tc s));
         (num, regVal) = read_regop reg_op;
         s = s\<lparr>tc := control_event (tc s)\<rparr>
     in case callback reg_op of
          Some ptr \<Rightarrow> reg_callback spi (TC6_Service spi True) ptr (num \<noteq> 0) (regAddr reg_op) regVal s
        | None \<Rightarrow> Some s)"

partial_function (option) event_loop_cb :: "'h spi \<Rightarrow> 'h regs \<Rightarrow> 'h regs option" where
  "event_loop_cb spi s =
    (if regop_stage7_event_ready (regop_q (tc s))
     then Option.bind (control_event_cb spi s) (event_loop_cb spi)
     else Some s)"

declare event_loop_cb.simps [code]

definition serviceControl_cb :: "'h spi \<Rightarrow> 'h regs \<Rightarrow> (bool \<times> 'h regs) option" where
  "serviceControl_cb spi s =
    (if alreadyInControlService (tc s) then Some (False, s)
     else do {
       let g = (tc s)\<lparr>alreadyInControlService := True\<rparr>;
       let g = while (\<lambda>g. regop_stage4_modify_ready (regop_q g)) control_rx g;
       s \<leftarrow> event_loop_cb spi (s\<lparr>tc := g\<rparr>);
       let (sentControl, g, h) = control_tx2 spi (control_tx5 spi (False, tc s, hw s));
       Some (sentControl, s\<lparr>tc := g\<lparr>alreadyInControlService := False\<rparr>, hw := h\<rparr>)
     })"

definition TC6_Service_cb :: "'h spi \<Rightarrow> bool \<Rightarrow> 'h regs \<Rightarrow> (bool \<times> 'h regs) option" where
  "TC6_Service_cb spi interruptLevel s =
    (if intContext (tc s) then Some (True, s)
     else do {
       (sentControl, s) \<leftarrow> serviceControl_cb spi s;
       if sentControl then Some (interruptLevel, s)
       else if enableData (tc s) then do {
         let g = processDataRx (tc s);
         (sent, g, h) \<leftarrow> serviceData spi (\<not> interruptLevel) g (hw s);
         Some (sent \<or> interruptLevel, s\<lparr>tc := processDataRx g, hw := h\<rparr>)
       }
       else Some (interruptLevel, s)
     })"

definition service :: "'h spi \<Rightarrow> 'h regs \<Rightarrow> 'h regs option" where
  "service spi s = map_option snd (TC6_Service_cb spi True s)"

text \<open>
  \<open>while (pReg->initialized && !access) TC6_Service(pTC6, true)\<close>, and the waits
  \<open>while (pReg->initialized && p) TC6_Service(pTC6, true)\<close>.
\<close>

partial_function (option) init_access :: "'h spi \<Rightarrow> (tc6 \<Rightarrow> bool \<times> tc6) \<Rightarrow> 'h regs \<Rightarrow> 'h regs option" where
  "init_access spi access s =
    (if initialized (reg s) then
       let (ok, g) = access (tc s)
       in if ok then Some (s\<lparr>tc := g\<rparr>)
          else Option.bind (service spi (s\<lparr>tc := g\<rparr>)) (init_access spi access)
     else Some s)"

partial_function (option) init_wait :: "'h spi \<Rightarrow> ('h regs \<Rightarrow> bool) \<Rightarrow> 'h regs \<Rightarrow> 'h regs option" where
  "init_wait spi p s =
    (if initialized (reg s) \<and> p s then Option.bind (service spi s) (init_wait spi p) else Some s)"

text \<open>The same loops outside of the initialisation, which end only when the access is accepted.\<close>

partial_function (option) plain_access :: "'h spi \<Rightarrow> ('h regs \<Rightarrow> bool) \<Rightarrow> (tc6 \<Rightarrow> bool \<times> tc6) \<Rightarrow> 'h regs \<Rightarrow> 'h regs option" where
  "plain_access spi done access s =
    (if done s then Some s
     else let (ok, g) = access (tc s)
          in if ok then Some (s\<lparr>tc := g\<rparr>)
             else Option.bind (service spi (s\<lparr>tc := g\<rparr>)) (plain_access spi done access))"

declare init_access.simps [code] init_wait.simps [code] plain_access.simps [code]

definition init_write :: "'h spi \<Rightarrow> u32 \<Rightarrow> u32 \<Rightarrow> bool \<Rightarrow> reg_cb option \<Rightarrow> 'h regs \<Rightarrow> 'h regs option" where
  "init_write spi addr value secur cb =
     init_access spi (\<lambda>g. TC6_WriteRegister g addr value secur (map_option cb_id cb) 0)"

definition init_read :: "'h spi \<Rightarrow> u32 \<Rightarrow> bool \<Rightarrow> reg_cb \<Rightarrow> 'h regs \<Rightarrow> 'h regs option" where
  "init_read spi addr secur cb = init_access spi (\<lambda>g. TC6_ReadRegister g addr secur (Some (cb_id cb)) 0)"

definition TC6_CB_OnExtendedStatus :: "'h spi \<Rightarrow> u32 \<Rightarrow> 'h regs \<Rightarrow> 'h regs option" where
  "TC6_CB_OnExtendedStatus spi now s =
     plain_access spi (\<lambda>_. False) (\<lambda>g. TC6_ReadRegister g 0x00000008 CONTROL_PROTECTION (Some (cb_id OnStatus0_ptr)) 0)
       (s\<lparr>reg := (reg s)\<lparr>unlockExtTime := now\<rparr>\<rparr>)"

section \<open>Reading registers while initialising\<close>

definition ReadReg :: "'h spi \<Rightarrow> u32 \<Rightarrow> 'h regs \<Rightarrow> (bool \<times> u32 \<times> 'h regs) option" where
  "ReadReg spi addr s = do {
     let s = s\<lparr>reg := (reg s)\<lparr>readResult := 0xFFFFFFFF\<rparr>\<rparr>;
     s \<leftarrow> init_read spi addr CONTROL_PROTECTION OnChipResult_ptr s;
     s \<leftarrow> init_wait spi (\<lambda>s. readResult (reg s) = 0xFFFFFFFF) s;
     Some (readResult (reg s) \<noteq> 0xFFFFFFFE, readResult (reg s), s)
   }"

definition ReadIndirectReg :: "'h spi \<Rightarrow> u32 \<Rightarrow> u32 \<Rightarrow> 'h regs \<Rightarrow> (bool \<times> u32 \<times> 'h regs) option" where
  "ReadIndirectReg spi addr msk s = do {
     s \<leftarrow> init_write spi 0x000400D8 (addr AND 0x000F) CONTROL_PROTECTION None s;
     s \<leftarrow> init_write spi 0x000400DA 0x0002 CONTROL_PROTECTION None s;
     let s = s\<lparr>reg := (reg s)\<lparr>readResult := 0xFFFFFFFF\<rparr>\<rparr>;
     s \<leftarrow> init_read spi 0x000400D9 CONTROL_PROTECTION OnChipResult_ptr s;
     s \<leftarrow> init_wait spi (\<lambda>s. readResult (reg s) = 0xFFFFFFFF) s;
     Some (readResult (reg s) \<noteq> 0xFFFFFFFE, readResult (reg s) AND msk, s)
   }"

definition GetSignedVal :: "u32 \<Rightarrow> 8 word" where
  "GetSignedVal val = (if val AND push_bit 4 1 = push_bit 4 1 then ucast (val OR 0xE0) else ucast val)"

text \<open>
  The computations of \<open>InitChip\<close> on 16-bit values: \<open>cfg_or base k off n\<close> is
  \<open>base | ((uint16_t)((int16_t)k + off) << n)\<close> in the 16 bits of \<open>cfgParam\<close>.
\<close>

definition cfg_or :: "u16 \<Rightarrow> u16 \<Rightarrow> 8 word \<Rightarrow> nat \<Rightarrow> u16" where
  "cfg_or base k off n = base OR push_bit n (k + scast off)"

text \<open>One \<open>if (pReg->initialized && Read...(..., &val)) init = f(val)\<close>; otherwise the variable keeps its value.\<close>

definition init_value :: "('h regs \<Rightarrow> (bool \<times> u32 \<times> 'h regs) option) \<Rightarrow> (u32 \<Rightarrow> 'a) \<Rightarrow> 'a \<Rightarrow> 'h regs \<Rightarrow> ('a \<times> 'h regs) option" where
  "init_value read f dflt s =
    (if initialized (reg s) then map_option (\<lambda>(ok, val, s). (if ok then f val else dflt, s)) (read s) else Some (dflt, s))"

definition chip_error :: "'h regs \<Rightarrow> 'h regs" where
  "chip_error s = (TC6Regs_CB_OnEvent TC6Regs_Event_Chip_Error s)\<lparr>reg := (reg s)\<lparr>initialized := False\<rparr>\<rparr>"

definition InitChip :: "'h spi \<Rightarrow> 'h regs \<Rightarrow> 'h regs option" where
  "InitChip spi s = do {
     (ok, val, s) \<leftarrow> ReadIndirectReg spi 0x5 0x40 s;
     let s = (if ok \<and> val = 0 then chip_error s else s);
     (initOffset1, s) \<leftarrow> init_value (ReadIndirectReg spi 0x4 0x1F) GetSignedVal 0 s;
     let s = (if sint initOffset1 < -5 then chip_error s else s);
     (initOffset2, s) \<leftarrow> init_value (ReadIndirectReg spi 0x8 0x1F) GetSignedVal 0 s;
     (initValue3, s) \<leftarrow> init_value (ReadReg spi 0x00040084) (\<lambda>v. v AND 0xFF) 0 s;
     (initValue4, s) \<leftarrow> init_value (ReadReg spi 0x0004008A) (\<lambda>v. v AND 0xFF) 0 s;
     (initValue5, s) \<leftarrow> init_value (ReadReg spi 0x000400AD) (\<lambda>v. v AND 0xFF) 0 s;
     (initValue6, s) \<leftarrow> init_value (ReadReg spi 0x000400AE) (\<lambda>v. v AND 0xFF) 0 s;
     (initValue7, s) \<leftarrow> init_value (ReadReg spi 0x000400AF) (\<lambda>v. v AND 0xFF) 0 s;
     let cfgParam = cfg_or (cfg_or (ucast initValue3 AND 0x000F) 9 initOffset1 10) 14 initOffset1 4;
     s \<leftarrow> init_write spi 0x00040084 (ucast cfgParam) CONTROL_PROTECTION None s;
     let cfgParam = cfg_or (ucast initValue4 AND 0x3FF) 40 initOffset2 10;
     s \<leftarrow> init_write spi 0x0004008A (ucast cfgParam) CONTROL_PROTECTION None s;
     let cfgParam = cfg_or (cfg_or (ucast initValue5 AND 0xC0C0) 5 initOffset1 8) 9 initOffset1 0;
     s \<leftarrow> init_write spi 0x000400AD (ucast cfgParam) CONTROL_PROTECTION None s;
     let cfgParam = cfg_or (cfg_or (ucast initValue6 AND 0xC0C0) 9 initOffset1 8) 14 initOffset1 0;
     s \<leftarrow> init_write spi 0x000400AE (ucast cfgParam) CONTROL_PROTECTION None s;
     let cfgParam = cfg_or (cfg_or (ucast initValue7 AND 0xC0C0) 17 initOffset1 8) 22 initOffset1 0;
     init_write spi 0x000400AF (ucast cfgParam) CONTROL_PROTECTION None s
   }"

section \<open>Initialisation\<close>

text \<open>
  \<open>TC6_Reset\<close> again, with the register callbacks run where it makes them. It makes them before the entry is
  released; a callback that finds the queue full would call the service in the middle of the reset, which is not
  modelled (\<open>None\<close>).
\<close>

definition reset_event_cb :: "'h spi \<Rightarrow> 'h regs \<Rightarrow> 'h regs option" where
  "reset_event_cb spi s = do {
     let entry = rg_buffer (regop_q (tc s)) ! regop_stage7_event_ptr (regop_q (tc s));
     s \<leftarrow> (case callback entry of
            Some ptr \<Rightarrow>
              reg_callback spi (\<lambda>g h. None) ptr False (regAddr entry) 0
                (s\<lparr>tc := call (RegCallback ptr False (regAddr entry) 0 (tag entry)) (tc s)\<rparr>)
          | None \<Rightarrow> Some s);
     Some (s\<lparr>tc := (tc s)\<lparr>regop_q := regop_stage7_event_done (regop_q (tc s))\<rparr>\<rparr>)
   }"

partial_function (option) reset_event_loop_cb :: "'h spi \<Rightarrow> 'h regs \<Rightarrow> 'h regs option" where
  "reset_event_loop_cb spi s =
    (if regop_stage7_event_ready (regop_q (tc s))
     then Option.bind (reset_event_cb spi s) (reset_event_loop_cb spi)
     else Some s)"

declare reset_event_loop_cb.simps [code]

definition TC6_Reset_cb :: "'h spi \<Rightarrow> 'h regs \<Rightarrow> 'h regs option" where
  "TC6_Reset_cb spi s =
    (if currentOp (tc s) \<noteq> SPI_OP_INVALID then None
     else do {
       let g = while (\<lambda>g. qtxeth_stage2_convert_ready (eth_q g)) reset_tx_step (tc s);
       let q = while regop_stage2_send_ready regop_stage2_send_done (regop_q g);
       let q = while regop_stage3_int_ready regop_stage3_int_done q;
       let q = while regop_stage4_modify_ready regop_stage4_modify_done q;
       let q = while regop_stage5_send_ready regop_stage5_send_done q;
       let q = while regop_stage6_int_ready regop_stage6_int_done q;
       s \<leftarrow> reset_event_loop_cb spi (s\<lparr>tc := g\<lparr>regop_q := q\<rparr>\<rparr>);
       let g = (if eth_started (tc s) then call (OnRxEthernetPacket False 0 None) (tc s) else tc s);
       Some (s\<lparr>tc := g\<lparr>txc := 24, enableData := False, synced := False\<rparr>\<rparr>)
     })"

definition TC6_MEMMAP :: "MemoryMap_t list" where
  "TC6_MEMMAP = map (\<lambda>(a, v, sec). \<lparr>address = a, mvalue = v, mmask = 0, mop = MemOp_Write, msecure = sec\<rparr>)
    [(0x00000004, 0x00000026, False),
     (0x00010000, 0x00000000, True), (0x00040091, 0x00009660, True), (0x00040081, 0x00000080, True),
     (0x00010077, 0x00000028, True), (0x00040043, 0x000000FF, True), (0x00040044, 0x0000FFFF, True),
     (0x00040045, 0x00000000, True), (0x00040053, 0x000000FF, True), (0x00040054, 0x0000FFFF, True),
     (0x00040055, 0x00000000, True), (0x00040040, 0x00000002, True), (0x00040050, 0x00000002, True),
     (0x000400E9, 0x00009E50, True), (0x000400F5, 0x00001CF8, True), (0x000400F4, 0x0000C020, True),
     (0x000400F8, 0x00009B00, True), (0x000400F9, 0x00004E53, True), (0x000400B0, 0x00000103, True),
     (0x000400B1, 0x00000910, True), (0x000400B2, 0x00001D26, True), (0x000400B3, 0x0000002A, True),
     (0x000400B4, 0x00000103, True), (0x000400B5, 0x0000070D, True), (0x000400B6, 0x00001720, True),
     (0x000400B7, 0x00000027, True), (0x000400B8, 0x00000509, True), (0x000400B9, 0x00000E13, True),
     (0x000400BA, 0x00001C25, True), (0x000400BB, 0x0000002B, True),
     (0x0000000C, 0x00000100, True), (0x00040081, 0x000000E0, True)]"

partial_function (option) memmap_loop :: "'h spi \<Rightarrow> nat \<Rightarrow> 'h regs \<Rightarrow> 'h regs option" where
  "memmap_loop spi i s =
    (if initialized (reg s) \<and> i < length TC6_MEMMAP then
       let (t, g) = TC6_MultipleRegisterAccess (tc s) (drop i TC6_MEMMAP) (Some (cb_id OnInitialRegCB_ptr)) 0;
           i = i + unat t;
           s = s\<lparr>tc := g\<rparr>
       in Option.bind (if i \<noteq> length TC6_MEMMAP then service spi s else Some s) (memmap_loop spi i)
     else Some s)"

declare memmap_loop.simps [code]

text \<open>The values written: the MAC address in two registers of two layouts, the PLCA settings, \<open>CONFIG0\<close>.\<close>

definition spec_add2_bottom :: "bytes \<Rightarrow> u32" where
  "spec_add2_bottom m = push_bit 24 (ucast (m ! 3)) OR push_bit 16 (ucast (m ! 2)) OR push_bit 8 (ucast (m ! 1)) OR ucast (m ! 0)"

definition spec_add2_top :: "bytes \<Rightarrow> u32" where
  "spec_add2_top m = push_bit 8 (ucast (m ! 5)) OR ucast (m ! 4)"

definition spec_add1_bottom :: "bytes \<Rightarrow> u32" where
  "spec_add1_bottom m = push_bit 24 (ucast (m ! 5)) OR push_bit 16 (ucast (m ! 4)) OR push_bit 8 (ucast (m ! 3)) OR ucast (m ! 2)"

definition config0_value :: "TC6Reg_t \<Rightarrow> u32" where
  "config0_value r = (let v = 0x9026; v = (if txCutThrough r then v OR 0x200 else v) in if rxCutThrough r then v OR 0x100 else v)"

definition HandlePlca :: "'h spi \<Rightarrow> 'h regs \<Rightarrow> 'h regs option" where
  "HandlePlca spi s = do {
     s \<leftarrow> init_write spi 0x00040087 (if enablePlca (reg s) then 0x0083 else 0x8083) CONTROL_PROTECTION (Some OnInitialRegCB_ptr) s;
     if initialized (reg s) \<and> enablePlca (reg s) then do {
       s \<leftarrow> init_write spi 0x0004CA02 (push_bit 8 (ucast (nodeCount (reg s))) OR ucast (nodeId (reg s))) CONTROL_PROTECTION
              (Some OnInitialRegCB_ptr) s;
       s \<leftarrow> init_write spi 0x0004CA05 (push_bit 8 (ucast (burstCount (reg s))) OR ucast (burstTimer (reg s))) CONTROL_PROTECTION
              (Some OnInitialRegCB_ptr) s;
       init_write spi 0x0004CA01 (push_bit 15 1) CONTROL_PROTECTION (Some OnInitialRegCB_ptr) s
     }
     else Some s
   }"

definition DoInitialization :: "'h spi \<Rightarrow> 'h regs \<Rightarrow> 'h regs option" where
  "DoInitialization spi s =
    (if initialized (reg s) then Some s
     else do {
       s \<leftarrow> TC6_Reset_cb spi (s\<lparr>reg := (reg s)\<lparr>initialized := True\<rparr>\<rparr>);
       s \<leftarrow> init_write spi 0x00000003 0x1 False (Some OnSoftResetCB_ptr) s;
       s \<leftarrow> init_write spi 0x00000003 0x1 True (Some OnSoftResetCB_ptr) s;
       s \<leftarrow> init_read spi 0x00000001 False OnReadId1_ptr s;
       let s = s\<lparr>reg := (reg s)\<lparr>chipRev := 0xFF\<rparr>\<rparr>;
       s \<leftarrow> init_read spi 0x000A0094 False OnReadId2_ptr s;
       s \<leftarrow> init_wait spi (\<lambda>s. chipRev (reg s) = 0xFF) s;
       s \<leftarrow> memmap_loop spi 0 s;
       s \<leftarrow> init_write spi 0x000400D0 (if chipRev (reg s) = 1 then 0x5F21 else 0x3F31) CONTROL_PROTECTION (Some OnInitialRegCB_ptr) s;
       s \<leftarrow> (if chipRev (reg s) = 2
             then init_write spi 0x000400E0 0x0000C000 CONTROL_PROTECTION (Some OnInitialRegCB_ptr) s else Some s);
       s \<leftarrow> init_write spi 0x00010024 (spec_add2_bottom (mac (reg s))) CONTROL_PROTECTION (Some OnInitialRegCB_ptr) s;
       s \<leftarrow> init_write spi 0x00010025 (spec_add2_top (mac (reg s))) CONTROL_PROTECTION (Some OnInitialRegCB_ptr) s;
       s \<leftarrow> init_write spi 0x00010022 (spec_add1_bottom (mac (reg s))) CONTROL_PROTECTION (Some OnInitialRegCB_ptr) s;
       s \<leftarrow> init_write spi 0x00010001 (if promiscuous (reg s) then 0x10 else 0) CONTROL_PROTECTION (Some OnInitialRegCB_ptr) s;
       s \<leftarrow> (if initialized (reg s) then InitChip spi s else Some s);
       s \<leftarrow> HandlePlca spi s;
       s \<leftarrow> init_write spi 0x00000004 (config0_value (reg s)) CONTROL_PROTECTION (Some OnInitialRegCB_ptr) s;
       init_write spi 0x00010000 0xC CONTROL_PROTECTION (Some OnInitDone_ptr) s
     })"

section \<open>Public functions\<close>

text \<open>
  \<open>TC6Regs_Init\<close> on the context it found (the state's \<open>reg\<close>), and \<open>TC6Regs_CheckTimers\<close> for one context;
  \<open>now\<close> is \<open>TC6Regs_CB_GetTicksMs()\<close>.
\<close>

definition TC6Regs_Init ::
  "'h spi \<Rightarrow> nat \<Rightarrow> bytes \<Rightarrow> bool \<Rightarrow> u8 \<Rightarrow> u8 \<Rightarrow> u8 \<Rightarrow> u8 \<Rightarrow> bool \<Rightarrow> bool \<Rightarrow> bool \<Rightarrow> 'h regs \<Rightarrow> (bool \<times> 'h regs) option" where
  "TC6Regs_Init spi tg macAddr plca ni nc bc bt prom txct rxct s =
     map_option (\<lambda>s. (initialized (reg s), s))
       (DoInitialization spi (s\<lparr>reg := (reg s)\<lparr>pTag := tg, enablePlca := plca, nodeId := ni, nodeCount := nc, burstCount := bc,
          burstTimer := bt, promiscuous := prom, txCutThrough := txct, rxCutThrough := rxct, mac := take 6 macAddr\<rparr>\<rparr>))"

definition TC6Regs_CheckTimers :: "'h spi \<Rightarrow> u32 \<Rightarrow> 'h regs \<Rightarrow> 'h regs option" where
  "TC6Regs_CheckTimers spi now s = do {
     let s = (if unlockExtTime (reg s) \<noteq> 0 \<and> now - unlockExtTime (reg s) \<ge> DELAY_UNLOCK_EXT
              then s\<lparr>reg := (reg s)\<lparr>unlockExtTime := 0\<rparr>, tc := TC6_UnlockExtendedStatus (tc s)\<rparr> else s);
     s \<leftarrow> DoInitialization spi s;
     if plcaChanged (reg s) then HandlePlca spi (s\<lparr>reg := (reg s)\<lparr>plcaChanged := False\<rparr>\<rparr>) else Some s
   }"

text \<open>The pins. All four functions pass the callback of pin A0.\<close>

definition TC6Regs_EnableDio_A0 :: "'h spi \<Rightarrow> 'h regs \<Rightarrow> 'h regs option" where
  "TC6Regs_EnableDio_A0 spi s =
     plain_access spi is_dio_a0_op_done
       (\<lambda>g. TC6_ReadModifyWriteRegister g 0x000A0088 1 3 CONTROL_PROTECTION (Some (cb_id TC6_Dio_A0_Callback_ptr)) 0)
       (s\<lparr>is_dio_a0_op_done := False\<rparr>)"

definition TC6Regs_ToggleDio_A0 :: "'h spi \<Rightarrow> 'h regs \<Rightarrow> 'h regs option" where
  "TC6Regs_ToggleDio_A0 spi s =
     plain_access spi is_dio_a0_op_done
       (\<lambda>g. TC6_ReadModifyWriteRegister g 0x000A0226 (push_bit 0 1) (push_bit 0 1) CONTROL_PROTECTION (Some (cb_id TC6_Dio_A0_Callback_ptr)) 0)
       (s\<lparr>is_dio_a0_op_done := False\<rparr>)"

definition TC6Regs_EnableDio_A1 :: "'h spi \<Rightarrow> 'h regs \<Rightarrow> 'h regs option" where
  "TC6Regs_EnableDio_A1 spi s =
     plain_access spi is_dio_a1_op_done
       (\<lambda>g. TC6_ReadModifyWriteRegister g 0x000A0088 (push_bit 2 1) 0xC CONTROL_PROTECTION (Some (cb_id TC6_Dio_A0_Callback_ptr)) 0)
       (s\<lparr>is_dio_a1_op_done := False\<rparr>)"

definition TC6Regs_ToggleDio_A1 :: "'h spi \<Rightarrow> 'h regs \<Rightarrow> 'h regs option" where
  "TC6Regs_ToggleDio_A1 spi s =
     plain_access spi is_dio_a1_op_done
       (\<lambda>g. TC6_ReadModifyWriteRegister g 0x000A022C (push_bit 0 1) (push_bit 0 1) CONTROL_PROTECTION (Some (cb_id TC6_Dio_A0_Callback_ptr)) 0)
       (s\<lparr>is_dio_a1_op_done := False\<rparr>)"

end
