(* ===== verification/Tc6_Tx_Stream.thy ===== *)
theory Tc6_Tx_Stream
  imports Tc6_Tx
begin

text \<open>
  Correctness of the transmit path: what one call of \<open>process_tx\<close> does at each position of a
  frame, and that \<open>mk_data_tx\<close> hands the queued frames to the MACPHY unchanged and in order.
\<close>

section \<open>The cases of \<open>process_tx\<close>\<close>

text \<open>The end of a frame, without and with the start of the next frame in the same chunk.\<close>

definition concat_start :: "qtxeth list \<Rightarrow> nat \<Rightarrow> bool \<Rightarrow> bool" where
  "concat_start es n sv \<longleftrightarrow> \<not> sv \<and> es \<noteq> [] \<and> length (frame (hd es)) \<le> TC6_CONCAT_THRESHOLD \<and>
     4 * ((n + 3) div 4) < 64 \<and> length (frame (hd es)) > 64 - 4 * ((n + 3) div 4)"

lemma tx_frame_end_common:
  assumes inv: "qtxeth_inv (eth_q g)" and q: "qtxeth_list (eth_q g) = e # es" and wf: "list_all wf_entry es"
    and n: "0 < n" "n \<le> 64"
  defines "t \<equiv> 4 * ((n + 3) div 4)"
  defines "g' \<equiv> g\<lparr>offsetEth := 0, calls := calls g @ tx_note e, eth_q := qtxeth_stage2_convert_done (eth_q g)\<rparr>"
  shows "qtxeth_inv (eth_q g')" "qtxeth_list (eth_q g') = es"
    and "tx_frame_end g e (of_nat n) sv (hdr_fields sq st None tc @ p) =
     (let b = hdr_fields sq st (Some (n - 1)) tc @ p
      in if concat_start es n sv
         then Option.bind (copy_segs (hd es) (4 + t) (of_nat (64 - t)) 0 (segCurr g) (segOffset g)
                (let b = SET_VAL HDR_SWO (of_nat (t div 4)) (SET_VAL HDR_SV 1 b)
                 in if tsc (hd es) \<noteq> 0 then SET_VAL HDR_TSC (tsc (hd es)) b else b))
              (\<lambda>(copy_pos, sc, so, b). Some (g'\<lparr>offsetEth := copy_pos, segCurr := sc, segOffset := so\<rparr>, b))
         else Some (g', b))"
proof -
  have rdy: "qtxeth_stage2_convert_ready (eth_q g)" using txf.can_get_iff [OF inv] q by simp
  show inv': "qtxeth_inv (eth_q g')" using txf.inv_get [OF inv rdy] by (simp add: g'_def)
  show q': "qtxeth_list (eth_q g') = es" using txf.abs_get [OF inv rdy] q by (simp add: g'_def)
  have rdy': "qtxeth_stage2_convert_ready (eth_q g') \<longleftrightarrow> es \<noteq> []" using txf.can_get_iff [OF inv'] q' by simp
  have fr': "es \<noteq> [] \<Longrightarrow> qtxeth_front (eth_q g') = hd es" using txf.abs_get [OF inv'] rdy' q' by (metis list.sel(1))
  have un: "unat (of_nat n :: u16) = n" using n by (simp add: unat_u16_of_nat)
  then have t: "unat (push_bit 2 (drop_bit 2 (of_nat n + 3 :: u16))) = t"
    using round_up_4 [of "of_nat n"] n by (simp add: t_def)
  have t64: "t \<le> 64" using n unfolding t_def by presburger
  define T where "T = push_bit 2 (drop_bit 2 (of_nat n + 3 :: u16))"
  have T: "unat T = t" by (simp add: T_def t)
  have T': "(64 :: u16) - T = of_nat (64 - t)" "64 - T \<noteq> 0 \<longleftrightarrow> t < 64"
    using T t64 by (auto simp: word_unat_eq_iff unat_u16_sub unat_u16_of_nat)
  have swo: "(ucast (T div 4) :: u8) = of_nat (t div 4)"
  proof -
    have "unat (T div 4) = t div 4" using T by (simp add: unat_div)
    moreover have "unat (ucast (T div 4) :: u8) = unat (T div 4) mod 256"
      by (simp add: unsigned_ucast_eq take_bit_eq_mod)
    ultimately show ?thesis using t64 by (simp add: word_unat_eq_iff unat_u8_of_nat)
  qed
  have ebo: "unat (ucast ((of_nat n :: u16) - 1) :: u8) = n - 1"
    using un n by (simp add: unsigned_ucast_eq take_bit_eq_mod unat_u16_sub)
  have tot: "es \<noteq> [] \<Longrightarrow> unat (totalLen (hd es)) = length (frame (hd es))"
    using wf wf_entryD(6) by (cases es) auto
  have big: "totalLen (hd es) > of_nat (64 - t) \<longleftrightarrow> length (frame (hd es)) > 64 - t" if "es \<noteq> []"
    using tot [OF that] by (simp add: word_less_nat_alt unat_u16_of_nat)
  have cond: "concat_start es n sv \<longleftrightarrow> unat (totalLen (hd es)) \<le> 1024 \<and> T \<noteq> 64 \<and> totalLen (hd es) > of_nat (64 - t)"
    if "\<not> sv" "es \<noteq> []"
    unfolding concat_start_def t_def [symmetric] using tot big T'(2) that by auto
  show "tx_frame_end g e (of_nat n) sv (hdr_fields sq st None tc @ p) = (let b = hdr_fields sq st (Some (n - 1)) tc @ p
      in if concat_start es n sv
         then Option.bind (copy_segs (hd es) (4 + t) (of_nat (64 - t)) 0 (segCurr g) (segOffset g)
                (let b = SET_VAL HDR_SWO (of_nat (t div 4)) (SET_VAL HDR_SV 1 b)
                 in if tsc (hd es) \<noteq> 0 then SET_VAL HDR_TSC (tsc (hd es)) b else b))
              (\<lambda>(copy_pos, sc, so, b). Some (g'\<lparr>offsetEth := copy_pos, segCurr := sc, segOffset := so\<rparr>, b))
         else Some (g', b))"
  proof (cases "\<not> sv \<and> es \<noteq> []")
    case True
    show ?thesis
      unfolding tx_frame_end_def calls_on_tx_eth_done T_def [symmetric]
      using True rdy' fr' cond [of]
      by (simp add: Let_def hdr_end ebo T'(1) T swo g'_def del: SET_VAL.simps One_nat_def)
  next
    case False
    then have "\<not> concat_start es n sv" by (auto simp: concat_start_def)
    with False show ?thesis
      unfolding tx_frame_end_def calls_on_tx_eth_done
      using rdy' by (auto simp add: Let_def hdr_end ebo g'_def simp del: SET_VAL.simps One_nat_def)
  qed
qed

text \<open>The chunk that starts the next frame behind the end of the current one.\<close>

lemma tx_frame_end_concat:
  assumes inv: "qtxeth_inv (eth_q g)" and q: "qtxeth_list (eth_q g) = e # e' # es"
    and wf: "list_all wf_entry (e' # es)" and n: "0 < n" "n \<le> 64" and c: "concat_start (e' # es) n False"
    and seg: "segCurr g = 0" "segOffset g = 0" and d: "length d = n"
  defines "t \<equiv> 4 * ((n + 3) div 4)"
  shows "\<exists>sc so. tx_frame_end g e (of_nat n) False (hdr_fields sq None None 0 @ d @ replicate (64 - n) 0) =
      Some (g\<lparr>calls := calls g @ tx_note e, eth_q := qtxeth_stage2_convert_done (eth_q g),
              offsetEth := of_nat (64 - t), segCurr := sc, segOffset := so\<rparr>,
        hdr_fields sq (Some (t div 4)) (Some (n - 1)) (tsc e') @ d @ replicate (t - n) 0 @ take (64 - t) (frame e'))
    \<and> seg_at e' (64 - t) (unat sc) (unat so)"
proof -
  have t: "n \<le> t" "t < 64" "64 - t < length (frame e')" "t div 4 < 256"
    using c by (auto simp: concat_start_def t_def)
  have wf': "wf_entry e'" using wf by simp
  define b where "b = hdr_fields sq (Some (t div 4)) (Some (n - 1)) (tsc e') @ d @ replicate (64 - n) 0"
  define L :: u16 where "L = of_nat (64 - t)"
  have u: "unat L = 64 - t" "unat (of_nat (t div 4) :: u8) = t div 4"
    using t by (simp_all add: L_def unat_u16_of_nat unat_u8_of_nat del: of_nat_diff)
  have hb: "(let b = SET_VAL HDR_SWO (of_nat (t div 4)) (SET_VAL HDR_SV 1
                (hdr_fields sq None (Some (n - 1)) 0 @ d @ replicate (64 - n) 0))
             in if tsc e' \<noteq> 0 then SET_VAL HDR_TSC (tsc e') b else b) = b"
    using u(2) by (simp add: Let_def hdr_steps b_def del: SET_VAL.simps One_nat_def)
  have "\<exists>sc so. copy_segs e' (4 + t) (L) 0 0 0 b =
      Some (L, sc, so, put_at (4 + t + unat (0 :: u16))
        (sub_at 0 (unat L - unat (0 :: u16)) (frame e')) b)
    \<and> seg_at e' (0 + (unat L - unat (0 :: u16))) (unat sc) (unat so)"
    using t u d n seg_at_0 [OF wf'] by (intro copy_segs_correct [OF wf']) (simp_all add: b_def)
  then obtain sc so where cp: "copy_segs e' (4 + t) (L) 0 0 0 b =
      Some (L, sc, so, put_at (4 + t) (take (64 - t) (frame e')) b)"
    and at: "seg_at e' (64 - t) (unat sc) (unat so)"
    by (auto simp: u(1) sub_at_def)
  have "put_at (4 + t) (take (64 - t) (frame e')) b =
      hdr_fields sq (Some (t div 4)) (Some (n - 1)) (tsc e') @ d @ replicate (t - n) 0 @ take (64 - t) (frame e')"
    using put_at_prefix [of "hdr_fields sq (Some (t div 4)) (Some (n - 1)) (tsc e')" t "take (64 - t) (frame e')"
        "d @ replicate (64 - n) 0"] t d n
    by (simp add: b_def put_at_def min_def)
  with cp at show ?thesis
    using tx_frame_end_common(3) [OF inv q wf n, of False sq None 0 "d @ replicate (64 - n) 0"] c
    by (intro exI [of _ sc] exI [of _ so]) (simp add: t_def [symmetric] L_def [symmetric] hb [unfolded Let_def] seg Let_def del: SET_VAL.simps One_nat_def cong: if_cong)
qed

text \<open>
  What one call of \<open>process_tx\<close> does, seen from the MACPHY: it accepts the chunk, and the frames
  it has completed are the entries that left the queue.
\<close>

text \<open>The components of the instance that the transmit path does not touch.\<close>

definition tx_rest :: "tc6 \<Rightarrow> _" where
  "tx_rest g = (tx_buffer (eth_q g), qSpi g, regop_q g, currentOp g, (txc g, rca g), (enableData g, alreadyInDataService g,
     alreadyInControlService g, intContext g), (buf_len g, offsetRx g, ts g), (synced g, exst_locked g, eth_started g, eth_error g))"

lemma tx_rest_simps [simp]:
  "tx_rest (call c g) = tx_rest g" "tx_rest (g\<lparr>seq_num := a\<rparr>) = tx_rest g" "tx_rest (g\<lparr>offsetEth := b\<rparr>) = tx_rest g"
  "tx_rest (g\<lparr>segCurr := a\<rparr>) = tx_rest g" "tx_rest (g\<lparr>segOffset := b\<rparr>) = tx_rest g"
  by (simp_all add: tx_rest_def call_def)

definition tx_left :: "tc6 \<Rightarrow> nat" where
  "tx_left g = length (concat (tx_frames g)) - unat (offsetEth g)"

definition tx_step :: "tc6 \<Rightarrow> bytes \<Rightarrow> tc6 \<Rightarrow> bool" where
  "tx_step g c g' \<longleftrightarrow> tx_ok g' \<and> length c = 68 \<and> seq_num g' = seq_num g + 1 \<and>
     GET_VAL HDR_SEQ c = seq_num g AND 1 \<and> tx_left g' < tx_left g \<and> tx_rest g' = tx_rest g \<and>
     (\<exists>sent. qtxeth_list (eth_q g) = sent @ qtxeth_list (eth_q g') \<and>
        calls g' = calls g @ concat (map tx_note sent) \<and>
        (\<forall>got. mac_accept (tx_part g, got) c = Some (tx_part g', got @ map frame sent)))"

lemma tx_part_more:
  assumes "tx_ok g" "qtxeth_list (eth_q g) = e # es"
  shows "(case tx_part g of None \<Rightarrow> [] | Some x \<Rightarrow> x) @ sub_at (unat (offsetEth g)) n (frame e) = take (unat (offsetEth g) + n) (frame e)"
  by (auto simp: tx_part_def tx_frames_def assms sub_at_def take_add unat_eq_0)

lemma tx_ok_front:
  assumes "tx_ok g" "qtxeth_list (eth_q g) = e # es"
  shows "wf_entry e" "list_all wf_entry es" "unat (offsetEth g) < length (frame e)" "qtxeth_inv (eth_q g)"
    "length (frame e) < 65536"
    "tx_part g = (if unat (offsetEth g) = 0 then None else Some (take (unat (offsetEth g)) (frame e)))"
    "tx_left g = length (frame e) - unat (offsetEth g) + length (concat (map frame es))"
proof -
  show wf: "wf_entry e" and "list_all wf_entry es" "unat (offsetEth g) < length (frame e)" "qtxeth_inv (eth_q g)"
    using assms by (auto simp: tx_ok_def)
  then show "tx_left g = length (frame e) - unat (offsetEth g) + length (concat (map frame es))"
    by (simp add: tx_left_def tx_frames_def assms(2))
  show "length (frame e) < 65536"
    using wf_entryD(6) [OF wf] unat_u16_less [of "totalLen e"] by simp
  show "tx_part g = (if unat (offsetEth g) = 0 then None else Some (take (unat (offsetEth g)) (frame e)))"
    by (simp add: tx_part_def tx_frames_def assms(2) unat_eq_0)
qed

lemma tx_ok_middle:
  assumes "qtxeth_inv (eth_q g)" "qtxeth_list (eth_q g) = e # es" "list_all wf_entry (e # es)"
    and "unat (offsetEth g) < length (frame e)" "seg_at e (unat (offsetEth g)) (unat (segCurr g)) (unat (segOffset g))"
  shows "tx_ok g"
  using assms by (simp add: tx_ok_def)

lemma tx_ok_fresh:
  assumes "qtxeth_inv (eth_q g)" "list_all wf_entry (qtxeth_list (eth_q g))"
    and "offsetEth g = 0" "segCurr g = 0" "segOffset g = 0"
  shows "tx_ok g"
  using assms seg_at_0 wf_entryD(7) by (auto simp: tx_ok_def split: list.splits)

lemma hdr_seq: "case st of None \<Rightarrow> True | Some w \<Rightarrow> w < 16 \<Longrightarrow> case fin of None \<Rightarrow> True | Some x \<Rightarrow> x < 64 \<Longrightarrow>
    GET_VAL HDR_SEQ (tx_hdr sq st fin tc @ p) = sq AND 1"
  using tx_hdr_fields(2) [of st fin] by (simp add: GET_VAL_append del: GET_VAL.simps)

text \<open>A chunk from the middle of a frame, at its end, and at the border of two frames.\<close>

lemma process_tx_mid:
  assumes ok: "tx_ok g" and q: "qtxeth_list (eth_q g) = e # es" and buf: "length buf = 68"
    and mid: "unat (offsetEth g) + 64 < length (frame e)"
  shows "\<exists>g' c. process_tx g buf = Some (68, g', c) \<and> tx_step g c g'"
proof -
  note f = tx_ok_front [OF ok q]
  define p where "p = unat (offsetEth g)"
  define d where "d = sub_at p 64 (frame e)"
  define st where "st = (if p = 0 then Some 0 else (None :: nat option))"
  define o' :: u16 where "o' = of_nat (p + 64)"
  have n: "min 64 (length (frame e) - p) = 64" using mid by (simp add: p_def)
  obtain sc so tc where at: "seg_at e (p + 64) (unat sc) (unat so)"
    and pt: "process_tx g buf = Option.bind
      (Some (g\<lparr>seq_num := seq_num g + 1, segCurr := sc, segOffset := so, offsetEth := o'\<rparr>,
          hdr_fields (seq_num g) st None tc @ d @ replicate (64 - 64) 0))
      (\<lambda>(g, b). Some (68, g, SET_VAL HDR_P (get_parity b) b))"
    using process_tx_copy [OF ok q buf, folded p_def, unfolded n, folded st_def d_def o'_def] mid
    by (auto simp: p_def simp del: SET_VAL.simps)
  define g1 where "g1 = g\<lparr>seq_num := seq_num g + 1, segCurr := sc, segOffset := so, offsetEth := o'\<rparr>"
  define c where "c = tx_hdr (seq_num g) st None tc @ d"
  have g1: "eth_q g1 = eth_q g" "calls g1 = calls g" "offsetEth g1 = o'" "segCurr g1 = sc" "segOffset g1 = so"
    "seq_num g1 = seq_num g + 1" by (simp_all add: g1_def)
  have off: "unat o' = p + 64" using mid f(5) by (simp add: o'_def p_def unat_u16_of_nat del: of_nat_add)
  have d: "length d = 64" using mid by (simp add: d_def p_def)
  have more: "take p (frame e) @ d = take (p + 64) (frame e)" by (simp add: d_def sub_at_def take_add)
  have ok1: "tx_ok g1"
    using f(1,2,4) q mid at off by (intro tx_ok_middle [of _ e es]) (simp_all add: g1 p_def)
  have "process_tx g buf = Some (68, g1, c)"
    unfolding pt by (simp add: hdr_finish g1_def c_def del: SET_VAL.simps One_nat_def)
  moreover have "mac_accept (tx_part g, got) c = Some (tx_part g1, got)" for got
    using mac_tx_hdr [of d st None "(tx_part g, got)" "seq_num g" tc] d more f(6) tx_ok_front(6) [OF ok1, unfolded g1, OF q] off
    by (auto simp: c_def st_def p_def [symmetric])
  moreover have "tx_left g1 < tx_left g"
    using mid tx_ok_front(7) [OF ok1, unfolded g1, OF q] off f(7) by (simp add: p_def)
  moreover have "GET_VAL HDR_SEQ c = seq_num g AND 1"
    unfolding c_def by (rule hdr_seq) (simp_all add: st_def)
  moreover have "tx_rest g1 = tx_rest g" by (simp add: g1_def)
  ultimately show ?thesis
    using d ok1 by (intro exI [of _ g1] exI [of _ c])
      (simp add: tx_step_def g1 c_def del: GET_VAL.simps)
qed

text \<open>At the end of a frame both segment offsets are back at zero.\<close>

lemma process_tx_end:
  assumes ok: "tx_ok g" and q: "qtxeth_list (eth_q g) = e # es" and buf: "length buf = 68"
    and fin: "length (frame e) \<le> unat (offsetEth g) + 64"
  defines "p \<equiv> unat (offsetEth g)"
  defines "n \<equiv> length (frame e) - p"
  shows "process_tx g buf = Option.bind
     (tx_frame_end (g\<lparr>seq_num := seq_num g + 1, segCurr := 0, segOffset := 0, offsetEth := totalLen e\<rparr>)
          e (of_nat n) (p = 0)
          (hdr_fields (seq_num g) (if p = 0 then Some 0 else None) None (if p = 0 then tsc e else 0)
            @ drop p (frame e) @ replicate (64 - n) 0))
     (\<lambda>(g, b). Some (68, g, SET_VAL HDR_P (get_parity b) b))"
proof -
  note f = tx_ok_front [OF ok q]
  have n: "min 64 (length (frame e) - p) = n" "p + n = length (frame e)"
    using fin f(3) by (simp_all add: p_def n_def)
  have tot: "of_nat (length (frame e)) = totalLen e"
    using wf_entryD(6) [OF f(1)] by (metis of_nat_unat ucast_id)
  have "sub_at p n (frame e) = drop p (frame e)" by (simp add: sub_at_def n_def)
  then show ?thesis
    using process_tx_copy [OF ok q buf, folded p_def, unfolded n] seg_at_end [of e]
    by (fastforce simp: tot unat_eq_0 simp del: SET_VAL.simps)
qed

lemma process_tx_last:
  assumes ok: "tx_ok g" and q: "qtxeth_list (eth_q g) = e # es" and buf: "length buf = 68"
    and fin: "length (frame e) \<le> unat (offsetEth g) + 64"
    and nc: "\<not> concat_start es (length (frame e) - unat (offsetEth g)) (offsetEth g = 0)"
  shows "\<exists>g' c. process_tx g buf = Some (68, g', c) \<and> tx_step g c g'"
proof -
  note f = tx_ok_front [OF ok q]
  define p where "p = unat (offsetEth g)"
  define n where "n = length (frame e) - p"
  define st where "st = (if p = 0 then Some 0 else (None :: nat option))"
  define tc where "tc = (if p = 0 then tsc e else 0)"
  define pay where "pay = drop p (frame e) @ replicate (64 - n) (0 :: u8)"
  define g0 where "g0 = g\<lparr>seq_num := seq_num g + 1, segCurr := 0, segOffset := 0, offsetEth := totalLen e\<rparr>"
  define g1 where "g1 = g0\<lparr>offsetEth := 0, calls := calls g0 @ tx_note e, eth_q := qtxeth_stage2_convert_done (eth_q g0)\<rparr>"
  define c where "c = tx_hdr (seq_num g) st (Some (n - 1)) tc @ pay"
  have n: "0 < n" "n \<le> 64" using f(3) fin by (auto simp: n_def p_def)
  have p0: "p = 0 \<longleftrightarrow> offsetEth g = 0" by (simp add: p_def unat_eq_0)
  have q0: "qtxeth_inv (eth_q g0)" "qtxeth_list (eth_q g0) = e # es" using f(4) q by (simp_all add: g0_def)
  note fe = tx_frame_end_common [OF q0 f(2) n, folded g1_def]
  have "process_tx g buf = Some (68, g1, c)"
    using process_tx_end [OF ok q buf fin, folded p_def, folded n_def, folded st_def tc_def g0_def pay_def]
      fe(3) [of "p = 0" "seq_num g" st tc pay] nc
    by (simp add: p0 n_def [symmetric] p_def [symmetric] hdr_finish c_def del: SET_VAL.simps One_nat_def)
  moreover have ok1: "tx_ok g1"
    using fe(1,2) f(2) by (intro tx_ok_fresh) (simp_all add: g1_def g0_def)
  moreover have "tx_part g1 = None" by (simp add: tx_part_def g1_def)
  then have "mac_accept (tx_part g, got) c = Some (tx_part g1, got @ [frame e])" for got
    using mac_tx_hdr [of pay st "Some (n - 1)" "(tx_part g, got)" "seq_num g" tc] n f(3,6)
    by (auto simp: c_def st_def p_def [symmetric] pay_def n_def sub_at_def)
  moreover have "tx_left g1 < tx_left g"
    using fe(2) f(3,7) by (simp add: tx_left_def [of g1] tx_frames_def)
  moreover have "GET_VAL HDR_SEQ c = seq_num g AND 1"
    unfolding c_def using n by (intro hdr_seq) (simp_all add: st_def)
  moreover have "tx_rest g1 = tx_rest g" by (simp add: g1_def g0_def tx_rest_def qtxeth_done_defs)
  moreover have "length c = 68" "seq_num g1 = seq_num g + 1" "calls g1 = calls g @ tx_note e"
    using n by (simp_all add: c_def pay_def n_def g1_def g0_def)
  ultimately show ?thesis
    using fe(2) q by (intro exI [of _ g1] exI [of _ c]) (auto simp: tx_step_def simp del: GET_VAL.simps)
qed

lemma process_tx_join:
  assumes ok: "tx_ok g" and q: "qtxeth_list (eth_q g) = e # e' # es" and buf: "length buf = 68"
    and fin: "length (frame e) \<le> unat (offsetEth g) + 64" and mid: "offsetEth g \<noteq> 0"
    and c: "concat_start (e' # es) (length (frame e) - unat (offsetEth g)) False"
  shows "\<exists>g' c. process_tx g buf = Some (68, g', c) \<and> tx_step g c g'"
proof -
  note f = tx_ok_front [OF ok q]
  define p where "p = unat (offsetEth g)"
  define n where "n = length (frame e) - p"
  define t where "t = 4 * ((n + 3) div 4)"
  define d where "d = drop p (frame e)"
  define g0 where "g0 = g\<lparr>seq_num := seq_num g + 1, segCurr := 0, segOffset := 0, offsetEth := totalLen e\<rparr>"
  define o' :: u16 where "o' = of_nat (64 - t)"
  have p0: "p \<noteq> 0" using mid by (simp add: p_def unat_eq_0)
  have n: "0 < n" "n \<le> 64" using f(3) fin by (auto simp: n_def p_def)
  have d: "length d = n" by (simp add: d_def n_def)
  have q0: "qtxeth_inv (eth_q g0)" "qtxeth_list (eth_q g0) = e # e' # es" "segCurr g0 = 0" "segOffset g0 = 0"
    using f(4) q by (simp_all add: g0_def)
  have t: "n \<le> t" "t < 64" "64 - t < length (frame e')" "t div 4 < 16" "4 * (t div 4) = t" "n - 1 < t"
    using c n by (auto simp: concat_start_def t_def n_def p_def)
  have off: "unat o' = 64 - t" using t by (simp add: o'_def unat_u16_of_nat del: of_nat_diff)
  obtain sc so where at: "seg_at e' (64 - t) (unat sc) (unat so)" and
    fe: "tx_frame_end g0 e (of_nat n) False (hdr_fields (seq_num g) None None 0 @ d @ replicate (64 - n) 0) =
      Some (g0\<lparr>calls := calls g0 @ tx_note e, eth_q := qtxeth_stage2_convert_done (eth_q g0),
              offsetEth := o', segCurr := sc, segOffset := so\<rparr>,
        hdr_fields (seq_num g) (Some (t div 4)) (Some (n - 1)) (tsc e') @ d @ replicate (t - n) 0 @ take (64 - t) (frame e'))"
    using tx_frame_end_concat [OF q0(1,2) f(2) n c [folded p_def, folded n_def] q0(3,4) d, folded t_def, folded o'_def, of "seq_num g"] by blast
  define g1 where "g1 = g0\<lparr>calls := calls g0 @ tx_note e, eth_q := qtxeth_stage2_convert_done (eth_q g0),
              offsetEth := o', segCurr := sc, segOffset := so\<rparr>"
  define ch where "ch = tx_hdr (seq_num g) (Some (t div 4)) (Some (n - 1)) (tsc e') @ d @ replicate (t - n) 0 @ take (64 - t) (frame e')"
  have q1: "qtxeth_inv (eth_q g1)" "qtxeth_list (eth_q g1) = e' # es"
    using tx_frame_end_common(1,2) [OF q0(1,2) f(2) n] by (simp_all add: g1_def)
  have "process_tx g buf = Some (68, g1, ch)"
    using process_tx_end [OF ok q buf fin, folded p_def, folded n_def, folded d_def g0_def] fe p0
    by (simp add: hdr_finish ch_def g1_def del: SET_VAL.simps One_nat_def)
  moreover have ok1: "tx_ok g1"
    using q1 f(2) t off at by (intro tx_ok_middle [of _ e' es]) (simp_all add: g1_def)
  moreover have "mac_accept (tx_part g, got) ch = Some (tx_part g1, got @ [frame e])" for got
    using mac_tx_hdr [of "d @ replicate (t - n) 0 @ take (64 - t) (frame e')" "Some (t div 4)" "Some (n - 1)"
        "(tx_part g, got)" "seq_num g" "tsc e'"] n t d f(6) p0 off tx_ok_front(6) [OF ok1 q1(2)]
    by (auto simp: ch_def p_def [symmetric] d_def g1_def)
  moreover have "tx_left g1 < tx_left g"
    using tx_ok_front(7) [OF ok1 q1(2)] f(3,7) t(3) by (simp add: off g1_def)
  moreover have "GET_VAL HDR_SEQ ch = seq_num g AND 1"
    unfolding ch_def using n t by (intro hdr_seq) simp_all
  moreover have "tx_rest g1 = tx_rest g" by (simp add: g1_def g0_def tx_rest_def qtxeth_done_defs)
  moreover have "length ch = 68" "seq_num g1 = seq_num g + 1" "calls g1 = calls g @ tx_note e"
    using t d by (simp_all add: ch_def g1_def g0_def)
  ultimately show ?thesis
    using q1(2) q by (intro exI [of _ g1] exI [of _ ch]) (auto simp: tx_step_def simp del: GET_VAL.simps)
qed

lemma process_tx_step:
  assumes "tx_ok g" "tx_frames g \<noteq> []" "length buf = 68"
  shows "\<exists>g' c. process_tx g buf = Some (68, g', c) \<and> tx_step g c g'"
proof -
  obtain e es where q: "qtxeth_list (eth_q g) = e # es"
    using assms(2) by (cases "qtxeth_list (eth_q g)") (auto simp: tx_frames_def)
  show ?thesis
  proof (cases "length (frame e) \<le> unat (offsetEth g) + 64")
    case False
    then show ?thesis using process_tx_mid [OF assms(1) q assms(3)] by simp
  next
    case True
    then show ?thesis
      using process_tx_last [OF assms(1) q assms(3)] process_tx_join [OF assms(1) _ assms(3)] q
      by (cases "concat_start es (length (frame e) - unat (offsetEth g)) (offsetEth g = 0)")
         (auto simp: concat_start_def neq_Nil_conv)
  qed
qed

section \<open>The SPI buffer\<close>

definition chunks :: "nat \<Rightarrow> nat \<Rightarrow> bytes \<Rightarrow> bytes list" where
  "chunks j m b = map (\<lambda>i. sub_at (68 * i) 68 b) [j..<m]"

lemma chunks_empty [simp]: "chunks j j b = []"
  by (simp add: chunks_def)

lemma chunks_Cons: "j < m \<Longrightarrow> chunks j m b = sub_at (68 * j) 68 b # chunks (Suc j) m b"
  by (simp add: chunks_def upt_conv_Cons)

lemma sub_at_take:
  "off + n \<le> m \<Longrightarrow> take m xs = take m ys \<Longrightarrow> sub_at off n xs = sub_at off n ys"
proof -
  assume "off + n \<le> m" and t: "take m xs = take m ys"
  then have "sub_at off n (take m zs) = sub_at off n zs" for zs :: "'a list"
    by (simp add: sub_at_def drop_take)
  with t show ?thesis by metis
qed

lemma take_put_at: "off + length ys \<le> length xs \<Longrightarrow> take off (put_at off ys xs) = take off xs"
  by (simp add: put_at_def)

lemma mk_data_tx_loop_stream:
  assumes "tx_ok g" "j \<le> k" "68 * k \<le> length buf" "68 * k < 65536"
  shows "\<exists>m g' buf' sent. mk_data_tx_loop (of_nat (68 * k)) (of_nat (68 * j)) g buf = Some (of_nat (68 * m), g', buf') \<and>
     j \<le> m \<and> m \<le> k \<and> length buf' = length buf \<and> take (68 * j) buf' = take (68 * j) buf \<and> tx_ok g' \<and>
     (m < k \<longrightarrow> tx_frames g' = []) \<and> tx_rest g' = tx_rest g \<and> tx_left g' + (m - j) \<le> tx_left g \<and>
     qtxeth_list (eth_q g) = sent @ qtxeth_list (eth_q g') \<and> calls g' = calls g @ concat (map tx_note sent) \<and>
     (\<forall>got. mac_accept_all (tx_part g, got) (chunks j m buf') = Some (tx_part g', got @ map frame sent))"
  using assms
proof (induction "k - j" arbitrary: j g buf)
  case 0
  then show ?case
    by (intro exI [of _ k] exI [of _ g] exI [of _ buf] exI [of _ "[]"])
      (subst mk_data_tx_loop.simps, simp del: of_nat_mult)
next
  case (Suc x)
  have u: "unat (of_nat (68 * i) :: u16) = 68 * i" if "i \<le> k" for i
    using that Suc.prems(4) by (simp add: unat_u16_of_nat del: of_nat_mult)
  have lt: "(of_nat (68 * j) :: u16) < of_nat (68 * k)"
    using Suc.hyps(2) u [of j] u [of k] by (simp add: word_less_nat_alt del: of_nat_mult)
  have room: "68 * j + 68 \<le> length buf" "Suc j \<le> k" using Suc.hyps(2) Suc.prems(3) by auto
  define ch where "ch = sub_at (68 * j) 68 buf"
  have ch: "length ch = 68" using room by (simp add: ch_def)
  have step: "mk_data_tx_loop (of_nat (68 * k)) (of_nat (68 * j)) g buf =
      Option.bind (process_tx g ch) (\<lambda>(result, g, chunk).
        if result = 0 then Some (of_nat (68 * j), g, buf)
        else mk_data_tx_loop (of_nat (68 * k)) (of_nat (68 * j) + result) g (put_at (68 * j) chunk buf))"
    using lt room u [of j] Suc.prems(2) by (subst mk_data_tx_loop.simps) (simp add: ch_def del: of_nat_mult cong: if_cong)
  show ?case
  proof (cases "tx_frames g = []")
    case True
    with Suc.prems step process_tx_idle show ?thesis
      by (intro exI [of _ j] exI [of _ g] exI [of _ buf] exI [of _ "[]"]) simp
  next
    case False
    then obtain g1 c where pt: "process_tx g ch = Some (68, g1, c)" and st: "tx_step g c g1"
      using process_tx_step [OF Suc.prems(1) _ ch] by blast
    then obtain s1 where s1: "tx_ok g1" "length c = 68" "tx_rest g1 = tx_rest g" "tx_left g1 < tx_left g" "qtxeth_list (eth_q g) = s1 @ qtxeth_list (eth_q g1)"
        "calls g1 = calls g @ concat (map tx_note s1)"
        "\<And>got. mac_accept (tx_part g, got) c = Some (tx_part g1, got @ map frame s1)"
      unfolding tx_step_def by blast
    define buf1 where "buf1 = put_at (68 * j) c buf"
    have b1: "length buf1 = length buf" using room s1(2) by (simp add: buf1_def)
    have xk: "x = k - Suc j" using Suc.hyps(2) by simp
    have len: "68 * k \<le> length buf1" using Suc.prems(3) b1 by simp
    have pos: "of_nat (68 * j) + 68 = (of_nat (68 * Suc j) :: u16)" by simp
    obtain m g' buf' s2 where IH:
      "mk_data_tx_loop (of_nat (68 * k)) (of_nat (68 * Suc j)) g1 buf1 = Some (of_nat (68 * m), g', buf')"
      "Suc j \<le> m" "m \<le> k" "length buf' = length buf1" "take (68 * Suc j) buf' = take (68 * Suc j) buf1" "tx_ok g'"
      "m < k \<longrightarrow> tx_frames g' = []" "tx_rest g' = tx_rest g1" "tx_left g' + (m - Suc j) \<le> tx_left g1"
      "qtxeth_list (eth_q g1) = s2 @ qtxeth_list (eth_q g')" "calls g' = calls g1 @ concat (map tx_note s2)"
      "\<And>got. mac_accept_all (tx_part g1, got) (chunks (Suc j) m buf') = Some (tx_part g', got @ map frame s2)"
      using Suc.hyps(1) [OF xk s1(1) room(2) len Suc.prems(4)] by blast
    have "sub_at (68 * j) 68 buf' = sub_at (68 * j) 68 buf1"
      using IH(5) by (intro sub_at_take) simp_all
    also have "\<dots> = c" using sub_put_same [of "68 * j" c buf] s1(2) room by (simp add: buf1_def)
    finally have c: "sub_at (68 * j) 68 buf' = c" .
    have "take (68 * j) buf' = take (68 * j) buf"
    proof -
      have "take (68 * j) (take (68 * Suc j) buf') = take (68 * j) (take (68 * Suc j) buf1)" using IH(5) by simp
      then show ?thesis using take_put_at [of "68 * j" c buf] room s1(2) by (simp add: buf1_def min_def)
    qed
    with IH s1 c step pt b1 show ?thesis
      by (intro exI [of _ m] exI [of _ g'] exI [of _ buf'] exI [of _ "s1 @ s2"])
         (simp add: buf1_def [symmetric] pos chunks_Cons del: of_nat_mult)
  qed
qed

text \<open>
  C1. The transmit path loses nothing and invents nothing: \<open>mk_data_tx\<close> returns, and the MACPHY, fed
  the chunks it wrote to the buffer, accepts each of them and ends up with exactly the frames that
  left the transmit queue, in order, plus the sent part of the frame now in front; the completion
  callbacks of these frames, and no others, were made in that order. The buffer is filled unless
  the queue has run empty.
\<close>

theorem mk_data_tx_delivers:
  assumes "tx_ok g" "68 * k \<le> length buf" "68 * k < 65536"
  shows "\<exists>m g' buf' sent. mk_data_tx g buf (of_nat (68 * k)) = Some (of_nat (68 * m), g', buf') \<and>
     m \<le> k \<and> length buf' = length buf \<and> tx_ok g' \<and> (m < k \<longrightarrow> tx_frames g' = []) \<and> tx_rest g' = tx_rest g \<and>
     qtxeth_list (eth_q g) = sent @ qtxeth_list (eth_q g') \<and> calls g' = calls g @ concat (map tx_note sent) \<and>
     mac_accept_all (tx_part g, []) (chunks 0 m buf') = Some (tx_part g', map frame sent)"
  using mk_data_tx_loop_stream [OF assms(1), of 0 k buf] assms(2,3)
  by (fastforce simp: mk_data_tx_def)

text \<open>An instance with a frame of 70 bytes in two segments and one of 62 bytes in its queue.\<close>

definition tx_example :: tc6 where
  "tx_example = tc6_zeroed
     (qtxeth_put \<lparr>priv = 2, txCallback = None, ethSegs = [\<lparr>pEth = replicate 62 7, segLen = 62\<rparr>],
        totalLen = 62, segCount = 1, tsc = 1\<rparr>
     (qtxeth_put \<lparr>priv = 1, txCallback = Some 5,
        ethSegs = [\<lparr>pEth = replicate 14 8, segLen = 14\<rparr>, \<lparr>pEth = replicate 56 9, segLen = 56\<rparr>],
        totalLen = 70, segCount = 2, tsc = 0\<rparr>
     (init_qtxeth_queue (replicate TC6_TX_ETH_QSIZE qtxeth_zeroed) 4)))
     (init_qspibuf_queue [] 1) (init_regop_queue [] 4)"

lemma tx_example_ok: "tx_ok tx_example"
  by code_simp

theorem mk_data_tx_delivers_witness:
  "tx_ok tx_example \<and> map length (tx_frames tx_example) = [70, 62] \<and>
   (\<exists>m g' buf' sent. mk_data_tx tx_example (replicate 204 0) (of_nat (68 * 3)) = Some (of_nat (68 * m), g', buf') \<and>
     m \<le> 3 \<and> length buf' = length (replicate 204 (0 :: u8)) \<and> tx_ok g' \<and> (m < 3 \<longrightarrow> tx_frames g' = []) \<and> tx_rest g' = tx_rest tx_example \<and>
     qtxeth_list (eth_q tx_example) = sent @ qtxeth_list (eth_q g') \<and>
     calls g' = calls tx_example @ concat (map tx_note sent) \<and>
     mac_accept_all (tx_part tx_example, []) (chunks 0 m buf') = Some (tx_part g', map frame sent))"
proof -
  have "map length (tx_frames tx_example) = [70, 62]" by code_simp
  then show ?thesis
    using mk_data_tx_delivers [OF tx_example_ok, of 3 "replicate 204 0"] tx_example_ok by (simp del: of_nat_mult)
qed

end
