(* ===== verification/Tc6_Service.thy ===== *)
theory Tc6_Service
  imports Tc6_Core Tc6_Tx_Stream
begin

text \<open>
  The invariant of the driver: the queues never overflow, at most one SPI transaction is under
  way and \<open>currentOp\<close> says which one, every buffer keeps its size. Every public function and the
  interrupt preserve it.
\<close>

section \<open>Loops that drain a queue\<close>

lemma while_steps:
  assumes "I s" and "\<And>s. I s \<Longrightarrow> b s \<longleftrightarrow> 0 < f s" and "\<And>s. I s \<Longrightarrow> b s \<Longrightarrow> I (c s) \<and> f (c s) = f s - (1 :: nat)"
  shows "while b c s = (c ^^ f s) s \<and> I (while b c s) \<and> f (while b c s) = 0"
  using assms(1)
proof (induction "f s" arbitrary: s)
  case 0
  then show ?case using assms(2) [of s] by (simp add: while_unfold [of b c s])
next
  case (Suc n)
  then have b: "b s" using assms(2) by simp
  from assms(3) [OF Suc.prems b] Suc have "I (c s)" "n = f (c s)" by simp_all
  moreover have "while b c s = while b c (c s)" using b by (simp add: while_unfold [of b c s])
  moreover have "(c ^^ f s) s = (c ^^ n) (c s)" by (simp add: funpow_swap1 flip: Suc.hyps(2))
  ultimately show ?case using Suc.hyps(1) [of "c s"] by metis
qed

section \<open>The queues of the driver by what waits in them\<close>

definition regop_inv :: "'e regop_queue \<Rightarrow> bool" where
  "regop_inv q \<longleftrightarrow> ring_ok (rg_buffer q) (rg_size q) \<and> staged_ok regop_cnt rg_size 6 q"

definition spi_inv :: "'e qspibuf_queue \<Rightarrow> bool" where
  "spi_inv q \<longleftrightarrow> ring_ok (sp_buffer q) (sp_size q) \<and> staged_ok qspibuf_cnt sp_size 2 q"

abbreviation (input) rgp :: "nat \<Rightarrow> 'e regop_queue \<Rightarrow> nat" where "rgp \<equiv> pend regop_cnt"
abbreviation (input) spp :: "nat \<Rightarrow> 'e qspibuf_queue \<Rightarrow> nat" where "spp \<equiv> pend qspibuf_cnt"

lemma regop_done_adv:
  "regop_stage1_enqueue_done q = regop_adv 0 q" "regop_stage2_send_done q = regop_adv 1 q"
  "regop_stage3_int_done q = regop_adv 2 q" "regop_stage4_modify_done q = regop_adv 3 q"
  "regop_stage5_send_done q = regop_adv 4 q" "regop_stage6_int_done q = regop_adv 5 q"
  "regop_stage7_event_done q = regop_adv 6 q"
  by (simp_all add: numeral_eq_Suc)

lemma spi_done_adv:
  "qspibuf_stage1_transfer_done q = qspibuf_adv 0 q" "qspibuf_stage2_int_done q = qspibuf_adv 1 q"
  "qspibuf_stage3_process_done q = qspibuf_adv 2 q"
  by (simp_all add: numeral_eq_Suc)

lemma regop_ready_pend:
  assumes "regop_inv q"
  shows "regop_stage2_send_ready q \<longleftrightarrow> 0 < rgp 0 q" "regop_stage3_int_ready q \<longleftrightarrow> 0 < rgp 1 q"
    "regop_stage4_modify_ready q \<longleftrightarrow> 0 < rgp 2 q" "regop_stage5_send_ready q \<longleftrightarrow> 0 < rgp 3 q"
    "regop_stage6_int_ready q \<longleftrightarrow> 0 < rgp 4 q" "regop_stage7_event_ready q \<longleftrightarrow> 0 < rgp 5 q"
    "regop_stage1_enqueue_ready q \<longleftrightarrow> (\<Sum>i<6. rgp i q) < unat (rg_size q)"
  using assms rgq.ready_iff [of q 0] rgq.ready_iff [of q 1] rgq.ready_iff [of q 2] rgq.ready_iff [of q 3]
    rgq.ready_iff [of q 4] rgq.ready_iff [of q 5] rgq.room_iff [of q]
  by (simp_all add: regop_inv_def regop_ready_defs numeral_eq_Suc)

lemma spi_ready_pend:
  assumes "spi_inv q"
  shows "qspibuf_stage2_int_ready q \<longleftrightarrow> 0 < spp 0 q" "qspibuf_stage3_process_ready q \<longleftrightarrow> 0 < spp 1 q"
    "qspibuf_stage1_transfer_ready q \<longleftrightarrow> (\<Sum>i<2. spp i q) < unat (sp_size q)"
  using assms spq.ready_iff [of q 0] spq.ready_iff [of q 1] spq.room_iff [of q]
  by (simp_all add: spi_inv_def qspibuf_ready_defs numeral_eq_Suc)

lemma adv_buffer [simp]:
  "rg_buffer (regop_adv j q) = rg_buffer q" "sp_buffer (qspibuf_adv j q') = sp_buffer q'"
  by (cases "(j, q)" rule: regop_adv.cases; simp add: regop_done_defs)
     (cases "(j, q')" rule: qspibuf_adv.cases; simp add: qspibuf_done_defs)

lemma regop_adv_ok:
  assumes "regop_inv q" "j < 6" "0 < rgp j q"
  shows "regop_inv (regop_adv (Suc j) q)"
    "i < 6 \<Longrightarrow> rgp i (regop_adv (Suc j) q) = (if i = j then rgp i q - 1 else if i = Suc j then rgp i q + 1 else rgp i q)"
  using assms rgq.ok_adv [of q j] rgq.pend_adv [of q i j] by (simp_all add: regop_inv_def)

lemma spi_adv_ok:
  assumes "spi_inv q" "j < 2" "0 < spp j q"
  shows "spi_inv (qspibuf_adv (Suc j) q)"
    "i < 2 \<Longrightarrow> spp i (qspibuf_adv (Suc j) q) = (if i = j then spp i q - 1 else if i = Suc j then spp i q + 1 else spp i q)"
  using assms spq.ok_adv [of q j] spq.pend_adv [of q i j] by (simp_all add: spi_inv_def numeral_2_eq_2)

lemma regop_put_ok:
  assumes "regop_inv q" "regop_stage1_enqueue_ready q"
  shows "regop_inv (regop_adv 0 q)" "i < 6 \<Longrightarrow> rgp i (regop_adv 0 q) = (if i = 0 then rgp i q + 1 else rgp i q)"
  using assms rgq.ok_adv_first [of q] rgq.pend_adv_first [of q i]
  by (simp_all add: regop_ready_pend regop_inv_def del: regop_adv.simps)

lemma spi_put_ok:
  assumes "spi_inv q" "qspibuf_stage1_transfer_ready q"
  shows "spi_inv (qspibuf_adv 0 q)" "i < 2 \<Longrightarrow> spp i (qspibuf_adv 0 q) = (if i = 0 then spp i q + 1 else spp i q)"
  using assms(1) assms(2) [unfolded spi_ready_pend(3) [OF assms(1)]] spq.ok_adv_first [of q] spq.pend_adv_first [of q i]
  by (simp_all add: spi_inv_def numeral_2_eq_2 del: qspibuf_adv.simps)

lemma undo_done [simp]:
  "regop_stage5_send_undo (regop_stage5_send_done q) = q" "regop_stage2_send_undo (regop_stage2_send_done q) = q"
  "qspibuf_stage1_transfer_undo (qspibuf_stage1_transfer_done q') = q'"
  by (simp_all add: regop_undo_defs regop_done_defs qspibuf_undo_defs qspibuf_done_defs)

text \<open>Writing to an entry moves no counter.\<close>

lemma regop_buffer_update [simp]:
  "rgp i (q\<lparr>rg_buffer := b\<rparr>) = rgp i q" "rg_size (q\<lparr>rg_buffer := b\<rparr>) = rg_size q"
proof -
  have "regop_cnt i (q\<lparr>rg_buffer := b\<rparr>) = regop_cnt i q" for i
    by (cases "(i, q)" rule: regop_cnt.cases) simp_all
  then show "rgp i (q\<lparr>rg_buffer := b\<rparr>) = rgp i q" by (simp add: pend_def)
qed simp

lemma spi_buffer_update [simp]:
  "spp i (q\<lparr>sp_buffer := b\<rparr>) = spp i q" "sp_size (q\<lparr>sp_buffer := b\<rparr>) = sp_size q"
proof -
  have "qspibuf_cnt i (q\<lparr>sp_buffer := b\<rparr>) = qspibuf_cnt i q" for i
    by (cases "(i, q)" rule: qspibuf_cnt.cases) simp_all
  then show "spp i (q\<lparr>sp_buffer := b\<rparr>) = spp i q" by (simp add: pend_def)
qed simp

lemma inv_buffer_update [simp]:
  "regop_inv (q\<lparr>rg_buffer := (rg_buffer q)[k := x]\<rparr>) = regop_inv q"
  "spi_inv (q'\<lparr>sp_buffer := (sp_buffer q')[k := x']\<rparr>) = spi_inv q'"
  by (simp_all add: regop_inv_def spi_inv_def staged_ok_def)

section \<open>The parts of the instance that an operation leaves alone\<close>

text \<open>What the receive path does not touch.\<close>

definition rx_rest :: "tc6 \<Rightarrow> _" where
  "rx_rest g = (eth_q g, qSpi g, regop_q g, (offsetEth g, segOffset g, segCurr g), currentOp g, (txc g, rca g),
     enableData g, alreadyInDataService g, alreadyInControlService g, intContext g, seq_num g)"

lemma rx_rest_simps [simp]:
  "rx_rest (call c g) = rx_rest g" "rx_rest (g\<lparr>buf_len := a\<rparr>) = rx_rest g" "rx_rest (g\<lparr>ts := b\<rparr>) = rx_rest g"
  "rx_rest (g\<lparr>eth_error := c'\<rparr>) = rx_rest g" "rx_rest (g\<lparr>eth_started := c'\<rparr>) = rx_rest g"
  "rx_rest (g\<lparr>offsetRx := a\<rparr>) = rx_rest g" "rx_rest (g\<lparr>synced := c'\<rparr>) = rx_rest g" "rx_rest (g\<lparr>exst_locked := c'\<rparr>) = rx_rest g"
  by (simp_all add: rx_rest_def call_def)

lemma rx_rest_on_rx [simp]:
  "rx_rest (on_rx_slice g p a n r s) = rx_rest g" "rx_rest (on_rx_done g n b) = rx_rest g"
  "rx_rest (signal_rx_error g e) = rx_rest g"
  by (simp_all add: on_rx_slice_def on_rx_done_def signal_rx_error_def Let_def)

lemma rx_rest_process_rx_frames [simp]: "rx_rest (process_rx_frames g p sv s ev e m a b) = rx_rest g"
  by (simp add: process_rx_frames_def Let_def split: prod.splits)

lemma rx_rest_process_rx [simp]: "rx_rest (process_rx g p) = rx_rest g"
  by (simp add: process_rx_def Let_def del: GET_VAL.simps)

lemma rx_rest_enqueue_chunk [simp]: "rx_rest (fst (enqueue_rx_chunk g p)) = rx_rest g"
  unfolding enqueue_rx_chunk_def Let_def by (simp del: GET_VAL.simps)

lemma rx_rest_enqueue_loop [simp]: "rx_rest (enqueue_rx_loop n g p) = rx_rest g"
proof (induction n arbitrary: g p)
  case (Suc n)
  obtain g1 ok where eq: "enqueue_rx_chunk g p = (g1, ok)" by fastforce
  then have "rx_rest g1 = rx_rest g" using rx_rest_enqueue_chunk [of g p] by (simp del: rx_rest_enqueue_chunk)
  then show ?case using Suc.IH by (simp add: eq)
qed simp

lemma rx_rest_enqueue [simp]: "rx_rest (enqueue_rx_spi g p n) = rx_rest g"
  by (simp add: enqueue_rx_spi_def)


section \<open>The invariant\<close>

definition reg_entry_ok :: "register_operation \<Rightarrow> bool" where
  "reg_entry_ok r \<longleftrightarrow> length (tx_buf r) = TC6_CNTRL_BUF_SIZE \<and> length (rx_buf r) = TC6_CNTRL_BUF_SIZE"

definition spi_entry_ok :: "qspibuf \<Rightarrow> bool" where
  "spi_entry_ok e \<longleftrightarrow> length (txBuff e) = TC6_SPI_BUF_SIZE \<and> length (rxBuff e) = TC6_SPI_BUF_SIZE"

text \<open>Which transaction is under way, by the counters of the queues.\<close>

definition flight_ok :: "SpiOp_t \<Rightarrow> 'e qspibuf_queue \<Rightarrow> 'f regop_queue \<Rightarrow> bool" where
  "flight_ok op qs qr \<longleftrightarrow> spp 0 qs = (if op = SPI_OP_DATA then 1 else 0) \<and>
     rgp 1 qr + rgp 4 qr = (if op = SPI_OP_REG then 1 else 0)"

definition core_ok :: "tc6 \<Rightarrow> bool" where
  "core_ok g \<longleftrightarrow> tx_ok g \<and> regop_inv (regop_q g) \<and> spi_inv (qSpi g) \<and>
     list_all reg_entry_ok (rg_buffer (regop_q g)) \<and> list_all spi_entry_ok (sp_buffer (qSpi g)) \<and>
     list_all (\<lambda>e. length (ethSegs e) = TC6_TX_ETH_MAX_SEGMENTS) (tx_buffer (eth_q g)) \<and>
     flight_ok (currentOp g) (qSpi g) (regop_q g)"

lemma tx_ok_update [simp]:
  "tx_ok (g\<lparr>regop_q := qr\<rparr>) = tx_ok g" "tx_ok (g\<lparr>qSpi := qs\<rparr>) = tx_ok g" "tx_ok (g\<lparr>currentOp := op\<rparr>) = tx_ok g"
  "tx_ok (g\<lparr>calls := cs\<rparr>) = tx_ok g" "tx_ok (g\<lparr>intContext := b\<rparr>) = tx_ok g" "tx_ok (g\<lparr>alreadyInDataService := b\<rparr>) = tx_ok g"
  "tx_ok (g\<lparr>alreadyInControlService := b\<rparr>) = tx_ok g" "tx_ok (g\<lparr>enableData := b\<rparr>) = tx_ok g"
  "tx_ok (g\<lparr>txc := n\<rparr>) = tx_ok g" "tx_ok (g\<lparr>rca := n\<rparr>) = tx_ok g" "tx_ok (g\<lparr>synced := b\<rparr>) = tx_ok g"
  "tx_ok (g\<lparr>exst_locked := b\<rparr>) = tx_ok g" "tx_ok (g\<lparr>eth_error := b\<rparr>) = tx_ok g" "tx_ok (g\<lparr>eth_started := b\<rparr>) = tx_ok g"
  "tx_ok (g\<lparr>offsetRx := off\<rparr>) = tx_ok g" "tx_ok (call c g) = tx_ok g"
  by (simp_all add: tx_ok_def call_def cong: list.case_cong)

lemma call_rest [simp]:
  "enableData (call c g) = enableData g" "intContext (call c g) = intContext g"
  "alreadyInDataService (call c g) = alreadyInDataService g" "alreadyInControlService (call c g) = alreadyInControlService g"
  "eth_q (call c g) = eth_q g" "qSpi (call c g) = qSpi g" "regop_q (call c g) = regop_q g" "currentOp (call c g) = currentOp g"
  "txc (call c g) = txc g" "rca (call c g) = rca g"
  by (simp_all add: call_def)

lemma core_ok_cong:
  assumes "rx_rest g' = rx_rest g" shows "core_ok g' = core_ok g"
  using assms by (simp add: core_ok_def rx_rest_def tx_ok_def cong: list.case_cong)

text \<open>Control requests keep the size of the buffer they are written to.\<close>

lemma length_ctrl_header: "4 \<le> length b \<Longrightarrow> length (ctrl_header w a ad n b) = length b"
  by (simp add: ctrl_header_def CLEAR_HEADER_def Let_def del: SET_VAL.simps)

lemma ctrl_req_16:
  assumes "length b = 16"
  shows "length (snd (mk_ctrl_req w a ad 1 [v] b 16)) = 16" "length (snd (mk_secure_ctrl_req w a ad 1 [v] b 16)) = 16"
    "fst (mk_ctrl_req w a ad 1 [v] b 16) = 12" "fst (mk_secure_ctrl_req w a ad 1 [v] b 16) = 16"
  using assms by (simp_all add: mk_ctrl_req_def mk_secure_ctrl_req_def length_ctrl_header)

lemma ctrl_req_ok: "ctrl_req s w a v = (if s then 16 else 12, snd (ctrl_req s w a v))" "length (snd (ctrl_req s w a v)) = 16"
  using ctrl_req_16 [of "replicate 16 0" w False a v] by (auto simp: ctrl_req_def Let_def prod_eq_iff)

lemma list_all_update: "list_all P xs \<Longrightarrow> P x \<Longrightarrow> list_all P (xs[i := x])"
  by (auto simp: list_all_iff dest: set_update_subset_insert [THEN subsetD])

section \<open>Register access keeps the invariant\<close>

lemma core_okD:
  assumes "core_ok g"
  shows "tx_ok g" "regop_inv (regop_q g)" "spi_inv (qSpi g)" "list_all reg_entry_ok (rg_buffer (regop_q g))"
    "list_all spi_entry_ok (sp_buffer (qSpi g))" "flight_ok (currentOp g) (qSpi g) (regop_q g)"
    "list_all (\<lambda>e. length (ethSegs e) = 8) (tx_buffer (eth_q g))"
  using assms by (simp_all add: core_ok_def)

lemma ring_ptr_less:
  "regop_inv q \<Longrightarrow> unat (s AND (rg_size q - 1)) < length (rg_buffer q)"
  "spi_inv q' \<Longrightarrow> unat (s AND (sp_size q' - 1)) < length (sp_buffer q')"
  using ring_idx_less by (auto simp: regop_inv_def spi_inv_def ring_idx_def)

lemma regop_ptr_less:
  assumes "regop_inv q"
  shows "regop_stage1_enqueue_ptr q < length (rg_buffer q)" "regop_stage2_send_ptr q < length (rg_buffer q)"
    "regop_stage3_int_ptr q < length (rg_buffer q)" "regop_stage4_modify_ptr q < length (rg_buffer q)"
    "regop_stage5_send_ptr q < length (rg_buffer q)" "regop_stage6_int_ptr q < length (rg_buffer q)"
    "regop_stage7_event_ptr q < length (rg_buffer q)"
  using ring_ptr_less(1) [OF assms] by (simp_all add: regop_ptr_defs)

lemma spi_ptr_less:
  assumes "spi_inv q"
  shows "qspibuf_stage1_transfer_ptr q < length (sp_buffer q)" "qspibuf_stage2_int_ptr q < length (sp_buffer q)"
    "qspibuf_stage3_process_ptr q < length (sp_buffer q)"
  using ring_ptr_less(2) [OF assms] by (simp_all add: qspibuf_ptr_defs)

lemma flight_regop_put: "regop_inv q \<Longrightarrow> regop_stage1_enqueue_ready q \<Longrightarrow> flight_ok op qs (regop_adv 0 q) = flight_ok op qs q"
  by (simp add: flight_ok_def regop_put_ok del: regop_adv.simps)

lemma accessRegisters_core_ok:
  assumes ok: "core_ok g"
  shows "core_ok (snd (accessRegisters g op addr v sec m cb tg))"
proof (cases "regop_stage1_enqueue_ready (regop_q g) \<and> op \<noteq> REGISTER_OP_INVALLID")
  case False
  then show ?thesis using ok by (auto simp: accessRegisters_def)
next
  case True
  note d = core_okD [OF ok]
  obtain b where b: "ctrl_req sec (op = REGISTER_OP_WRITE \<or> op = REGISTER_OP_READWRITE_STAGE2) addr v = (if sec then 16 else 12, b)"
    "length b = 16" by (rule that [OF ctrl_req_ok])
  define i where "i = regop_stage1_enqueue_ptr (regop_q g)"
  define r where "r = (rg_buffer (regop_q g) ! i)\<lparr>tx_buf := b, regAddr := addr, rg_length := (if sec then 16 else 12), regop := op,
                     secure := sec, callback := cb, tag := tg, modifyValue := v, modifyMask := m\<rparr>"
  define q where "q = (regop_q g)\<lparr>rg_buffer := (rg_buffer (regop_q g))[i := r]\<rparr>"
  have res: "accessRegisters g op addr v sec m cb tg = (True, call OnNeedService (g\<lparr>regop_q := regop_adv 0 q\<rparr>))"
    using True b(1) by (simp add: accessRegisters_def Let_def q_def r_def i_def regop_done_adv del: regop_adv.simps)
  have "reg_entry_ok (rg_buffer (regop_q g) ! i)"
    using d(4) regop_ptr_less(1) [OF d(2)] by (simp add: i_def list_all_length)
  then have "reg_entry_ok r" using b by (simp add: r_def reg_entry_ok_def)
  moreover have "regop_inv q" "regop_stage1_enqueue_ready q"
    using d(2) True by (simp_all add: q_def regop_ready_pend)
  moreover have "flight_ok (currentOp g) (qSpi g) q" using d(6) by (simp add: flight_ok_def q_def)
  ultimately show ?thesis
    using d by (simp add: res core_ok_def regop_put_ok flight_regop_put del: regop_adv.simps)
      (simp add: q_def list_all_update)
qed

declare regop_adv.simps [simp del] qspibuf_adv.simps [simp del]

section \<open>The interrupt keeps the invariant\<close>

lemma core_ok_update [simp]:
  "core_ok (call c g) = core_ok g" "core_ok (g\<lparr>alreadyInDataService := b\<rparr>) = core_ok g"
  "core_ok (g\<lparr>alreadyInControlService := b\<rparr>) = core_ok g" "core_ok (g\<lparr>enableData := b\<rparr>) = core_ok g"
  "core_ok (g\<lparr>intContext := b\<rparr>) = core_ok g" "core_ok (g\<lparr>exst_locked := b\<rparr>) = core_ok g" "core_ok (signal_rx_error g e) = core_ok g"
  by (simp_all add: core_ok_def signal_rx_error_def)

lemma update_credit_cnt_rest:
  "qSpi (update_credit_cnt g b n) = qSpi g" "regop_q (update_credit_cnt g b n) = regop_q g"
  "tx_ok (update_credit_cnt g b n) = tx_ok g" "currentOp (update_credit_cnt g b n) = currentOp g"
  "intContext (update_credit_cnt g b n) = intContext g" "eth_q (update_credit_cnt g b n) = eth_q g"
  by (simp_all add: update_credit_cnt_def Let_def del: GET_VAL.simps)

lemma store_rx_ok:
  assumes "core_ok g" "length rx \<le> 16" "i < length (rg_buffer (regop_q g))"
  shows "core_ok (store_reg_rx i rx g)"
proof -
  note d = core_okD [OF assms(1)]
  have "reg_entry_ok (rg_buffer (regop_q g) ! i)" using d(4) assms(3) by (simp add: list_all_length)
  then have "reg_entry_ok ((rg_buffer (regop_q g) ! i)\<lparr>rx_buf := put_at 0 rx (rx_buf (rg_buffer (regop_q g) ! i))\<rparr>)"
    using assms(2) by (simp add: reg_entry_ok_def)
  then show ?thesis
    using d by (simp add: core_ok_def store_reg_rx_def flight_ok_def list_all_update)
qed

lemma store_data_rx_ok:
  assumes "core_ok g" "length rx \<le> 2108" "i < length (sp_buffer (qSpi g))"
  shows "core_ok (store_data_rx i rx g)"
proof -
  note d = core_okD [OF assms(1)]
  have "spi_entry_ok (sp_buffer (qSpi g) ! i)" using d(5) assms(3) by (simp add: list_all_length)
  then have "spi_entry_ok ((sp_buffer (qSpi g) ! i)\<lparr>rxBuff := put_at 0 rx (rxBuff (sp_buffer (qSpi g) ! i))\<rparr>)"
    using assms(2) by (simp add: spi_entry_ok_def)
  then show ?thesis
    using d by (simp add: core_ok_def store_data_rx_def flight_ok_def list_all_update)
qed

lemma store_rx_rest [simp]:
  "currentOp (store_reg_rx i rx g) = currentOp g" "currentOp (store_data_rx i rx g) = currentOp g"
  "rgp k (regop_q (store_reg_rx i rx g)) = rgp k (regop_q g)" "regop_q (store_data_rx i rx g) = regop_q g"
  "qSpi (store_reg_rx i rx g) = qSpi g" "spp k (qSpi (store_data_rx i rx g)) = spp k (qSpi g)"
  by (simp_all add: store_reg_rx_def store_data_rx_def)

lemma SpiBufferDone_core_ok:
  assumes ok: "core_ok g"
  shows "core_ok (TC6_SpiBufferDone g s) \<and> currentOp (TC6_SpiBufferDone g s) = SPI_OP_INVALID"
proof -
  define g1 where "g1 = (if \<not> s then signal_rx_error (g\<lparr>intContext := True\<rparr>) TC6Error_SpiError else g\<lparr>intContext := True\<rparr>)"
  have g1: "core_ok g1" "currentOp g1 = currentOp g" using ok by (simp_all add: g1_def) (simp add: signal_rx_error_def)
  note d = core_okD [OF g1(1)] and rp = regop_ready_pend [OF core_okD(2) [OF g1(1)]] and sp = spi_ready_pend [OF core_okD(3) [OF g1(1)]]
  show ?thesis
  proof (cases "currentOp g")
    case SPI_OP_INVALID
    then show ?thesis
      using g1 d(6) by (simp add: TC6_SpiBufferDone_def Let_def g1_def [symmetric] core_ok_def)
  next
    case SPI_OP_DATA
    then have f: "spp 0 (qSpi g1) = 1" "rgp 1 (regop_q g1) + rgp 4 (regop_q g1) = 0"
      using d(6) g1(2) by (simp_all add: flight_ok_def)
    then show ?thesis
      using SPI_OP_DATA g1 d sp(1) spi_adv_ok [OF d(3), of 0]
      by (simp add: TC6_SpiBufferDone_def Let_def g1_def [symmetric] core_ok_def update_credit_cnt_rest
          spi_done_adv flight_ok_def)
  next
    case SPI_OP_REG
    then have f: "spp 0 (qSpi g1) = 0" "rgp 1 (regop_q g1) + rgp 4 (regop_q g1) = 1"
      using d(6) g1(2) by (simp_all add: flight_ok_def)
    then consider "rgp 1 (regop_q g1) = 1" "rgp 4 (regop_q g1) = 0" | "rgp 1 (regop_q g1) = 0" "rgp 4 (regop_q g1) = 1"
      by linarith
    then show ?thesis
    proof cases
      case 1
      note a = regop_adv_ok [OF d(2), of 1]
      have "\<not> regop_stage6_int_ready (regop_adv 2 (regop_q g1))"
        using 1 a regop_ready_pend(5) [of "regop_adv 2 (regop_q g1)"] by (simp add: numeral_2_eq_2)
      with 1 show ?thesis
        using SPI_OP_REG g1 d rp a f
        by (simp add: TC6_SpiBufferDone_def Let_def g1_def [symmetric] core_ok_def regop_done_adv flight_ok_def numeral_2_eq_2)
    next
      case 2
      note a = regop_adv_ok [OF d(2), of 4]
      show ?thesis
        using 2 SPI_OP_REG g1 d rp a f
        by (simp add: TC6_SpiBufferDone_def Let_def g1_def [symmetric] core_ok_def regop_done_adv flight_ok_def)
    qed
  qed
qed

section \<open>The control service keeps the invariant\<close>

lemma modify_core_ok:
  assumes ok: "core_ok g" and r: "0 < rgp 2 (regop_q g)"
  shows "fst (modify g v)" "core_ok (snd (modify g v))"
    "rgp 2 (regop_q (snd (modify g v))) = rgp 2 (regop_q g) - 1" "currentOp (snd (modify g v)) = currentOp g"
proof -
  note d = core_okD [OF ok]
  define i where "i = regop_stage4_modify_ptr (regop_q g)"
  define r0 where "r0 = rg_buffer (regop_q g) ! i"
  obtain b where b: "ctrl_req (secure r0) True (regAddr r0) ((v AND NOT (modifyMask r0)) OR modifyValue r0) = (if secure r0 then 16 else 12, b)"
    "length b = 16" by (rule that [OF ctrl_req_ok])
  define r1 where "r1 = r0\<lparr>regop := REGISTER_OP_READWRITE_STAGE2, tx_buf := b, rg_length := (if secure r0 then 16 else 12)\<rparr>"
  define q where "q = (regop_q g)\<lparr>rg_buffer := (rg_buffer (regop_q g))[i := r1]\<rparr>"
  have m: "modify g v = (True, g\<lparr>regop_q := regop_adv 3 q\<rparr>)"
    using b(1) by (simp add: modify_def Let_def q_def r1_def r0_def i_def regop_done_adv)
  have "reg_entry_ok r0" using d(4) regop_ptr_less(4) [OF d(2)] by (simp add: r0_def i_def list_all_length)
  then have r1: "reg_entry_ok r1" using b by (simp add: r1_def reg_entry_ok_def)
  have q: "regop_inv q" "\<And>k. rgp k q = rgp k (regop_q g)" using d(2) by (simp_all add: q_def)
  note a = regop_adv_ok [OF q(1), of 2, unfolded q(2)]
  show "fst (modify g v)" "core_ok (snd (modify g v))"
    "rgp 2 (regop_q (snd (modify g v))) = rgp 2 (regop_q g) - 1" "currentOp (snd (modify g v)) = currentOp g"
    using d r r1 a by (simp_all add: m core_ok_def flight_ok_def) (simp add: q_def list_all_update)
qed

lemma control_rx_core_ok:
  assumes ok: "core_ok g" and r: "regop_stage4_modify_ready (regop_q g)"
  shows "core_ok (control_rx g) \<and> rgp 2 (regop_q (control_rx g)) = rgp 2 (regop_q g) - 1 \<and> currentOp (control_rx g) = currentOp g"
proof -
  note d = core_okD [OF ok]
  define q where "q = regop_q g"
  have r': "0 < rgp 2 (regop_q g)" using r regop_ready_pend(3) [OF d(2)] by simp
  have q3: "regop_inv (regop_adv 3 q)" "\<And>i. i < 6 \<Longrightarrow> rgp i (regop_adv 3 q) = (if i = 2 then rgp i q - 1 else if i = 3 then rgp i q + 1 else rgp i q)"
    using regop_adv_ok [of q 2] d(2) r' by (simp_all add: q_def)
  have q4: "regop_inv (regop_adv 4 (regop_adv 3 q))" "\<And>i. i < 6 \<Longrightarrow> rgp i (regop_adv 4 (regop_adv 3 q)) = (if i = 2 then rgp i q - 1 else if i = 4 then rgp i q + 1 else rgp i q)"
    using regop_adv_ok [OF q3(1), of 3] q3(2) by simp_all
  have q5: "regop_inv (regop_adv 5 (regop_adv 4 (regop_adv 3 q)))"
    "\<And>i. i < 6 \<Longrightarrow> rgp i (regop_adv 5 (regop_adv 4 (regop_adv 3 q))) = (if i = 2 then rgp i q - 1 else if i = 5 then rgp i q + 1 else rgp i q)"
    using regop_adv_ok [OF q4(1), of 4] q4(2) by simp_all
  have skip: "core_ok (g\<lparr>regop_q := regop_adv 5 (regop_adv 4 (regop_adv 3 q))\<rparr>)"
    using d q5 by (simp add: core_ok_def flight_ok_def q_def)
  show ?thesis
    using skip q5(2) [of 2] modify_core_ok [OF ok r']
    by (simp add: control_rx_def Let_def split_def regop_done_adv q_def)
qed

lemma control_event_core_ok:
  assumes ok: "core_ok g" and r: "regop_stage7_event_ready (regop_q g)"
  shows "core_ok (control_event g) \<and> rgp 5 (regop_q (control_event g)) = rgp 5 (regop_q g) - 1 \<and> currentOp (control_event g) = currentOp g"
proof -
  note d = core_okD [OF ok]
  have r': "0 < rgp 5 (regop_q g)" using r regop_ready_pend(6) [OF d(2)] by simp
  have "core_ok (g\<lparr>regop_q := regop_adv 6 (regop_q g)\<rparr>)"
    using d regop_adv_ok [OF d(2), of 5] r' by (simp add: core_ok_def flight_ok_def)
  then show ?thesis
    using regop_adv_ok(2) [OF d(2), of 5 5] r'
    by (simp add: control_event_def Let_def split_def regop_done_adv split: option.splits)
qed

locale spi_bus =
  fixes spi :: "'h spi"
  assumes full_duplex: "spi h tx = (Spi_Finished rx, h') \<Longrightarrow> length rx = length tx"
begin

lemma OnSpiTransaction_ok:
  assumes "core_ok g" "\<And>rx. length rx = length tx \<Longrightarrow> core_ok (store rx g)"
    and "OnSpiTransaction spi tx store g h = (ok, g', h')"
  shows "ok \<Longrightarrow> core_ok g'" "\<not> ok \<Longrightarrow> g' = g"
  using assms(3,1) assms(2) full_duplex SpiBufferDone_core_ok
  by (auto simp: OnSpiTransaction_def split: prod.splits spi_outcome.splits)

end

interpretation io: spi_bus "TC6_Io_spiTransaction dev" for dev
  by unfold_locales (auto simp: TC6_Io_spiTransaction_def split: prod.splits)

text \<open>A control transaction: what the two transmit branches have in common.\<close>

context spi_bus
begin

lemma control_send_ok:
  assumes ok: "core_ok (g\<lparr>regop_q := q, currentOp := SPI_OP_REG\<rparr>)" and i: "i < length (rg_buffer q)"
    and tx: "length tx \<le> 16"
    and tr: "OnSpiTransaction spi tx (store_reg_rx i) (g\<lparr>regop_q := q, currentOp := SPI_OP_REG\<rparr>) h = (s, g', h')"
  shows "s \<Longrightarrow> core_ok g'" "\<not> s \<Longrightarrow> g' = g\<lparr>regop_q := q, currentOp := SPI_OP_REG\<rparr>"
  using OnSpiTransaction_ok [OF ok _ tr] store_rx_ok [OF ok] i tx by simp_all

lemma control_tx_ok:
  assumes ok: "core_ok g" shows "core_ok (fst (snd (control_tx2 spi (control_tx5 spi (s, g, h)))))"
proof -
  have five: "core_ok (fst (snd (control_tx5 spi (s, g, h))))" if ok: "core_ok g" for s g h
  proof (cases "currentOp g = SPI_OP_INVALID \<and> regop_stage5_send_ready (regop_q g)")
    case True
    note d = core_okD [OF ok]
    define i where "i = regop_stage5_send_ptr (regop_q g)"
    obtain s' g' h' where tr: "OnSpiTransaction spi (reg_tx (rg_buffer (regop_q g) ! i)) (store_reg_rx i)
        (g\<lparr>regop_q := regop_stage5_send_done (regop_q g), currentOp := SPI_OP_REG\<rparr>) h = (s', g', h')" by (rule prod_cases3)
    have r: "0 < rgp 3 (regop_q g)" using True regop_ready_pend(4) [OF d(2)] by simp
    have "core_ok (g\<lparr>regop_q := regop_stage5_send_done (regop_q g), currentOp := SPI_OP_REG\<rparr>)"
      using d r True regop_adv_ok [OF d(2), of 3] by (simp add: core_ok_def flight_ok_def regop_done_adv)
    moreover have i: "i < length (rg_buffer (regop_q g))" using regop_ptr_less(5) [OF d(2)] by (simp add: i_def)
    moreover have "length (reg_tx (rg_buffer (regop_q g) ! i)) \<le> 16"
      using d(4) i by (simp add: reg_tx_def list_all_length reg_entry_ok_def)
    ultimately have "s' \<Longrightarrow> core_ok g'"
      "\<not> s' \<Longrightarrow> g' = g\<lparr>regop_q := regop_stage5_send_done (regop_q g), currentOp := SPI_OP_REG\<rparr>"
      using control_send_ok [OF _ _ _ tr] by (simp_all add: regop_done_adv)
    moreover have "core_ok (g\<lparr>currentOp := SPI_OP_INVALID\<rparr>)" using ok True by (simp add: core_ok_def)
    ultimately show ?thesis using True tr by (auto simp: control_tx5_def Let_def i_def)
  qed (use ok in \<open>auto simp: control_tx5_def\<close>)
  have two: "core_ok (fst (snd (control_tx2 spi (s, g, h))))" if ok: "core_ok g" for s g h
  proof (cases "currentOp g = SPI_OP_INVALID \<and> regop_stage2_send_ready (regop_q g)")
    case True
    note d = core_okD [OF ok]
    define i where "i = regop_stage2_send_ptr (regop_q g)"
    obtain s' g' h' where tr: "OnSpiTransaction spi (reg_tx (rg_buffer (regop_q g) ! i)) (store_reg_rx i)
        (g\<lparr>regop_q := regop_stage2_send_done (regop_q g), currentOp := SPI_OP_REG\<rparr>) h = (s', g', h')" by (rule prod_cases3)
    have r: "0 < rgp 0 (regop_q g)" using True regop_ready_pend(1) [OF d(2)] by simp
    have "core_ok (g\<lparr>regop_q := regop_stage2_send_done (regop_q g), currentOp := SPI_OP_REG\<rparr>)"
      using d r True regop_adv_ok [OF d(2), of 0] by (simp add: core_ok_def flight_ok_def regop_done_adv)
    moreover have i: "i < length (rg_buffer (regop_q g))" using regop_ptr_less(2) [OF d(2)] by (simp add: i_def)
    moreover have "length (reg_tx (rg_buffer (regop_q g) ! i)) \<le> 16"
      using d(4) i by (simp add: reg_tx_def list_all_length reg_entry_ok_def)
    ultimately have "s' \<Longrightarrow> core_ok g'"
      "\<not> s' \<Longrightarrow> g' = g\<lparr>regop_q := regop_stage2_send_done (regop_q g), currentOp := SPI_OP_REG\<rparr>"
      using control_send_ok [OF _ _ _ tr] by (simp_all add: regop_done_adv)
    moreover have "core_ok (g\<lparr>currentOp := SPI_OP_INVALID\<rparr>)" using ok True by (simp add: core_ok_def)
    ultimately show ?thesis using True tr by (auto simp: control_tx2_def Let_def i_def)
  qed (use ok in \<open>auto simp: control_tx2_def\<close>)
  obtain s' g' h' where e: "control_tx5 spi (s, g, h) = (s', g', h')" by (rule prod_cases3)
  show ?thesis using five [OF ok, of s h] two [of g' s' h'] by (simp add: e)
qed

lemma serviceControl_core_ok:
  assumes ok: "core_ok g" shows "core_ok (fst (snd (serviceControl spi g h)))"
proof -
  define g1 where "g1 = while (\<lambda>g. regop_stage4_modify_ready (regop_q g)) control_rx (g\<lparr>alreadyInControlService := True\<rparr>)"
  define g2 where "g2 = while (\<lambda>g. regop_stage7_event_ready (regop_q g)) control_event g1"
  have "core_ok g1"
    unfolding g1_def using ok control_rx_core_ok
    by (intro while_steps [where I = core_ok and f = "\<lambda>g. rgp 2 (regop_q g)", THEN conjunct2, THEN conjunct1])
       (auto simp: regop_ready_pend core_okD)
  then have "core_ok g2"
    unfolding g2_def using control_event_core_ok
    by (intro while_steps [where I = core_ok and f = "\<lambda>g. rgp 5 (regop_q g)", THEN conjunct2, THEN conjunct1])
       (auto simp: regop_ready_pend core_okD)
  then have "core_ok (fst (snd (control_tx2 spi (control_tx5 spi (False, g2, h)))))" by (rule control_tx_ok)
  then show ?thesis
    using ok by (simp add: serviceControl_def Let_def g1_def g2_def split_def)
qed

end

section \<open>Filling the SPI buffer\<close>

definition empty_chunk :: bytes where
  "empty_chunk = [0x80, 0, 0, 0] @ replicate 64 0"

lemma empty_chunk: "length empty_chunk = 68" "mac_accept s empty_chunk = Some s"
proof -
  have "GET_VAL HDR_DNC empty_chunk = 1" "GET_VAL HDR_DV empty_chunk = 0" "get_parity empty_chunk = 0"
    by code_simp+
  then show "length empty_chunk = 68" "mac_accept s empty_chunk = Some s"
    by (simp_all add: empty_chunk_def mac_accept_def del: GET_VAL.simps)
qed

lemma mac_accept_empty: "mac_accept_all s (replicate n empty_chunk) = Some s"
  by (induction n) (simp_all add: empty_chunk(2))

lemma max_tx_len: "max_tx_len g = of_nat (68 * min (unat (txc g)) 31)"
proof -
  have u: "unat (ucast (txc g) * 68 :: u16) = 68 * unat (txc g)"
  proof -
    have "unat (txc g) * 68 < 65536" using unat_u8_less [of "txc g"] by linarith
    then show ?thesis by (simp add: unat_word_ariths)
  qed
  then have "ucast (txc g) * 68 = (of_nat (68 * unat (txc g)) :: u16)"
    by (simp flip: u)
  then show ?thesis using u by (auto simp: max_tx_len_def Let_def min_def)
qed

lemma add_empty_loop:
  assumes "length (txBuff e) = 2108" "sp_length e = of_nat (68 * m)" "m \<le> 31"
  shows "\<exists>t. sp_length (add_empty_loop n e) = of_nat (68 * t) \<and> m \<le> t \<and> t \<le> 31 \<and> t \<le> m + n \<and>
     txBuff (add_empty_loop n e) = take (68 * m) (txBuff e) @ concat (replicate (t - m) empty_chunk) @ drop (68 * t) (txBuff e) \<and>
     rxBuff (add_empty_loop n e) = rxBuff e"
  using assms
proof (induction n arbitrary: e m)
  case 0
  then show ?case by (intro exI [of _ m]) simp
next
  case (Suc n)
  have u: "unat (sp_length e) = 68 * m" using Suc.prems(2,3) by (simp add: unat_u16_of_nat del: of_nat_mult)
  show ?case
  proof (cases "m < 31")
    case False
    then show ?thesis using Suc.prems u by (intro exI [of _ m]) simp
  next
    case True
    define e1 where "e1 = e\<lparr>txBuff := put_at (68 * m) empty_chunk (txBuff e), sp_length := sp_length e + 68\<rparr>"
    have e1: "length (txBuff e1) = 2108" "sp_length e1 = of_nat (68 * Suc m)" "rxBuff e1 = rxBuff e"
      using True Suc.prems(1,2) by (simp_all add: e1_def empty_chunk(1))
    have step: "add_empty_loop (Suc n) e = add_empty_loop n e1"
      using True u by (simp add: e1_def empty_chunk_def)
    have t1: "take (68 * Suc m) (txBuff e1) = take (68 * m) (txBuff e) @ empty_chunk"
      using True Suc.prems(1) by (simp add: e1_def put_at_def empty_chunk(1))
    have t2: "drop (68 * t) (txBuff e1) = drop (68 * t) (txBuff e)" if "Suc m \<le> t" for t
      using True that Suc.prems(1) by (simp add: e1_def put_at_def empty_chunk(1) min_def)
    obtain t where t: "sp_length (add_empty_loop n e1) = of_nat (68 * t)" "Suc m \<le> t" "t \<le> 31" "t \<le> Suc m + n"
      "txBuff (add_empty_loop n e1) = take (68 * Suc m) (txBuff e1) @ concat (replicate (t - Suc m) empty_chunk) @ drop (68 * t) (txBuff e1)"
      "rxBuff (add_empty_loop n e1) = rxBuff e1"
      using Suc.IH [OF e1(1,2)] True by auto
    have "concat (replicate (t - m) empty_chunk) = empty_chunk @ concat (replicate (t - Suc m) empty_chunk)"
      using t(2) by (cases "t - m") (auto simp: Suc_diff_Suc simp flip: Suc_diff_Suc)
    then show ?thesis unfolding step using t t1 t2 e1(3) by (intro exI [of _ t]) simp
  qed
qed

lemma chunks_prefix: "68 * m \<le> length a \<Longrightarrow> chunks 0 m (a @ b) = chunks 0 m a"
proof -
  assume le: "68 * m \<le> length a"
  have "sub_at (68 * i) 68 (a @ b) = sub_at (68 * i) 68 a" if "i < m" for i
    using that le by (simp add: sub_at_def)
  then show ?thesis by (simp add: chunks_def)
qed

lemma chunks_add_one: "length a = 68 * m \<Longrightarrow> length c = 68 \<Longrightarrow> chunks 0 (Suc m) (a @ c) = chunks 0 m a @ [c]"
  using chunks_prefix [of m a c] by (simp add: chunks_def sub_at_def)

lemma chunks_empties:
  "length a = 68 * m \<Longrightarrow> chunks 0 (m + k) (a @ concat (replicate k empty_chunk)) = chunks 0 m a @ replicate k empty_chunk"
proof (induction k)
  case (Suc k)
  have r: "concat (replicate (Suc k) empty_chunk) = concat (replicate k empty_chunk) @ empty_chunk"
    by (induction k) simp_all
  have "length (a @ concat (replicate k empty_chunk)) = 68 * (m + k)"
    using Suc.prems by (simp add: length_concat empty_chunk(1) sum_list_replicate)
  then have "chunks 0 (Suc (m + k)) ((a @ concat (replicate k empty_chunk)) @ empty_chunk) =
      chunks 0 (m + k) (a @ concat (replicate k empty_chunk)) @ [empty_chunk]"
    by (rule chunks_add_one) (rule empty_chunk(1))
  with Suc show ?case by (simp only: add_Suc_right r append_assoc) (simp add: replicate_append_same)
qed simp

lemma chunks_take: "68 * m \<le> n \<Longrightarrow> chunks 0 m (take n b) = chunks 0 m b"
proof -
  assume le: "68 * m \<le> n"
  have "sub_at (68 * i) 68 (take n b) = sub_at (68 * i) 68 b" if "i < m" for i
    using that le by (simp add: sub_at_def drop_take min_def)
  then show ?thesis by (simp add: chunks_def)
qed

text \<open>What the data service puts into the SPI buffer.\<close>

lemma fill_spi_buffer:
  assumes ok: "tx_ok g" and e: "spi_entry_ok e"
  shows "\<exists>m t g1 txb sent. mk_data_tx g (txBuff (initializeSpiEntry e)) (max_tx_len g) = Some (of_nat (68 * m), g1, txb) \<and>
    (let entry = addEmptyChunks g1 ((initializeSpiEntry e)\<lparr>txBuff := txb, sp_length := of_nat (68 * m)\<rparr>) x in
      spi_entry_ok entry \<and> sp_length entry = of_nat (68 * t) \<and> m \<le> t \<and> t \<le> 31 \<and> m \<le> unat (txc g) \<and>
      tx_ok g1 \<and> tx_rest g1 = tx_rest g \<and> qtxeth_list (eth_q g) = sent @ qtxeth_list (eth_q g1) \<and>
      calls g1 = calls g @ concat (map tx_note sent) \<and>
      (m < unat (txc g) \<and> m < 31 \<longrightarrow> tx_frames g1 = []) \<and> tx_left g1 + m \<le> tx_left g \<and>
      drop m (chunks 0 t (take (68 * t) (txBuff entry))) = replicate (t - m) empty_chunk \<and>
      mac_accept_all (tx_part g, []) (chunks 0 t (take (68 * t) (txBuff entry))) = Some (tx_part g1, map frame sent))"
proof -
  define k where "k = min (unat (txc g)) 31"
  have len: "length (txBuff (initializeSpiEntry e)) = 2108" "length (rxBuff e) = 2108"
    using e by (simp_all add: initializeSpiEntry_def spi_entry_ok_def)
  have kk: "0 \<le> k" "68 * k \<le> length (txBuff (initializeSpiEntry e))" "68 * k < 65536"
    unfolding len(1) k_def by linarith+
  have z: "of_nat (68 * 0) = (0 :: u16)" by simp
  obtain m g1 txb sent where m: "mk_data_tx g (txBuff (initializeSpiEntry e)) (max_tx_len g) = Some (of_nat (68 * m), g1, txb)"
    "m \<le> k" "length txb = 2108" "tx_ok g1" "m < k \<longrightarrow> tx_frames g1 = []" "tx_rest g1 = tx_rest g" "tx_left g1 + m \<le> tx_left g"
    "qtxeth_list (eth_q g) = sent @ qtxeth_list (eth_q g1)" "calls g1 = calls g @ concat (map tx_note sent)"
    "\<And>got. mac_accept_all (tx_part g, got) (chunks 0 m txb) = Some (tx_part g1, got @ map frame sent)"
    using mk_data_tx_loop_stream [OF ok kk, unfolded z len(1)] unfolding max_tx_len mk_data_tx_def k_def [symmetric] diff_zero by metis
  define e0 where "e0 = (initializeSpiEntry e)\<lparr>txBuff := txb, sp_length := of_nat (68 * m)\<rparr>"
  have e0: "length (txBuff e0) = 2108" "sp_length e0 = of_nat (68 * m)" "m \<le> 31" "rxBuff e0 = rxBuff e"
    using m(2,3) by (simp_all add: e0_def k_def initializeSpiEntry_def)
  obtain t where t: "sp_length (addEmptyChunks g1 e0 x) = of_nat (68 * t)" "m \<le> t" "t \<le> 31"
    "txBuff (addEmptyChunks g1 e0 x) = take (68 * m) txb @ concat (replicate (t - m) empty_chunk) @ drop (68 * t) txb"
    "rxBuff (addEmptyChunks g1 e0 x) = rxBuff e"
  proof (cases "getTrail g1 x > 0")
    case True
    then show ?thesis
      using add_empty_loop [OF e0(1-3), of "(unat (getTrail g1 x) + 64 - 1) div 64"] that e0(4)
      by (auto simp: addEmptyChunks_def Let_def e0_def)
  next
    case False
    then show ?thesis using that [of m] e0 by (simp add: addEmptyChunks_def Let_def) (simp add: e0_def)
  qed
  have cl: "length (concat (replicate (t - m) empty_chunk)) = 68 * (t - m)"
    by (simp add: length_concat sum_list_replicate empty_chunk(1))
  have l: "length (take (68 * m) txb) = 68 * m" using m(3) e0(3) by simp
  have "take (68 * t) (txBuff (addEmptyChunks g1 e0 x)) = take (68 * m) txb @ concat (replicate (t - m) empty_chunk)"
    unfolding t(4) using l cl t(2) by simp
  then have ch: "chunks 0 t (take (68 * t) (txBuff (addEmptyChunks g1 e0 x))) = chunks 0 m txb @ replicate (t - m) empty_chunk"
    using chunks_empties [OF l, of "t - m"] t(2) by (simp add: chunks_take)
  then have "drop m (chunks 0 t (take (68 * t) (txBuff (addEmptyChunks g1 e0 x)))) = replicate (t - m) empty_chunk"
    by (simp add: chunks_def)
  moreover from ch have "mac_accept_all (tx_part g, []) (chunks 0 t (take (68 * t) (txBuff (addEmptyChunks g1 e0 x)))) = Some (tx_part g1, map frame sent)"
    using m(10) [of "[]"] by (simp add: mac_accept_all_append mac_accept_empty)
  moreover have "spi_entry_ok (addEmptyChunks g1 e0 x)"
    using t l cl m(3) len(2) by (simp add: spi_entry_ok_def)
  moreover have "m \<le> unat (txc g)" "m < unat (txc g) \<and> m < 31 \<longrightarrow> tx_frames g1 = []"
    using m(2,5) by (auto simp: k_def)
  ultimately show ?thesis
    unfolding Let_def using m(1,4,6-9) t(1-3) unfolding e0_def by blast
qed

section \<open>The data service\<close>

lemma tx_rest_fields:
  "tx_rest g = tx_rest g' \<Longrightarrow> qSpi g = qSpi g' \<and> regop_q g = regop_q g' \<and> currentOp g = currentOp g' \<and> rca g = rca g' \<and>
     tx_buffer (eth_q g) = tx_buffer (eth_q g') \<and> enableData g = enableData g' \<and> intContext g = intContext g' \<and> alreadyInControlService g = alreadyInControlService g'"
  by (simp add: tx_rest_def)

lemma serviceData_active:
  assumes a: "\<not> alreadyInDataService g" "enableData g" "currentOp g = SPI_OP_INVALID" "qspibuf_stage1_transfer_ready (qSpi g)"
    and i: "i = qspibuf_stage1_transfer_ptr (qSpi g)"
    and mk: "mk_data_tx (g\<lparr>alreadyInDataService := True\<rparr>) (txBuff (initializeSpiEntry (sp_buffer (qSpi g) ! i)))
      (max_tx_len g) = Some (len, g1, txb)"
    and en: "en = addEmptyChunks g1 ((initializeSpiEntry (sp_buffer (qSpi g) ! i))\<lparr>txBuff := txb, sp_length := len\<rparr>)
      ((len = 0 \<and> sendEmpty) \<or> rca g1 \<noteq> 0)"
    and g2: "g2 = g1\<lparr>qSpi := (qSpi g1)\<lparr>sp_buffer := (sp_buffer (qSpi g1))[i := en]\<rparr>\<rparr>"
  shows "serviceData spi sendEmpty g h =
    (if sp_length en = 0 then Some (False, g2\<lparr>alreadyInDataService := False\<rparr>, h)
     else case spiTransaction spi (take (unat (sp_length en)) (txBuff en)) (store_data_rx i) SPI_OP_DATA
            (g2\<lparr>qSpi := qspibuf_stage1_transfer_done (qSpi g2)\<rparr>) h of
          (ok, g4, h4) \<Rightarrow> Some (ok, (if ok then g4 else g4\<lparr>qSpi := qspibuf_stage1_transfer_undo (qSpi g4)\<rparr>)
            \<lparr>alreadyInDataService := False\<rparr>, h4))"
proof -
  have en': "addEmptyChunks g1 ((initializeSpiEntry (sp_buffer (qSpi g) ! i))\<lparr>txBuff := txb, sp_length := len\<rparr>)
      ((if len \<noteq> 0 then False else sendEmpty) \<or> rca g1 \<noteq> 0) = en"
    unfolding en by (rule arg_cong) simp
  have m: "max_tx_len (g\<lparr>alreadyInDataService := True\<rparr>) = max_tx_len g" by (simp add: max_tx_len_def)
  show ?thesis
    using a unfolding serviceData_def Let_def
    by (simp add: i [symmetric] m mk en' g2 [symmetric] split: prod.splits)
qed

context spi_bus
begin

lemma serviceData_core_ok:
  assumes ok: "core_ok g"
  shows "\<exists>s g' h'. serviceData spi sendEmpty g h = Some (s, g', h') \<and> core_ok g'"
proof (cases "\<not> alreadyInDataService g \<and> enableData g \<and> currentOp g = SPI_OP_INVALID \<and> qspibuf_stage1_transfer_ready (qSpi g)")
  case False
  then show ?thesis using ok by (auto simp: serviceData_def Let_def)
next
  case True
  define g0 where "g0 = g\<lparr>alreadyInDataService := True\<rparr>"
  define i where "i = qspibuf_stage1_transfer_ptr (qSpi g)"
  define e where "e = sp_buffer (qSpi g) ! i"
  have ok0: "core_ok g0" using ok by (simp add: g0_def)
  note d = core_okD [OF ok0]
  have i: "i < length (sp_buffer (qSpi g0))" using spi_ptr_less(1) [OF d(3)] by (simp add: i_def g0_def)
  have e: "spi_entry_ok e" using d(5) i by (simp add: list_all_length e_def g0_def)
  obtain len g1 txb where
    mk: "mk_data_tx g0 (txBuff (initializeSpiEntry e)) (max_tx_len g0) = Some (len, g1, txb)"
    using fill_spi_buffer [OF d(1) e, of False] by blast
  define en where "en = addEmptyChunks g1 ((initializeSpiEntry e)\<lparr>txBuff := txb, sp_length := len\<rparr>) ((len = 0 \<and> sendEmpty) \<or> rca g1 \<noteq> 0)"
  have en: "spi_entry_ok en" and g1: "tx_ok g1" "tx_rest g1 = tx_rest g0"
    using fill_spi_buffer [OF d(1) e, of "(len = 0 \<and> sendEmpty) \<or> rca g1 \<noteq> 0"] mk
    unfolding Let_def en_def by (metis option.inject prod.inject)+
  note r = tx_rest_fields [OF g1(2)]
  define g2 where "g2 = g1\<lparr>qSpi := (qSpi g1)\<lparr>sp_buffer := (sp_buffer (qSpi g1))[i := en]\<rparr>\<rparr>"
  have ok2: "core_ok g2"
    using d g1(1) r en by (simp add: core_ok_def g2_def flight_ok_def list_all_update)
  have op2: "currentOp g2 = SPI_OP_INVALID" using True r by (simp add: g2_def g0_def)
  have rdy2: "qspibuf_stage1_transfer_ready (qSpi g2)" "spi_inv (qSpi g2)"
    using True d(3) r ok2 by (simp_all add: g2_def g0_def qspibuf_ready_defs core_ok_def)
  define g3 where "g3 = g2\<lparr>qSpi := qspibuf_stage1_transfer_done (qSpi g2), currentOp := SPI_OP_DATA\<rparr>"
  have ok3: "core_ok g3"
    using core_okD [OF ok2] rdy2 op2 spi_put_ok [OF rdy2(2,1)]
    by (simp add: g3_def core_ok_def spi_done_adv flight_ok_def)
  define tx where "tx = take (unat (sp_length en)) (txBuff en)"
  obtain s g4 h4 where tr: "OnSpiTransaction spi tx (store_data_rx i) g3 h = (s, g4, h4)" by (rule prod_cases3)
  have "length tx \<le> 2108" using en by (simp add: tx_def spi_entry_ok_def)
  moreover have "i < length (sp_buffer (qSpi g3))" using i r by (simp add: g3_def g2_def spi_done_adv)
  ultimately have fin: "s \<Longrightarrow> core_ok g4" "\<not> s \<Longrightarrow> g4 = g3"
    using OnSpiTransaction_ok [OF ok3 store_data_rx_ok [OF ok3] tr] by simp_all
  have "core_ok (g3\<lparr>currentOp := SPI_OP_INVALID, qSpi := qSpi g2\<rparr>)" using ok2 op2 by (simp add: g3_def core_ok_def)
  moreover have "max_tx_len g0 = max_tx_len g" by (simp add: max_tx_len_def g0_def)
  note sd = serviceData_active [of g i len g1 txb en sendEmpty g2 spi h, folded g0_def e_def, OF _ _ _ _ i_def mk [unfolded this] en_def g2_def]
  moreover have "spiTransaction spi tx (store_data_rx i) SPI_OP_DATA (g2\<lparr>qSpi := qspibuf_stage1_transfer_done (qSpi g2)\<rparr>) h =
      (s, if s then g4 else g3\<lparr>currentOp := SPI_OP_INVALID\<rparr>, h4)"
    using tr op2 fin(2) by (simp add: spiTransaction_def g3_def)
  ultimately show ?thesis
    using True fin(1) ok2 by (cases s) (auto simp: tx_def [symmetric] g3_def)
qed

end

section \<open>The public functions keep the invariant\<close>

lemma process_data_step_ok:
  assumes ok: "core_ok g" and r: "qspibuf_stage3_process_ready (qSpi g)"
  shows "core_ok (process_data_step g) \<and> spp 1 (qSpi (process_data_step g)) = spp 1 (qSpi g) - 1"
proof -
  define g1 where "g1 = enqueue_rx_spi g (rxBuff (sp_buffer (qSpi g) ! qspibuf_stage3_process_ptr (qSpi g)))
      (sp_length (sp_buffer (qSpi g) ! qspibuf_stage3_process_ptr (qSpi g)))"
  have rest: "rx_rest g1 = rx_rest g" by (simp add: g1_def)
  have ok1: "core_ok g1" using ok core_ok_cong [OF rest] by simp
  have q: "qSpi g1 = qSpi g" using rest by (simp add: rx_rest_def)
  note d = core_okD [OF ok1]
  have r': "0 < spp 1 (qSpi g1)" using r q spi_ready_pend(2) [OF d(3)] by simp
  have "process_data_step g = g1\<lparr>qSpi := qspibuf_adv 2 (qSpi g1)\<rparr>"
    by (simp add: process_data_step_def Let_def g1_def spi_done_adv)
  with d r' spi_adv_ok [OF d(3), of 1] show ?thesis
    by (simp add: core_ok_def flight_ok_def q numeral_2_eq_2)
qed

lemma processDataRx_core_ok: "core_ok g \<Longrightarrow> core_ok (processDataRx g) \<and> spp 1 (qSpi (processDataRx g)) = 0"
  unfolding processDataRx_def using process_data_step_ok
  by (intro while_steps [where I = core_ok and f = "\<lambda>g. spp 1 (qSpi g)", THEN conjunct2])
     (simp_all add: spi_ready_pend(2) [OF core_okD(3)])

text \<open>Enqueueing a frame.\<close>

lemma tx_ok_put:
  assumes ok: "tx_ok g" and wf: "wf_entry e" and room: "qtxeth_stage1_enqueue_ready (eth_q g)"
  shows "tx_ok (g\<lparr>eth_q := qtxeth_put e (eth_q g)\<rparr>)" "qtxeth_list (qtxeth_put e (eth_q g)) = qtxeth_list (eth_q g) @ [e]"
proof -
  have inv: "qtxeth_inv (eth_q g)" using ok by (simp add: tx_ok_def)
  show l: "qtxeth_list (qtxeth_put e (eth_q g)) = qtxeth_list (eth_q g) @ [e]" by (rule txf.abs_put [OF inv room])
  show "tx_ok (g\<lparr>eth_q := qtxeth_put e (eth_q g)\<rparr>)"
    using ok wf txf.inv_put [OF inv room, of e] seg_at_0 [OF wf] wf_entryD(7) [OF wf]
    by (auto simp: tx_ok_def l split: list.splits)
qed

lemma core_ok_put:
  assumes ok: "core_ok g" and wf: "wf_entry e" "length (ethSegs e) = 8" and room: "qtxeth_stage1_enqueue_ready (eth_q g)"
  shows "core_ok (g\<lparr>eth_q := qtxeth_put e (eth_q g)\<rparr>)"
  using core_okD [OF ok] tx_ok_put(1) [OF _ wf(1) room] wf(2)
  by (simp add: core_ok_def qtxeth_put_def qtxeth_done_defs list_all_update)

lemma tx_slot:
  assumes "core_ok g" shows "length (ethSegs (tx_buffer (eth_q g) ! qtxeth_stage1_enqueue_ptr (eth_q g))) = 8"
proof -
  have "ring_ok (tx_buffer (eth_q g)) (tx_size (eth_q g))"
    using core_okD(1) [OF assms] by (simp add: tx_ok_def qtxeth_inv_def)
  then show ?thesis
    using core_okD(7) [OF assms] ring_idx_less [of "tx_buffer (eth_q g)" "tx_size (eth_q g)"]
    by (simp add: list_all_length ptr_ring_idx)
qed

text \<open>The entry that \<open>TC6_SendRawEthernetPacket\<close> writes stands for the frame it was given.\<close>

lemma packet_entry:
  fixes ts_capture :: u8 and cb :: "nat option" and tg :: nat
  assumes "length (ethSegs old) = 8" "len \<noteq> 0" "unat len \<le> length p"
  defines "e \<equiv> old\<lparr>ethSegs := (ethSegs old)[0 := \<lparr>pEth = p, segLen = len\<rparr>], totalLen := len,
                           segCount := 1, tsc := ts_capture, txCallback := cb, priv := tg\<rparr>"
  shows "wf_entry e" "frame e = take (unat len) p"
proof -
  obtain s ss where s: "ethSegs old = s # ss" using assms(1) by (cases "ethSegs old") auto
  have "0 < unat len" using assms(2) by (simp add: unat_gt_0)
  then show "frame e = take (unat len) p" "wf_entry e"
    using assms(1,3) by (simp_all add: e_def frame_def segs_def seg_data_def wf_entry_def s)
qed

context spi_bus
begin

lemma TC6_Service_core_ok:
  assumes "core_ok g"
  shows "\<exists>s g' h'. TC6_Service spi lvl g h = Some (s, g', h') \<and> core_ok g'"
proof -
  obtain s1 g1 h1 where sc: "serviceControl spi g h = (s1, g1, h1)" by (rule prod_cases3)
  then have ok1: "core_ok g1" using serviceControl_core_ok [OF assms, of h] by simp
  obtain s2 g2 h2 where sd: "serviceData spi (\<not> lvl) (processDataRx g1) h1 = Some (s2, g2, h2)" "core_ok g2"
    using serviceData_core_ok processDataRx_core_ok [OF ok1] by blast
  show ?thesis
    using assms ok1 sd processDataRx_core_ok [OF sd(2)] by (cases s1) (auto simp: TC6_Service_def sc)
qed

lemma TC6_EnableData_core_ok:
  assumes "core_ok g" shows "\<exists>g' h'. TC6_EnableData spi b g h = Some (g', h') \<and> core_ok g'"
  using serviceData_core_ok [of "g\<lparr>enableData := b\<rparr>" True h] assms by (auto simp: TC6_EnableData_def Let_def)

lemma SendRawEthernetPacket_core_ok:
  assumes ok: "core_ok g" and p: "\<And>p'. p = Some p' \<Longrightarrow> unat len \<le> length p'"
  shows "\<exists>s g' h'. TC6_SendRawEthernetPacket spi g h p len tc cb tg = Some (s, g', h') \<and> core_ok g'"
proof (cases "p = None \<or> \<not> (len \<noteq> 0 \<and> enableData g \<and> qtxeth_stage1_enqueue_ready (eth_q g))")
  case True
  then show ?thesis using ok by (auto simp: TC6_SendRawEthernetPacket_def split: option.splits)
next
  case False
  then obtain p' where p': "p = Some p'" by auto
  define old where "old = tx_buffer (eth_q g) ! qtxeth_stage1_enqueue_ptr (eth_q g)"
  define e where "e = old\<lparr>ethSegs := (ethSegs old)[0 := \<lparr>pEth = p', segLen = len\<rparr>], totalLen := len,
                           segCount := 1, tsc := tc, txCallback := cb, priv := tg\<rparr>"
  have "core_ok (g\<lparr>eth_q := qtxeth_put e (eth_q g)\<rparr>)"
    using False tx_slot [OF ok] packet_entry(1) [of old len p'] p [OF p']
    by (intro core_ok_put [OF ok]) (simp_all add: e_def old_def)
  with serviceData_core_ok [OF this, of False h] False p' show ?thesis
    by (auto simp: TC6_SendRawEthernetPacket_def Let_def e_def old_def)
qed

end

section \<open>Reset\<close>

text \<open>Draining a stage of the register queue moves its entries one stage on, and nothing else.\<close>

definition regop_list :: "'e regop_queue \<Rightarrow> 'e list" where
  "regop_list q = ring_view (rg_buffer q) (rg_size q) (rg_stage7_event q) (rg_stage1_enqueue q)"

lemma regop_adv_ends:
  "0 < j \<Longrightarrow> j < 6 \<Longrightarrow> rg_stage1_enqueue (regop_adv j q) = rg_stage1_enqueue q \<and> rg_stage7_event (regop_adv j q) = rg_stage7_event q"
  by (cases "(j, q)" rule: regop_adv.cases) (simp_all add: regop_adv.simps regop_done_defs)

lemma regop_list_adv: "0 < j \<Longrightarrow> j < 6 \<Longrightarrow> regop_list (regop_adv j q) = regop_list q"
  by (simp add: regop_list_def regop_adv_ends)

lemma drain_stage:
  assumes inv: "regop_inv q" and j: "j < 5" and rdy: "\<And>q. regop_inv q \<Longrightarrow> ready q \<longleftrightarrow> 0 < rgp j q"
    and dn: "\<And>q. dn q = regop_adv (Suc j) q"
  defines "q' \<equiv> while ready dn q"
  shows "regop_inv q' \<and> regop_list q' = regop_list q \<and> rg_buffer q' = rg_buffer q \<and> (\<forall>i<j. rgp i q' = rgp i q)" "rgp j q' = 0"
proof -
  define I where "I s \<longleftrightarrow> regop_inv s \<and> regop_list s = regop_list q \<and> rg_buffer s = rg_buffer q \<and> (\<forall>i<j. rgp i s = rgp i q)" for s
  have rdy': "ready s \<longleftrightarrow> 0 < rgp j s" if "I s" for s using that rdy by (simp add: I_def)
  have "I (dn s) \<and> rgp j (dn s) = rgp j s - 1" if "I s" "ready s" for s
  proof -
    have "regop_inv s" "0 < rgp j s" using that rdy' by (simp_all add: I_def)
    then show ?thesis
      using that(1) regop_adv_ok [of s j] j regop_list_adv [of "Suc j" s] by (simp add: I_def dn)
  qed
  moreover have "I q" using inv by (simp add: I_def)
  ultimately have "I q'" "rgp j q' = 0"
    unfolding q'_def using while_steps [of I q ready "rgp j" dn] rdy' by blast+
  then show "regop_inv q' \<and> regop_list q' = regop_list q \<and> rg_buffer q' = rg_buffer q \<and> (\<forall>i<j. rgp i q' = rgp i q)" "rgp j q' = 0"
    by (simp_all add: I_def)
qed

lemma regop_done_Suc:
  "regop_stage2_send_done q = regop_adv (Suc 0) q" "regop_stage3_int_done q = regop_adv (Suc 1) q"
  "regop_stage4_modify_done q = regop_adv (Suc 2) q" "regop_stage5_send_done q = regop_adv (Suc 3) q"
  "regop_stage6_int_done q = regop_adv (Suc 4) q"
  by (simp_all add: regop_done_adv numeral_eq_Suc)

definition reset_drain :: "'e regop_queue \<Rightarrow> 'e regop_queue" where
  "reset_drain q =
    (let q = while regop_stage2_send_ready regop_stage2_send_done q;
         q = while regop_stage3_int_ready regop_stage3_int_done q;
         q = while regop_stage4_modify_ready regop_stage4_modify_done q;
         q = while regop_stage5_send_ready regop_stage5_send_done q
     in while regop_stage6_int_ready regop_stage6_int_done q)"

lemma reset_drain_ok:
  assumes inv: "regop_inv q"
  shows "regop_inv (reset_drain q)" "regop_list (reset_drain q) = regop_list q" "rg_buffer (reset_drain q) = rg_buffer q" "\<And>i. i < 5 \<Longrightarrow> rgp i (reset_drain q) = 0"
proof -
  define q1 where "q1 = while regop_stage2_send_ready regop_stage2_send_done q"
  define q2 where "q2 = while regop_stage3_int_ready regop_stage3_int_done q1"
  define q3 where "q3 = while regop_stage4_modify_ready regop_stage4_modify_done q2"
  define q4 where "q4 = while regop_stage5_send_ready regop_stage5_send_done q3"
  define q5 where "q5 = while regop_stage6_int_ready regop_stage6_int_done q4"
  note r = regop_ready_pend
  have 1: "regop_inv q1 \<and> regop_list q1 = regop_list q \<and> rg_buffer q1 = rg_buffer q" "rgp 0 q1 = 0"
    using drain_stage [OF inv _ r(1) regop_done_Suc(1)] by (simp_all add: q1_def)
  then have 2: "regop_inv q2 \<and> regop_list q2 = regop_list q \<and> rg_buffer q2 = rg_buffer q" "rgp 0 q2 = 0" "rgp 1 q2 = 0"
    using drain_stage [OF _ _ r(2) regop_done_Suc(2), of q1] by (simp_all add: q2_def)
  then have 3: "regop_inv q3 \<and> regop_list q3 = regop_list q \<and> rg_buffer q3 = rg_buffer q" "rgp 0 q3 = 0" "rgp 1 q3 = 0" "rgp 2 q3 = 0"
    using drain_stage [OF _ _ r(3) regop_done_Suc(3), of q2] by (simp_all add: q3_def)
  then have 4: "regop_inv q4 \<and> regop_list q4 = regop_list q \<and> rg_buffer q4 = rg_buffer q" "rgp 0 q4 = 0" "rgp 1 q4 = 0" "rgp 2 q4 = 0" "rgp 3 q4 = 0"
    using drain_stage [OF _ _ r(4) regop_done_Suc(4), of q3] by (simp_all add: q4_def)
  then have 5: "regop_inv q5 \<and> regop_list q5 = regop_list q \<and> rg_buffer q5 = rg_buffer q" "rgp 0 q5 = 0" "rgp 1 q5 = 0" "rgp 2 q5 = 0" "rgp 3 q5 = 0" "rgp 4 q5 = 0"
    using drain_stage [OF _ _ r(5) regop_done_Suc(5), of q4] by (simp_all add: q5_def)
  have e: "reset_drain q = q5" by (simp add: reset_drain_def Let_def q1_def q2_def q3_def q4_def q5_def)
  show "regop_inv (reset_drain q)" "regop_list (reset_drain q) = regop_list q" "rg_buffer (reset_drain q) = rg_buffer q" using 5(1) by (simp_all add: e)
  show "rgp i (reset_drain q) = 0" if "i < 5" for i
  proof -
    from that have "i \<in> {0, 1, 2, 3, 4}" by auto
    then show ?thesis using 5(2-) by (auto simp: e)
  qed
qed

text \<open>What reset reports for a frame and for a register request that it gives up.\<close>

definition reset_note :: "qtxeth \<Rightarrow> tc6_call list" where
  "reset_note e = (case txCallback e of None \<Rightarrow> []
     | Some f \<Rightarrow> [TxCallback f (pEth (ethSegs e ! 0)) (segLen (ethSegs e ! 0)) (priv e)])"

definition reset_reg_note :: "register_operation \<Rightarrow> tc6_call list" where
  "reset_reg_note r = (case callback r of None \<Rightarrow> [] | Some f \<Rightarrow> [RegCallback f False (regAddr r) 0 (tag r)])"

lemma reset_tx_loop:
  assumes "qtxeth_inv (eth_q g)"
  shows "\<exists>q. while (\<lambda>g. qtxeth_stage2_convert_ready (eth_q g)) reset_tx_step g =
      g\<lparr>eth_q := q, calls := calls g @ concat (map reset_note (qtxeth_list (eth_q g)))\<rparr> \<and>
      qtxeth_inv q \<and> qtxeth_list q = [] \<and> tx_buffer q = tx_buffer (eth_q g)"
  using assms
proof (induction "qtxeth_list (eth_q g)" arbitrary: g)
  case Nil
  then show ?case using txf.can_get_iff [of "eth_q g"] by (intro exI [of _ "eth_q g"]) (simp add: while_unfold)
next
  case (Cons e es)
  define g1 where "g1 = g\<lparr>calls := calls g @ reset_note e, eth_q := qtxeth_stage2_convert_done (eth_q g)\<rparr>"
  have rdy: "qtxeth_stage2_convert_ready (eth_q g)" using Cons.hyps(2) Cons.prems txf.can_get_iff by force
  have fr: "qtxeth_front (eth_q g) = e" "qtxeth_list (eth_q g1) = es"
    using txf.abs_get [OF Cons.prems rdy] Cons.hyps(2) by (simp_all add: g1_def)
  have step: "reset_tx_step g = g1"
    by (simp add: reset_tx_step_def Let_def fr g1_def reset_note_def call_def split: option.splits)
  have inv1: "qtxeth_inv (eth_q g1)" using txf.inv_get [OF Cons.prems rdy] by (simp add: g1_def)
  obtain q where "while (\<lambda>g. qtxeth_stage2_convert_ready (eth_q g)) reset_tx_step g1 =
      g1\<lparr>eth_q := q, calls := calls g1 @ concat (map reset_note es)\<rparr>"
    "qtxeth_inv q" "qtxeth_list q = []" "tx_buffer q = tx_buffer (eth_q g1)"
    using Cons.hyps(1) [of g1] fr(2) inv1 by auto
  moreover have "while (\<lambda>g. qtxeth_stage2_convert_ready (eth_q g)) reset_tx_step g =
      while (\<lambda>g. qtxeth_stage2_convert_ready (eth_q g)) reset_tx_step g1"
    using rdy by (subst while_unfold) (simp add: step)
  ultimately show ?case
    by (intro exI [of _ q]) (simp add: g1_def qtxeth_done_defs flip: Cons.hyps(2))
qed

lemma regop_list_pop:
  assumes "regop_inv q" "0 < rgp 5 q"
  shows "regop_list q = rg_buffer q ! regop_stage7_event_ptr q # regop_list (regop_adv 6 q)"
proof -
  have so: "staged_ok regop_cnt rg_size 6 q" using assms(1) by (simp add: regop_inv_def)
  have "rgp 5 q \<le> (\<Sum>i<6. rgp i q)" by (rule member_le_sum) simp_all
  with rgq.total [OF so] assms(2) have "0 < unat (rg_stage1_enqueue q - rg_stage7_event q)"
    by (simp add: numeral_eq_Suc)
  then show ?thesis
    by (simp add: regop_list_def ring_view_pop ring_idx_def regop_ptr_defs numeral_eq_Suc regop_adv.simps regop_done_defs)
qed

lemma regop_list_length: "regop_inv q \<Longrightarrow> length (regop_list q) = (\<Sum>i<6. rgp i q)"
  using rgq.total [of q] by (simp add: regop_inv_def regop_list_def numeral_eq_Suc)

lemma reset_event_loop:
  assumes "regop_inv (regop_q g)" "\<And>i. i < 5 \<Longrightarrow> rgp i (regop_q g) = 0"
  shows "\<exists>q. while (\<lambda>g. regop_stage7_event_ready (regop_q g)) reset_event_step g =
      g\<lparr>regop_q := q, calls := calls g @ concat (map reset_reg_note (regop_list (regop_q g)))\<rparr> \<and>
      regop_inv q \<and> regop_list q = [] \<and> (\<forall>i<6. rgp i q = 0) \<and> rg_buffer q = rg_buffer (regop_q g)"
  using assms
proof (induction "rgp 5 (regop_q g)" arbitrary: g)
  case 0
  have all: "\<forall>i<6. rgp i (regop_q g) = 0" 
  proof (intro allI impI)
    fix i :: nat
    assume "i < 6"
    then have "i < 5 \<or> i = 5" by linarith
    then show "rgp i (regop_q g) = 0" using 0 by auto
  qed
  then have "length (regop_list (regop_q g)) = 0" using regop_list_length [OF 0(2)] by simp
  with 0 all regop_ready_pend(6) [OF 0(2)] show ?case
    by (intro exI [of _ "regop_q g"]) (simp add: while_unfold)
next
  case (Suc n)
  define q0 where "q0 = regop_q g"
  define r where "r = rg_buffer q0 ! regop_stage7_event_ptr q0"
  define g1 where "g1 = g\<lparr>calls := calls g @ reset_reg_note r, regop_q := regop_adv 6 q0\<rparr>"
  have p: "0 < rgp 5 q0" using Suc.hyps(2) by (simp add: q0_def)
  have inv: "regop_inv q0" using Suc.prems by (simp add: q0_def)
  have rdy: "regop_stage7_event_ready q0" using regop_ready_pend(6) [OF inv] p by simp
  have step: "reset_event_step g = g1"
    by (simp add: reset_event_step_def Let_def g1_def reset_reg_note_def call_def r_def q0_def regop_done_adv split: option.splits)
  note a = regop_adv_ok [OF inv, of 5]
  obtain q where q: "while (\<lambda>g. regop_stage7_event_ready (regop_q g)) reset_event_step g1 =
      g1\<lparr>regop_q := q, calls := calls g1 @ concat (map reset_reg_note (regop_list (regop_q g1)))\<rparr>"
    "regop_inv q" "regop_list q = []" "\<forall>i<6. rgp i q = 0" "rg_buffer q = rg_buffer (regop_q g1)"
  proof -
    have "n = rgp 5 (regop_q g1)" "regop_inv (regop_q g1)" "\<And>i. i < 5 \<Longrightarrow> rgp i (regop_q g1) = 0"
      using Suc.hyps(2) Suc.prems a p by (simp_all add: g1_def flip: q0_def)
    from Suc.hyps(1) [OF this] that show ?thesis by blast
  qed
  have "while (\<lambda>g. regop_stage7_event_ready (regop_q g)) reset_event_step g =
      while (\<lambda>g. regop_stage7_event_ready (regop_q g)) reset_event_step g1"
    using rdy by (subst while_unfold) (simp add: step q0_def)
  with q regop_list_pop [OF inv p] show ?case
    by (intro exI [of _ q]) (simp add: g1_def r_def flip: q0_def)
qed

lemma seg_at_start:
  assumes "wf_entry e" "seg_at e 0 sc so" shows "sc = 0 \<and> so = 0"
proof -
  have "0 < length (frame e)" by (rule wf_entryD(7) [OF assms(1)])
  with assms(2) have sc: "sc < length (segs e)" "so = 0" "concat (map seg_data (take sc (segs e))) = []"
    by (auto simp: seg_at_def split: if_splits)
  have "sc = 0"
  proof (rule ccontr)
    assume "sc \<noteq> 0"
    then have "segs e ! 0 \<in> set (take sc (segs e))"
      using sc(1) by (auto simp: in_set_conv_nth intro!: exI [of _ 0])
    with sc(3) have "seg_data (segs e ! 0) = []" by auto
    then show False using wf_entryD(4,5) [OF assms(1), of 0] sc(1) by (metis less_nat_zero_code list.size(3) neq0_conv less_trans)
  qed
  with sc(2) show ?thesis by simp
qed

lemma TC6_Reset_result:
  assumes ok: "core_ok g" and op: "currentOp g = SPI_OP_INVALID"
  shows "\<exists>g'. TC6_Reset g = Some g' \<and> tx_frames g' = [] \<and> regop_list (regop_q g') = [] \<and>
    calls g' = calls g @ concat (map reset_note (qtxeth_list (eth_q g))) @ concat (map reset_reg_note (regop_list (regop_q g)))
      @ (if eth_started g then [OnRxEthernetPacket False 0 None] else []) \<and>
    txc g' = 24 \<and> \<not> enableData g' \<and> \<not> synced g' \<and> offsetEth g' = offsetEth g \<and>
    (offsetEth g = 0 \<longrightarrow> core_ok g')"
proof -
  note d = core_okD [OF ok]
  have invt: "qtxeth_inv (eth_q g)" using d(1) by (simp add: tx_ok_def)
  obtain qe where qe: "while (\<lambda>g. qtxeth_stage2_convert_ready (eth_q g)) reset_tx_step g =
      g\<lparr>eth_q := qe, calls := calls g @ concat (map reset_note (qtxeth_list (eth_q g)))\<rparr>"
    "qtxeth_inv qe" "qtxeth_list qe = []" "tx_buffer qe = tx_buffer (eth_q g)"
    using reset_tx_loop [OF invt] by blast
  define g1 where "g1 = g\<lparr>eth_q := qe, calls := calls g @ concat (map reset_note (qtxeth_list (eth_q g))), regop_q := reset_drain (regop_q g)\<rparr>"
  note rd = reset_drain_ok [OF d(2)]
  have "regop_inv (regop_q g1)" "\<And>i. i < 5 \<Longrightarrow> rgp i (regop_q g1) = 0" using rd by (simp_all add: g1_def)
  then obtain qr where qr: "while (\<lambda>g. regop_stage7_event_ready (regop_q g)) reset_event_step g1 =
      g1\<lparr>regop_q := qr, calls := calls g1 @ concat (map reset_reg_note (regop_list (regop_q g1)))\<rparr>"
    "regop_inv qr" "regop_list qr = []" "\<forall>i<6. rgp i qr = 0" "rg_buffer qr = rg_buffer (regop_q g1)"
    using reset_event_loop by blast
  define g2 where "g2 = g1\<lparr>regop_q := qr, calls := calls g1 @ concat (map reset_reg_note (regop_list (regop_q g1)))\<rparr>"
  define g3 where "g3 = (if eth_started g2 then call (OnRxEthernetPacket False 0 None) g2 else g2)\<lparr>txc := 24, enableData := False, synced := False\<rparr>"
  have res: "TC6_Reset g = Some g3"
    using op qe(1) qr(1) unfolding TC6_Reset_def
    by (simp add: Let_def reset_drain_def [unfolded Let_def, symmetric] g1_def [symmetric] g2_def g3_def)
  have rb: "rg_buffer qr = rg_buffer (regop_q g)" using qr(5) rd(3) by (simp add: g1_def)
  have ok3: "core_ok g3" if z: "offsetEth g = 0"
  proof -
    have "segCurr g = 0 \<and> segOffset g = 0"
      using d(1) z by (auto simp: tx_ok_def unat_eq_0 split: list.splits dest!: seg_at_start)
    then have "tx_ok g3" using z qe by (simp add: tx_ok_def g3_def g2_def g1_def call_def)
    then show ?thesis
      using d qr op rb qe(4) by (auto simp: core_ok_def g3_def g2_def g1_def flight_ok_def)
  qed
  then show ?thesis
    using qe qr by (intro exI [of _ g3]) (simp add: res g3_def g2_def g1_def tx_frames_def rd(2) call_def)
qed

section \<open>Reachable states\<close>

lemma TC6_Init_core_ok:
  assumes "TC6_Init valid t = (Some (i, g), valid')" shows "core_ok g \<and> tx_frames g = []"
proof -
  define qe where "qe = init_qtxeth_queue (replicate 4 qtxeth_zeroed) 4"
  define qs where "qs = init_qspibuf_queue (replicate 1 spi_zeroed) 1"
  define qr where "qr = init_regop_queue (replicate 4 regop_zeroed) 4"
  have g: "g = (tc6_zeroed qe qs qr)\<lparr>inst := of_nat i, magic := TC6_MAGIC, txc := 24, gTag := t\<rparr>"
    using assms by (auto simp: TC6_Init_def qe_def qs_def qr_def split: option.splits)
  have "qtxeth_inv qe" "qtxeth_list qe = []"
    by (simp_all add: qe_def init_qtxeth_queue_def qtxeth_inv_def qtxeth_list_def ring_ok_def staged_ok_def pend_def)
  moreover have "regop_cnt i qr = 0" for i
    by (cases "(i, qr)" rule: regop_cnt.cases) (simp_all add: qr_def init_regop_queue_def)
  then have "rgp i qr = 0" for i by (simp add: pend_def)
  moreover have "qspibuf_cnt i qs = 0" for i
    by (cases "(i, qs)" rule: qspibuf_cnt.cases) (simp_all add: qs_def init_qspibuf_queue_def)
  then have "spp i qs = 0" for i by (simp add: pend_def)
  moreover have "ring_ok (rg_buffer qr) (rg_size qr)" "0 < rg_size qr" "unat (rg_size qr) \<le> 128"
    "list_all reg_entry_ok (rg_buffer qr)"
    by (simp_all add: qr_def init_regop_queue_def ring_ok_def regop_zeroed_def reg_entry_ok_def list_all_iff)
  moreover have "ring_ok (sp_buffer qs) (sp_size qs)" "0 < sp_size qs" "unat (sp_size qs) \<le> 128"
    "list_all spi_entry_ok (sp_buffer qs)"
    by (simp_all add: qs_def init_qspibuf_queue_def ring_ok_def spi_zeroed_def spi_entry_ok_def)
  moreover have "list_all (\<lambda>e. length (ethSegs e) = 8) (tx_buffer qe)"
    by (simp add: qe_def init_qtxeth_queue_def qtxeth_zeroed_def list_all_iff)
  ultimately show ?thesis
    by (simp add: core_ok_def g tc6_zeroed_def tx_ok_def regop_inv_def spi_inv_def staged_ok_def flight_ok_def tx_frames_def)
qed

text \<open>
  The life of an instance: initialisation, then any sequence of public calls and interrupts. A
  frame handed over is backed by memory, its segments are not empty and add up to the given length;
  reset is called between two frames.
\<close>

inductive tc6_reach :: "'h spi \<Rightarrow> tc6 \<Rightarrow> 'h \<Rightarrow> bool" for spi where
  init: "TC6_Init valid t = (Some (i, g), valid') \<Longrightarrow> tc6_reach spi g h"
| service: "tc6_reach spi g h \<Longrightarrow> TC6_Service spi lvl g h = Some (s, g', h') \<Longrightarrow> tc6_reach spi g' h'"
| enable: "tc6_reach spi g h \<Longrightarrow> TC6_EnableData spi b g h = Some (g', h') \<Longrightarrow> tc6_reach spi g' h'"
| packet: "tc6_reach spi g h \<Longrightarrow> unat len \<le> length p \<Longrightarrow>
    TC6_SendRawEthernetPacket spi g h (Some p) len tc cb tg = Some (s, g', h') \<Longrightarrow> tc6_reach spi g' h'"
| segments: "tc6_reach spi g h \<Longrightarrow> TC6_GetRawSegments g = Some (n, old) \<Longrightarrow> length ss = n \<Longrightarrow>
    wf_entry \<lparr>priv = tg, txCallback = cb, ethSegs = ss, totalLen = len, segCount = k, tsc = tc\<rparr> \<Longrightarrow>
    TC6_SendRawEthernetSegments spi (fill_segments ss g) h k len tc cb tg = Some (s, g', h') \<Longrightarrow> tc6_reach spi g' h'"
| access: "tc6_reach spi g h \<Longrightarrow> accessRegisters g op addr v sec m cb tg = (s, g') \<Longrightarrow> tc6_reach spi g' h"
| interrupt: "tc6_reach spi g h \<Longrightarrow> length rx \<le> (if currentOp g = SPI_OP_REG then TC6_CNTRL_BUF_SIZE else TC6_SPI_BUF_SIZE) \<Longrightarrow>
    tc6_reach spi (spi_interrupt s rx g) h"
| unlock: "tc6_reach spi g h \<Longrightarrow> tc6_reach spi (TC6_UnlockExtendedStatus g) h"
| reset: "tc6_reach spi g h \<Longrightarrow> offsetEth g = 0 \<Longrightarrow> TC6_Reset g = Some g' \<Longrightarrow> tc6_reach spi g' h"

lemma spi_interrupt_core_ok:
  assumes ok: "core_ok g" and len: "length rx \<le> (if currentOp g = SPI_OP_REG then 16 else 2108)"
  shows "core_ok (spi_interrupt s rx g)"
proof (cases "currentOp g")
  case SPI_OP_DATA
  then have "core_ok (store_data_rx (qspibuf_stage2_int_ptr (qSpi g)) rx g)"
    using len spi_ptr_less(2) [OF core_okD(3) [OF ok]] by (intro store_data_rx_ok [OF ok]) simp_all
  then show ?thesis using SPI_OP_DATA SpiBufferDone_core_ok by (simp add: spi_interrupt_def)
next
  case SPI_OP_REG
  then have "core_ok (store_reg_rx (if regop_stage3_int_ready (regop_q g)
            then regop_stage3_int_ptr (regop_q g) else regop_stage6_int_ptr (regop_q g)) rx g)"
    using len regop_ptr_less(3,6) [OF core_okD(2) [OF ok]] by (intro store_rx_ok [OF ok]) simp_all
  then show ?thesis using SPI_OP_REG SpiBufferDone_core_ok by (simp add: spi_interrupt_def)
qed (use ok in \<open>simp add: spi_interrupt_def\<close>)

lemma qtxeth_put_fill:
  assumes "qtxeth_stage1_enqueue_ptr q < length (tx_buffer q)"
  shows "qtxeth_put e (q\<lparr>tx_buffer := (tx_buffer q)[qtxeth_stage1_enqueue_ptr q := x]\<rparr>) = qtxeth_put e q"
  by (simp add: qtxeth_put_def qtxeth_ptr_defs)

lemma segments_sent:
  fixes tg cb ss len k tc
  assumes ok: "core_ok g" and gs: "TC6_GetRawSegments g = Some (n, old)"
  defines "g1 \<equiv> g\<lparr>eth_q := qtxeth_put \<lparr>priv = tg, txCallback = cb, ethSegs = ss, totalLen = len, segCount = k, tsc = tc\<rparr> (eth_q g)\<rparr>"
  shows "TC6_SendRawEthernetSegments spi (fill_segments ss g) h k len tc cb tg =
      (if \<not> intContext g then map_option (\<lambda>(_, g, h). (True, g, h)) (serviceData spi False g1 h) else Some (True, g1, h))"
proof -
  define q where "q = eth_q g"
  define i where "i = qtxeth_stage1_enqueue_ptr q"
  define e where "e = \<lparr>priv = tg, txCallback = cb, ethSegs = ss, totalLen = len, segCount = k, tsc = tc\<rparr>"
  have g1: "g1 = g\<lparr>eth_q := qtxeth_put e q\<rparr>" by (simp add: g1_def e_def q_def)
  have en: "enableData g" using gs by (auto simp: TC6_GetRawSegments_def split: if_splits)
  have "ring_ok (tx_buffer q) (tx_size q)" using core_okD(1) [OF ok] by (simp add: tx_ok_def qtxeth_inv_def q_def)
  then have i: "i < length (tx_buffer q)" using ring_idx_less by (simp add: i_def ptr_ring_idx)
  have put: "qtxeth_put e (q\<lparr>tx_buffer := (tx_buffer q)[i := (tx_buffer q ! i)\<lparr>ethSegs := ss\<rparr>]\<rparr>) = qtxeth_put e q"
    unfolding i_def by (rule qtxeth_put_fill) (use i in \<open>simp add: i_def\<close>)
  have i': "qtxeth_stage1_enqueue_ptr (q\<lparr>tx_buffer := b\<rparr>) = i" for b by (simp add: i_def qtxeth_ptr_defs)
  have "(tx_buffer q ! i)\<lparr>ethSegs := ss, segCount := k, totalLen := len, tsc := tc, txCallback := cb, priv := tg\<rparr> = e"
    by (simp add: e_def)
  then show ?thesis
    using en i put
    by (simp add: TC6_SendRawEthernetSegments_def fill_segments_def Let_def q_def [symmetric] i_def [symmetric] i' g1)
qed

lemma segments_put:
  assumes ok: "core_ok g" and gs: "TC6_GetRawSegments g = Some (n, old)" "length ss = n"
    and wf: "wf_entry \<lparr>priv = tg, txCallback = cb, ethSegs = ss, totalLen = len, segCount = k, tsc = tc\<rparr>"
  shows "core_ok (g\<lparr>eth_q := qtxeth_put \<lparr>priv = tg, txCallback = cb, ethSegs = ss, totalLen = len, segCount = k, tsc = tc\<rparr> (eth_q g)\<rparr>)"
  using core_ok_put [OF ok wf] gs by (auto simp: TC6_GetRawSegments_def split: if_splits)

context spi_bus
begin

lemma segments_core_ok:
  assumes ok: "core_ok g" and gs: "TC6_GetRawSegments g = Some (n, old)" "length ss = n"
    and wf: "wf_entry \<lparr>priv = tg, txCallback = cb, ethSegs = ss, totalLen = len, segCount = k, tsc = tc\<rparr>"
    and tr: "TC6_SendRawEthernetSegments spi (fill_segments ss g) h k len tc cb tg = Some (s, g', h')"
  shows "core_ok g'"
  using segments_put [OF ok gs wf] segments_sent [OF ok gs(1), where spi = spi and h = h] tr serviceData_core_ok [OF segments_put [OF ok gs wf], of False h]
  by (auto split: if_splits)

lemma reach_core_ok: "tc6_reach spi g h \<Longrightarrow> core_ok g"
proof (induction rule: tc6_reach.induct)
  case (service g h lvl s g' h')
  then show ?case using TC6_Service_core_ok [of g lvl h] by auto
next
  case (enable g h b g' h')
  then show ?case using TC6_EnableData_core_ok [of g b h] by auto
next
  case (packet g h len p tc cb tg s g' h')
  then show ?case using SendRawEthernetPacket_core_ok [of g "Some p" len h tc cb tg] by auto
next
  case (segments g h n old ss tg cb len k tc s g' h')
  show ?case by (rule segments_core_ok [OF segments.IH segments.hyps(2-5)])
next
  case (access g h op addr v sec m cb tg s g')
  then show ?case using accessRegisters_core_ok [of g op addr v sec m cb tg] by simp
next
  case (reset g h g')
  then have "currentOp g = SPI_OP_INVALID" by (auto simp: TC6_Reset_def split: if_splits)
  with reset show ?case using TC6_Reset_result [of g] by auto
next
  case (init valid t i g valid' h)
  then show ?case using TC6_Init_core_ok by blast
next
  case (interrupt g h rx s)
  then show ?case by (intro spi_interrupt_core_ok) auto
next
  case (unlock g h)
  then show ?case by (simp add: TC6_UnlockExtendedStatus_def)
qed

end

end
