(* ===== verification/Tc6_Wire.thy ===== *)
theory Tc6_Wire
  imports Tc6_Service
begin

text \<open>
  The data service seen from the SPI bus, and the life of an instance: what one round of
  \<open>serviceData\<close> exchanges with the MACPHY, what a refused transfer costs, the invariant of every
  reachable state, and what a reset leaves.
\<close>

section \<open>One round of the data service\<close>

lemma SpiBufferDone_tx [simp]:
  "eth_q (TC6_SpiBufferDone g True) = eth_q g" "offsetEth (TC6_SpiBufferDone g True) = offsetEth g"
  "calls (TC6_SpiBufferDone g True) = calls g @ [OnNeedService]" "alreadyInDataService (TC6_SpiBufferDone g True) = alreadyInDataService g"
  by (simp_all add: TC6_SpiBufferDone_def Let_def call_def update_credit_cnt_def del: GET_VAL.simps split: SpiOp_t.splits)

lemma store_data_rx_tx [simp]:
  "eth_q (store_data_rx i rx g) = eth_q g" "offsetEth (store_data_rx i rx g) = offsetEth g" "calls (store_data_rx i rx g) = calls g"
  by (simp_all add: store_data_rx_def)

text \<open>One round of the data service up to the SPI driver: \<open>g1\<close> is the instance once the frames are taken, \<open>tx\<close> what is sent.\<close>

lemma serviceData_exchange:
  assumes ok: "core_ok g"
    and a: "\<not> alreadyInDataService g" "enableData g" "currentOp g = SPI_OP_INVALID" "qspibuf_stage1_transfer_ready (qSpi g)"
  shows "\<exists>m t i tx g3 sent. t \<le> 31 \<and> length tx = 68 * t \<and> m \<le> t \<and> m \<le> unat (txc g) \<and> core_ok g3 \<and>
    drop m (chunks 0 t tx) = replicate (t - m) empty_chunk \<and>
    mac_accept_all (tx_part g, []) (chunks 0 t tx) = Some (tx_part g3, map frame sent) \<and>
    qtxeth_list (eth_q g) = sent @ qtxeth_list (eth_q g3) \<and> calls g3 = calls g @ concat (map tx_note sent) \<and>
    (m < unat (txc g) \<and> m < 31 \<longrightarrow> tx_frames g3 = []) \<and> tx_left g3 + m \<le> tx_left g \<and>
    currentOp g3 = SPI_OP_INVALID \<and> regop_q g3 = regop_q g \<and>
    serviceData spi se g h =
      (if t = 0 then Some (False, g3\<lparr>alreadyInDataService := False\<rparr>, h)
       else case spiTransaction spi tx (store_data_rx i) SPI_OP_DATA (g3\<lparr>qSpi := qspibuf_stage1_transfer_done (qSpi g3)\<rparr>) h of
          (s, g4, h4) \<Rightarrow> Some (s, (if s then g4 else g4\<lparr>qSpi := qspibuf_stage1_transfer_undo (qSpi g4)\<rparr>)
            \<lparr>alreadyInDataService := False\<rparr>, h4))"
proof -
  define g0 where "g0 = g\<lparr>alreadyInDataService := True\<rparr>"
  define i where "i = qspibuf_stage1_transfer_ptr (qSpi g)"
  define e where "e = sp_buffer (qSpi g) ! i"
  note d = core_okD [OF ok]
  have tx0: "tx_ok g0" "tx_part g0 = tx_part g" "eth_q g0 = eth_q g" "calls g0 = calls g" "txc g0 = txc g" "tx_left g0 = tx_left g"
    using d(1) by (simp_all add: g0_def tx_part_def tx_left_def tx_frames_def)
  have i: "i < length (sp_buffer (qSpi g))" using spi_ptr_less(1) [OF d(3)] by (simp add: i_def)
  have e: "spi_entry_ok e" using d(5) i by (simp add: list_all_length e_def)
  have mx: "max_tx_len g0 = max_tx_len g" by (simp add: max_tx_len_def g0_def)
  obtain len g1 txb where mk: "mk_data_tx g0 (txBuff (initializeSpiEntry e)) (max_tx_len g) = Some (len, g1, txb)"
    using fill_spi_buffer [OF tx0(1) e, of False] unfolding mx by blast
  define x where "x = ((len = 0 \<and> se) \<or> rca g1 \<noteq> 0)"
  define en where "en = addEmptyChunks g1 ((initializeSpiEntry e)\<lparr>txBuff := txb, sp_length := len\<rparr>) x"
  from fill_spi_buffer [OF tx0(1) e, of x, unfolded Let_def mx] obtain m t g1' txb' sent where
    mk': "mk_data_tx g0 (txBuff (initializeSpiEntry e)) (max_tx_len g) = Some (of_nat (68 * m), g1', txb')" and
    f': "spi_entry_ok (addEmptyChunks g1' ((initializeSpiEntry e)\<lparr>txBuff := txb', sp_length := of_nat (68 * m)\<rparr>) x)"
    "sp_length (addEmptyChunks g1' ((initializeSpiEntry e)\<lparr>txBuff := txb', sp_length := of_nat (68 * m)\<rparr>) x) = of_nat (68 * t)"
    "m \<le> t" "t \<le> 31" "m \<le> unat (txc g0)" "tx_ok g1'" "tx_rest g1' = tx_rest g0"
    "qtxeth_list (eth_q g0) = sent @ qtxeth_list (eth_q g1')" "calls g1' = calls g0 @ concat (map tx_note sent)"
    "m < unat (txc g0) \<and> m < 31 \<longrightarrow> tx_frames g1' = []" "tx_left g1' + m \<le> tx_left g0"
    "drop m (chunks 0 t (take (68 * t) (txBuff (addEmptyChunks g1' ((initializeSpiEntry e)\<lparr>txBuff := txb', sp_length := of_nat (68 * m)\<rparr>) x)))) =
       replicate (t - m) empty_chunk"
    "mac_accept_all (tx_part g0, []) (chunks 0 t (take (68 * t) (txBuff (addEmptyChunks g1' ((initializeSpiEntry e)\<lparr>txBuff := txb', sp_length := of_nat (68 * m)\<rparr>) x)))) =
       Some (tx_part g1', map frame sent)"
    by (elim exE conjE) (rule that)
  have eq: "of_nat (68 * m) = len" "g1' = g1" "txb' = txb"
    using mk mk' by simp_all
  note f = f' [unfolded eq, folded en_def, unfolded tx0]
  note r = tx_rest_fields [OF f(7)]
  define g3 where "g3 = g1\<lparr>qSpi := (qSpi g1)\<lparr>sp_buffer := (sp_buffer (qSpi g1))[i := en]\<rparr>\<rparr>"
  have ok3: "core_ok g3"
    using d f(1,6) r by (simp add: core_ok_def g3_def flight_ok_def list_all_update g0_def)
  have g3: "tx_part g3 = tx_part g1" "tx_left g3 = tx_left g1" "tx_frames g3 = tx_frames g1" "eth_q g3 = eth_q g1" "calls g3 = calls g1"
    by (simp_all add: g3_def tx_part_def tx_left_def tx_frames_def)
  have op: "currentOp g3 = SPI_OP_INVALID" "regop_q g3 = regop_q g"
    using r a f(7) by (simp_all add: g3_def g0_def tx_rest_def)
  have lenu: "unat (of_nat (68 * t) :: u16) = 68 * t" using f(4) by (simp add: unat_u16_of_nat del: of_nat_mult)
  then have z: "sp_length en = 0 \<longleftrightarrow> t = 0" unfolding f(2) by (metis mult_is_0 unat_0 unat_eq_0 zero_neq_numeral)
  have len: "length (take (68 * t) (txBuff en)) = 68 * t" using f(1,4) by (simp add: spi_entry_ok_def)
  note sd = serviceData_active [of g i len g1 txb en se g3 spi h, folded g0_def e_def, OF a i_def mk en_def [unfolded x_def] g3_def]
  have u: "unat (sp_length en) = 68 * t" using f(2) lenu by (simp del: of_nat_mult)
  show ?thesis
    by (rule exI [of _ m], rule exI [of _ t], rule exI [of _ i], rule exI [of _ "take (68 * t) (txBuff en)"], rule exI [of _ g3], rule exI [of _ sent], intro conjI)
      (fact f(4) len f(3) f(5) ok3 f(12) f(13) [folded g3] f(8) [folded g3] f(9) [folded g3] f(10) [folded g3] f(11) [folded g3] op sd [unfolded z u])+
qed
text \<open>The data service leaves the register accesses alone.\<close>

lemma serviceData_regop:
  assumes "core_ok g" "serviceData spi se g h = Some (ok, g', h')"
  shows "regop_q g' = regop_q g"
proof (cases "\<not> alreadyInDataService g \<and> enableData g \<and> currentOp g = SPI_OP_INVALID \<and> qspibuf_stage1_transfer_ready (qSpi g)")
  case False
  then have "serviceData spi se g h = Some (False, g, h) \<or> serviceData spi se g h = Some (False, g\<lparr>alreadyInDataService := False\<rparr>, h)"
    unfolding serviceData_def Let_def by (auto simp del: split_paired_All split_paired_Ex)
  then show ?thesis using assms(2) by auto
next
  case True
  then have a: "\<not> alreadyInDataService g" "enableData g" "currentOp g = SPI_OP_INVALID" "qspibuf_stage1_transfer_ready (qSpi g)" by simp_all
  obtain t :: nat and tx i g3 where g3: "currentOp g3 = SPI_OP_INVALID" "regop_q g3 = regop_q g" and sd: "serviceData spi se g h =
      (if t = 0 then Some (False, g3\<lparr>alreadyInDataService := False\<rparr>, h)
       else case spiTransaction spi tx (store_data_rx i) SPI_OP_DATA (g3\<lparr>qSpi := qspibuf_stage1_transfer_done (qSpi g3)\<rparr>) h of
          (s, g4, h4) \<Rightarrow> Some (s, (if s then g4 else g4\<lparr>qSpi := qspibuf_stage1_transfer_undo (qSpi g4)\<rparr>)
            \<lparr>alreadyInDataService := False\<rparr>, h4))"
    using serviceData_exchange [OF assms(1) a, of spi se h] by (elim exE conjE) (erule (2) that)
  have "regop_q (TC6_SpiBufferDone x True) = regop_q x" if "currentOp x = SPI_OP_DATA" for x
    using that by (simp add: TC6_SpiBufferDone_def Let_def update_credit_cnt_rest)
  then show ?thesis
    using assms(2) g3 sd
    by (auto simp: spiTransaction_def OnSpiTransaction_def split: if_splits prod.splits spi_outcome.splits)
qed

text \<open>
  C3. One round of the data service with the SPI driver of the repository: it makes at most one exchange
  with the MACPHY, of at most 31 whole chunks. Not more of them carry data than the MACPHY has given
  transmit credits, the others are empty. The MACPHY accepts every chunk and ends up with exactly the
  frames that left the queue and the sent part of the next one; the callbacks made are theirs. Data is
  only left in the queue when the credits or the buffer are used up.
\<close>

theorem serviceData_on_the_wire:
  assumes "core_ok g" "\<not> alreadyInDataService g" "enableData g" "currentOp g = SPI_OP_INVALID"
    "qspibuf_stage1_transfer_ready (qSpi g)"
  shows "\<exists>m t tx g' sent. serviceData (TC6_Io_spiTransaction dev) se g h = Some (t \<noteq> 0, g', if t = 0 then h else snd (dev h tx)) \<and>
    core_ok g' \<and> t \<le> 31 \<and> length tx = 68 * t \<and> m \<le> t \<and> m \<le> unat (txc g) \<and>
    drop m (chunks 0 t tx) = replicate (t - m) empty_chunk \<and>
    mac_accept_all (tx_part g, []) (chunks 0 t tx) = Some (tx_part g', map frame sent) \<and>
    qtxeth_list (eth_q g) = sent @ qtxeth_list (eth_q g') \<and>
    calls g' = calls g @ concat (map tx_note sent) @ (if t = 0 then [] else [OnNeedService]) \<and>
    (m < unat (txc g) \<and> m < 31 \<longrightarrow> tx_frames g' = [])"
proof -
  obtain m t i tx g3 sent where f: "t \<le> 31" "length tx = 68 * t" "m \<le> t" "m \<le> unat (txc g)" "core_ok g3"
    "drop m (chunks 0 t tx) = replicate (t - m) empty_chunk"
    "mac_accept_all (tx_part g, []) (chunks 0 t tx) = Some (tx_part g3, map frame sent)"
    "qtxeth_list (eth_q g) = sent @ qtxeth_list (eth_q g3)" "calls g3 = calls g @ concat (map tx_note sent)"
    "m < unat (txc g) \<and> m < 31 \<longrightarrow> tx_frames g3 = []" "currentOp g3 = SPI_OP_INVALID"
    and sd: "serviceData (TC6_Io_spiTransaction dev) se g h =
      (if t = 0 then Some (False, g3\<lparr>alreadyInDataService := False\<rparr>, h)
       else case spiTransaction (TC6_Io_spiTransaction dev) tx (store_data_rx i) SPI_OP_DATA (g3\<lparr>qSpi := qspibuf_stage1_transfer_done (qSpi g3)\<rparr>) h of
          (s, g4, h4) \<Rightarrow> Some (s, (if s then g4 else g4\<lparr>qSpi := qspibuf_stage1_transfer_undo (qSpi g4)\<rparr>)
            \<lparr>alreadyInDataService := False\<rparr>, h4))"
    using serviceData_exchange [OF assms, of "TC6_Io_spiTransaction dev" se h] by (elim exE conjE) (rule that)
  obtain s g' h' where res: "serviceData (TC6_Io_spiTransaction dev) se g h = Some (s, g', h')" and ok': "core_ok g'"
    using io.serviceData_core_ok [OF assms(1), of dev se h] by blast
  have tx: "eth_q g' = eth_q g3" "offsetEth g' = offsetEth g3" "s \<longleftrightarrow> t \<noteq> 0" "h' = (if t = 0 then h else snd (dev h tx))"
    "calls g' = calls g3 @ (if t = 0 then [] else [OnNeedService])"
    using sd res f(11)
    by (auto simp: spiTransaction_def OnSpiTransaction_def TC6_Io_spiTransaction_def split: if_splits prod.splits)
  then have "tx_part g' = tx_part g3" "tx_frames g' = tx_frames g3" by (simp_all add: tx_part_def tx_frames_def)
  with f ok' tx res show ?thesis
    by - (rule exI [of _ m], rule exI [of _ t], rule exI [of _ tx], rule exI [of _ g'], rule exI [of _ sent], simp)
qed

text \<open>
  C36. A refused transfer loses data: when the SPI driver refuses the transfer, nothing reaches the MACPHY,
  but the bytes that were put into the buffer are gone from the transmit queue, and the callbacks of
  the frames among them have been made; only the queue of SPI buffers is wound back.
\<close>

theorem refused_transfer_loses_data:
  assumes "core_ok g" "\<not> alreadyInDataService g" "enableData g" "currentOp g = SPI_OP_INVALID"
    "qspibuf_stage1_transfer_ready (qSpi g)" "tx_frames g \<noteq> []" "txc g \<noteq> 0"
  shows "\<exists>g' sent. serviceData (\<lambda>h tx. (Spi_Refused, h)) se g (h :: 'a) = Some (False, g', h) \<and> tx_left g' < tx_left g \<and>
    qtxeth_list (eth_q g) = sent @ qtxeth_list (eth_q g') \<and> calls g' = calls g @ concat (map tx_note sent)"
proof -
  define spi :: "'a spi" where "spi = (\<lambda>h tx. (Spi_Refused, h))"
  obtain m t i tx g3 sent where f: "m \<le> t" "m \<le> unat (txc g)" 
    "drop m (chunks 0 t tx) = replicate (t - m) empty_chunk"
    "mac_accept_all (tx_part g, []) (chunks 0 t tx) = Some (tx_part g3, map frame sent)"
    "qtxeth_list (eth_q g) = sent @ qtxeth_list (eth_q g3)" "calls g3 = calls g @ concat (map tx_note sent)"
    "m < unat (txc g) \<and> m < 31 \<longrightarrow> tx_frames g3 = []" "currentOp g3 = SPI_OP_INVALID" "tx_left g3 + m \<le> tx_left g"
    and sd: "serviceData spi se g h =
      (if t = 0 then Some (False, g3\<lparr>alreadyInDataService := False\<rparr>, h)
       else case spiTransaction spi tx (store_data_rx i) SPI_OP_DATA (g3\<lparr>qSpi := qspibuf_stage1_transfer_done (qSpi g3)\<rparr>) h of
          (s, g4, h4) \<Rightarrow> Some (s, (if s then g4 else g4\<lparr>qSpi := qspibuf_stage1_transfer_undo (qSpi g4)\<rparr>)
            \<lparr>alreadyInDataService := False\<rparr>, h4))"
    using serviceData_exchange [OF assms(1-5), of spi se h] by (elim exE conjE) (rule that)
  have "m \<noteq> 0"
  proof
    assume m: "m = 0"
    then have "chunks 0 t tx = replicate t empty_chunk" using f(3) by simp
    then have "sent = []" using f(4) by (simp add: mac_accept_empty)
    moreover have "0 < unat (txc g)" using assms(7) by (simp add: unat_gt_0)
    ultimately show False using assms(6) f(5,7) m by (simp add: tx_frames_def)
  qed
  define g' where "g' = g3\<lparr>currentOp := SPI_OP_INVALID, alreadyInDataService := False\<rparr>"
  have "serviceData spi se g h = Some (False, g', h)"
    using sd f(1,8) \<open>m \<noteq> 0\<close> by (auto simp: spiTransaction_def OnSpiTransaction_def spi_def g'_def)
  moreover have "tx_left g' = tx_left g3" "calls g' = calls g3" "eth_q g' = eth_q g3"
    by (simp_all add: g'_def tx_left_def tx_frames_def)
  ultimately show ?thesis
    using f(5,6,9) \<open>m \<noteq> 0\<close> by (intro exI [of _ g'] exI [of _ sent]) (simp add: spi_def)
qed

text \<open>An instance as initialised, with data transfer enabled and a frame of 60 bytes handed over.\<close>

definition wire_example :: tc6 where
  "wire_example =
    (let g = (snd (the (fst (TC6_Init [False] 7))))\<lparr>enableData := True\<rparr>;
         old = tx_buffer (eth_q g) ! qtxeth_stage1_enqueue_ptr (eth_q g)
     in g\<lparr>eth_q := qtxeth_put (old\<lparr>ethSegs := (ethSegs old)[0 := \<lparr>pEth = replicate 60 1, segLen = 60\<rparr>], totalLen := 60,
                           segCount := 1, tsc := 0, txCallback := Some 3, priv := 9\<rparr>) (eth_q g)\<rparr>)"


lemma wire_example_init:
  obtains g old valid' where "TC6_Init [False] 7 = (Some (0, g), valid')" "qtxeth_stage1_enqueue_ready (eth_q g)"
    "qspibuf_stage1_transfer_ready (qSpi g)" "\<not> alreadyInDataService g" "currentOp g = SPI_OP_INVALID" "txc g = 24"
    "core_ok g" "qtxeth_list (eth_q g) = []" "length (ethSegs old) = 8"
    "wire_example = g\<lparr>enableData := True, eth_q := qtxeth_put (old\<lparr>ethSegs := (ethSegs old)[0 := \<lparr>pEth = replicate 60 1, segLen = 60\<rparr>],
       totalLen := 60, segCount := 1, tsc := 0, txCallback := Some 3, priv := 9\<rparr>) (eth_q g)\<rparr>"
proof -
  obtain g valid' where i: "TC6_Init [False] 7 = (Some (0, g), valid')" by (simp add: TC6_Init_def)
  then have g: "qtxeth_stage1_enqueue_ready (eth_q g)" "qspibuf_stage1_transfer_ready (qSpi g)" "\<not> alreadyInDataService g"
    "currentOp g = SPI_OP_INVALID" "txc g = 24"
    by (auto simp: TC6_Init_def tc6_zeroed_def init_qtxeth_queue_def init_qspibuf_queue_def qtxeth_ready_defs qspibuf_ready_defs)
  have ok: "core_ok g" "tx_frames g = []" using TC6_Init_core_ok [OF i] by simp_all
  show ?thesis
    by (rule that [OF i g ok(1) _ tx_slot [OF ok(1)]]) (use ok(2) i in \<open>simp_all add: tx_frames_def wire_example_def Let_def\<close>)
qed

lemma wire_example:
  "core_ok wire_example" "\<not> alreadyInDataService wire_example" "enableData wire_example" "currentOp wire_example = SPI_OP_INVALID"
  "qspibuf_stage1_transfer_ready (qSpi wire_example)" "tx_frames wire_example = [replicate 60 1]" "txc wire_example = 24"
proof -
  obtain g old valid' where g: "qtxeth_stage1_enqueue_ready (eth_q g)"
    "qspibuf_stage1_transfer_ready (qSpi g)" "\<not> alreadyInDataService g" "currentOp g = SPI_OP_INVALID" "txc g = 24"
    "core_ok g" "qtxeth_list (eth_q g) = []" "length (ethSegs old) = 8"
    "wire_example = g\<lparr>enableData := True, eth_q := qtxeth_put (old\<lparr>ethSegs := (ethSegs old)[0 := \<lparr>pEth = replicate 60 1, segLen = 60\<rparr>],
       totalLen := 60, segCount := 1, tsc := 0, txCallback := Some 3, priv := 9\<rparr>) (eth_q g)\<rparr>"
    by (rule wire_example_init)
  define e where "e = old\<lparr>ethSegs := (ethSegs old)[0 := \<lparr>pEth = replicate 60 1, segLen = 60\<rparr>],
       totalLen := 60, segCount := 1, tsc := 0, txCallback := Some 3, priv := 9\<rparr>"
  have e: "wf_entry e" "length (ethSegs e) = 8" "frame e = replicate 60 1"
    using packet_entry [of old 60 "replicate 60 1" 9 "Some 3" 0] g(8) by (simp_all add: e_def)
  have w: "wire_example = (g\<lparr>enableData := True\<rparr>)\<lparr>eth_q := qtxeth_put e (eth_q (g\<lparr>enableData := True\<rparr>))\<rparr>"
    by (simp add: g(9) e_def)
  show "core_ok wire_example" unfolding w by (rule core_ok_put) (use g e in simp_all)
  show "tx_frames wire_example = [replicate 60 1]"
    using tx_ok_put(2) [OF core_okD(1) [OF g(6)] e(1) g(1)] e(3) g(7) unfolding w by (simp add: tx_frames_def)
  show "\<not> alreadyInDataService wire_example" "enableData wire_example" "currentOp wire_example = SPI_OP_INVALID"
    "qspibuf_stage1_transfer_ready (qSpi wire_example)" "txc wire_example = 24"
    using g(2-5) by (simp_all add: w)
qed

lemma wire_example_start: "offsetEth wire_example = 0" "unat (txc wire_example) = 24" "tx_part wire_example = None"
  by (simp_all add: tx_part_def wire_example_def TC6_Init_def tc6_zeroed_def Let_def)

theorem serviceData_on_the_wire_witness:
  "core_ok wire_example \<and> tx_frames wire_example = [replicate 60 1] \<and>
   (\<exists>m t tx g' sent. serviceData (TC6_Io_spiTransaction (\<lambda>h tx. (tx, h + 1))) True wire_example (0 :: nat) = Some (t \<noteq> 0, g', if t = 0 then 0 else 1) \<and>
    core_ok g' \<and> t \<le> 31 \<and> length tx = 68 * t \<and> m \<le> t \<and> m \<le> 24 \<and>
    drop m (chunks 0 t tx) = replicate (t - m) empty_chunk \<and>
    mac_accept_all (None, []) (chunks 0 t tx) = Some (tx_part g', map frame sent) \<and>
    qtxeth_list (eth_q wire_example) = sent @ qtxeth_list (eth_q g') \<and> (m < 24 \<longrightarrow> tx_frames g' = []))"
  using serviceData_on_the_wire [OF wire_example(1-5), of "\<lambda>h tx. (tx, h + 1)" True "0 :: nat"] wire_example(1,6)
  unfolding wire_example_start snd_conv by (elim exE conjE) (intro conjI exI; simp)

theorem refused_transfer_loses_data_witness:
  "core_ok wire_example \<and> tx_frames wire_example = [replicate 60 1] \<and>
   (\<exists>g' sent. serviceData (\<lambda>h tx. (Spi_Refused, h)) True wire_example () = Some (False, g', ()) \<and> tx_left g' < tx_left wire_example \<and>
     qtxeth_list (eth_q wire_example) = sent @ qtxeth_list (eth_q g') \<and> calls g' = calls wire_example @ concat (map tx_note sent))"
  using refused_transfer_loses_data [OF wire_example(1-5), of True "()"] wire_example(1,6,7) by simp



text \<open>
  C11. Reset ends everything that was under way, and says so: without a transaction on the SPI bus it runs
  through; every frame in the transmit queue and every register access in progress gets its callback, in
  order, the register accesses as failed; a frame in reception is reported as broken; the queues are empty, data
  transfer is off. Between two frames it also keeps the invariant.
\<close>

theorem reset_flushes:
  assumes "core_ok g" "currentOp g = SPI_OP_INVALID"
  shows "\<exists>g'. TC6_Reset g = Some g' \<and> tx_frames g' = [] \<and> regop_list (regop_q g') = [] \<and>
    calls g' = calls g @ concat (map reset_note (qtxeth_list (eth_q g))) @ concat (map reset_reg_note (regop_list (regop_q g)))
      @ (if eth_started g then [OnRxEthernetPacket False 0 None] else []) \<and>
    txc g' = 24 \<and> \<not> enableData g' \<and> \<not> synced g' \<and> (offsetEth g = 0 \<longrightarrow> core_ok g')"
  using TC6_Reset_result [OF assms] by blast

theorem reset_flushes_witness:
  "core_ok wire_example \<and> currentOp wire_example = SPI_OP_INVALID \<and>
   (\<exists>g'. TC6_Reset wire_example = Some g' \<and> tx_frames g' = [] \<and> regop_list (regop_q g') = [] \<and> \<not> enableData g' \<and> core_ok g')"
  using reset_flushes [OF wire_example(1,4)] wire_example(1,4) wire_example_start(1) by blast

section \<open>A reset inside of a frame\<close>

text \<open>
  An instance that has sent the first 64 of the 70 bytes of its only frame, and a frame of 100 bytes
  to be sent next.
\<close>

definition frame_entry :: "bytes \<Rightarrow> u16 \<Rightarrow> qtxeth" where
  "frame_entry p n = \<lparr>priv = 0, txCallback = None, ethSegs = [\<lparr>pEth = p, segLen = n\<rparr>], totalLen = n, segCount = 1, tsc = 0\<rparr>"

definition reset_example :: tc6 where
  "reset_example = fst (snd (the (mk_data_tx
     (tc6_zeroed (qtxeth_put (frame_entry (replicate 70 1) 70) (init_qtxeth_queue (replicate TC6_TX_ETH_QSIZE qtxeth_zeroed) 4))
       (init_qspibuf_queue [] 1) (init_regop_queue [] 4)) (replicate 68 0) 68)))"

text \<open>
  A reset between two chunks of a frame is not clean: the transmit queue is emptied, but the position inside of the
  frame stays. Of the next frame handed over, the first 64 bytes are never sent; its only chunk
  has no start bit, so the MACPHY refuses it, while the driver counts the frame as sent.
\<close>

theorem reset_inside_a_frame:
  "offsetEth reset_example = 64 \<and>
   (case TC6_Reset reset_example of None \<Rightarrow> False
    | Some g \<Rightarrow> tx_frames g = [] \<and>
        (case mk_data_tx (g\<lparr>eth_q := qtxeth_put (frame_entry (replicate 64 2 @ replicate 36 3) 100) (eth_q g)\<rparr>) (replicate 68 0) 68 of None \<Rightarrow> False
         | Some (len, g', chunk) \<Rightarrow> len = 68 \<and> GET_VAL HDR_DV chunk = 1 \<and> GET_VAL HDR_SV chunk = 0 \<and> GET_VAL HDR_EV chunk = 1 \<and>
             sub_at 4 36 chunk = replicate 36 3 \<and> mac_accept (None, []) chunk = None \<and> tx_frames g' = []))"
  by code_simp

end
