(* ===== verification/Tc6_Register.thy ===== *)
theory Tc6_Register
  imports Tc6_Wire
begin

text \<open>
  Register access end to end: the driver with a MACPHY on the bus that answers control requests from a
  register file. The MACPHY (\<open>macphy_ctrl\<close>) follows the TC6 specification and is independent of the code:
  it refuses headers with a parity error, echoes writes and answers reads, four bytes late.
\<close>

section \<open>The MACPHY as a register file\<close>

definition reg_word :: "bool \<Rightarrow> u32 \<Rightarrow> bytes" where
  "reg_word prot v = value2net v @ (if prot then value2net (NOT v) else [])"

definition ctrl_addr :: "bytes \<Rightarrow> u32" where
  "ctrl_addr tx = push_bit 16 (ucast (GET_VAL HDR_C_MMS tx)) OR push_bit 8 (ucast (GET_VAL HDR_C_ADDR_HI tx))
     OR ucast (GET_VAL HDR_C_ADDR_LO tx)"

definition macphy_ctrl :: "bool \<Rightarrow> (u32 \<Rightarrow> u32) \<Rightarrow> bytes \<Rightarrow> bytes \<times> (u32 \<Rightarrow> u32)" where
  "macphy_ctrl prot r tx =
    (if GET_VAL HDR_C_DNC tx \<noteq> 0 \<or> get_parity tx \<noteq> 0 then (replicate (length tx) 0, r)
     else if GET_VAL HDR_C_WNR tx = 1
     then ([0, 0, 0, 0] @ take (length tx - 4) tx, r(ctrl_addr tx := net2value (drop 4 tx)))
     else ([0, 0, 0, 0] @ take 4 tx @ reg_word prot (r (ctrl_addr tx)), r))"

lemma ctrl_req_header:
  obtains b where "length b = 16" "snd (ctrl_req s w a v) = ctrl_header w False a 1 b"
    "w \<Longrightarrow> take (if s then 8 else 4) (drop 4 b) = reg_word s v"
proof -
  define b where "b = (if w then if s then copy_regs_secure 1 [v] (replicate 16 0) else copy_regs 1 [v] (replicate 16 0) else replicate 16 0)"
  have "length b = 16" by (simp add: b_def)
  moreover have "snd (ctrl_req s w a v) = ctrl_header w False a 1 b"
    by (simp add: ctrl_req_def mk_ctrl_req_def mk_secure_ctrl_req_def b_def Let_def)
  moreover have "w \<Longrightarrow> take (if s then 8 else 4) (drop 4 b) = reg_word s v"
    by (simp add: b_def reg_word_def put_at_def value2net_def)
  ultimately show ?thesis by (rule that)
qed

lemma addr_20: "push_bit 16 (ucast (ucast (drop_bit 16 a) AND 15 :: u8)) OR push_bit 8 (ucast (ucast (drop_bit 8 a) :: u8)) OR ucast (ucast a :: u8) =
    a AND 0xFFFFF" for a :: u32
proof -
  have "push_bit 16 (ucast (ucast (drop_bit 16 a) AND mask 4 :: u8)) OR push_bit 8 (ucast (ucast (drop_bit 8 a) :: u8)) OR ucast (ucast a :: u8) =
    a AND mask 20"
    by (rule bit_word_eqI) (auto simp: bit_simps)
  then show ?thesis by (simp add: mask_numeral)
qed

lemma GET_VAL_take: "4 \<le> n \<Longrightarrow> f \<in> {HDR_C_DNC, HDR_C_WNR, HDR_C_MMS, HDR_C_ADDR_HI, HDR_C_ADDR_LO} \<Longrightarrow> GET_VAL f (take n tx) = GET_VAL f tx"
  by auto

lemma get_parity_take: "4 \<le> n \<Longrightarrow> get_parity (take n tx) = get_parity tx"
  by (simp add: get_parity_def)

text \<open>The answer to a request of the driver: eight bytes, then the register.\<close>

lemma macphy_answer:
  defines "n \<equiv> \<lambda>s. if s then 16 else 12"
  obtains pre where "length pre = 8" "macphy_ctrl s r (take (n s) (snd (ctrl_req s w a v))) =
    (pre @ reg_word s (if w then v else r (a AND 0xFFFFF)), if w then r(a AND 0xFFFFF := v) else r)"
proof -
  obtain b where b: "length b = 16" "snd (ctrl_req s w a v) = ctrl_header w False a 1 b"
    "w \<Longrightarrow> take (if s then 8 else 4) (drop 4 b) = reg_word s v" by (rule ctrl_req_header [where s = s and w = w and a = a and v = v]) blast
  have "4 \<le> length b" using b(1) by simp
  note f = ctrl_header_fields [OF this b(2)]
  obtain h where h: "length h = 4" "snd (ctrl_req s w a v) = h @ drop 4 b"
    using ctrl_header_tail [of b w False a 1] b(1,2) by auto
  define tx where "tx = take (n s) (snd (ctrl_req s w a v))"
  have n: "4 \<le> n s" "4 \<le> n s - 4" "n s - 4 - 4 = n s - 8" by (simp_all add: n_def)
  have g: "GET_VAL HDR_C_DNC tx = 0" "get_parity tx = 0" "GET_VAL HDR_C_WNR tx = of_bool w" "ctrl_addr tx = a AND 0xFFFFF"
    using f addr_20 [of a] by (simp_all add: tx_def GET_VAL_take [OF n(1)] get_parity_take [OF n(1)] ctrl_addr_def del: GET_VAL.simps)
  have l: "length tx = n s" using b(1) h by (simp add: tx_def n_def)
  have t: "take 4 tx = h" "drop 4 tx = take (n s - 4) (drop 4 b)" "take (n s - 4) tx = h @ take (n s - 8) (drop 4 b)"
    using h n by (simp_all add: tx_def)
  have w: "w \<Longrightarrow> take (n s - 8) (drop 4 b) = reg_word s v" using b(3) by (simp add: n_def split: if_splits)
  have "n s - 4 = (n s - 8) + 4" by (simp add: n_def)
  then have "drop 4 tx = take (n s - 8) (drop 4 b) @ take 4 (drop (n s - 8) (drop 4 b))" unfolding t(2) by (simp only: take_add)
  then have "w \<Longrightarrow> net2value (drop 4 tx) = v" using w by (simp add: reg_word_def)
  then show ?thesis
    using that [of "[0, 0, 0, 0] @ h"] g l t w h(1) by (simp add: macphy_ctrl_def tx_def [symmetric] del: GET_VAL.simps)
qed

text \<open>What the driver reads from an entry that has received such an answer.\<close>

lemma read_regop_answer:
  assumes "length pre = 8" "length (rx_buf e) = 16" "rg_length e = (if secure e then 16 else 12)"
  shows "read_regop (e\<lparr>rx_buf := put_at 0 (pre @ reg_word (secure e) v) (rx_buf e)\<rparr>) = (1, v)"
proof (cases "secure e")
  case True
  then show ?thesis
    using read_back_secure [of pre "[v]" 1 "[0xFFFFFFFF]" "put_at 0 (pre @ reg_word True v) (rx_buf e)" "[]"] assms
    by (simp add: read_regop_def reg_word_def put_at_def)
next
  case False
  then show ?thesis
    using read_back_plain [of pre "[v]" 1 "[0xFFFFFFFF]" "drop 12 (rx_buf e)"] assms
    by (simp add: read_regop_def reg_word_def put_at_def)
qed

section \<open>One register access on its way through the queue\<close>

text \<open>The queue with one element that has passed the first \<open>n\<close> stages, none for \<open>n = 0\<close>.\<close>

definition one_at :: "nat \<Rightarrow> u8 \<Rightarrow> u8 \<Rightarrow> 'e list \<Rightarrow> 'e regop_queue" where
  "one_at n c sz b =
    \<lparr>rg_buffer = b, rg_size = sz, rg_stage1_enqueue = (if 1 \<le> n then c + 1 else c), rg_stage2_send = (if 2 \<le> n then c + 1 else c),
     rg_stage3_int = (if 3 \<le> n then c + 1 else c), rg_stage4_modify = (if 4 \<le> n then c + 1 else c),
     rg_stage5_send = (if 5 \<le> n then c + 1 else c), rg_stage6_int = (if 6 \<le> n then c + 1 else c), rg_stage7_event = c\<rparr>"

lemma one_at_buffer [simp]: "rg_buffer (one_at n c sz b) = b" "(one_at n c sz b)\<lparr>rg_buffer := b'\<rparr> = one_at n c sz b'" "rg_size (one_at n c sz b) = sz"
  by (simp_all add: one_at_def)

lemma one_at_ready:
  assumes "0 < sz"
  shows "regop_stage1_enqueue_ready (one_at 0 c sz b)" "regop_stage2_send_ready (one_at n c sz b) \<longleftrightarrow> n = 1"
    "regop_stage3_int_ready (one_at n c sz b) \<longleftrightarrow> n = 2" "regop_stage4_modify_ready (one_at n c sz b) \<longleftrightarrow> n = 3"
    "regop_stage5_send_ready (one_at n c sz b) \<longleftrightarrow> n = 4" "regop_stage6_int_ready (one_at n c sz b) \<longleftrightarrow> n = 5"
    "regop_stage7_event_ready (one_at n c sz b) \<longleftrightarrow> 6 \<le> n"
proof -
  have "\<not> - 1 < sz" by (simp add: not_less)
  with assms show "regop_stage1_enqueue_ready (one_at 0 c sz b)" "regop_stage2_send_ready (one_at n c sz b) \<longleftrightarrow> n = 1"
    "regop_stage3_int_ready (one_at n c sz b) \<longleftrightarrow> n = 2" "regop_stage4_modify_ready (one_at n c sz b) \<longleftrightarrow> n = 3"
    "regop_stage5_send_ready (one_at n c sz b) \<longleftrightarrow> n = 4" "regop_stage6_int_ready (one_at n c sz b) \<longleftrightarrow> n = 5"
    "regop_stage7_event_ready (one_at n c sz b) \<longleftrightarrow> 6 \<le> n"
    by (auto simp: regop_ready_defs one_at_def)
qed

lemma one_at_done:
  "regop_stage1_enqueue_done (one_at 0 c sz b) = one_at 1 c sz b" "regop_stage2_send_done (one_at 1 c sz b) = one_at 2 c sz b"
  "regop_stage3_int_done (one_at 2 c sz b) = one_at 3 c sz b" "regop_stage4_modify_done (one_at 3 c sz b) = one_at 4 c sz b"
  "regop_stage5_send_done (one_at 4 c sz b) = one_at 5 c sz b" "regop_stage6_int_done (one_at 5 c sz b) = one_at 6 c sz b"
  "regop_stage7_event_done (one_at 6 c sz b) = one_at 0 (c + 1) sz b"
  by (simp_all add: regop_done_defs one_at_def)

lemma one_at_ptr:
  "regop_stage1_enqueue_ptr (one_at 0 c sz b) = unat (c AND (sz - 1))" "regop_stage2_send_ptr (one_at 1 c sz b) = unat (c AND (sz - 1))"
  "regop_stage3_int_ptr (one_at 2 c sz b) = unat (c AND (sz - 1))" "regop_stage4_modify_ptr (one_at 3 c sz b) = unat (c AND (sz - 1))"
  "regop_stage5_send_ptr (one_at 4 c sz b) = unat (c AND (sz - 1))" "regop_stage6_int_ptr (one_at 5 c sz b) = unat (c AND (sz - 1))"
  "regop_stage7_event_ptr (one_at 6 c sz b) = unat (c AND (sz - 1))"
  by (simp_all add: regop_ptr_defs one_at_def)

lemma empty_one_at:
  assumes "regop_inv q" "regop_list q = []"
  shows "q = one_at 0 (rg_stage7_event q) (rg_size q) (rg_buffer q)"
proof -
  have "(\<Sum>i<6. rgp i q) = 0" using regop_list_length [OF assms(1)] assms(2) by simp
  then have "rgp i q = 0" if "i < 6" for i using that by simp
  from this [of 0] this [of 1] this [of 2] this [of 3] this [of 4] this [of 5] show ?thesis
    by (simp add: pend_def one_at_def numeral_eq_Suc unat_eq_0)
qed

text \<open>The instance between two calls of the service, by its register queue and the calls made.\<close>

definition reg_state :: "tc6 \<Rightarrow> register_operation regop_queue \<Rightarrow> tc6_call list \<Rightarrow> tc6" where
  "reg_state g q cs = g\<lparr>regop_q := q, calls := cs, currentOp := SPI_OP_INVALID, intContext := False, alreadyInControlService := False\<rparr>"

lemma reg_state_self: "currentOp g = SPI_OP_INVALID \<Longrightarrow> \<not> intContext g \<Longrightarrow> \<not> alreadyInControlService g \<Longrightarrow> g = reg_state g (regop_q g) (calls g)"
  by (cases g) (simp add: reg_state_def)

text \<open>An entry ready to be sent.\<close>

definition reg_request :: "bool \<Rightarrow> bool \<Rightarrow> u32 \<Rightarrow> u32 \<Rightarrow> register_operation \<Rightarrow> bool" where
  "reg_request s w a v e \<longleftrightarrow> tx_buf e = snd (ctrl_req s w a v) \<and> rg_length e = (if s then 16 else 12) \<and> secure e = s \<and>
     regAddr e = a \<and> length (rx_buf e) = 16"

lemma reg_exchange:
  assumes i: "i = unat (c AND (sz - 1))" "i < length b" and e: "reg_request s w a v (b ! i)" and sz: "0 < sz" and k: "k = 2 \<or> k = 5"
  obtains pre where "length pre = 8" "OnSpiTransaction (TC6_Io_spiTransaction (macphy_ctrl s)) (reg_tx (b ! i)) (store_reg_rx i)
      (g\<lparr>regop_q := one_at k c sz b, currentOp := SPI_OP_REG\<rparr>) r =
    (True, g\<lparr>regop_q := one_at (Suc k) c sz (b[i := (b ! i)\<lparr>rx_buf := put_at 0 (pre @ reg_word s (if w then v else r (a AND 0xFFFFF))) (rx_buf (b ! i))\<rparr>]),
              currentOp := SPI_OP_INVALID, intContext := False, calls := calls g @ [OnNeedService]\<rparr>,
      if w then r(a AND 0xFFFFF := v) else r)"
proof -
  obtain pre where pre: "length pre = 8" and m: "macphy_ctrl s r (take (if s then 16 else 12) (snd (ctrl_req s w a v))) =
    (pre @ reg_word s (if w then v else r (a AND 0xFFFFF)), if w then r(a AND 0xFFFFF := v) else r)" by (rule macphy_answer)
  define ans where "ans = pre @ reg_word s (if w then v else r (a AND 0xFFFFF))"
  have tx: "reg_tx (b ! i) = take (if s then 16 else 12) (snd (ctrl_req s w a v))"
    using e by (simp add: reg_tx_def reg_request_def)
  then have "length (reg_tx (b ! i)) = length ans"
    using ctrl_req_ok(2) [of s w a v] pre by (simp add: ans_def reg_word_def value2net_def)
  then have io: "TC6_Io_spiTransaction (macphy_ctrl s) r (reg_tx (b ! i)) = (Spi_Finished ans, if w then r(a AND 0xFFFFF := v) else r)"
    using m by (simp add: TC6_Io_spiTransaction_def tx ans_def [symmetric] put_at_def)
  note rdy = one_at_ready [OF sz]
  show ?thesis
    by (rule that [OF pre], unfold OnSpiTransaction_def io ans_def [symmetric])
      (use k in \<open>auto simp: store_reg_rx_def TC6_SpiBufferDone_def Let_def rdy one_at_done call_def\<close>)
qed

lemma while_none: "\<not> P s \<Longrightarrow> while P f s = s" and while_once: "P s \<Longrightarrow> \<not> P (f s) \<Longrightarrow> while P f s = f s"
  by (simp_all add: while_unfold [of P f s] while_unfold [of P f "f s"])

lemma reg_state_simps [simp]:
  "regop_q (reg_state g q cs) = q" "calls (reg_state g q cs) = cs" "currentOp (reg_state g q cs) = SPI_OP_INVALID"
  "alreadyInControlService (reg_state g q cs) = False" "(reg_state g q cs)\<lparr>regop_q := q'\<rparr> = reg_state g q' cs"
  "(reg_state g q cs)\<lparr>calls := cs'\<rparr> = reg_state g q cs'" "reg_state (g\<lparr>alreadyInControlService := x\<rparr>) q cs = reg_state g q cs"
  by (simp_all add: reg_state_def)

text \<open>First round: the request goes out.\<close>

lemma round_send:
  assumes i: "i = unat (c AND (sz - 1))" "i < length b" and e: "reg_request s w a v (b ! i)" and sz: "0 < sz"
  obtains pre where "length pre = 8" "serviceControl (TC6_Io_spiTransaction (macphy_ctrl s)) (reg_state g (one_at 1 c sz b) cs) r =
    (True, reg_state g (one_at 3 c sz (b[i := (b ! i)\<lparr>rx_buf := put_at 0 (pre @ reg_word s (if w then v else r (a AND 0xFFFFF))) (rx_buf (b ! i))\<rparr>]))
       (cs @ [OnNeedService]), if w then r(a AND 0xFFFFF := v) else r)"
proof -
  define g1 where "g1 = (reg_state g (one_at 1 c sz b) cs)\<lparr>alreadyInControlService := True\<rparr>"
  note rdy = one_at_ready [OF sz]
  obtain pre where pre: "length pre = 8" and x: "OnSpiTransaction (TC6_Io_spiTransaction (macphy_ctrl s)) (reg_tx (b ! i)) (store_reg_rx i)
      (g1\<lparr>regop_q := one_at 2 c sz b, currentOp := SPI_OP_REG\<rparr>) r =
    (True, g1\<lparr>regop_q := one_at (Suc 2) c sz (b[i := (b ! i)\<lparr>rx_buf := put_at 0 (pre @ reg_word s (if w then v else r (a AND 0xFFFFF))) (rx_buf (b ! i))\<rparr>]),
              currentOp := SPI_OP_INVALID, intContext := False, calls := calls g1 @ [OnNeedService]\<rparr>,
      if w then r(a AND 0xFFFFF := v) else r)"
    by (rule reg_exchange [OF i e sz, of 2]) simp_all
  have g1: "regop_q g1 = one_at 1 c sz b" "currentOp g1 = SPI_OP_INVALID" by (simp_all add: g1_def)
  have "serviceControl (TC6_Io_spiTransaction (macphy_ctrl s)) (reg_state g (one_at 1 c sz b) cs) r =
     (case control_tx2 (TC6_Io_spiTransaction (macphy_ctrl s)) (False, g1, r) of (t, g, h) \<Rightarrow> (t, g\<lparr>alreadyInControlService := False\<rparr>, h))"
    by (simp add: serviceControl_def g1_def [symmetric] Let_def while_none g1 rdy control_tx5_def del: One_nat_def)
  also have "\<dots> = (True, reg_state g (one_at 3 c sz (b[i := (b ! i)\<lparr>rx_buf := put_at 0 (pre @ reg_word s (if w then v else r (a AND 0xFFFFF))) (rx_buf (b ! i))\<rparr>]))
       (cs @ [OnNeedService]), if w then r(a AND 0xFFFFF := v) else r)"
    using x by (simp add: control_tx2_def g1 rdy one_at_done one_at_ptr i(1) [symmetric] Let_def g1_def reg_state_def del: One_nat_def)
  finally show ?thesis by (rule that [OF pre])
qed

text \<open>Second round of a read-modify-write: the new value goes out.\<close>

lemma round_modify:
  assumes i: "i = unat (c AND (sz - 1))" "i < length b" and sz: "0 < sz"
    and rd: "read_regop (b ! i) = (1, old)" and op: "regop (b ! i) = REGISTER_OP_READWRITE_STAGE1" and l: "length (rx_buf (b ! i)) = 16"
    and e2: "e2 = (b ! i)\<lparr>regop := REGISTER_OP_READWRITE_STAGE2, tx_buf := snd (ctrl_req s True a ((old AND NOT (modifyMask (b ! i))) OR modifyValue (b ! i))),
       rg_length := (if s then 16 else 12)\<rparr>" and e: "secure (b ! i) = s" "regAddr (b ! i) = a"
    and new: "new = (old AND NOT (modifyMask (b ! i))) OR modifyValue (b ! i)"
  obtains pre where "length pre = 8" "serviceControl (TC6_Io_spiTransaction (macphy_ctrl s)) (reg_state g (one_at 3 c sz b) cs) r =
    (True, reg_state g (one_at 6 c sz (b[i := e2\<lparr>rx_buf := put_at 0 (pre @ reg_word s new) (rx_buf e2)\<rparr>]))
       (cs @ [OnNeedService]), r(a AND 0xFFFFF := new))"
proof -
  define g1 where "g1 = (reg_state g (one_at 3 c sz b) cs)\<lparr>alreadyInControlService := True\<rparr>"
  define g2 where "g2 = g1\<lparr>regop_q := one_at 4 c sz (b[i := e2])\<rparr>"
  note rdy = one_at_ready [OF sz]
  have rq: "reg_request s True a new (b[i := e2] ! i)"
    using i(2) l e by (simp add: reg_request_def e2 new)
  obtain pre where pre: "length pre = 8" and x: "OnSpiTransaction (TC6_Io_spiTransaction (macphy_ctrl s)) (reg_tx (b[i := e2] ! i)) (store_reg_rx i)
      (g2\<lparr>regop_q := one_at 5 c sz (b[i := e2]), currentOp := SPI_OP_REG\<rparr>) r =
    (True, g2\<lparr>regop_q := one_at (Suc 5) c sz ((b[i := e2])[i := (b[i := e2] ! i)\<lparr>rx_buf := put_at 0 (pre @ reg_word s new) (rx_buf (b[i := e2] ! i))\<rparr>]),
              currentOp := SPI_OP_INVALID, intContext := False, calls := calls g2 @ [OnNeedService]\<rparr>, r(a AND 0xFFFFF := new))"
    using i(2) by (auto intro: reg_exchange [OF i(1) _ rq sz, of 5 g2 r])
  have m: "modify g1 old = (True, g2)"
    using ctrl_req_ok(1) [of s True a new] e new
    by (auto simp: modify_def g1_def g2_def Let_def one_at_ptr i(1) [symmetric] one_at_done e2 reg_state_def split: prod.splits)
  have g1: "regop_q g1 = one_at 3 c sz b" "regop_q g2 = one_at 4 c sz (b[i := e2])" "currentOp g2 = SPI_OP_INVALID"
    by (simp_all add: g1_def g2_def)
  have "control_rx g1 = g2"
    using rd op m by (simp add: control_rx_def g1 one_at_ptr i(1) [symmetric] Let_def)
  then have "while (\<lambda>g. regop_stage4_modify_ready (regop_q g)) control_rx g1 = g2"
    using while_once [of "\<lambda>g. regop_stage4_modify_ready (regop_q g)" g1 control_rx] by (simp add: g1 rdy)
  then have "serviceControl (TC6_Io_spiTransaction (macphy_ctrl s)) (reg_state g (one_at 3 c sz b) cs) r =
     (case control_tx2 (TC6_Io_spiTransaction (macphy_ctrl s)) (control_tx5 (TC6_Io_spiTransaction (macphy_ctrl s)) (False, g2, r))
      of (t, g, h) \<Rightarrow> (t, g\<lparr>alreadyInControlService := False\<rparr>, h))"
    by (simp add: serviceControl_def g1_def [symmetric] Let_def while_none [of _ g2] g1 rdy)
  also have "\<dots> = (True, reg_state g (one_at 6 c sz (b[i := e2\<lparr>rx_buf := put_at 0 (pre @ reg_word s new) (rx_buf e2)\<rparr>]))
       (cs @ [OnNeedService]), r(a AND 0xFFFFF := new))"
    using x i(2) by (simp add: control_tx5_def control_tx2_def g1 rdy one_at_done one_at_ptr i(1) [symmetric] Let_def g1_def g2_def reg_state_def)
  finally show ?thesis by (rule that [OF pre])
qed

text \<open>Last round: the answer is reported.\<close>

lemma round_event:
  assumes i: "i = unat (c AND (sz - 1))" and sz: "0 < sz" and rd: "read_regop (b ! i) = (1, val)" and cb: "callback (b ! i) = Some f"
    and n: "n = 6 \<or> n = 3 \<and> regop (b ! i) \<noteq> REGISTER_OP_READWRITE_STAGE1"
  shows "serviceControl spi (reg_state g (one_at n c sz b) cs) r =
    (False, reg_state g (one_at 0 (c + 1) sz b) (cs @ [RegCallback f True (regAddr (b ! i)) val (tag (b ! i))]), r)"
proof -
  note rdy = one_at_ready [OF sz]
  define g1 where "g1 = (reg_state g (one_at n c sz b) cs)\<lparr>alreadyInControlService := True\<rparr>"
  define g2 where "g2 = g1\<lparr>regop_q := one_at 6 c sz b\<rparr>"
  have "control_rx g1 = g2" if "n = 3"
    using that n rd by (simp add: control_rx_def g1_def g2_def one_at_ptr i [symmetric] one_at_done Let_def)
  then have "while (\<lambda>g. regop_stage4_modify_ready (regop_q g)) control_rx g1 = g2"
    using n while_once [of "\<lambda>g. regop_stage4_modify_ready (regop_q g)" g1 control_rx] while_none [of "\<lambda>g. regop_stage4_modify_ready (regop_q g)" g1]
    by (auto simp: g1_def g2_def rdy reg_state_def)
  moreover define g3 where "g3 = g1\<lparr>regop_q := one_at 0 (c + 1) sz b, calls := cs @ [RegCallback f True (regAddr (b ! i)) val (tag (b ! i))]\<rparr>"
  have "control_event g2 = g3"
    using rd cb by (simp add: control_event_def g1_def g2_def g3_def one_at_ptr i [symmetric] one_at_done Let_def call_def)
  then have "while (\<lambda>g. regop_stage7_event_ready (regop_q g)) control_event g2 = g3"
    using while_once [of "\<lambda>g. regop_stage7_event_ready (regop_q g)" g2 control_event] by (simp add: g2_def g3_def rdy)
  ultimately show ?thesis
    by (simp add: serviceControl_def g1_def [symmetric] Let_def control_tx5_def control_tx2_def g3_def rdy) (simp add: g1_def reg_state_def)
qed

section \<open>Register access end to end\<close>

text \<open>Rounds of the control service, with nothing else going on.\<close>

fun control_rounds :: "'h spi \<Rightarrow> nat \<Rightarrow> tc6 \<times> 'h \<Rightarrow> tc6 \<times> 'h" where
  "control_rounds spi 0 s = s"
| "control_rounds spi (Suc n) s = control_rounds spi n (snd (serviceControl spi (fst s) (snd s)))"

definition control_idle :: "tc6 \<Rightarrow> bool" where
  "control_idle g \<longleftrightarrow> regop_list (regop_q g) = [] \<and> currentOp g = SPI_OP_INVALID \<and> \<not> intContext g \<and> \<not> alreadyInControlService g"

lemma access_idle:
  assumes ok: "core_ok g" and idle: "control_idle g" and op: "op \<noteq> REGISTER_OP_INVALLID"
  obtains c sz b i e where "0 < sz" "i = unat (c AND (sz - 1))" "i < length b" "b ! i = e"
    "reg_request s (op = REGISTER_OP_WRITE \<or> op = REGISTER_OP_READWRITE_STAGE2) a v e"
    "regop e = op" "callback e = cb" "tag e = tg" "modifyValue e = v" "modifyMask e = m"
    "accessRegisters g op a v s m cb tg = (True, reg_state g (one_at 1 c sz b) (calls g @ [OnNeedService]))"
proof -
  define q where "q = regop_q g"
  note d = core_okD [OF ok]
  have q: "q = one_at 0 (rg_stage7_event q) (rg_size q) (rg_buffer q)"
    using empty_one_at [OF d(2)] idle by (simp add: control_idle_def q_def)
  have sz: "0 < rg_size q" using d(2) by (simp add: regop_inv_def staged_ok_def q_def)
  define i where "i = unat (rg_stage7_event q AND (rg_size q - 1))"
  have i: "i < length (rg_buffer q)" using ring_ptr_less(1) [OF d(2)] by (simp add: i_def q_def)
  then have l: "length (rx_buf (rg_buffer q ! i)) = 16" using d(4) by (simp add: list_all_length reg_entry_ok_def q_def)
  define w where "w = (op = REGISTER_OP_WRITE \<or> op = REGISTER_OP_READWRITE_STAGE2)"
  define e where "e = (rg_buffer q ! i)\<lparr>tx_buf := snd (ctrl_req s w a v), regAddr := a, rg_length := (if s then 16 else 12), regop := op,
                     secure := s, callback := cb, tag := tg, modifyValue := v, modifyMask := m\<rparr>"
  have c: "ctrl_req s w a v = (if s then 16 else 12, snd (ctrl_req s w a v))" by (rule ctrl_req_ok)
  note rdy = one_at_ready(1) [OF sz, of "rg_stage7_event q" "rg_buffer q", folded q]
  have ptr: "regop_stage1_enqueue_ptr q = i" using one_at_ptr(1) [of "rg_stage7_event q" "rg_size q" "rg_buffer q", folded q] by (simp add: i_def)
  have "accessRegisters g op a v s m cb tg = (True, call OnNeedService (g\<lparr>regop_q := regop_stage1_enqueue_done (q\<lparr>rg_buffer := (rg_buffer q)[i := e]\<rparr>)\<rparr>))"
    using op rdy unfolding accessRegisters_def Let_def w_def [symmetric] q_def [symmetric] ptr
    by (subst c) (auto simp: e_def)
  also have "q\<lparr>rg_buffer := (rg_buffer q)[i := e]\<rparr> = one_at 0 (rg_stage7_event q) (rg_size q) ((rg_buffer q)[i := e])"
    by (subst q) simp
  also have "call OnNeedService (g\<lparr>regop_q := regop_stage1_enqueue_done (one_at 0 (rg_stage7_event q) (rg_size q) ((rg_buffer q)[i := e]))\<rparr>) =
      reg_state g (one_at 1 (rg_stage7_event q) (rg_size q) ((rg_buffer q)[i := e])) (calls g @ [OnNeedService])"
    using idle by (cases g) (simp add: one_at_done call_def reg_state_def control_idle_def)
  finally show ?thesis
    using that [OF sz i_def, of "(rg_buffer q)[i := e]" e] i l by (simp add: e_def reg_request_def w_def)
qed

lemma control_rounds_2:
  assumes "serviceControl spi g h = (s1, g1, h1)" "serviceControl spi g1 h1 = (s2, g2, h2)"
  shows "control_rounds spi 2 (g, h) = (g2, h2)"
  using assms by (simp add: numeral_2_eq_2)

lemma control_rounds_3:
  assumes "serviceControl spi g h = (s1, g1, h1)" "serviceControl spi g1 h1 = (s2, g2, h2)" "serviceControl spi g2 h2 = (s3, g3, h3)"
  shows "control_rounds spi 3 (g, h) = (g3, h3)"
  using assms by (simp add: numeral_3_eq_3)

lemma idle_reg_state: "control_idle (reg_state g (one_at 0 c sz b) cs)"
  by (simp add: control_idle_def regop_list_def one_at_def ring_view_def) (simp add: reg_state_def)


lemma register_access_rounds:
  assumes "core_ok g" "control_idle g"
  shows "\<exists>g1 g2. (if w then TC6_WriteRegister g a v s (Some f) tg else TC6_ReadRegister g a s (Some f) tg) = (True, g1) \<and>
    control_rounds (TC6_Io_spiTransaction (macphy_ctrl s)) 2 (g1, r) = (g2, if w then r(a AND 0xFFFFF := v) else r) \<and>
    calls g2 = calls g @ [OnNeedService, OnNeedService, RegCallback f True a (if w then v else r (a AND 0xFFFFF)) tg] \<and> control_idle g2"
proof -
  define val where "val = (if w then v else r (a AND 0xFFFFF))"
  define op where "op = (if w then REGISTER_OP_WRITE else REGISTER_OP_READ)"
  define v' where "v' = (if w then v else 0)"
  have w: "(op = REGISTER_OP_WRITE \<or> op = REGISTER_OP_READWRITE_STAGE2) = w" "op \<noteq> REGISTER_OP_INVALLID" "op \<noteq> REGISTER_OP_READWRITE_STAGE1"
    by (simp_all add: op_def)
  obtain c sz b i e where e: "0 < sz" "i = unat (c AND (sz - 1))" "i < length b" "b ! i = e" "reg_request s w a v' e"
    "regop e = op" "callback e = Some f" "tag e = tg"
    and acc: "accessRegisters g op a v' s 0 (Some f) tg = (True, reg_state g (one_at 1 c sz b) (calls g @ [OnNeedService]))"
    by (rule access_idle [OF assms w(2), of s a v' "Some f" tg 0]) (simp_all add: w(1))
  have acc': "(if w then TC6_WriteRegister g a v s (Some f) tg else TC6_ReadRegister g a s (Some f) tg) =
      (True, reg_state g (one_at 1 c sz b) (calls g @ [OnNeedService]))"
    using acc by (simp add: TC6_WriteRegister_def TC6_ReadRegister_def op_def v'_def split: if_splits)
  have v': "(if w then v' else r (a AND 0xFFFFF)) = val" "(if w then r(a AND 0xFFFFF := v') else r) = (if w then r(a AND 0xFFFFF := v) else r)"
    by (simp_all add: val_def v'_def)
  obtain pre where pre: "length pre = 8" and r1: "serviceControl (TC6_Io_spiTransaction (macphy_ctrl s)) (reg_state g (one_at 1 c sz b) (calls g @ [OnNeedService])) r =
    (True, reg_state g (one_at 3 c sz (b[i := e\<lparr>rx_buf := put_at 0 (pre @ reg_word s val) (rx_buf e)\<rparr>]))
       ((calls g @ [OnNeedService]) @ [OnNeedService]), if w then r(a AND 0xFFFFF := v) else r)"
    using round_send [OF e(2,3) e(5) [folded e(4)] e(1), of g "calls g @ [OnNeedService]" r, unfolded v' e(4)] by blast
  define b1 where "b1 = b[i := e\<lparr>rx_buf := put_at 0 (pre @ reg_word s val) (rx_buf e)\<rparr>]"
  have b1: "b1 ! i = e\<lparr>rx_buf := put_at 0 (pre @ reg_word s val) (rx_buf e)\<rparr>" using e(3) by (simp add: b1_def)
  have req: "length (rx_buf e) = 16" "secure e = s" "regAddr e = a" "rg_length e = (if secure e then 16 else 12)"
    using e(5) by (simp_all add: reg_request_def)
  have "read_regop (b1 ! i) = (1, val)"
    using read_regop_answer [OF pre req(1,4)] b1 req(2) by simp
  from round_event [OF e(2,1) this, of f 3] e(6-8) b1 req(3) w(3)
  have r2: "serviceControl spi (reg_state g (one_at 3 c sz b1) cs) r' =
    (False, reg_state g (one_at 0 (c + 1) sz b1) (cs @ [RegCallback f True a val tg]), r')" for spi :: "'h spi" and cs r' by simp
  show ?thesis
    using control_rounds_2 [OF r1 [folded b1_def] r2] acc' by (simp add: val_def [symmetric] idle_reg_state)
qed

text \<open>
  C6. Reading and writing a register, end to end: on an idle instance, two rounds of the control service write the
  value to that register and to no other, or leave the registers alone; the callback gets the value written or the value of the register.
\<close>

theorem register_access_end_to_end:
  assumes "core_ok g" "control_idle g"
  shows "\<exists>g1 g2. (if w then TC6_WriteRegister g a v s (Some f) tg else TC6_ReadRegister g a s (Some f) tg) = (True, g1) \<and>
    control_rounds (TC6_Io_spiTransaction (macphy_ctrl s)) 2 (g1, r) = (g2, if w then r(a AND 0xFFFFF := v) else r) \<and>
    calls g2 = calls g @ [OnNeedService, OnNeedService, RegCallback f True a (if w then v else r (a AND 0xFFFFF)) tg] \<and> control_idle g2"
  by (rule register_access_rounds [OF assms])

lemma init_idle:
  assumes "TC6_Init valid t = (Some (i, g), valid')" shows "core_ok g" "control_idle g"
  using TC6_Init_core_ok [OF assms] assms
  by (auto simp: TC6_Init_def tc6_zeroed_def control_idle_def regop_list_def init_regop_queue_def ring_view_def split: option.splits)

text \<open>The instance as initialised, and a register file in which register 0x10 holds 0xF0F0.\<close>

definition fresh_instance :: tc6 where
  "fresh_instance = snd (the (fst (TC6_Init [False] 0)))"

lemma fresh_instance: "core_ok fresh_instance" "control_idle fresh_instance"
proof -
  obtain g valid' where i: "TC6_Init [False] 0 = (Some (0, g), valid')" by (simp add: TC6_Init_def)
  show "core_ok fresh_instance" "control_idle fresh_instance"
    using init_idle [OF i] by (simp_all add: fresh_instance_def i)
qed


theorem register_access_end_to_end_witness:
  "core_ok fresh_instance \<and> control_idle fresh_instance \<and>
   (\<exists>g1 g2. TC6_WriteRegister fresh_instance 0x00040010 77 False (Some 1) 2 = (True, g1) \<and>
    snd (control_rounds (TC6_Io_spiTransaction (macphy_ctrl False)) 2 (g1, \<lambda>_. 0)) 0x00040010 = 77)"
  using register_access_end_to_end [OF fresh_instance, of True "0x00040010" 77 False 1 2 "\<lambda>_. 0"] fresh_instance by auto

end
