(* ===== verification/Tc6_Regs_Service.thy ===== *)
theory Tc6_Regs_Service
  imports Tc6_Regs Tc6_Register
begin

text \<open>
  The register component together with the driver: its callbacks find room in the register queue, the service call
  with them returns, status registers are reported and acknowledged, which chip the initialisation accepts, and
  the calibration it writes.
\<close>

section \<open>Callbacks always find room in the queue\<close>

lemma access_room:
  assumes ok: "core_ok g" and room: "regop_stage1_enqueue_ready (regop_q g)" and op: "op \<noteq> REGISTER_OP_INVALLID"
  shows "\<exists>g'. accessRegisters g op a v s m cb tg = (True, g') \<and> core_ok g' \<and> rgp 5 (regop_q g') = rgp 5 (regop_q g)"
proof -
  note d = core_okD [OF ok]
  obtain p txb where c: "ctrl_req s (op = REGISTER_OP_WRITE \<or> op = REGISTER_OP_READWRITE_STAGE2) a v = (p, txb)" "p \<noteq> 0"
    using ctrl_req_ok(1) [of s "op = REGISTER_OP_WRITE \<or> op = REGISTER_OP_READWRITE_STAGE2" a v] by (cases s) auto
  obtain e where acc: "accessRegisters g op a v s m cb tg =
      (True, call OnNeedService (g\<lparr>regop_q := regop_stage1_enqueue_done ((regop_q g)\<lparr>rg_buffer := (rg_buffer (regop_q g))[regop_stage1_enqueue_ptr (regop_q g) := e]\<rparr>)\<rparr>))"
    using op room c by (auto simp: accessRegisters_def Let_def)
  have "regop_stage1_enqueue_ready ((regop_q g)\<lparr>rg_buffer := b\<rparr>)" for b
    using room by (simp add: regop_ready_defs)
  then have "rgp 5 (regop_adv 0 ((regop_q g)\<lparr>rg_buffer := (rg_buffer (regop_q g))[i := e]\<rparr>)) = rgp 5 (regop_q g)" for i
    using regop_put_ok(2) [of "(regop_q g)\<lparr>rg_buffer := (rg_buffer (regop_q g))[i := e]\<rparr>" 5] d(2) by simp
  then show ?thesis
    using acc accessRegisters_core_ok [OF ok, of op a v s m cb tg] by (simp add: regop_done_adv del: regop_adv.simps)
qed

lemma register_room:
  assumes "core_ok g" "regop_stage1_enqueue_ready (regop_q g)"
  shows "\<exists>g'. TC6_ReadRegister g a s cb tg = (True, g') \<and> core_ok g' \<and> rgp 5 (regop_q g') = rgp 5 (regop_q g)"
    "\<exists>g'. TC6_WriteRegister g a v s cb tg = (True, g') \<and> core_ok g' \<and> rgp 5 (regop_q g') = rgp 5 (regop_q g)"
  unfolding TC6_ReadRegister_def TC6_WriteRegister_def by (rule access_room [OF assms], simp)+

definition regs_ok :: "nat \<Rightarrow> 'h regs \<Rightarrow> bool" where
  "regs_ok n s \<longleftrightarrow> core_ok (tc s) \<and> rgp 5 (regop_q (tc s)) = n"

lemma enqueue_wait_room:
  assumes "access (tc s) = (True, g)" shows "enqueue_wait srv access s = Some (s\<lparr>tc := g\<rparr>)"
  using assms by (subst enqueue_wait.simps) simp

lemma report_bits_tc [simp]: "tc (report_bits ev v is s) = tc s" "reg (report_bits ev v is s) = reg s" "hw (report_bits ev v is s) = hw s"
  by (induction "is" arbitrary: s) (simp_all add: TC6Regs_CB_OnEvent_def)

lemma on_event_tc [simp]: "tc (TC6Regs_CB_OnEvent e s) = tc s" "reg (TC6Regs_CB_OnEvent e s) = reg s" "hw (TC6Regs_CB_OnEvent e s) = hw s"
  by (simp_all add: TC6Regs_CB_OnEvent_def)

lemma reg_callback_tc [simp]:
  "tc (OnSoftResetCB b s) = tc s" "tc (OnReadId1 b v s) = tc s" "tc (OnReadId2 b v s) = tc s" "tc (OnInitialRegCB b s) = tc s"
  "tc (OnChipResult b v s) = tc s" "tc (OnExtendedBlock b v s) = tc s" "tc (TC6_Dio_A0_Callback s) = tc s" "tc (TC6_Dio_A1_Callback s) = tc s"
  by (simp_all add: OnSoftResetCB_def OnReadId1_def OnReadId2_def OnInitialRegCB_def OnChipResult_def OnExtendedBlock_def
      TC6_Dio_A0_Callback_def TC6_Dio_A1_Callback_def Let_def)

lemma enqueue_in_callback:
  assumes ok: "regs_ok n s" and room: "regop_stage1_enqueue_ready (regop_q (tc s))" and f: "tc s' = tc s"
  shows "\<exists>s''. \<forall>srv. enqueue_wait srv (\<lambda>g. TC6_ReadRegister g a sec cb tg) s' = Some s'' \<and> regs_ok n s''"
    "\<exists>s''. \<forall>srv. enqueue_wait srv (\<lambda>g. TC6_WriteRegister g a v sec cb tg) s' = Some s'' \<and> regs_ok n s''"
proof -
  have ok': "core_ok (tc s')" "regop_stage1_enqueue_ready (regop_q (tc s'))" "rgp 5 (regop_q (tc s')) = n"
    using assms by (simp_all add: regs_ok_def)
  obtain g where "TC6_ReadRegister (tc s') a sec cb tg = (True, g)" "core_ok g" "rgp 5 (regop_q g) = rgp 5 (regop_q (tc s'))"
    using register_room(1) [OF ok'(1,2)] by blast
  then show "\<exists>s''. \<forall>srv. enqueue_wait srv (\<lambda>g. TC6_ReadRegister g a sec cb tg) s' = Some s'' \<and> regs_ok n s''"
    using ok'(3) by (intro exI [of _ "s'\<lparr>tc := g\<rparr>"]) (simp add: enqueue_wait_room regs_ok_def)
  obtain g where "TC6_WriteRegister (tc s') a v sec cb tg = (True, g)" "core_ok g" "rgp 5 (regop_q g) = rgp 5 (regop_q (tc s'))"
    using register_room(2) [OF ok'(1,2)] by blast
  then show "\<exists>s''. \<forall>srv. enqueue_wait srv (\<lambda>g. TC6_WriteRegister g a v sec cb tg) s' = Some s'' \<and> regs_ok n s''"
    using ok'(3) by (intro exI [of _ "s'\<lparr>tc := g\<rparr>"]) (simp add: enqueue_wait_room regs_ok_def)
qed

context spi_bus
begin

lemma OnInitDone_ok:
  assumes "regs_ok n s" shows "\<exists>s'. OnInitDone spi s = Some s' \<and> regs_ok n s'"
proof -
  have ok: "core_ok (tc s)" "rgp 5 (regop_q (tc s)) = n" using assms by (simp_all add: regs_ok_def)
  define g1 where "g1 = (tc s)\<lparr>enableData := True\<rparr>"
  have ok1: "core_ok g1" "regop_q g1 = regop_q (tc s)" using ok by (simp_all add: g1_def)
  obtain b g' h' where sd: "serviceData spi True g1 (hw s) = Some (b, g', h')" "core_ok g'"
    using serviceData_core_ok [OF ok1(1)] by blast
  have "regop_q g' = regop_q (tc s)" using serviceData_regop [OF ok1(1) sd(1)] ok1(2) by simp
  with sd ok1 ok(2) show ?thesis
    by (auto simp: OnInitDone_def TC6_EnableData_def Let_def g1_def [symmetric] regs_ok_def)
qed

lemma reg_callback_ok:
  assumes ok: "regs_ok n s" and room: "regop_stage1_enqueue_ready (regop_q (tc s))"
  shows "\<exists>s'. \<forall>srv. reg_callback spi srv ptr b a v s = Some s' \<and> regs_ok n s'"
proof (cases "cb_of ptr")
  case (Some c)
  note e = enqueue_in_callback [OF ok room]
  have x: "tc (s\<lparr>reg := r\<rparr>) = tc s" for r by simp
  have y: "tc (report_bits ev v [0..<32] s) = tc s" "tc ((report_bits ev v [0..<32] (s\<lparr>reg := r\<rparr>))\<lparr>reg := r'\<rparr>) = tc s"
    "tc (report_bits ev v [0..<32] (s\<lparr>reg := r\<rparr>)) = tc s" for ev r r' by simp_all
  have st1: "\<exists>s'. \<forall>srv. OnStatus1 srv b a v s = Some s' \<and> regs_ok n s'"
  proof -
    define s1 where "s1 = report_bits status1_event v [0..<32] (s\<lparr>reg := (reg s)\<lparr>extBlock := False\<rparr>\<rparr>)"
    define s2 where "s2 = (if v AND push_bit 29 1 \<noteq> 0 then s1\<lparr>reg := (reg s1)\<lparr>extBlock := True\<rparr>\<rparr> else s1)"
    have "tc s2 = tc s" by (simp add: s2_def s1_def)
    from e(2) [OF this] ok this show ?thesis
      unfolding OnStatus1_def Let_def s1_def [symmetric] s2_def [symmetric]
      by (cases b; cases "v = 0") (simp_all add: regs_ok_def)
  qed
  have "\<exists>s'. \<forall>srv. OnStatus0 srv b a v s = Some s' \<and> regs_ok n s'"
    using ok e(1) [OF y(1)] e(2) [OF y(1)] by (cases b; cases "v = 0") (simp_all add: OnStatus0_def Let_def regs_ok_def)
  moreover have "\<exists>s'. \<forall>srv. OnClearStatus1 srv s = Some s' \<and> regs_ok n s'"
    using ok e(1) [OF x] by (cases "extBlock (reg s)") (simp_all add: OnClearStatus1_def)
  moreover have "\<exists>s'. \<forall>srv. OnClearStatus0 srv s = Some s' \<and> regs_ok n s'"
    using e(1) [OF refl] by (simp add: OnClearStatus0_def)
  moreover note st1 OnInitDone_ok [OF ok]
  ultimately show ?thesis using ok Some by (cases c) (auto simp: reg_callback_def regs_ok_def)
qed (use ok in \<open>simp add: reg_callback_def\<close>)

lemma event_room:
  assumes "core_ok g" "regop_stage7_event_ready (regop_q g)"
  shows "regop_stage1_enqueue_ready (regop_q (control_event g))"
proof -
  note d = core_okD [OF assms(1)]
  have p: "0 < rgp 5 (regop_q g)" using assms(2) regop_ready_pend(6) [OF d(2)] by simp
  note a = regop_adv_ok [OF d(2), of 5]
  have "(\<Sum>i<6. rgp i (regop_adv 6 (regop_q g))) < (\<Sum>i<6. rgp i (regop_q g))"
    by (rule sum_strict_mono_ex1) (use a p in auto)
  moreover have "(\<Sum>i<6. rgp i (regop_q g)) \<le> unat (rg_size (regop_q g))"
    using d(2) rgq.okD(3) [of "regop_q g"] by (simp add: regop_inv_def)
  ultimately have "regop_stage1_enqueue_ready (regop_adv 6 (regop_q g))"
    using regop_ready_pend(7) [OF a(1)] p by simp
  then show ?thesis by (simp add: control_event_def Let_def split_def regop_done_adv split: option.splits)
qed

lemma control_event_cb_ok:
  assumes ok: "regs_ok (Suc n) s"
  shows "\<exists>s'. control_event_cb spi s = Some s' \<and> regs_ok n s'"
proof -
  have c: "core_ok (tc s)" "rgp 5 (regop_q (tc s)) = Suc n" using ok by (simp_all add: regs_ok_def)
  have r: "regop_stage7_event_ready (regop_q (tc s))" using c regop_ready_pend(6) [OF core_okD(2) [OF c(1)]] by simp
  have "regs_ok n (s\<lparr>tc := control_event (tc s)\<rparr>)" "regop_stage1_enqueue_ready (regop_q (tc (s\<lparr>tc := control_event (tc s)\<rparr>)))"
    using control_event_core_ok [OF c(1) r] c(2) event_room [OF c(1) r] by (simp_all add: regs_ok_def)
  from reg_callback_ok [OF this] this(1) show ?thesis
    by (fastforce simp: control_event_cb_def Let_def split: option.splits prod.splits)
qed

lemma event_loop_cb_ok: "regs_ok n s \<Longrightarrow> \<exists>s'. event_loop_cb spi s = Some s' \<and> regs_ok 0 s'"
proof (induction n arbitrary: s)
  case 0
  then have "\<not> regop_stage7_event_ready (regop_q (tc s))"
    using regop_ready_pend(6) [OF core_okD(2), of "tc s"] by (simp add: regs_ok_def)
  with 0 show ?case by (subst event_loop_cb.simps) simp
next
  case (Suc n)
  obtain s1 where s1: "control_event_cb spi s = Some s1" "regs_ok n s1" using control_event_cb_ok [OF Suc.prems] by blast
  have "regop_stage7_event_ready (regop_q (tc s))"
    using Suc.prems regop_ready_pend(6) [OF core_okD(2), of "tc s"] by (simp add: regs_ok_def)
  with s1 Suc.IH [OF s1(2)] show ?case by (subst event_loop_cb.simps) simp
qed

lemma TC6_Service_cb_ok:
  assumes ok: "core_ok (tc s)"
  shows "\<exists>b s'. TC6_Service_cb spi lvl s = Some (b, s') \<and> core_ok (tc s')"
proof -
  have sc: "\<exists>b s'. serviceControl_cb spi s = Some (b, s') \<and> core_ok (tc s')"
  proof (cases "alreadyInControlService (tc s)")
    case True
    then show ?thesis using ok by (auto simp: serviceControl_cb_def)
  next
    case False
    define g where "g = while (\<lambda>g. regop_stage4_modify_ready (regop_q g)) control_rx ((tc s)\<lparr>alreadyInControlService := True\<rparr>)"
    have "core_ok g" unfolding g_def using ok control_rx_core_ok
      by (intro while_steps [where I = core_ok and f = "\<lambda>g. rgp 2 (regop_q g)", THEN conjunct2, THEN conjunct1])
         (auto simp: regop_ready_pend core_okD)
    then obtain s1 where s1: "event_loop_cb spi (s\<lparr>tc := g\<rparr>) = Some s1" "core_ok (tc s1)"
      using event_loop_cb_ok [of "rgp 5 (regop_q g)" "s\<lparr>tc := g\<rparr>"] by (auto simp: regs_ok_def)
    obtain b g2 h2 where tx: "control_tx2 spi (control_tx5 spi (False, tc s1, hw s1)) = (b, g2, h2)" by (rule prod_cases3)
    then have "core_ok g2" using control_tx_ok [OF s1(2), of False "hw s1"] by simp
    with False s1 tx show ?thesis by (simp add: serviceControl_cb_def Let_def g_def [symmetric])
  qed
  then obtain b s1 where s1: "serviceControl_cb spi s = Some (b, s1)" "core_ok (tc s1)" by blast
  obtain b2 g2 h2 where sd: "serviceData spi (\<not> lvl) (processDataRx (tc s1)) (hw s1) = Some (b2, g2, h2)" "core_ok g2"
    using serviceData_core_ok processDataRx_core_ok [OF s1(2)] by blast
  show ?thesis
    using ok s1 sd processDataRx_core_ok [OF sd(2)] by (auto simp: TC6_Service_cb_def)
qed

end

section \<open>Properties\<close>

text \<open>
  C8. No callback of this component ever waits: when \<open>serviceControl\<close> calls one, the entry it is called for has been
  released, so the register access it starts is accepted at once and the nested service call of its loop is never
  made. The callback returns, with the driver in order.
\<close>

theorem callbacks_never_wait:
  assumes "core_ok (tc s)" "regop_stage7_event_ready (regop_q (tc s))"
  shows "\<exists>s'. \<forall>srv. reg_callback (TC6_Io_spiTransaction dev) srv ptr success addr value (s\<lparr>tc := control_event (tc s)\<rparr>) = Some s' \<and>
    core_ok (tc s')"
proof -
  have "regs_ok (rgp 5 (regop_q (control_event (tc s)))) (s\<lparr>tc := control_event (tc s)\<rparr>)"
    using control_event_core_ok [OF assms] by (simp add: regs_ok_def)
  moreover have "regop_stage1_enqueue_ready (regop_q (tc (s\<lparr>tc := control_event (tc s)\<rparr>)))"
    using io.event_room [OF assms] by simp
  ultimately show ?thesis using io.reg_callback_ok [of _ "s\<lparr>tc := control_event (tc s)\<rparr>"] by (fastforce simp: regs_ok_def)
qed


lemma and_bit_iff: "v AND 2 ^ i \<noteq> 0 \<longleftrightarrow> bit v i" if "i < 32" for v :: u32
proof -
  have "v AND push_bit i 1 = (if bit v i then push_bit i 1 else 0)"
    by (rule bit_word_eqI) (auto simp: bit_simps)
  moreover have "bit (push_bit i 1 :: u32) i" using that by (simp add: bit_simps)
  then have "(push_bit i 1 :: u32) \<noteq> 0" by (metis bit_0_eq bot_apply bot_bool_def)
  ultimately show ?thesis by (simp split: if_splits)
qed

lemma report_bits_events:
  assumes "\<forall>i \<in> set is. i < 32"
  shows "events (report_bits ev v is s) = events s @ map ev (filter (bit v) is)"
  using assms by (induction "is" arbitrary: s) (auto simp: and_bit_iff TC6Regs_CB_OnEvent_def)

text \<open>
  C9. A status register that was read is reported bit by bit, from bit 0 to bit 31, each set bit by its event and
  no other, and then acknowledged: exactly the value read is written back to the register that was read, or, with no bit
  set in status register 0, the chain goes on to status register 1. \<open>extBlock\<close> notes bit 29 of status register 1.
\<close>

theorem status_reported_and_cleared:
  assumes "core_ok (tc s)" "regop_stage1_enqueue_ready (regop_q (tc s))"
  shows "(\<exists>s'. OnStatus0 srv True addr value s = Some s' \<and>
       events s' = events s @ map status0_event (filter (bit value) [0..<32]) \<and>
       tc s' = snd (if value = 0 then TC6_ReadRegister (tc s) 9 True (Some (cb_id OnStatus1_ptr)) 0
                    else TC6_WriteRegister (tc s) addr value True (Some (cb_id OnClearStatus0_ptr)) 0)) \<and>
     (\<exists>s'. OnStatus1 srv True addr value s = Some s' \<and>
       events s' = events s @ map status1_event (filter (bit value) [0..<32]) \<and> extBlock (reg s') = bit value 29 \<and>
       tc s' = (if value = 0 then tc s else snd (TC6_WriteRegister (tc s) addr value True (Some (cb_id OnClearStatus1_ptr)) 0)))"
proof -
  obtain g1 where g1: "TC6_ReadRegister (tc s) 9 True (Some (cb_id OnStatus1_ptr)) 0 = (True, g1)"
    using register_room(1) [OF assms] by blast
  have w: "\<exists>g. TC6_WriteRegister (tc s) addr value True cb 0 = (True, g)" for cb
    using register_room(2) [OF assms] by blast
  obtain g2 g3 where g2: "TC6_WriteRegister (tc s) addr value True (Some (cb_id OnClearStatus0_ptr)) 0 = (True, g2)"
    "TC6_WriteRegister (tc s) addr value True (Some (cb_id OnClearStatus1_ptr)) 0 = (True, g3)"
    using w [of "Some (cb_id OnClearStatus0_ptr)"] w [of "Some (cb_id OnClearStatus1_ptr)"] by blast
  have b29: "value AND 0x20000000 \<noteq> 0 \<longleftrightarrow> bit value 29"
    using and_bit_iff [of 29 "value"] by simp
  define s1 where "s1 = report_bits status1_event value [0..<32] (s\<lparr>reg := (reg s)\<lparr>extBlock := False\<rparr>\<rparr>)"
  define s2 where "s2 = (if value AND push_bit 29 1 \<noteq> 0 then s1\<lparr>reg := (reg s1)\<lparr>extBlock := True\<rparr>\<rparr> else s1)"
  have s2: "tc s2 = tc s" "events s2 = events s @ map status1_event (filter (bit value) [0..<32])" "extBlock (reg s2) = bit value 29"
    using b29 by (auto simp: s2_def s1_def report_bits_events push_bit_eq_mult)
  have "OnStatus1 srv True addr value s = (if value \<noteq> 0
      then enqueue_wait srv (\<lambda>g. TC6_WriteRegister g addr value True (Some (cb_id OnClearStatus1_ptr)) 0) s2 else Some s2)"
    unfolding OnStatus1_def Let_def s1_def [symmetric] s2_def [symmetric] by simp
  with s2 g2(2) have "\<exists>s'. OnStatus1 srv True addr value s = Some s' \<and>
       events s' = events s @ map status1_event (filter (bit value) [0..<32]) \<and> extBlock (reg s') = bit value 29 \<and>
       tc s' = (if value = 0 then tc s else snd (TC6_WriteRegister (tc s) addr value True (Some (cb_id OnClearStatus1_ptr)) 0))"
    by (simp add: enqueue_wait_room)
  moreover have "\<exists>s'. OnStatus0 srv True addr value s = Some s' \<and>
       events s' = events s @ map status0_event (filter (bit value) [0..<32]) \<and>
       tc s' = snd (if value = 0 then TC6_ReadRegister (tc s) 9 True (Some (cb_id OnStatus1_ptr)) 0
                    else TC6_WriteRegister (tc s) addr value True (Some (cb_id OnClearStatus0_ptr)) 0)"
    using g1 g2(1) by (simp add: OnStatus0_def enqueue_wait_room report_bits_events)
  ultimately show ?thesis by blast
qed

lemma id1_value: "drop_bit 10 v = 0x1F0 \<and> drop_bit 4 v AND 0x3FF = 0x1B \<longleftrightarrow> drop_bit 4 v = 0x7C1B" for v :: u32
proof -
  define w where "w = unat (drop_bit 4 v)"
  have d: "unat (drop_bit 10 v) = w div 64"
    by (simp add: w_def drop_bit_eq_div unat_div flip: div_mult2_eq)
  have m: "unat (drop_bit 4 v AND 0x3FF) = w mod 1024"
    using word_and_mask_mod [of "drop_bit 4 v" 10] by (simp add: w_def)
  have "w = 31771" if "w div 64 = 496" "w mod 1024 = 27"
  proof -
    have w: "w = 64 * 496 + w mod 64" using mult_div_mod_eq [of 64 w] that(1) by simp
    define d where "d = w mod 64"
    have "w = d + 31 * 1024" "d < 1024" using w by (simp_all add: d_def)
    then have "w mod 1024 = d" by (simp only: mod_mult_self1 mod_less)
    with that(2) w show ?thesis by (simp add: d_def)
  qed
  then have "w div 64 = 496 \<and> w mod 1024 = 27 \<longleftrightarrow> w = 31771" by auto
  then show ?thesis by (simp add: word_unat_eq_iff d m flip: w_def)
qed

text \<open>
  Which hardware is accepted: reading the two identification registers during the initialisation keeps it going
  exactly if both reads succeed, the first register holds the identifier and the model of the LAN865x (0x7C1B above the four
  bits of its revision) and the revision in the second is not 0.
\<close>

theorem hardware_accepted_iff:
  assumes "initialized (reg s)"
  shows "initialized (reg (OnReadId2 ok2 v2 (OnReadId1 ok1 v1 s))) \<longleftrightarrow> ok1 \<and> ok2 \<and> drop_bit 4 v1 = 0x7C1B \<and> v2 AND 0xF \<noteq> 0"
proof -
  have "ucast (v2 AND 0xF) = (0 :: u8) \<longleftrightarrow> v2 AND 0xF = 0"
  proof -
    have "unat (v2 AND 0xF) = unat v2 mod 16" using word_and_mask_mod [of v2 4] by simp
    then show ?thesis by (simp add: word_unat_eq_iff unsigned_ucast_eq take_bit_eq_mod mod_mod_cancel)
  qed
  then show ?thesis
    using assms id1_value [of v1] by (auto simp: OnReadId1_def OnReadId2_def Let_def TC6Regs_CB_OnEvent_def)
qed

text \<open>The five bits of a calibration value as a signed number.\<close>

lemma GetSignedVal_sint:
  assumes "unat v < 32"
  shows "sint (GetSignedVal v) = (if unat v < 16 then int (unat v) else int (unat v) - 32)"
proof -
  have "unat v \<in> set [0..<32]" using assms by simp
  then have "v \<in> set (map of_nat [0..<32])" by (metis image_eqI list.set_map of_nat_unat ucast_id)
  then show ?thesis by (simp add: upt_rec GetSignedVal_def) auto
qed


text \<open>Fields that do not overlap: \<open>OR\<close> is addition.\<close>

lemma unat_or_disjoint:
  fixes a b :: u16
  assumes "\<And>n. \<not> (bit a n \<and> bit b n)" "unat a + unat b < 65536"
  shows "unat (a OR b) = unat a + unat b"
proof -
  have "a AND b = 0" using assms(1) by (intro bit_word_eqI) (auto simp: bit_simps)
  then have "a OR b = a + b" by (simp add: disjunctive_add_eq_or)
  with assms(2) show ?thesis by (simp add: unat_word_ariths)
qed

lemma six_bits:
  fixes x :: u16
  assumes "unat x < 64" "6 \<le> n" shows "\<not> bit x n"
proof -
  have "x = take_bit 6 x" using assms(1) by (simp add: word_unat_eq_iff unat_take_bit_mod)
  then have "bit x n = bit (take_bit 6 x) n" by simp
  then show ?thesis using assms(2) by (simp add: bit_simps)
qed

lemma bit_masks:
  "bit (0xC0C0 :: u16) n \<Longrightarrow> n = 6 \<or> n = 7 \<or> n = 14 \<or> n = 15" "bit (0xF :: u16) n \<Longrightarrow> n < 4" "bit (0x3FF :: u16) n \<Longrightarrow> n < 10"
proof -
  have "n < 16 \<Longrightarrow> n \<in> set [0..<16]" by simp
  then show "bit (0xC0C0 :: u16) n \<Longrightarrow> n = 6 \<or> n = 7 \<or> n = 14 \<or> n = 15" "bit (0xF :: u16) n \<Longrightarrow> n < 4" "bit (0x3FF :: u16) n \<Longrightarrow> n < 10"
    by (auto simp: upt_rec)
qed

lemma unat_push_small: "unat x < 64 \<Longrightarrow> n \<le> 10 \<Longrightarrow> unat (push_bit n x) = 2 ^ n * unat x" for x :: u16
proof -
  assume "unat x < 64" "n \<le> 10"
  then have "2 ^ n * unat x < 2 ^ 10 * 64" by (intro mult_le_less_imp_less power_increasing) auto
  moreover have "unat (push_bit n x) = take_bit LENGTH(16) (push_bit n (unat x))" by (rule unsigned_push_bit_eq)
  moreover have "take_bit LENGTH(16) (push_bit n (unat x)) = 2 ^ n * unat x" if "2 ^ n * unat x < 2 ^ 10 * 64"
    using that by (simp add: take_bit_eq_mod push_bit_eq_mult mult.commute)
  ultimately show "unat (push_bit n x) = 2 ^ n * unat x" by metis
qed

lemma offset_field:
  fixes off :: u8
  assumes "0 \<le> int k + sint off" "int k + sint off < 64" "k < 64"
  shows "unat (of_nat k + scast off :: u16) = nat (int k + sint off)"
proof -
  have i: "int (nat (int k + sint off)) = int k + sint off" using assms(1) by simp
  have "of_nat k + scast off = (of_int (int k) + of_int (sint off) :: u16)"
    unfolding scast_eq of_int_of_nat_eq by (rule refl)
  also have "\<dots> = of_int (int (nat (int k + sint off)))" unfolding i by (rule of_int_add [symmetric])
  also have "\<dots> = of_nat (nat (int k + sint off))" by (rule of_int_of_nat_eq)
  finally have "unat (of_nat k + scast off :: u16) = nat (int k + sint off) mod 65536" by (simp only: unat_u16_of_nat)
  then show ?thesis using assms(2) by simp
qed

lemma cfg_two_fields:
  fixes x y base :: u16
  assumes "unat x < 64" "unat y < 64"
  shows "unat ((base AND 0xC0C0 OR push_bit 8 x) OR y) = unat (base AND 0xC0C0) + 256 * unat x + unat y"
    "unat ((base AND 0xF OR push_bit 10 x) OR push_bit 4 y) = unat (base AND 0xF) + 1024 * unat x + 16 * unat y"
    "unat (base AND 0x3FF OR push_bit 10 x) = unat (base AND 0x3FF) + 1024 * unat x"
proof -
  note b = six_bits [OF assms(1)] six_bits [OF assms(2)] and p = unat_push_small [OF assms(1)] unat_push_small [OF assms(2)]
  define c f t :: u16 where "c = 0xC0C0" and "f = 0xF" and "t = 0x3FF"
  have m: "bit c n \<Longrightarrow> n = 6 \<or> n = 7 \<or> n = 14 \<or> n = 15" "bit f n \<Longrightarrow> n < 4" "bit t n \<Longrightarrow> n < 10" for n
    unfolding c_def f_def t_def by (fact bit_masks)+
  have u: "unat (base AND c) \<le> 0xC0C0" "unat (base AND f) \<le> 0xF" "unat (base AND t) \<le> 0x3FF"
    using word_and_mask_bound [of base c] word_and_mask_bound [of base f] word_and_mask_bound [of base t] by (simp_all add: c_def f_def t_def)
  note bits = bit_and_iff bit_or_iff bit_push_bit_iff
  have 1: "unat (base AND c OR push_bit 8 x) = unat (base AND c) + 256 * unat x"
    using u(1) assms(1) p(1) [of 8] b(1) by (subst unat_or_disjoint) (auto simp: bits dest!: m)
  then show "unat ((base AND 0xC0C0 OR push_bit 8 x) OR y) = unat (base AND 0xC0C0) + 256 * unat x + unat y"
    using u(1) assms b unfolding c_def [symmetric] by (subst unat_or_disjoint) (auto simp: bits dest!: m)
  show "unat (base AND 0x3FF OR push_bit 10 x) = unat (base AND 0x3FF) + 1024 * unat x"
    using u(3) assms(1) p(1) [of 10] unfolding t_def [symmetric] by (subst unat_or_disjoint) (auto simp: bits dest!: m)
  have 2: "unat (base AND f OR push_bit 10 x) = unat (base AND f) + 1024 * unat x"
    using u(2) assms(1) p(1) [of 10] by (subst unat_or_disjoint) (auto simp: bits dest!: m)
  then show "unat ((base AND 0xF OR push_bit 10 x) OR push_bit 4 y) = unat (base AND 0xF) + 1024 * unat x + 16 * unat y"
    using u(2) assms p(2) [of 4] b unfolding f_def [symmetric] by (subst unat_or_disjoint) (auto simp: bits dest!: m)
qed


section \<open>Examples\<close>

definition reg_context :: TC6Reg_t where
  "reg_context = \<lparr>mac = [0xB0, 2, 3, 4, 5, 6], pTC6 = Some 0, pTag = 0, unlockExtTime = 0, readResult = 0, nodeId = 0, nodeCount = 8,
     burstCount = 0, burstTimer = 0x80, chipRev = 0, extBlock = False, initialized = True, initDone = False, enablePlca = True,
     plcaChanged = False, promiscuous = False, txCutThrough = False, rxCutThrough = False\<rparr>"

definition regs_of :: "tc6 \<Rightarrow> unit regs" where
  "regs_of g = \<lparr>tc = g, reg = reg_context, hw = (), events = [], is_dio_a0_op_done = False, is_dio_a1_op_done = False\<rparr>"

text \<open>An instance in which a read-modify-write waits for its callback.\<close>

lemma waiting_instance: "\<exists>g. core_ok g \<and> regop_stage7_event_ready (regop_q g)"
proof -
  obtain c sz b i e where e: "0 < sz" "i = unat (c AND (sz - 1))" "i < length b" "b ! i = e" "reg_request True False 16 3 e"
    "regop e = REGISTER_OP_READWRITE_STAGE1"
    and acc: "accessRegisters fresh_instance REGISTER_OP_READWRITE_STAGE1 16 3 True 255 (Some 1) 2 = (True, reg_state fresh_instance (one_at 1 c sz b) (calls fresh_instance @ [OnNeedService]))"
    by (rule access_idle [OF fresh_instance, of REGISTER_OP_READWRITE_STAGE1 True 16 3 "Some 1" 2 255]) simp_all
  obtain pre where pre: "length pre = 8" and r1: "serviceControl (TC6_Io_spiTransaction (macphy_ctrl True)) (reg_state fresh_instance (one_at 1 c sz b) (calls fresh_instance @ [OnNeedService])) (\<lambda>_. 0) =
    (True, reg_state fresh_instance (one_at 3 c sz (b[i := (b ! i)\<lparr>rx_buf := put_at 0 (pre @ reg_word True 0) (rx_buf (b ! i))\<rparr>]))
       ((calls fresh_instance @ [OnNeedService]) @ [OnNeedService]), \<lambda>_. 0)"
    using round_send [OF e(2,3) e(5) [folded e(4)] e(1), of fresh_instance "calls fresh_instance @ [OnNeedService]" "\<lambda>_. 0", unfolded if_False] by blast
  define b1 where "b1 = b[i := (b ! i)\<lparr>rx_buf := put_at 0 (pre @ reg_word True 0) (rx_buf (b ! i))\<rparr>]"
  have req: "length (rx_buf e) = 16" "secure e" "regAddr e = 16" "rg_length e = (if secure e then 16 else 12)"
    using e(5) by (simp_all add: reg_request_def)
  have b1: "i < length b1" "b1 ! i = e\<lparr>rx_buf := put_at 0 (pre @ reg_word (secure e) 0) (rx_buf e)\<rparr>"
    using e(3,4) req(2) by (simp_all add: b1_def)
  have rd: "read_regop (b1 ! i) = (1, 0)" using read_regop_answer [OF pre req(1,4)] b1(2) by simp
  have l: "length (rx_buf (b1 ! i)) = 16" using pre req(1) by (simp add: b1(2) reg_word_def value2net_def req(2))
  have rm: "regop (b1 ! i) = REGISTER_OP_READWRITE_STAGE1" "secure (b1 ! i) = True" "regAddr (b1 ! i) = 16"
    using b1(2) e(6) req by simp_all
  obtain pre2 e2 cs' where "serviceControl (TC6_Io_spiTransaction (macphy_ctrl True)) (reg_state fresh_instance (one_at 3 c sz b1) ((calls fresh_instance @ [OnNeedService]) @ [OnNeedService])) (\<lambda>_. 0) =
      (True, reg_state fresh_instance (one_at 6 c sz (b1[i := e2])) cs', pre2)"
    using round_modify [OF e(2) b1(1) e(1) rd rm(1) l refl rm(2,3) refl, of fresh_instance "(calls fresh_instance @ [OnNeedService]) @ [OnNeedService]" "\<lambda>_. 0"] by blast
  moreover have "core_ok (reg_state fresh_instance (one_at 3 c sz b1) ((calls fresh_instance @ [OnNeedService]) @ [OnNeedService]))"
    using io.serviceControl_core_ok [of "reg_state fresh_instance (one_at 1 c sz b) (calls fresh_instance @ [OnNeedService])" "macphy_ctrl True" "\<lambda>_. 0"]
      accessRegisters_core_ok [OF fresh_instance(1), of REGISTER_OP_READWRITE_STAGE1 16 3 True 255 "Some 1" 2] acc r1 by (simp add: b1_def)
  ultimately have "core_ok (reg_state fresh_instance (one_at 6 c sz (b1[i := e2])) cs')"
    using io.serviceControl_core_ok [of "reg_state fresh_instance (one_at 3 c sz b1) ((calls fresh_instance @ [OnNeedService]) @ [OnNeedService])" "macphy_ctrl True" "\<lambda>_. 0"]
    by simp
  then show ?thesis using one_at_ready(7) [OF e(1), of 6 c] by (intro exI) auto
qed

theorem callbacks_never_wait_witness:
  "\<exists>s :: unit regs. core_ok (tc s) \<and> regop_stage7_event_ready (regop_q (tc s)) \<and>
    (\<exists>s'. reg_callback (TC6_Io_spiTransaction (\<lambda>h tx. (tx, h))) (\<lambda>g h. None) (cb_id OnStatus0_ptr) True 8 0x40 (s\<lparr>tc := control_event (tc s)\<rparr>) = Some s')"
proof -
  obtain g where g: "core_ok g" "regop_stage7_event_ready (regop_q g)" using waiting_instance by blast
  then show ?thesis
    using callbacks_never_wait [of "regs_of g" "\<lambda>h tx. (tx, h)" "cb_id OnStatus0_ptr" True 8 "0x40"]
    by (intro exI [of _ "regs_of g"]) (auto simp: regs_of_def)
qed


lemma fresh_room: "regop_stage1_enqueue_ready (regop_q fresh_instance)"
  by (simp add: fresh_instance_def TC6_Init_def tc6_zeroed_def init_regop_queue_def regop_ready_defs)

theorem status_reported_and_cleared_witness:
  "core_ok (tc (regs_of fresh_instance)) \<and> regop_stage1_enqueue_ready (regop_q (tc (regs_of fresh_instance))) \<and>
   (\<exists>s'. OnStatus0 (\<lambda>g h. None) True 8 0x42 (regs_of fresh_instance) = Some s' \<and>
      events s' = [TC6Regs_Event_Transmit_Buffer_Overflow_Error, TC6Regs_Event_Reset_Complete])"
proof -
  have ok: "core_ok (tc (regs_of fresh_instance))" "regop_stage1_enqueue_ready (regop_q (tc (regs_of fresh_instance)))"
    using fresh_instance(1) fresh_room by (simp_all add: regs_of_def)
  have "map status0_event (filter (bit (0x42 :: u32)) [0..<32]) = [TC6Regs_Event_Transmit_Buffer_Overflow_Error, TC6Regs_Event_Reset_Complete]"
    by (simp add: upt_rec status0_event_def)
  then show ?thesis
    using status_reported_and_cleared [OF ok, of "\<lambda>g h. None" 8 "0x42"] ok by (auto simp: regs_of_def)
qed

theorem hardware_accepted_iff_witness:
  "initialized (reg (regs_of fresh_instance)) \<and>
   initialized (reg (OnReadId2 True 0x86512 (OnReadId1 True 0x7C1B3 (regs_of fresh_instance)))) \<and>
   \<not> initialized (reg (OnReadId2 True 0x86512 (OnReadId1 True 0x7C0B3 (regs_of fresh_instance))))"
  using hardware_accepted_iff [of "regs_of fresh_instance" True "0x86512" True "0x7C1B3"]
    hardware_accepted_iff [of "regs_of fresh_instance" True "0x86512" True "0x7C0B3"]
  by (simp add: regs_of_def reg_context_def drop_bit_eq_div)


lemma init_access_accepted:
  "initialized (reg s) \<Longrightarrow> access (tc s) = (True, g) \<Longrightarrow> init_access spi access s = Some (s\<lparr>tc := g\<rparr>)"
  by (subst init_access.simps) simp

text \<open>
  C37. Switching PLCA off does not switch it off: for an idle instance with PLCA disabled in its settings, \<open>HandlePlca\<close> requests
  one register write, which two rounds of the control service carry out. It turns on collision detection (0x40087); the PLCA control
  register (0x4CA01), whose bit 15 a previous setting with PLCA enabled has set, keeps its value.
\<close>

theorem plca_off_keeps_plca:
  assumes "core_ok (tc s)" "control_idle (tc s)" "initialized (reg s)" "\<not> enablePlca (reg s)"
  shows "\<exists>g1 g2. HandlePlca spi s = Some (s\<lparr>tc := g1\<rparr>) \<and>
    control_rounds (TC6_Io_spiTransaction (macphy_ctrl True)) 2 (g1, r) = (g2, r(0x40087 := 0x8083)) \<and>
    control_idle g2 \<and> snd (control_rounds (TC6_Io_spiTransaction (macphy_ctrl True)) 2 (g1, r)) 0x4CA01 = r 0x4CA01"
proof -
  obtain g1 g2 where g: "TC6_WriteRegister (tc s) 0x40087 0x8083 True (Some (cb_id OnInitialRegCB_ptr)) 0 = (True, g1)"
    "control_rounds (TC6_Io_spiTransaction (macphy_ctrl True)) 2 (g1, r) = (g2, r(0x40087 := 0x8083))" "control_idle g2"
    using register_access_rounds [OF assms(1,2), of True "0x40087" "0x8083" True "cb_id OnInitialRegCB_ptr" 0 r] by auto
  have "HandlePlca spi s = Some (s\<lparr>tc := g1\<rparr>)"
    using init_access_accepted [OF assms(3), of "\<lambda>g. TC6_WriteRegister g 0x40087 0x8083 True (Some (cb_id OnInitialRegCB_ptr)) 0"] g(1) assms(4)
    by (simp add: HandlePlca_def init_write_def)
  with g show ?thesis by auto
qed

theorem plca_off_keeps_plca_witness:
  "\<exists>g1 g2. HandlePlca (TC6_Io_spiTransaction (\<lambda>h tx. (tx, h))) ((regs_of fresh_instance)\<lparr>reg := reg_context\<lparr>enablePlca := False\<rparr>\<rparr>) =
      Some ((regs_of fresh_instance)\<lparr>reg := reg_context\<lparr>enablePlca := False\<rparr>, tc := g1\<rparr>) \<and>
    control_rounds (TC6_Io_spiTransaction (macphy_ctrl True)) 2 (g1, (\<lambda>_. 0)(0x4CA01 := 0x8000)) =
      (g2, (\<lambda>_. 0)(0x4CA01 := 0x8000, 0x40087 := 0x8083))"
  using plca_off_keeps_plca [of "(regs_of fresh_instance)\<lparr>reg := reg_context\<lparr>enablePlca := False\<rparr>\<rparr>" "TC6_Io_spiTransaction (\<lambda>h tx. (tx, h))"
      "(\<lambda>_. 0)(0x4CA01 := 0x8000)"] fresh_instance
  by (auto simp: regs_of_def reg_context_def)

end
