(* ===== verification/Lan86xx_Phy.thy ===== *)
theory Lan86xx_Phy
  imports Prelude
begin

text \<open>
  The PHY driver \<open>microchip_t1s.c\<close> (\<open>extras/evb-lan8670-usb-linux-6.1.21\<close>): configuration of the 10BASE-T1S PHYs
  LAN867x (revisions B1, C0, C1, C2) and LAN865x (revision B0) over MDIO.

  The functions of the kernel that the driver calls (\<open>phy_read_mmd\<close>, \<open>phy_write_mmd\<close>, \<open>phy_modify_mmd\<close>,
  \<open>phy_read\<close>, \<open>udelay\<close>) are the parameter \<open>mdio\<close>, a record of functions on a bus state of any type. Their results are
  C integers: a negative value is an error number, other values are 0 or the register read. A driver function returns
  its result and the new state of the device; \<open>neg_return\<close> and \<open>nz_return\<close> are the two forms of check that the source
  makes after every call. What is documented of the kernel functions is stated in \<open>Lan86xx_Config\<close>, with a bus that satisfies it and the properties.
\<close>

named_theorems phy_defs \<open>the operations of the PHY driver\<close>

section \<open>The device\<close>

datatype phy_msg = Chip_error | PHY_reset_failed | PLCA_mode_enabled u8 u8 u8 u8 u8 | CSMA_CD_mode_enabled

text \<open>The part of \<open>struct phy_device\<close> that the driver uses; \<open>dmesg\<close> collects \<open>phydev_info\<close> and \<open>phydev_err\<close>.\<close>

record 'h phy_device =
  bus :: 'h
  link :: nat
  duplex :: nat
  speed :: nat
  autoneg :: nat
  dmesg :: "phy_msg list"

record 'h mdio =
  phy_read_mmd :: "nat \<Rightarrow> u32 \<Rightarrow> 'h \<Rightarrow> int \<times> 'h"
  phy_write_mmd :: "nat \<Rightarrow> u32 \<Rightarrow> u16 \<Rightarrow> 'h \<Rightarrow> int \<times> 'h"
  phy_modify_mmd :: "nat \<Rightarrow> u32 \<Rightarrow> u16 \<Rightarrow> u16 \<Rightarrow> 'h \<Rightarrow> int \<times> 'h"
  phy_read :: "u32 \<Rightarrow> 'h \<Rightarrow> int \<times> 'h"
  udelay :: "nat \<Rightarrow> 'h \<Rightarrow> 'h"

text \<open>The module parameters.\<close>

record plca_params =
  plca_enable :: bool
  plca_node_id :: u8
  plca_node_count :: u8
  max_bc :: u8
  burst_timer :: u8
  to_timer :: u8

definition plca_defaults :: plca_params where
  "plca_defaults = \<lparr>plca_enable = True, plca_node_id = 0, plca_node_count = 8, max_bc = 0x00, burst_timer = 0x80, to_timer = 0x20\<rparr>"

abbreviation MDIO_MMD_VEND2 :: nat where "MDIO_MMD_VEND2 \<equiv> 31"
abbreviation ENODEV :: int where "ENODEV \<equiv> 19"

definition lift_bus :: "('h \<Rightarrow> int \<times> 'h) \<Rightarrow> 'h phy_device \<Rightarrow> int \<times> 'h phy_device" where
  "lift_bus f d = (let (ret, h) = f (bus d) in (ret, d\<lparr>bus := h\<rparr>))"

abbreviation read_mmd :: "'h mdio \<Rightarrow> u32 \<Rightarrow> 'h phy_device \<Rightarrow> int \<times> 'h phy_device" where
  "read_mmd m reg \<equiv> lift_bus (phy_read_mmd m MDIO_MMD_VEND2 reg)"

abbreviation write_mmd :: "'h mdio \<Rightarrow> u32 \<Rightarrow> u16 \<Rightarrow> 'h phy_device \<Rightarrow> int \<times> 'h phy_device" where
  "write_mmd m reg val \<equiv> lift_bus (phy_write_mmd m MDIO_MMD_VEND2 reg val)"

abbreviation modify_mmd :: "'h mdio \<Rightarrow> u32 \<Rightarrow> u16 \<Rightarrow> u16 \<Rightarrow> 'h phy_device \<Rightarrow> int \<times> 'h phy_device" where
  "modify_mmd m reg msk val \<equiv> lift_bus (phy_modify_mmd m MDIO_MMD_VEND2 reg msk val)"

text \<open>\<open>if (ret < 0) return ret;\<close> and \<open>if (ret) return ret;\<close>\<close>

definition neg_return :: "int \<times> 's \<Rightarrow> (int \<Rightarrow> 's \<Rightarrow> int \<times> 's) \<Rightarrow> int \<times> 's" where
  "neg_return p f = (case p of (ret, s) \<Rightarrow> if ret < 0 then (ret, s) else f ret s)"

definition nz_return :: "int \<times> 's \<Rightarrow> ('s \<Rightarrow> int \<times> 's) \<Rightarrow> int \<times> 's" where
  "nz_return p f = (case p of (ret, s) \<Rightarrow> if ret \<noteq> 0 then (ret, s) else f s)"

definition phydev_msg :: "phy_msg \<Rightarrow> 'h phy_device \<Rightarrow> 'h phy_device" where
  "phydev_msg m d = d\<lparr>dmesg := dmesg d @ [m]\<rparr>"

text \<open>
  The bit-field macros of the kernel, on \<open>unsigned long\<close>: \<open>GENMASK h l\<close> has the bits from \<open>l\<close> to \<open>h\<close>, \<open>FIELD_PREP\<close>
  shifts a value up to the lowest bit of a mask and cuts it off there, \<open>FIELD_GET\<close> goes back. The masks are given by their bounds.
\<close>

definition GENMASK :: "nat \<Rightarrow> nat \<Rightarrow> u64" where
  "GENMASK h l = push_bit l (mask (h + 1 - l))"

definition FIELD_PREP :: "nat \<Rightarrow> nat \<Rightarrow> int \<Rightarrow> u64" where
  "FIELD_PREP h l v = push_bit l (word_of_int v) AND GENMASK h l"

definition FIELD_GET :: "nat \<Rightarrow> nat \<Rightarrow> int \<Rightarrow> u64" where
  "FIELD_GET h l v = drop_bit l (word_of_int v AND GENMASK h l)"

section \<open>Tables\<close>

definition lan867x_revb1_fixup_registers :: "u32 list" where
  "lan867x_revb1_fixup_registers =
    [0x00D0, 0x00D1, 0x0084, 0x0085,
     0x008A, 0x0087, 0x0088, 0x008B,
     0x0080, 0x00F1, 0x0096, 0x0099]"

definition lan867x_revb1_fixup_values :: "u16 list" where
  "lan867x_revb1_fixup_values =
    [0x0002, 0x0000, 0x3380, 0x0006,
     0xC000, 0x801C, 0x033F, 0x0404,
     0x0600, 0x2400, 0x2000, 0x7F80]"

definition lan867x_revb1_fixup_masks :: "u16 list" where
  "lan867x_revb1_fixup_masks =
    [0x0E03, 0x0300, 0xFFC0, 0x000F,
     0xF800, 0x801C, 0x1FFF, 0xFFFF,
     0x0600, 0x7F00, 0x2000, 0xFFFF]"

definition lan865x_revb0_fixup_registers :: "u32 list" where
  "lan865x_revb0_fixup_registers =
    [0x0091, 0x0081, 0x0043, 0x0044,
     0x0045, 0x0053, 0x0054, 0x0055,
     0x0040, 0x0050, 0x00D0, 0x00E9,
     0x00F5, 0x00F4, 0x00F8, 0x00F9,
     0x00B0, 0x00B1, 0x00B2, 0x00B3,
     0x00B4, 0x00B5, 0x00B6, 0x00B7,
     0x00B8, 0x00B9, 0x00BA, 0x00BB]"

definition lan865x_revb0_fixup_values :: "u16 list" where
  "lan865x_revb0_fixup_values =
    [0x9660, 0x0080, 0x00FF, 0xFFFF,
     0x0000, 0x00FF, 0xFFFF, 0x0000,
     0x0002, 0x0002, 0x5F21, 0x9E50,
     0x1CF8, 0xC020, 0x9B00, 0x4E53,
     0x0103, 0x0910, 0x1D26, 0x002A,
     0x0103, 0x070D, 0x1720, 0x0027,
     0x0509, 0x0E13, 0x1C25, 0x002B]"

definition lan865x_revb0_fixup_cfg_regs :: "u16 list" where
  "lan865x_revb0_fixup_cfg_regs = [0x0084, 0x008A, 0x00AD, 0x00AE, 0x00AF]"

definition lan867x_revc_fixup_registers :: "u32 list" where
  "lan867x_revc_fixup_registers =
    [0x00D0, 0x00E0, 0x00E9, 0x00F5,
     0x00F4, 0x00F8, 0x00F9, 0x0081,
     0x0091]"

definition lan867x_revc_fixup_values :: "u16 list" where
  "lan867x_revc_fixup_values =
    [0x3F31, 0xC000, 0x9E50, 0x1CF8,
     0xC020, 0x9B00, 0x4E53, 0x0080,
     0x9660]"

definition lan867x_revc_fixup_cfg_regs :: "u16 list" where
  "lan867x_revc_fixup_cfg_regs = [0x0084, 0x008A]"

section \<open>Operations\<close>

text \<open>The loop over a table that writes a value to each register.\<close>

fun write_table :: "'h mdio \<Rightarrow> (u32 \<times> u16) list \<Rightarrow> 'h phy_device \<Rightarrow> int \<times> 'h phy_device" where
  "write_table m [] d = (0, d)"
| "write_table m ((reg, val) # tab) d = nz_return (write_mmd m reg val d) (write_table m tab)"

definition lan86xx_configure_plca :: "'h mdio \<Rightarrow> plca_params \<Rightarrow> 'h phy_device \<Rightarrow> int \<times> 'h phy_device" where
  "lan86xx_configure_plca m p d =
    neg_return (write_mmd m 0xCA02 (push_bit 8 (ucast (plca_node_count p)) OR ucast (plca_node_id p)) d) (\<lambda>_ d.
    neg_return (write_mmd m 0xCA05 (push_bit 8 (ucast (max_bc p)) OR ucast (burst_timer p)) d) (\<lambda>_ d.
    neg_return (write_mmd m 0xCA04 (ucast (to_timer p)) d) (\<lambda>_ d.
    neg_return (if plca_enable p then write_mmd m 0xCA01 0x8000 d else write_mmd m 0xCA01 0x0000 d) (\<lambda>_ d.
    if plca_enable p then
      nz_return (modify_mmd m 0x0087 0x8000 0x0000 d) (\<lambda>d.
        (0, phydev_msg (PLCA_mode_enabled (plca_node_id p) (plca_node_count p) (max_bc p) (burst_timer p) (to_timer p)) d))
    else
      nz_return (modify_mmd m 0x0087 0x8000 0x8000 d) (\<lambda>d. (0, phydev_msg CSMA_CD_mode_enabled d))))))"

definition lan865x_revb0_indirect_read :: "'h mdio \<Rightarrow> u16 \<Rightarrow> 'h phy_device \<Rightarrow> int \<times> 'h phy_device" where
  "lan865x_revb0_indirect_read m addr d =
    nz_return (write_mmd m 0x00D8 addr d) (\<lambda>d.
    nz_return (write_mmd m 0x00DA 0x2 d) (\<lambda>d.
    read_mmd m 0x00D9 d))"

text \<open>
  \<open>ret & 0x1F\<close>, sign-extended from bit 4 and stored to an \<open>s8\<close>: the value of \<open>offsets[i]\<close>.
\<close>

definition offset_of :: "int \<Rightarrow> 8 word" where
  "offset_of ret = (let ret = ret AND 0x1F in if ret AND 0x10 \<noteq> 0 then word_of_int (ret OR 0xE0) else word_of_int ret)"

text \<open>
  The results of the functions that fill an array are the array and \<open>ret\<close>: \<open>Inl ret\<close> for a return with an error
  (before the array is complete), \<open>Inr\<close> with the array for a return of 0.
\<close>

definition err_return :: "int \<times> 's \<Rightarrow> (int \<Rightarrow> 's \<Rightarrow> (int + 'a) \<times> 's) \<Rightarrow> (int + 'a) \<times> 's" where
  "err_return p f = (case p of (ret, s) \<Rightarrow> if ret < 0 then (Inl ret, s) else f ret s)"

definition res_return :: "(int + 'a) \<times> 's \<Rightarrow> ('a \<Rightarrow> 's \<Rightarrow> int \<times> 's) \<Rightarrow> int \<times> 's" where
  "res_return p f = (case p of (Inl ret, s) \<Rightarrow> (ret, s) | (Inr a, s) \<Rightarrow> f a s)"

definition lan865x_generate_cfg_offsets :: "'h mdio \<Rightarrow> 'h phy_device \<Rightarrow> (int + 8 word \<times> 8 word) \<times> 'h phy_device" where
  "lan865x_generate_cfg_offsets m d =
    err_return (lan865x_revb0_indirect_read m 0x0005 d) (\<lambda>ret d.
    if ret AND 0x40 = 0 then (Inl (- ENODEV), phydev_msg Chip_error d) else
    err_return (lan865x_revb0_indirect_read m 0x0004 d) (\<lambda>ret d.
    let o0 = offset_of ret in
    err_return (lan865x_revb0_indirect_read m 0x0008 d) (\<lambda>ret d.
    (Inr (o0, offset_of ret), d))))"

fun read_table :: "'h mdio \<Rightarrow> u16 list \<Rightarrow> 'h phy_device \<Rightarrow> (int + u16 list) \<times> 'h phy_device" where
  "read_table m [] d = (Inr [], d)"
| "read_table m (reg # regs) d = err_return (read_mmd m (ucast reg) d) (\<lambda>ret d.
     case read_table m regs d of (Inl e, d) \<Rightarrow> (Inl e, d) | (Inr vs, d) \<Rightarrow> (Inr (word_of_int ret # vs), d))"

definition lan865x_read_cfg_params :: "'h mdio \<Rightarrow> 'h phy_device \<Rightarrow> (int + u16 list) \<times> 'h phy_device" where
  "lan865x_read_cfg_params m d = read_table m lan865x_revb0_fixup_cfg_regs d"

definition lan865x_write_cfg_params :: "'h mdio \<Rightarrow> u16 list \<Rightarrow> 'h phy_device \<Rightarrow> int \<times> 'h phy_device" where
  "lan865x_write_cfg_params m cfg_params d = write_table m (zip (map ucast lan865x_revb0_fixup_cfg_regs) cfg_params) d"

text \<open>The computation of \<open>cfg_results\<close>: on \<open>unsigned long\<close>, cut to 16 bits by the assignment.\<close>

definition lan865x_cfg_results :: "u16 list \<Rightarrow> 8 word \<Rightarrow> 8 word \<Rightarrow> u16 list" where
  "lan865x_cfg_results cfg_params o0 o1 =
    [ucast (ucast (cfg_params ! 0 AND 0x000F) OR FIELD_PREP 15 10 (9 + sint o0) OR FIELD_PREP 15 4 (14 + sint o0)),
     ucast (ucast (cfg_params ! 1 AND 0x03FF) OR FIELD_PREP 15 10 (40 + sint o1)),
     ucast (ucast (cfg_params ! 2 AND 0xC0C0) OR FIELD_PREP 15 8 (5 + sint o0) OR word_of_int (9 + sint o0)),
     ucast (ucast (cfg_params ! 3 AND 0xC0C0) OR FIELD_PREP 15 8 (9 + sint o0) OR word_of_int (14 + sint o0)),
     ucast (ucast (cfg_params ! 4 AND 0xC0C0) OR FIELD_PREP 15 8 (17 + sint o0) OR word_of_int (22 + sint o0))]"

definition lan865x_setup_cfgparam :: "'h mdio \<Rightarrow> 'h phy_device \<Rightarrow> int \<times> 'h phy_device" where
  "lan865x_setup_cfgparam m d =
    res_return (lan865x_generate_cfg_offsets m d) (\<lambda>(o0, o1) d.
    res_return (lan865x_read_cfg_params m d) (\<lambda>cfg_params d.
    lan865x_write_cfg_params m (lan865x_cfg_results cfg_params o0 o1) d))"

definition lan867x_revc_generate_cfg_offsets :: "'h mdio \<Rightarrow> 'h phy_device \<Rightarrow> (int + 8 word \<times> 8 word) \<times> 'h phy_device" where
  "lan867x_revc_generate_cfg_offsets m d =
    err_return (lan865x_revb0_indirect_read m 0x0005 d) (\<lambda>ret d.
    if ret AND 0x40 = 0 then (Inl (- ENODEV), phydev_msg Chip_error d) else
    err_return (lan865x_revb0_indirect_read m 0x0004 d) (\<lambda>ret d.
    let o0 = offset_of ret in
    if sint o0 < - 5 then (Inl (- ENODEV), phydev_msg Chip_error d) else
    err_return (lan865x_revb0_indirect_read m 0x0008 d) (\<lambda>ret d.
    (Inr (o0, offset_of ret), d))))"

definition lan867x_revc_write_cfg_params :: "'h mdio \<Rightarrow> u16 list \<Rightarrow> 'h phy_device \<Rightarrow> int \<times> 'h phy_device" where
  "lan867x_revc_write_cfg_params m cfg_params d = write_table m (zip (map ucast lan867x_revc_fixup_cfg_regs) cfg_params) d"

definition lan867x_revc_cfg_params :: "8 word \<Rightarrow> 8 word \<Rightarrow> u16 list" where
  "lan867x_revc_cfg_params o0 o1 =
    [ucast (FIELD_PREP 15 10 (9 + sint o0) OR FIELD_PREP 15 4 (14 + sint o0) OR 0x0003),
     ucast (FIELD_PREP 15 10 (40 + sint o1))]"

definition lan867x_revc_setup_cfgparam :: "'h mdio \<Rightarrow> 'h phy_device \<Rightarrow> int \<times> 'h phy_device" where
  "lan867x_revc_setup_cfgparam m d =
    res_return (lan867x_revc_generate_cfg_offsets m d) (\<lambda>(o0, o1) d.
    lan867x_revc_write_cfg_params m (lan867x_revc_cfg_params o0 o1) d)"

definition lan865x_revb0_config_init :: "'h mdio \<Rightarrow> plca_params \<Rightarrow> 'h phy_device \<Rightarrow> int \<times> 'h phy_device" where
  "lan865x_revb0_config_init m p d =
    nz_return (write_table m (zip lan865x_revb0_fixup_registers lan865x_revb0_fixup_values) d) (\<lambda>d.
    neg_return (lan865x_setup_cfgparam m d) (\<lambda>_ d.
    lan86xx_configure_plca m p d))"

text \<open>The check for a completed reset, the same in both functions that follow.\<close>

definition wait_reset_complete :: "'h mdio \<Rightarrow> ('h phy_device \<Rightarrow> int \<times> 'h phy_device) \<Rightarrow> 'h phy_device \<Rightarrow> int \<times> 'h phy_device" where
  "wait_reset_complete m cont d =
    neg_return (read_mmd m 0x0019 d) (\<lambda>ret d.
    if ret AND 0x800 = 0 then
      let d = d\<lparr>bus := udelay m 5 (bus d)\<rparr> in
      neg_return (read_mmd m 0x0019 d) (\<lambda>ret d.
      if ret AND 0x800 = 0 then (- ENODEV, phydev_msg PHY_reset_failed d) else cont d)
    else cont d)"

fun modify_table :: "'h mdio \<Rightarrow> (u32 \<times> u16 \<times> u16) list \<Rightarrow> 'h phy_device \<Rightarrow> int \<times> 'h phy_device" where
  "modify_table m [] d = (0, d)"
| "modify_table m ((reg, msk, val) # tab) d = nz_return (modify_mmd m reg msk val d) (modify_table m tab)"

definition lan867x_revb1_config_init :: "'h mdio \<Rightarrow> plca_params \<Rightarrow> 'h phy_device \<Rightarrow> int \<times> 'h phy_device" where
  "lan867x_revb1_config_init m p d =
    wait_reset_complete m (\<lambda>d.
    nz_return (modify_table m (zip lan867x_revb1_fixup_registers (zip lan867x_revb1_fixup_masks lan867x_revb1_fixup_values)) d) (\<lambda>d.
    lan86xx_configure_plca m p d)) d"

definition lan867x_revc_config_init :: "'h mdio \<Rightarrow> plca_params \<Rightarrow> 'h phy_device \<Rightarrow> int \<times> 'h phy_device" where
  "lan867x_revc_config_init m p d =
    wait_reset_complete m (\<lambda>d.
    nz_return (write_table m (zip lan867x_revc_fixup_registers lan867x_revc_fixup_values) d) (\<lambda>d.
    neg_return (lift_bus (phy_read m 0x12) d) (\<lambda>ret d.
    nz_return (if FIELD_GET 8 7 ret = 0x1 then write_mmd m 0x0093 0x06E9 d else (0, d)) (\<lambda>d.
    neg_return (lan867x_revc_setup_cfgparam m d) (\<lambda>_ d.
    lan86xx_configure_plca m p d))))) d"

definition lan86xx_read_status :: "'h phy_device \<Rightarrow> int \<times> 'h phy_device" where
  "lan86xx_read_status d = (0, d\<lparr>link := 1, duplex := 0, speed := 10, autoneg := 0\<rparr>)"

text \<open>The driver table; \<open>config_init phy_id\<close> is the entry that the kernel selects by the exact identifier of the PHY.\<close>

definition microchip_t1s_driver :: "(u32 \<times> ('h mdio \<Rightarrow> plca_params \<Rightarrow> 'h phy_device \<Rightarrow> int \<times> 'h phy_device)) list" where
  "microchip_t1s_driver =
    [(0x0007C162, lan867x_revb1_config_init),
     (0x0007C163, lan867x_revc_config_init),
     (0x0007C164, lan867x_revc_config_init),
     (0x0007C165, lan867x_revc_config_init),
     (0x0007C1B3, lan865x_revb0_config_init)]"

lemmas [phy_defs] = lan86xx_configure_plca_def lan865x_revb0_indirect_read_def lan865x_generate_cfg_offsets_def
  lan865x_read_cfg_params_def lan865x_write_cfg_params_def lan865x_setup_cfgparam_def lan867x_revc_generate_cfg_offsets_def
  lan867x_revc_write_cfg_params_def lan867x_revc_setup_cfgparam_def lan865x_revb0_config_init_def wait_reset_complete_def
  lan867x_revb1_config_init_def lan867x_revc_config_init_def

end
