(* ===== verification/Lan86xx_Config.thy ===== *)
theory Lan86xx_Config
  imports Lan86xx_Phy
begin

text \<open>
  What the PHY driver achieves. The locale \<open>mdio_bus\<close> states what the kernel documents of its MDIO functions and the
  data sheet of the PHY's registers; \<open>mdio_reliable\<close> adds that no access fails. Inside of them \<open>does view f R r R'\<close> says
  that an operation, started with the registers \<open>R\<close>, returns \<open>r\<close> and leaves \<open>R'\<close>, with a rule for each construct of the driver.
  For errors, \<open>watched\<close> records on any bus the first failed access and the number of accesses after it.
\<close>

section \<open>The bit fields\<close>

lemma sint_offset_of: "sint (offset_of r) = (if r mod 32 < 16 then r mod 32 else r mod 32 - 32)"
proof -
  define k where "k = r mod 32"
  have k: "r AND 0x1F = k" using take_bit_eq_mask [of 5 r] by (simp add: k_def take_bit_eq_mod mask_eq_exp_minus_1)
  have "k \<in> set [0..31]" by (simp add: k_def)
  moreover have "\<forall>k \<in> set [0..31]. sint (if k AND 0x10 \<noteq> 0 then word_of_int (k OR 0xE0) else word_of_int k :: 8 word) = (if k < 16 then k else k - 32)"
    by code_simp
  ultimately show ?thesis by (simp add: offset_of_def k flip: k_def)
qed

lemma ucast_FIELD_PREP: "l \<le> 16 \<Longrightarrow> ucast (FIELD_PREP 15 l v) = push_bit l (word_of_int v :: u16)"
  by (rule bit_word_eqI) (auto simp: FIELD_PREP_def GENMASK_def bit_simps)

lemma ucast_OR: "ucast (x OR y) = (ucast x OR ucast y)" for x y :: "'a::len word"
  by (rule bit_word_eqI) (auto simp: bit_simps)

lemma neg_field: "-64 \<le> x \<Longrightarrow> x < 0 \<Longrightarrow> bit x 6 \<and> bit x 7" for x :: int
  unfolding bit_iff_odd by (subgoal_tac "x div 64 = -1 \<and> x div 128 = -1") (simp, arith)

lemma field_overwrites: "-64 \<le> x \<Longrightarrow> x < 0 \<Longrightarrow> n = 14 \<or> n = 15 \<Longrightarrow> bit (ucast (a OR FIELD_PREP 15 8 x OR b) :: u16) n"
  using neg_field [of x] by (auto simp: ucast_OR ucast_FIELD_PREP bit_simps)
section \<open>The registers of a PHY\<close>

text \<open>
  \<open>view\<close> reads the vendor-specific registers off a state of the bus. Register 0xD9 shows the word of the calibration memory \<open>cal\<close> that
  register 0xD8 selects while bit 1 of register 0xDA is set; 0x19 is a status register; \<open>strap\<close> is register 0x12 of clause 22.
\<close>

abbreviation stored :: "u32 \<Rightarrow> bool" where "stored a \<equiv> a \<noteq> 0x19 \<and> a \<noteq> 0xD9"

locale mdio_bus =
  fixes m :: "'h mdio" and view :: "'h \<Rightarrow> u32 \<Rightarrow> u16" and cal :: "u16 \<Rightarrow> u16" and strap :: u16
  assumes mmd_write: "stored a \<Longrightarrow> phy_write_mmd m 31 a v h = (r, h') \<Longrightarrow>
      r = 0 \<and> view h' = (view h)(a := v) \<or> r < 0 \<and> view h' = view h"
    and mmd_modify: "stored a \<Longrightarrow> phy_modify_mmd m 31 a k v h = (r, h') \<Longrightarrow>
      r = 0 \<and> view h' = (view h)(a := (view h a AND NOT k) OR v) \<or> r < 0 \<and> view h' = view h"
    and mmd_read: "stored a \<Longrightarrow> phy_read_mmd m 31 a h = (r, h') \<Longrightarrow> view h' = view h \<and> (r < 0 \<or> r = uint (view h a))"
    and mmd_cal: "bit (view h 0xDA) 1 \<Longrightarrow> phy_read_mmd m 31 0xD9 h = (r, h') \<Longrightarrow>
      view h' = view h \<and> (r < 0 \<or> r = uint (cal (view h 0xD8)))"
    and mmd_sts: "phy_read_mmd m 31 0x19 h = (r, h') \<Longrightarrow> view h' = view h"
    and strap_read: "phy_read m 0x12 h = (r, h') \<Longrightarrow> view h' = view h \<and> (r < 0 \<or> r = uint strap)"
    and delay: "view (udelay m n h) = view h"

locale mdio_reliable = mdio_bus m view cal strap
  for m :: "'h mdio" and view cal strap +
  assumes no_failure: "0 \<le> fst (phy_write_mmd m 31 a v h)" "0 \<le> fst (phy_modify_mmd m 31 a k v h)"
      "0 \<le> fst (phy_read_mmd m 31 a h)" "0 \<le> fst (phy_read m b h)"

definition upd_all :: "('a \<times> 'b) list \<Rightarrow> ('a \<Rightarrow> 'b) \<Rightarrow> 'a \<Rightarrow> 'b" where
  "upd_all tab R = fold (\<lambda>(a, v) R. R(a := v)) tab R"

definition over :: "('a \<Rightarrow> 'b) \<Rightarrow> ('a \<times> 'b) list \<Rightarrow> 'a \<Rightarrow> 'b" where
  "over R tab a = (case map_of tab a of Some v \<Rightarrow> v | None \<Rightarrow> R a)"

lemma upd_all_simps [simp]: "upd_all [] R = R" "upd_all ((a, v) # tab) R = upd_all tab (R(a := v))"
  by (simp_all add: upd_all_def)

lemma upd_all_append: "upd_all (t1 @ t2) R = upd_all t2 (upd_all t1 R)"
  by (simp add: upd_all_def)

lemma upd_all_other: "a \<notin> fst ` set tab \<Longrightarrow> upd_all tab R a = R a"
  by (induction tab arbitrary: R) auto

lemma upd_all_zip_other: "a \<notin> set as \<Longrightarrow> upd_all (zip as vs) R a = R a"
  by (rule upd_all_other) (auto dest: set_zip_leftD)

lemma upd_all_over: "distinct (map fst tab) \<Longrightarrow> upd_all tab R = over R tab"
proof (induction tab arbitrary: R)
  case (Cons p tab)
  obtain a v where p: "p = (a, v)" by (cases p)
  have "upd_all tab (R(a := v)) = over (R(a := v)) tab" using Cons by simp
  moreover have "map_of tab a = None" using Cons.prems p by (simp add: map_of_eq_None_iff)
  ultimately show ?case using p by (auto simp: over_def fun_eq_iff split: option.split)
qed (simp add: over_def fun_eq_iff)

lemma over_over: "over (over R t1) t2 = over R (t2 @ t1)"
  by (auto simp: over_def fun_eq_iff map_add_def split: option.split)

text \<open>The registers that \<open>lan86xx_configure_plca\<close> sets, and the value each has then, from register contents \<open>R\<close>.\<close>

definition plca_registers :: "plca_params \<Rightarrow> (u32 \<Rightarrow> u16) \<Rightarrow> (u32 \<times> u16) list" where
  "plca_registers p R =
    [(0xCA02, push_bit 8 (ucast (plca_node_count p)) OR ucast (plca_node_id p)),
     (0xCA05, push_bit 8 (ucast (max_bc p)) OR ucast (burst_timer p)),
     (0xCA04, ucast (to_timer p)),
     (0xCA01, if plca_enable p then 0x8000 else 0),
     (0x87, (R 0x87 AND NOT 0x8000) OR (if plca_enable p then 0 else 0x8000))]"

definition lan865x_registers :: "plca_params \<Rightarrow> (u16 \<Rightarrow> u16) \<Rightarrow> (u32 \<Rightarrow> u16) \<Rightarrow> (u32 \<times> u16) list" where
  "lan865x_registers p cal R =
    zip lan865x_revb0_fixup_registers lan865x_revb0_fixup_values @ [(0xD8, 8), (0xDA, 2)] @
    zip [0x84, 0x8A, 0xAD, 0xAE, 0xAF]
      (lan865x_cfg_results (map R [0x84, 0x8A, 0xAD, 0xAE, 0xAF]) (offset_of (uint (cal 4))) (offset_of (uint (cal 8)))) @
    plca_registers p R"

definition lan867x_revc_registers :: "plca_params \<Rightarrow> (u16 \<Rightarrow> u16) \<Rightarrow> u16 \<Rightarrow> (u32 \<Rightarrow> u16) \<Rightarrow> (u32 \<times> u16) list" where
  "lan867x_revc_registers p cal strap R =
    zip lan867x_revc_fixup_registers lan867x_revc_fixup_values @
    (if FIELD_GET 8 7 (uint strap) = 1 then [(0x93, 0x06E9)] else []) @ [(0xD8, 8), (0xDA, 2)] @
    zip [0x84, 0x8A] (lan867x_revc_cfg_params (offset_of (uint (cal 4))) (offset_of (uint (cal 8)))) @
    plca_registers p R"

definition lan867x_revb1_registers :: "plca_params \<Rightarrow> (u32 \<Rightarrow> u16) \<Rightarrow> (u32 \<times> u16) list" where
  "lan867x_revb1_registers p R =
    (let fixup = map (\<lambda>(a, k, v). (a, (R a AND NOT k) OR v))
       (zip lan867x_revb1_fixup_registers (zip lan867x_revb1_fixup_masks lan867x_revb1_fixup_values))
     in plca_registers p (over R fixup) @ fixup)"

definition does :: "('h \<Rightarrow> u32 \<Rightarrow> u16) \<Rightarrow> ('h phy_device \<Rightarrow> 'r \<times> 'h phy_device) \<Rightarrow> (u32 \<Rightarrow> u16) \<Rightarrow> 'r \<Rightarrow> (u32 \<Rightarrow> u16) \<Rightarrow> bool" where
  "does view f R r R' \<longleftrightarrow> (\<forall>d. view (bus d) = R \<longrightarrow> (\<exists>d'. f d = (r, d') \<and> view (bus d') = R'))"

lemma does_eq: "does view f R r R1 \<Longrightarrow> R1 = R2 \<Longrightarrow> does view f R r R2"
  by simp

context mdio_reliable
begin

lemma does_lift: "(\<And>h. view h = R \<Longrightarrow> fst (f h) = r \<and> view (snd (f h)) = R') \<Longrightarrow> does view (lift_bus f) R r R'"
  unfolding does_def lift_bus_def by (simp add: case_prod_unfold)

lemma does_write: "stored a \<Longrightarrow> does view (write_mmd m a v) R 0 (R(a := v))"
  using no_failure(1) [of a v] by (intro does_lift) (metis mmd_write prod.collapse not_less)

lemma does_modify: "stored a \<Longrightarrow> does view (modify_mmd m a k v) R 0 (R(a := (R a AND NOT k) OR v))"
  using no_failure(2) [of a k v] by (intro does_lift) (metis mmd_modify prod.collapse not_less)

lemma does_read: "stored a \<Longrightarrow> does view (read_mmd m a) R (uint (R a)) R"
  using no_failure(3) [of a] by (intro does_lift) (metis mmd_read prod.collapse not_less)

lemma does_cal: "bit (R 0xDA) 1 \<Longrightarrow> does view (read_mmd m 0xD9) R (uint (cal (R 0xD8))) R"
  using no_failure(3) [of "0xD9"] by (intro does_lift) (metis mmd_cal prod.collapse not_less)

lemma does_strap: "does view (lift_bus (phy_read m 0x12)) R (uint strap) R"
  using no_failure(4) [of "0x12"] by (intro does_lift) (metis strap_read prod.collapse not_less)

lemma does_neg: "does view f R r R1 \<Longrightarrow> 0 \<le> r \<Longrightarrow> does view (g r) R1 r2 R2 \<Longrightarrow> does view (\<lambda>d. neg_return (f d) g) R r2 R2"
  unfolding does_def neg_return_def by fastforce

lemma does_neg_stop: "does view f R r R1 \<Longrightarrow> r < 0 \<Longrightarrow> does view (\<lambda>d. neg_return (f d) g) R r R1"
  unfolding does_def neg_return_def by fastforce

lemma does_nz: "does view f R 0 R1 \<Longrightarrow> does view g R1 r2 R2 \<Longrightarrow> does view (\<lambda>d. nz_return (f d) g) R r2 R2"
  unfolding does_def nz_return_def by fastforce

lemma does_return: "does view (\<lambda>d. (r, d)) R r R" "does view (\<lambda>d. (r, phydev_msg msg d)) R r R"
  unfolding does_def phydev_msg_def by simp_all

lemma does_write_table: "\<forall>a \<in> fst ` set tab. stored a \<Longrightarrow> does view (write_table m tab) R 0 (upd_all tab R)"
proof (induction tab arbitrary: R)
  case (Cons p tab)
  obtain a v where p: "p = (a, v)" by (cases p)
  have "does view (\<lambda>d. nz_return (write_mmd m a v d) (write_table m tab)) R 0 (upd_all tab (R(a := v)))"
    by (rule does_nz [OF does_write Cons.IH]) (use Cons.prems p in auto)
  then show ?case using p by (simp add: does_def)
qed (simp add: does_def)

lemma does_write_zip: "\<forall>a \<in> set as. stored a \<Longrightarrow> does view (write_table m (zip as vs)) R 0 (upd_all (zip as vs) R)"
  by (rule does_write_table) (auto dest: set_zip_leftD)

lemma does_modify_table:
  "\<forall>a \<in> fst ` set tab. stored a \<Longrightarrow> distinct (map fst tab) \<Longrightarrow>
    does view (modify_table m tab) R 0 (upd_all (map (\<lambda>(a, k, v). (a, (R a AND NOT k) OR v)) tab) R)"
proof (induction tab arbitrary: R)
  case (Cons p tab)
  obtain a k v where p: "p = (a, k, v)" by (cases p)
  let ?R = "R(a := (R a AND NOT k) OR v)"
  have run: "does view (\<lambda>d. nz_return (modify_mmd m a k v d) (modify_table m tab)) R 0
      (upd_all (map (\<lambda>(a, k, v). (a, (?R a AND NOT k) OR v)) tab) ?R)"
    by (rule does_nz [OF does_modify Cons.IH]) (use Cons.prems p in auto)
  have eq: "map (\<lambda>(a, k, v). (a, (?R a AND NOT k) OR v)) tab = map (\<lambda>(a, k, v). (a, (R a AND NOT k) OR v)) tab"
    by (rule map_cong) (use Cons.prems p in \<open>auto simp: image_iff\<close>)
  show ?case using run [unfolded eq] p by (simp add: does_def)
qed (simp add: does_def)

lemma does_err: "does view f R r R1 \<Longrightarrow> 0 \<le> r \<Longrightarrow> does view (g r) R1 x R2 \<Longrightarrow> does view (\<lambda>d. err_return (f d) g) R x R2"
  unfolding does_def err_return_def by fastforce

lemma does_res: "does view f R (Inr x) R1 \<Longrightarrow> does view (g x) R1 r R2 \<Longrightarrow> does view (\<lambda>d. res_return (f d) g) R r R2"
  unfolding does_def res_return_def by fastforce

lemma does_res_stop: "does view f R (Inl e) R1 \<Longrightarrow> does view (\<lambda>d. res_return (f d) g) R e R1"
  unfolding does_def res_return_def by fastforce

lemma does_indirect_read:
  "does view (lan865x_revb0_indirect_read m a) R (uint (cal a)) (R(0xD8 := a, 0xDA := 2))"
proof -
  have "does view (read_mmd m 0xD9) (R(0xD8 := a, 0xDA := 2)) (uint (cal a)) (R(0xD8 := a, 0xDA := 2))"
    using does_cal [of "R(0xD8 := a, 0xDA := 2)"] by simp
  then have "does view (\<lambda>d. nz_return (write_mmd m 0xD8 a d) (\<lambda>d. nz_return (write_mmd m 0xDA 2 d) (read_mmd m 0xD9)))
      R (uint (cal a)) (R(0xD8 := a, 0xDA := 2))"
    by (intro does_nz [OF does_write] does_nz [OF does_write]) simp_all
  then show ?thesis unfolding lan865x_revb0_indirect_read_def .
qed

lemma does_read_table:
  "\<forall>a \<in> set regs. stored (ucast a) \<Longrightarrow> does view (read_table m regs) R (Inr (map (\<lambda>a. R (ucast a)) regs)) R"
proof (induction regs)
  case (Cons a regs)
  have "does view (\<lambda>d. err_return (read_mmd m (ucast a) d) (\<lambda>ret d.
      case read_table m regs d of (Inl e, d) \<Rightarrow> (Inl e, d) | (Inr vs, d) \<Rightarrow> (Inr (word_of_int ret # vs), d)))
      R (Inr (R (ucast a) # map (\<lambda>a. R (ucast a)) regs)) R"
    by (rule does_err [OF does_read]) (use Cons in \<open>fastforce simp: does_def\<close>)+
  then show ?case by (simp add: does_def)
qed (simp add: does_def)

lemma does_indirect_read_again:
  "does view (lan865x_revb0_indirect_read m a) (R(0xD8 := c, 0xDA := 2)) (uint (cal a)) (R(0xD8 := a, 0xDA := 2))"
proof -
  have "(R(0xD8 := c, 0xDA := 2))(0xD8 := a, 0xDA := 2) = R(0xD8 := a, 0xDA := 2)"
    by (simp add: fun_eq_iff)
  then show ?thesis using does_indirect_read [of a "R(0xD8 := c, 0xDA := 2)"] by (simp only:)
qed

lemmas does_offset = does_err [OF does_indirect_read] does_err [OF does_indirect_read_again]

lemma does_offsets:
  defines "bad \<equiv> uint (cal 5) AND 0x40 = 0"
  shows "does view (lan865x_generate_cfg_offsets m) R
     (if bad then Inl (- ENODEV) else Inr (offset_of (uint (cal 4)), offset_of (uint (cal 8))))
     (R(0xD8 := if bad then 5 else 8, 0xDA := 2))"
  unfolding lan865x_generate_cfg_offsets_def bad_def Let_def
  by (rule does_offset(1), simp, cases "uint (cal 5) AND 0x40 = 0")
    (simp_all add: does_return does_offset(2))

lemma does_revc_offsets:
  defines "bad \<equiv> uint (cal 5) AND 0x40 = 0" and "low \<equiv> sint (offset_of (uint (cal 4))) < - 5"
  shows "does view (lan867x_revc_generate_cfg_offsets m) R
     (if bad \<or> low then Inl (- ENODEV) else Inr (offset_of (uint (cal 4)), offset_of (uint (cal 8))))
     (R(0xD8 := if bad then 5 else if low then 4 else 8, 0xDA := 2))"
proof -
  have "does view (\<lambda>d. err_return (lan865x_revb0_indirect_read m 4 d) (\<lambda>ret d.
      if sint (offset_of ret) < - 5 then (Inl (- ENODEV), phydev_msg Chip_error d)
      else err_return (lan865x_revb0_indirect_read m 8 d) (\<lambda>reta d. (Inr (offset_of ret, offset_of reta), d))))
    (R(0xD8 := 5, 0xDA := 2)) (if low then Inl (- ENODEV) else Inr (offset_of (uint (cal 4)), offset_of (uint (cal 8))))
    (R(0xD8 := if low then 4 else 8, 0xDA := 2))"
    by (rule does_offset(2), simp, cases low) (simp_all add: does_return does_offset(2) low_def)
  then show ?thesis
    unfolding lan867x_revc_generate_cfg_offsets_def Let_def
    by (intro does_offset(1), simp, cases bad) (simp_all add: does_return bad_def)
qed

lemma does_plca: "does view (lan86xx_configure_plca m p) R 0 (upd_all (plca_registers p R) R)"
  unfolding lan86xx_configure_plca_def
  by (rule does_neg [OF does_write], simp, simp)+
     (cases "plca_enable p"; simp add: plca_registers_def; rule does_neg [OF does_write], simp, simp,
       rule does_nz [OF does_modify], simp, simp add: does_return)

lemma does_setup_cfgparam:
  "does view (lan865x_setup_cfgparam m) R (if uint (cal 5) AND 0x40 = 0 then - ENODEV else 0)
     (if uint (cal 5) AND 0x40 = 0 then R(0xD8 := 5, 0xDA := 2)
      else upd_all ([(0xD8, 8), (0xDA, 2)] @ zip [0x84, 0x8A, 0xAD, 0xAE, 0xAF] (lan865x_cfg_results (map R [0x84, 0x8A, 0xAD, 0xAE, 0xAF])
        (offset_of (uint (cal 4))) (offset_of (uint (cal 8))))) R)"
proof (cases "uint (cal 5) AND 0x40 = 0")
  case True
  then show ?thesis
    using does_res_stop [of "lan865x_generate_cfg_offsets m" R "- ENODEV" "R(0xD8 := 5, 0xDA := 2)"] does_offsets [of R]
    unfolding lan865x_setup_cfgparam_def by simp
next
  case False
  let ?R = "R(0xD8 := 8, 0xDA := 2)"
  have "does view (lan865x_read_cfg_params m) ?R (Inr (map R [0x84, 0x8A, 0xAD, 0xAE, 0xAF])) ?R"
    using does_read_table [of lan865x_revb0_fixup_cfg_regs ?R]
    unfolding lan865x_read_cfg_params_def by (simp add: lan865x_revb0_fixup_cfg_regs_def)
  moreover have "does view (lan865x_write_cfg_params m cfg) ?R 0 (upd_all (zip [0x84, 0x8A, 0xAD, 0xAE, 0xAF] cfg) ?R)" for cfg
    using does_write_zip [of "map ucast lan865x_revb0_fixup_cfg_regs" cfg ?R]
    unfolding lan865x_write_cfg_params_def by (simp add: lan865x_revb0_fixup_cfg_regs_def)
  ultimately show ?thesis
    using False does_offsets [of R] unfolding lan865x_setup_cfgparam_def
    by (auto intro!: does_res)
qed

lemma does_lan865x_config:
  assumes "uint (cal 5) AND 0x40 \<noteq> 0"
  shows "does view (lan865x_revb0_config_init m p) R 0 (upd_all (lan865x_registers p cal R) R)"
proof -
  let ?R = "upd_all (zip lan865x_revb0_fixup_registers lan865x_revb0_fixup_values) R"
  have "?R a = R a" if "a \<in> set [0x84, 0x8A, 0xAD, 0xAE, 0xAF, 0x87]" for a
    by (rule upd_all_zip_other) (use that in \<open>auto simp: lan865x_revb0_fixup_registers_def\<close>)
  then have "upd_all (plca_registers p R1) R1 = upd_all (lan865x_registers p cal R) R"
    if "R1 = upd_all ([(0xD8, 8), (0xDA, 2)] @ zip [0x84, 0x8A, 0xAD, 0xAE, 0xAF]
        (lan865x_cfg_results (map ?R [0x84, 0x8A, 0xAD, 0xAE, 0xAF]) (offset_of (uint (cal 4))) (offset_of (uint (cal 8))))) ?R" for R1
    by (simp add: that lan865x_registers_def upd_all_append plca_registers_def upd_all_zip_other)
  moreover have "does view (lan865x_setup_cfgparam m) ?R 0 (upd_all ([(0xD8, 8), (0xDA, 2)] @ zip [0x84, 0x8A, 0xAD, 0xAE, 0xAF]
        (lan865x_cfg_results (map ?R [0x84, 0x8A, 0xAD, 0xAE, 0xAF]) (offset_of (uint (cal 4))) (offset_of (uint (cal 8))))) ?R)"
    using does_setup_cfgparam [of ?R] assms by simp
  ultimately show ?thesis
    unfolding lan865x_revb0_config_init_def
    by (intro does_nz [OF does_write_zip] does_eq [OF does_neg [OF _ _ does_plca]])
      (auto simp: lan865x_revb0_fixup_registers_def)
qed

lemma does_wait_reset:
  assumes "\<forall>h. fst (phy_read_mmd m 31 0x19 (udelay m 5 h)) AND 0x800 \<noteq> 0" "does view cont R r R'"
  shows "does view (wait_reset_complete m cont) R r R'"
  unfolding does_def
proof (intro allI impI)
  fix d :: "'h phy_device"
  assume R: "view (bus d) = R"
  let ?d1 = "snd (read_mmd m 0x19 d)"
  let ?d2 = "snd (read_mmd m 0x19 (?d1\<lparr>bus := udelay m 5 (bus ?d1)\<rparr>))"
  have sts: "0 \<le> fst (read_mmd m 0x19 d)" "view (bus (snd (read_mmd m 0x19 d))) = view (bus d)" for d :: "'h phy_device"
    using no_failure(3) [of "0x19" "bus d"] mmd_sts [of "bus d", OF prod.collapse [symmetric]]
    by (simp_all add: lift_bus_def case_prod_unfold Let_def)
  have "fst (read_mmd m 0x19 (d\<lparr>bus := udelay m 5 h\<rparr>)) AND 0x800 \<noteq> 0" for d :: "'h phy_device" and h
    using assms(1) by (simp add: lift_bus_def case_prod_unfold Let_def)
  then have "wait_reset_complete m cont d = cont ?d1 \<or> wait_reset_complete m cont d = cont ?d2"
    using sts(1) unfolding wait_reset_complete_def neg_return_def by (simp add: case_prod_unfold Let_def not_less [symmetric])
  moreover have "view (bus ?d1) = R" "view (bus ?d2) = R"
    using R by (simp_all add: sts(2) delay)
  ultimately show "\<exists>d'. wait_reset_complete m cont d = (r, d') \<and> view (bus d') = R'"
    using assms(2) by (auto simp: does_def)
qed

lemma does_revb1_config:
  assumes "\<forall>h. fst (phy_read_mmd m 31 0x19 (udelay m 5 h)) AND 0x800 \<noteq> 0"
  shows "does view (lan867x_revb1_config_init m p) R 0 (over R (lan867x_revb1_registers p R))"
proof -
  let ?tab = "zip lan867x_revb1_fixup_registers (zip lan867x_revb1_fixup_masks lan867x_revb1_fixup_values)"
  let ?fix = "map (\<lambda>(a, k, v). (a, (R a AND NOT k) OR v)) ?tab"
  have regs: "map fst ?tab = lan867x_revb1_fixup_registers" "map fst ?fix = lan867x_revb1_fixup_registers"
    by (simp_all add: lan867x_revb1_fixup_registers_def lan867x_revb1_fixup_masks_def lan867x_revb1_fixup_values_def)
  have "distinct lan867x_revb1_fixup_registers" "\<forall>a \<in> set lan867x_revb1_fixup_registers. stored a"
    by (simp_all add: lan867x_revb1_fixup_registers_def)
  then have ok: "distinct (map fst ?tab)" "\<forall>a \<in> fst ` set ?tab. stored a" "upd_all ?fix R = over R ?fix"
    by (simp_all only: regs upd_all_over flip: set_map)
  have "upd_all (plca_registers p R1) R1 = over R1 (plca_registers p R1)" for R1
    by (rule upd_all_over) (simp add: plca_registers_def)
  then show ?thesis
    unfolding lan867x_revb1_config_init_def
    using does_modify_table [OF ok(2,1)] ok(3)
    by (intro does_wait_reset [OF assms] does_nz [OF does_modify_table] does_eq [OF does_plca])
      (use ok in \<open>simp_all add: lan867x_revb1_registers_def over_over Let_def\<close>)
qed

lemma does_revc_setup_cfgparam:
  assumes "uint (cal 5) AND 0x40 \<noteq> 0" "- 5 \<le> sint (offset_of (uint (cal 4)))"
  shows "does view (lan867x_revc_setup_cfgparam m) R 0 (upd_all ([(0xD8, 8), (0xDA, 2)] @
    zip [0x84, 0x8A] (lan867x_revc_cfg_params (offset_of (uint (cal 4))) (offset_of (uint (cal 8))))) R)"
proof -
  have "does view (lan867x_revc_write_cfg_params m cfg) R1 0 (upd_all (zip [0x84, 0x8A] cfg) R1)" for cfg R1
    using does_write_zip [of "map ucast lan867x_revc_fixup_cfg_regs" cfg R1]
    unfolding lan867x_revc_write_cfg_params_def by (simp add: lan867x_revc_fixup_cfg_regs_def)
  then show ?thesis
    using assms does_revc_offsets [of R] unfolding lan867x_revc_setup_cfgparam_def
    by (auto intro!: does_res)
qed

lemma does_revc_config:
  assumes "\<forall>h. fst (phy_read_mmd m 31 0x19 (udelay m 5 h)) AND 0x800 \<noteq> 0"
    and "uint (cal 5) AND 0x40 \<noteq> 0" "- 5 \<le> sint (offset_of (uint (cal 4)))"
  shows "does view (lan867x_revc_config_init m p) R 0 (upd_all (lan867x_revc_registers p cal strap R) R)"
proof -
  let ?rmii = "if FIELD_GET 8 7 (uint strap) = 1 then [(0x93, 0x06E9)] else []"
  let ?R = "upd_all (zip lan867x_revc_fixup_registers lan867x_revc_fixup_values) R"
  have "?R 0x87 = R 0x87"
    by (rule upd_all_zip_other) (simp add: lan867x_revc_fixup_registers_def)
  then have "upd_all (plca_registers p R1) R1 = upd_all (lan867x_revc_registers p cal strap R) R"
    if "R1 = upd_all ([(0xD8, 8), (0xDA, 2)] @
      zip [0x84, 0x8A] (lan867x_revc_cfg_params (offset_of (uint (cal 4))) (offset_of (uint (cal 8))))) (upd_all ?rmii ?R)" for R1
    by (simp add: that lan867x_revc_registers_def upd_all_append plca_registers_def upd_all_zip_other)
  moreover have "does view (\<lambda>d. if FIELD_GET 8 7 (uint strap) = 1 then write_mmd m 0x93 0x06E9 d else (0, d)) ?R 0 (upd_all ?rmii ?R)"
    using does_write [of "0x93" "0x06E9" ?R] by (simp add: does_return)
  ultimately show ?thesis
    unfolding lan867x_revc_config_init_def
    by (intro does_wait_reset [OF assms(1)] does_nz [OF does_write_zip] does_neg [OF does_strap]
        does_eq [OF does_nz [OF _ does_neg [OF does_revc_setup_cfgparam [OF assms(2,3)] _ does_plca]]])
      (auto simp: lan867x_revc_fixup_registers_def)
qed

lemma lan865x_config:
  assumes "uint (cal 5) AND 0x40 \<noteq> 0"
  shows "\<exists>d'. lan865x_revb0_config_init m p d = (0, d') \<and> view (bus d') = over (view (bus d)) (lan865x_registers p cal (view (bus d)))"
proof -
  have "distinct (map fst (lan865x_registers p cal R))" for R
    by (simp add: lan865x_registers_def lan865x_revb0_fixup_registers_def lan865x_revb0_fixup_values_def
        lan865x_cfg_results_def plca_registers_def)
  then show ?thesis using does_lan865x_config [OF assms, of p "view (bus d)"] by (simp add: upd_all_over does_def)
qed

lemma lan865x_config_fails:
  assumes "uint (cal 5) AND 0x40 = 0"
  shows "\<exists>d'. lan865x_revb0_config_init m p d = (- ENODEV, d') \<and>
    view (bus d') = over (view (bus d)) (zip lan865x_revb0_fixup_registers lan865x_revb0_fixup_values @ [(0xD8, 5), (0xDA, 2)])"
proof -
  let ?tab = "zip lan865x_revb0_fixup_registers lan865x_revb0_fixup_values"
  have "distinct (map fst (?tab @ [(0xD8, 5), (0xDA, 2)]))"
    by (simp add: lan865x_revb0_fixup_registers_def lan865x_revb0_fixup_values_def)
  then have "upd_all (?tab @ [(0xD8, 5), (0xDA, 2)]) R = over R (?tab @ [(0xD8, 5), (0xDA, 2)])" for R
    by (rule upd_all_over)
  moreover have "does view (lan865x_revb0_config_init m p) R (- ENODEV) (upd_all (?tab @ [(0xD8, 5), (0xDA, 2)]) R)" for R
    unfolding lan865x_revb0_config_init_def
    using does_neg_stop [OF does_setup_cfgparam [of "upd_all ?tab R"]] assms
    by (intro does_nz [OF does_write_zip]) (auto simp: lan865x_revb0_fixup_registers_def upd_all_append)
  ultimately show ?thesis by (simp add: does_def)
qed

lemma revc_config:
  assumes "\<forall>h. fst (phy_read_mmd m 31 0x19 (udelay m 5 h)) AND 0x800 \<noteq> 0"
    and "uint (cal 5) AND 0x40 \<noteq> 0" "- 5 \<le> sint (offset_of (uint (cal 4)))"
  shows "\<exists>d'. lan867x_revc_config_init m p d = (0, d') \<and>
    view (bus d') = over (view (bus d)) (lan867x_revc_registers p cal strap (view (bus d)))"
proof -
  have "distinct (map fst (lan867x_revc_registers p cal strap R))" for R
    by (simp add: lan867x_revc_registers_def lan867x_revc_fixup_registers_def lan867x_revc_fixup_values_def
        lan867x_revc_cfg_params_def plca_registers_def)
  then show ?thesis using does_revc_config [OF assms, of p "view (bus d)"] by (simp add: upd_all_over does_def)
qed

lemma revc_rejects:
  assumes "\<forall>h. fst (phy_read_mmd m 31 0x19 (udelay m 5 h)) AND 0x800 \<noteq> 0"
    and "uint (cal 5) AND 0x40 = 0 \<or> sint (offset_of (uint (cal 4))) < - 5"
  shows "fst (lan867x_revc_config_init m p d) = - ENODEV"
proof -
  have stop: "\<exists>R'. does view (\<lambda>d. neg_return (lan867x_revc_setup_cfgparam m d) g) R (- ENODEV) R'" for R g
    using does_neg_stop [OF does_res_stop [of "lan867x_revc_generate_cfg_offsets m" R "- ENODEV"]] does_revc_offsets [of R] assms(2)
    unfolding lan867x_revc_setup_cfgparam_def by fastforce
  have rmii: "\<exists>R'. does view (\<lambda>d. if c then write_mmd m 0x93 0x06E9 d else (0, d)) R 0 R'" for c R
    using does_write [of "0x93" "0x06E9" R] does_return(1) [of 0 R] by (cases c) auto
  have "\<exists>R'. does view (lan867x_revc_config_init m p) R (- ENODEV) R'" for R
  proof -
    let ?R = "upd_all (zip lan867x_revc_fixup_registers lan867x_revc_fixup_values) R"
    obtain R2 where 2: "does view (\<lambda>d. if FIELD_GET 8 7 (uint strap) = 1 then write_mmd m 0x93 0x06E9 d else (0, d)) ?R 0 R2"
      using rmii by blast
    obtain R3 where "does view (\<lambda>d. neg_return (lan867x_revc_setup_cfgparam m d) (\<lambda>_ d. lan86xx_configure_plca m p d)) R2 (- ENODEV) R3"
      using stop by blast
    with 2 show ?thesis
      unfolding lan867x_revc_config_init_def
      by (intro exI does_wait_reset [OF assms(1)] does_nz [OF does_write_zip] does_neg [OF does_strap] does_nz [OF 2])
        (auto simp: lan867x_revc_fixup_registers_def)
  qed
  then obtain R' where "does view (lan867x_revc_config_init m p) (view (bus d)) (- ENODEV) R'" by blast
  then show ?thesis by (auto simp: does_def)
qed

end

section \<open>A bus with a PHY\<close>

text \<open>Registers that keep what is written to them, a calibration memory behind 0xD8 to 0xDA, a completed reset.\<close>

definition phy_model :: "(u16 \<Rightarrow> u16) \<Rightarrow> u16 \<Rightarrow> (u32 \<Rightarrow> u16) mdio" where
  "phy_model cal strap =
    \<lparr>phy_read_mmd = \<lambda>dev a h. (if a = 0xD9 then (if bit (h 0xDA) 1 then uint (cal (h 0xD8)) else 0)
                               else if a = 0x19 then 0x800 else uint (h a), h),
     phy_write_mmd = \<lambda>dev a v h. (0, h(a := v)),
     phy_modify_mmd = \<lambda>dev a k v h. (0, h(a := (h a AND NOT k) OR v)),
     phy_read = \<lambda>a h. (uint strap, h),
     udelay = \<lambda>n h. h\<rparr>"

interpretation phy: mdio_reliable "phy_model cal strap" "\<lambda>h. h" cal strap for cal strap
  by unfold_locales (auto simp: phy_model_def)

section \<open>Errors on the bus\<close>

text \<open>
  \<open>watched m\<close> is the bus \<open>m\<close> with two more components of the state: the error number of the first access that failed,
  and how many accesses were made after it.
\<close>

definition watch :: "('h \<Rightarrow> int \<times> 'h) \<Rightarrow> 'h \<times> int option \<times> nat \<Rightarrow> int \<times> 'h \<times> int option \<times> nat" where
  "watch f = (\<lambda>(h, failed, late). let (r, h') = f h in
     (r, h', if failed = None \<and> r < 0 then Some r else failed, if failed = None then late else late + 1))"

definition watched :: "'h mdio \<Rightarrow> ('h \<times> int option \<times> nat) mdio" where
  "watched m =
    \<lparr>phy_read_mmd = \<lambda>dev a. watch (phy_read_mmd m dev a), phy_write_mmd = \<lambda>dev a v. watch (phy_write_mmd m dev a v),
     phy_modify_mmd = \<lambda>dev a k v. watch (phy_modify_mmd m dev a k v), phy_read = \<lambda>a. watch (phy_read m a),
     udelay = \<lambda>n (h, w). (udelay m n h, w)\<rparr>"

text \<open>
  \<open>stops e P f\<close>: started before any failure, \<open>f\<close> makes no access after one; then its result is \<open>e\<close> of the error
  number, and otherwise its result satisfies \<open>P\<close>.
\<close>

definition stops :: "(int \<Rightarrow> 'r) \<Rightarrow> ('r \<Rightarrow> bool) \<Rightarrow> (('h \<times> int option \<times> nat) phy_device \<Rightarrow> 'r \<times> ('h \<times> int option \<times> nat) phy_device) \<Rightarrow> bool" where
  "stops e P f \<longleftrightarrow> (\<forall>d. snd (bus d) = (None, 0) \<longrightarrow>
     (case f d of (r, d') \<Rightarrow> snd (bus d') = (None, 0) \<and> P r \<or> (\<exists>n < 0. r = e n \<and> snd (bus d') = (Some n, 0))))"

abbreviation stopsI :: "(int \<Rightarrow> bool) \<Rightarrow> (('h \<times> int option \<times> nat) phy_device \<Rightarrow> int \<times> ('h \<times> int option \<times> nat) phy_device) \<Rightarrow> bool" where
  "stopsI \<equiv> stops (\<lambda>n. n)"

lemma stops_lift: "(\<And>h. fst (f h) < 0 \<or> P (fst (f h))) \<Longrightarrow> stopsI P (lift_bus (watch f))"
  unfolding stops_def lift_bus_def watch_def by (auto simp: case_prod_unfold Let_def split: if_splits)

lemma stops_bind:
  assumes "stops e P f" "\<And>n. n < 0 \<Longrightarrow> c (e n) \<and> ret (e n) = e' n" "\<And>r. P r \<Longrightarrow> c r \<Longrightarrow> Q (ret r)"
    "\<And>r. P r \<Longrightarrow> \<not> c r \<Longrightarrow> stops e' Q (g r)"
  shows "stops e' Q (\<lambda>d. case f d of (r, s) \<Rightarrow> if c r then (ret r, s) else g r s)"
  unfolding stops_def
proof (intro allI impI)
  fix d :: "('b \<times> int option \<times> nat) phy_device"
  assume d: "snd (bus d) = (None, 0)"
  obtain r d' where f: "f d = (r, d')" by (cases "f d")
  from assms(1) d f consider "snd (bus d') = (None, 0)" "P r" | n where "n < 0" "r = e n" "snd (bus d') = (Some n, 0)"
    by (fastforce simp: stops_def)
  then show "case case f d of (r, s) \<Rightarrow> if c r then (ret r, s) else g r s of (r, d') \<Rightarrow>
      snd (bus d') = (None, 0) \<and> Q r \<or> (\<exists>n < 0. r = e' n \<and> snd (bus d') = (Some n, 0))"
  proof cases
    case 1
    then show ?thesis using assms(3,4) [of r] f by (cases "c r") (auto simp: stops_def)
  next
    case 2
    then show ?thesis using assms(2) f by auto
  qed
qed

lemma stops_neg: "stopsI P f \<Longrightarrow> (\<And>r. P r \<Longrightarrow> r < 0 \<Longrightarrow> Q r) \<Longrightarrow> (\<And>r. P r \<Longrightarrow> 0 \<le> r \<Longrightarrow> stopsI Q (g r)) \<Longrightarrow>
    stopsI Q (\<lambda>d. neg_return (f d) g)"
  unfolding neg_return_def by (rule stops_bind [where ret = "\<lambda>r. r" and P = P and e = "\<lambda>n. n"]) (simp_all add: not_less)

lemma stops_nz: "stopsI P f \<Longrightarrow> (\<And>r. P r \<Longrightarrow> r \<noteq> 0 \<Longrightarrow> Q r) \<Longrightarrow> stopsI Q g \<Longrightarrow> stopsI Q (\<lambda>d. nz_return (f d) g)"
  unfolding nz_return_def by (rule stops_bind [where ret = "\<lambda>r. r" and P = P and e = "\<lambda>n. n"]) simp_all

lemma stops_err: "stopsI P f \<Longrightarrow> (\<And>r. P r \<Longrightarrow> 0 \<le> r) \<Longrightarrow> (\<And>r. P r \<Longrightarrow> stops Inl Q (g r)) \<Longrightarrow> stops Inl Q (\<lambda>d. err_return (f d) g)"
  unfolding err_return_def by (rule stops_bind [where P = P and e = "\<lambda>n. n"]) (auto simp: not_less dest: leD)

lemma stops_res: "stops Inl P f \<Longrightarrow> (\<And>n. P (Inl n) \<Longrightarrow> Q n) \<Longrightarrow> (\<And>x. P (Inr x) \<Longrightarrow> stopsI Q (g x)) \<Longrightarrow> stopsI Q (\<lambda>d. res_return (f d) g)"
proof -
  assume *: "stops Inl P f" "\<And>n. P (Inl n) \<Longrightarrow> Q n" "\<And>x. P (Inr x) \<Longrightarrow> stopsI Q (g x)"
  have "stopsI Q (\<lambda>d. case f d of (r, s) \<Rightarrow> if isl r then (projl r, s) else g (projr r) s)"
  proof (rule stops_bind [where P = P and e = Inl])
    show "stopsI Q (g (projr r))" if "P r" "\<not> isl r" for r using * that by (metis sum.collapse(2))
  qed (use * in \<open>auto simp: isl_def\<close>)
  moreover have "res_return p g = (case p of (r, s) \<Rightarrow> if isl r then (projl r, s) else g (projr r) s)" for p
    by (auto simp: res_return_def split: prod.splits sum.splits)
  ultimately show ?thesis by simp
qed

lemma stops_return: "P r \<Longrightarrow> stops e P (\<lambda>d. (r, d))" "P r \<Longrightarrow> stops e P (\<lambda>d. (r, phydev_msg msg d))"
  unfolding stops_def phydev_msg_def by simp_all

lemma stops_if: "(c \<Longrightarrow> stops e P f) \<Longrightarrow> (\<not> c \<Longrightarrow> stops e P g) \<Longrightarrow> stops e P (\<lambda>d. if c then f d else g d)"
  by (cases c) simp_all

abbreviation mdio_results :: "'h mdio \<Rightarrow> bool" where
  "mdio_results m \<equiv> (\<forall>a v h. fst (phy_write_mmd m 31 a v h) \<le> 0) \<and> (\<forall>a k v h. fst (phy_modify_mmd m 31 a k v h) \<le> 0)"

lemma stops_accesses:
  shows stops_read: "stopsI (\<lambda>r. 0 \<le> r) (read_mmd (watched m) a)"
    and stops_strap: "stopsI (\<lambda>r. 0 \<le> r) (lift_bus (phy_read (watched m) a))"
    and stops_write: "mdio_results m \<Longrightarrow> stopsI (\<lambda>r. r = 0) (write_mmd (watched m) a v)"
    and stops_modify: "mdio_results m \<Longrightarrow> stopsI (\<lambda>r. r = 0) (modify_mmd (watched m) a k v)"
  by (simp_all add: watched_def, (rule stops_lift; force simp: not_less le_less)+)

lemma stops_indirect_read:
  "mdio_results m \<Longrightarrow> stopsI (\<lambda>r. 0 \<le> r) (lan865x_revb0_indirect_read (watched m) a)"
  unfolding lan865x_revb0_indirect_read_def
  by (intro stops_nz [OF stops_write] stops_read) simp_all

lemma stops_write_table: "mdio_results m \<Longrightarrow> stopsI (\<lambda>r. r = 0) (write_table (watched m) tab)"
proof (induction tab)
  case (Cons p tab)
  then have "stopsI (\<lambda>r. r = 0) (\<lambda>d. nz_return (write_mmd (watched m) (fst p) (snd p) d) (write_table (watched m) tab))"
    by (intro stops_nz [OF stops_write]) simp_all
  then show ?case by (cases p) (simp add: stops_def)
qed (simp add: stops_def)

lemma stops_modify_table: "mdio_results m \<Longrightarrow> stopsI (\<lambda>r. r = 0) (modify_table (watched m) tab)"
proof (induction tab)
  case (Cons p tab)
  then have "stopsI (\<lambda>r. r = 0) (\<lambda>d. nz_return (modify_mmd (watched m) (fst p) (fst (snd p)) (snd (snd p)) d) (modify_table (watched m) tab))"
    by (intro stops_nz [OF stops_modify]) simp_all
  then show ?case by (cases p) (simp add: stops_def)
qed (simp add: stops_def)

lemma stops_read_table: "stops Inl (\<lambda>r. \<not> isl r) (read_table (watched m) regs)"
proof (induction regs)
  case (Cons a regs)
  have "stops Inl (\<lambda>r. \<not> isl r) (\<lambda>d. err_return (read_mmd (watched m) (ucast a) d) (\<lambda>ret d.
      case read_table (watched m) regs d of (Inl e, d) \<Rightarrow> (Inl e, d) | (Inr vs, d) \<Rightarrow> (Inr (word_of_int ret # vs), d)))"
    by (rule stops_err [OF stops_read]) (use Cons in \<open>force simp: stops_def split: sum.splits prod.splits\<close>)+
  then show ?case by (simp add: stops_def)
qed (simp add: stops_def)

lemma stops_plca: "mdio_results m \<Longrightarrow> stopsI (\<lambda>r. r = 0 \<or> r = - ENODEV) (lan86xx_configure_plca (watched m) p)"
  unfolding lan86xx_configure_plca_def
  by (intro stops_neg [OF stops_write] stops_neg [OF stops_if [OF stops_write stops_write]] stops_if
      stops_nz [OF stops_modify] stops_return) simp_all

abbreviation chip_refused :: "int + 'a \<Rightarrow> bool" where
  "chip_refused r \<equiv> (\<forall>n. r = Inl n \<longrightarrow> n = - ENODEV)"

lemma stops_offsets:
  assumes "mdio_results m"
  shows "stops Inl chip_refused (lan865x_generate_cfg_offsets (watched m))"
    and "stops Inl chip_refused (lan867x_revc_generate_cfg_offsets (watched m))"
  unfolding lan865x_generate_cfg_offsets_def lan867x_revc_generate_cfg_offsets_def Let_def
  by (intro stops_err [OF stops_indirect_read [OF assms]] stops_if stops_return; simp)+

lemma stops_setup:
  assumes "mdio_results m"
  shows "stopsI (\<lambda>r. r = 0 \<or> r = - ENODEV) (lan865x_setup_cfgparam (watched m))"
    and "stopsI (\<lambda>r. r = 0 \<or> r = - ENODEV) (lan867x_revc_setup_cfgparam (watched m))"
proof -
  have table: "stopsI (\<lambda>r. r = 0 \<or> r = - ENODEV) (write_table (watched m) tab)" for tab
    using stops_write_table [OF assms, of tab] unfolding stops_def by fastforce
  show "stopsI (\<lambda>r. r = 0 \<or> r = - ENODEV) (lan865x_setup_cfgparam (watched m))"
    unfolding lan865x_setup_cfgparam_def lan865x_read_cfg_params_def lan865x_write_cfg_params_def case_prod_unfold
    by (intro stops_res [OF stops_offsets(1) [OF assms]] stops_res [OF stops_read_table] table) simp_all
  show "stopsI (\<lambda>r. r = 0 \<or> r = - ENODEV) (lan867x_revc_setup_cfgparam (watched m))"
    unfolding lan867x_revc_setup_cfgparam_def lan867x_revc_write_cfg_params_def case_prod_unfold
    by (intro stops_res [OF stops_offsets(2) [OF assms]] table) simp_all
qed

lemma stops_udelay: "stops e P f \<Longrightarrow> stops e P (\<lambda>d. f (d\<lparr>bus := udelay (watched m) n (bus d)\<rparr>))"
  unfolding stops_def watched_def by (simp add: case_prod_unfold)

lemma stops_wait_reset:
  "stopsI (\<lambda>r. r = 0 \<or> r = - ENODEV) cont \<Longrightarrow> stopsI (\<lambda>r. r = 0 \<or> r = - ENODEV) (wait_reset_complete (watched m) cont)"
  unfolding wait_reset_complete_def Let_def
  by (intro stops_neg [OF stops_read] stops_if stops_return stops_udelay [where f = "\<lambda>d. neg_return (read_mmd (watched m) 0x19 d) _"]) simp_all

lemma stops_config_init:
  assumes "mdio_results m" "(i, init) \<in> set microchip_t1s_driver"
  shows "stopsI (\<lambda>r. r = 0 \<or> r = - ENODEV) (init (watched m) p)"
proof -
  note go = stops_nz [OF stops_write_table] stops_nz [OF stops_modify_table] stops_neg [OF stops_setup(1)] stops_neg [OF stops_setup(2)]
    stops_neg [OF stops_strap] stops_nz [OF stops_if [OF stops_write stops_return(1)]] stops_plca stops_wait_reset
  have "stopsI (\<lambda>r. r = 0 \<or> r = - ENODEV) (lan865x_revb0_config_init (watched m) p)"
    unfolding lan865x_revb0_config_init_def by (intro go) (use assms(1) in auto)
  moreover have "stopsI (\<lambda>r. r = 0 \<or> r = - ENODEV) (lan867x_revb1_config_init (watched m) p)"
    unfolding lan867x_revb1_config_init_def by (intro go) (use assms(1) in auto)
  moreover have "stopsI (\<lambda>r. r = 0 \<or> r = - ENODEV) (lan867x_revc_config_init (watched m) p)"
    unfolding lan867x_revc_config_init_def by (intro go) (use assms(1) in auto)
  ultimately show ?thesis using assms(2) by (auto simp: microchip_t1s_driver_def)
qed

section \<open>Properties\<close>

text \<open>
  C12. Configuration of the LAN865x over a bus on which no access fails: on a chip whose calibration is marked as valid
  it returns 0, and the registers hold the values of the application note, the five words calculated
  from the calibration and from their old contents, and the PLCA settings of the module parameters; every other register keeps its
  value. A chip without a valid calibration is refused with \<open>-ENODEV\<close> before any calibration word or PLCA register is written.
\<close>

theorem lan865x_configured:
  assumes "mdio_reliable m view cal strap"
  shows "if uint (cal 5) AND 0x40 \<noteq> 0
    then \<exists>d'. lan865x_revb0_config_init m p d = (0, d') \<and>
      view (bus d') = over (view (bus d)) (lan865x_registers p cal (view (bus d)))
    else \<exists>d'. lan865x_revb0_config_init m p d = (- ENODEV, d') \<and>
      (\<forall>a. a \<notin> set ([0xD8, 0xDA] @ lan865x_revb0_fixup_registers) \<longrightarrow> view (bus d') a = view (bus d) a)"
proof (cases "uint (cal 5) AND 0x40 = 0")
  case True
  have "over R (zip lan865x_revb0_fixup_registers lan865x_revb0_fixup_values @ [(0xD8, 5), (0xDA, 2)]) a = R a"
    if "a \<notin> set ([0xD8, 0xDA] @ lan865x_revb0_fixup_registers)" for R a
    using that by (auto simp: over_def map_add_def map_of_eq_None_iff dest: set_zip_leftD dest!: map_of_SomeD split: option.splits)
  with mdio_reliable.lan865x_config_fails [OF assms True, of p d] True show ?thesis by auto
next
  case False
  with mdio_reliable.lan865x_config [OF assms False, of p d] show ?thesis by simp
qed

abbreviation phy_reset :: "(u32 \<Rightarrow> u16) phy_device" where
  "phy_reset \<equiv> \<lparr>bus = \<lambda>_. 0, link = 0, duplex = 0, speed = 0, autoneg = 0, dmesg = []\<rparr>"

theorem lan865x_configured_witness:
  "\<exists>d'. lan865x_revb0_config_init (phy_model (\<lambda>a. if a = 5 then 0x40 else 3) 0) plca_defaults phy_reset = (0, d') \<and>
     bus d' 0x84 = 0x3110 \<and> bus d' 0xCA02 = 0x0800 \<and> bus d' 0xCA01 = 0x8000 \<and> bus d' 0x91 = 0x9660 \<and> bus d' 0x90 = 0"
proof -
  let ?cal = "\<lambda>a :: u16. if a = 5 then 0x40 else 3 :: u16"
  have reg: "over (\<lambda>_. 0) (lan865x_registers plca_defaults ?cal (\<lambda>_. 0)) = R \<Longrightarrow>
      R 0x84 = 0x3110 \<and> R 0xCA02 = 0x0800 \<and> R 0xCA01 = 0x8000 \<and> R 0x91 = 0x9660 \<and> R 0x90 = 0" for R
    by (drule sym) (simp add: over_def plca_registers_def plca_defaults_def lan865x_registers_def lan865x_revb0_fixup_registers_def lan865x_revb0_fixup_values_def
        lan865x_cfg_results_def
        sint_offset_of ucast_OR ucast_FIELD_PREP)
  show ?thesis
    using lan865x_configured [OF phy.mdio_reliable_axioms [of ?cal 0], of plca_defaults phy_reset] reg [OF sym]
    by auto
qed

text \<open>
  Configuration of the LAN867x over a bus on which no access fails, once the reset is complete (at the latest after the
  delay): revision B1 has exactly the masked bits of each register of the application note changed; on a revision C with a valid
  calibration and an offset of at least -5, the registers hold the values of the note, the RMII setting if the straps select RMII,
  and the two calibration words; then the PLCA settings. No other register changes.
\<close>

theorem lan867x_configured:
  assumes "mdio_reliable m view cal strap"
    and "\<forall>h. fst (phy_read_mmd m 31 0x19 (udelay m 5 h)) AND 0x800 \<noteq> 0"
    and "uint (cal 5) AND 0x40 \<noteq> 0" "- 5 \<le> sint (offset_of (uint (cal 4)))"
  shows "(\<exists>d'. lan867x_revb1_config_init m p d = (0, d') \<and>
      view (bus d') = over (view (bus d)) (lan867x_revb1_registers p (view (bus d)))) \<and>
    (\<exists>d'. lan867x_revc_config_init m p d = (0, d') \<and>
      view (bus d') = over (view (bus d)) (lan867x_revc_registers p cal strap (view (bus d))))"
  using mdio_reliable.does_revb1_config [OF assms(1,2), of p "view (bus d)"] mdio_reliable.revc_config [OF assms, of p d]
  by (simp add: does_def)

theorem lan867x_configured_witness:
  "\<exists>d'. lan867x_revc_config_init (phy_model (\<lambda>a. 0x5F) 0x80) plca_defaults phy_reset = (0, d') \<and>
     bus d' 0x84 = 0x20D3 \<and> bus d' 0x8A = 0x9C00 \<and> bus d' 0x93 = 0x06E9 \<and> bus d' 0xCA01 = 0x8000"
proof -
  have reg: "over (\<lambda>_. 0) (lan867x_revc_registers plca_defaults (\<lambda>a. 0x5F) 0x80 (\<lambda>_. 0)) = R \<Longrightarrow>
      R 0x84 = 0x20D3 \<and> R 0x8A = 0x9C00 \<and> R 0x93 = 0x06E9 \<and> R 0xCA01 = 0x8000" for R
    by (drule sym) (simp add: over_def plca_registers_def plca_defaults_def lan867x_revc_registers_def lan867x_revc_fixup_registers_def lan867x_revc_fixup_values_def
        lan867x_revc_cfg_params_def FIELD_GET_def GENMASK_def mask_eq_exp_minus_1
        sint_offset_of ucast_OR ucast_FIELD_PREP)
  have ok: "- 5 \<le> sint (offset_of (uint (0x5F :: u16)))" by (simp add: sint_offset_of)
  show ?thesis
    using lan867x_configured [OF phy.mdio_reliable_axioms [of "\<lambda>a. 0x5F" "0x80"] _ _ ok, of plca_defaults phy_reset] reg [OF sym]
    by (auto simp: phy_model_def)
qed

text \<open>
  C13. Errors end the configuration of every supported PHY: on any bus, the first access that fails is the last one made, and
  its error number is the result. Without a failed access the result is 0 or \<open>-ENODEV\<close>. As documented,
  writing and modifying a register return 0 or a negative error number.
\<close>

theorem errors_end_configuration:
  assumes "mdio_results m" "(i, init) \<in> set microchip_t1s_driver" "snd (bus d) = (None, 0)"
  shows "case init (watched m) p d of (r, d') \<Rightarrow> (case snd (bus d') of (failed, late) \<Rightarrow>
    late = 0 \<and> (case failed of Some n \<Rightarrow> r = n \<and> n < 0 | None \<Rightarrow> r = 0 \<or> r = - ENODEV))"
  using stops_config_init [OF assms(1,2), of p] assms(3) unfolding stops_def by (fastforce split: prod.splits option.splits)

theorem errors_end_configuration_witness:
  "case lan865x_revb0_config_init (watched (phy_model (\<lambda>a. 0) 0\<lparr>phy_modify_mmd := \<lambda>dev a k v h. (- 5, h)\<rparr>)) plca_defaults
      \<lparr>bus = (\<lambda>_. 0, None, 0), link = 0, duplex = 0, speed = 0, autoneg = 0, dmesg = []\<rparr> of (r, d') \<Rightarrow>
    (case snd (bus d') of (failed, late) \<Rightarrow> late = 0 \<and> (case failed of Some n \<Rightarrow> r = n \<and> n < 0 | None \<Rightarrow> r = 0 \<or> r = - ENODEV))"
  by (rule errors_end_configuration [of _ "0x0007C1B3"]) (auto simp: phy_model_def microchip_t1s_driver_def)

text \<open>
  The LAN865x configuration does not check the first offset: where the configuration of the LAN867x revision C
  refuses a chip with an offset below -5, that of the LAN865x succeeds, and writes a word in which
  the negative parameter has overwritten the two top bits that are meant to be kept.
\<close>

theorem lan865x_offset_unchecked:
  assumes "mdio_reliable m view cal strap"
    and "\<forall>h. fst (phy_read_mmd m 31 0x19 (udelay m 5 h)) AND 0x800 \<noteq> 0"
    and "uint (cal 5) AND 0x40 \<noteq> 0" "sint (offset_of (uint (cal 4))) < - 5"
  shows "fst (lan867x_revc_config_init m p d) = - ENODEV \<and>
    (\<exists>d'. lan865x_revb0_config_init m p d = (0, d') \<and> bit (view (bus d') 0xAD) 14 \<and> bit (view (bus d') 0xAD) 15)"
proof -
  obtain d' where d': "lan865x_revb0_config_init m p d = (0, d')" "view (bus d') = over (view (bus d)) (lan865x_registers p cal (view (bus d)))"
    using mdio_reliable.lan865x_config [OF assms(1,3)] by blast
  have "view (bus d') 0xAD = ucast (ucast (view (bus d) 0xAD AND 0xC0C0) OR FIELD_PREP 15 8 (5 + sint (offset_of (uint (cal 4)))) OR
      word_of_int (9 + sint (offset_of (uint (cal 4)))))"
    unfolding d'(2) by (simp add: over_def lan865x_registers_def lan865x_revb0_fixup_registers_def lan865x_revb0_fixup_values_def
        lan865x_cfg_results_def)
  moreover have "- 64 \<le> 5 + sint (offset_of (uint (cal 4)))" "5 + sint (offset_of (uint (cal 4))) < 0"
    using assms(4) by (auto simp: sint_offset_of split: if_splits)
  ultimately have "bit (view (bus d') 0xAD) 14" "bit (view (bus d') 0xAD) 15"
    by (auto intro!: field_overwrites)
  with d'(1) mdio_reliable.revc_rejects [OF assms(1,2)] assms(4) show ?thesis by blast
qed

theorem lan865x_offset_unchecked_witness:
  "\<exists>d'. lan865x_revb0_config_init (phy_model (\<lambda>a. 0x54) 0) plca_defaults phy_reset = (0, d') \<and> bit (bus d' 0xAD) 15"
proof -
  have bad: "sint (offset_of (uint (0x54 :: u16))) < - 5" by (simp add: sint_offset_of)
  show ?thesis
    using lan865x_offset_unchecked [OF phy.mdio_reliable_axioms [of "\<lambda>a. 0x54" 0] _ _ bad, of plca_defaults phy_reset]
    by (auto simp: phy_model_def)
qed

end
