(* ===== verification/Lwip_Pbuf.thy ===== *)
theory Lwip_Pbuf
  imports Prelude
begin

text \<open>
  Packet buffers of lwIP (\<open>core/pbuf.c\<close>), which carry the frames between the Arduino integration and the network stack.

  A \<open>heap\<close> maps addresses to \<open>struct pbuf\<close>; \<open>None\<close> is a null pointer. The memory that \<open>payload\<close> points into
  is \<open>pmem\<close>, the pointer itself the position \<open>poff\<close>. Every function runs in the option monad: \<open>None\<close> is an access through a null
  or dangling pointer, an access outside of the payload memory, a failed \<open>LWIP_ASSERT\<close> (an endless loop in \<open>arch/cc.h\<close>)
  or a loop that does not end. The allocator is a parameter \<open>malloc\<close>: given the heap and a size it returns
  the address of a free block and its contents, or \<open>None\<close> when the memory is used up. Pbufs with a user-defined free function (\<open>PBUF_FLAG_IS_CUSTOM\<close>)
  are created by IP fragmentation only and are not modelled.
\<close>

section \<open>Data\<close>

record pbuf =
  pnext :: "nat option"
  pmem :: bytes
  poff :: nat
  tot_len :: u16
  plen :: u16
  type_internal :: u8
  pflags :: u8
  ref :: u8
  if_idx :: u8

type_synonym heap = "nat \<Rightarrow> pbuf option"
type_synonym malloc = "heap \<Rightarrow> nat \<Rightarrow> (nat \<times> bytes) option"

datatype err_t =
  ERR_OK | ERR_MEM | ERR_BUF | ERR_TIMEOUT | ERR_RTE | ERR_INPROGRESS | ERR_VAL | ERR_WOULDBLOCK | ERR_USE | ERR_ALREADY | ERR_ISCONN
| ERR_CONN | ERR_IF | ERR_ABRT | ERR_RST | ERR_CLSD | ERR_ARG
datatype pbuf_layer = PBUF_TRANSPORT | PBUF_IP | PBUF_LINK | PBUF_RAW_TX | PBUF_RAW
datatype pbuf_type = PBUF_RAM | PBUF_ROM | PBUF_REF | PBUF_POOL

fun layer_offset :: "pbuf_layer \<Rightarrow> u16" where
  "layer_offset PBUF_TRANSPORT = 54"
| "layer_offset PBUF_IP = 34"
| "layer_offset PBUF_LINK = 14"
| "layer_offset PBUF_RAW_TX = 0"
| "layer_offset PBUF_RAW = 0"

fun type_bits :: "pbuf_type \<Rightarrow> u16" where
  "type_bits PBUF_RAM = 0x0280"
| "type_bits PBUF_ROM = 0x0001"
| "type_bits PBUF_REF = 0x0041"
| "type_bits PBUF_POOL = 0x0182"

definition LWIP_MEM_ALIGN_SIZE :: "u32 \<Rightarrow> u32" where
  "LWIP_MEM_ALIGN_SIZE x = (x + 3) AND NOT 3"

abbreviation SIZEOF_STRUCT_PBUF :: u32 where "SIZEOF_STRUCT_PBUF \<equiv> 16"
abbreviation PBUF_POOL_BUFSIZE_ALIGNED :: u32 where "PBUF_POOL_BUFSIZE_ALIGNED \<equiv> 592"

definition deref :: "heap \<Rightarrow> nat option \<Rightarrow> pbuf option" where
  "deref h p = Option.bind p h"

text \<open>\<open>n\<close> bytes at \<open>payload + i\<close>, read and written by \<open>MEMCPY\<close>.\<close>

definition pread :: "pbuf \<Rightarrow> nat \<Rightarrow> nat \<Rightarrow> bytes option" where
  "pread b i n = (if poff b + i + n \<le> length (pmem b) then Some (sub_at (poff b + i) n (pmem b)) else None)"

definition pwrite :: "pbuf \<Rightarrow> nat \<Rightarrow> bytes \<Rightarrow> pbuf option" where
  "pwrite b i ys = (if poff b + i + length ys \<le> length (pmem b) then Some (b\<lparr>pmem := put_at (poff b + i) ys (pmem b)\<rparr>) else None)"

section \<open>References\<close>

partial_function (option) pbuf_free_loop :: "heap \<Rightarrow> nat option \<Rightarrow> u8 \<Rightarrow> (u8 \<times> heap) option" where
  "pbuf_free_loop h p count =
    (case p of None \<Rightarrow> Some (count, h)
     | Some a \<Rightarrow> Option.bind (h a) (\<lambda>b.
         if ref b = 0 then None
         else if ref b - 1 = 0 then
           (if pflags b AND 2 = 0 \<and> type_internal b AND 0x0F \<le> 2 then pbuf_free_loop (h(a := None)) (pnext b) (count + 1) else None)
         else Some (count, h(a \<mapsto> b\<lparr>ref := ref b - 1\<rparr>))))"

definition pbuf_free :: "heap \<Rightarrow> nat option \<Rightarrow> (u8 \<times> heap) option" where
  "pbuf_free h p = (if p = None then None else pbuf_free_loop h p 0)"

definition pbuf_ref :: "heap \<Rightarrow> nat option \<Rightarrow> heap option" where
  "pbuf_ref h p = (case p of None \<Rightarrow> Some h
     | Some a \<Rightarrow> Option.bind (h a) (\<lambda>b. if ref b + 1 = 0 then None else Some (h(a \<mapsto> b\<lparr>ref := ref b + 1\<rparr>))))"

section \<open>Allocation\<close>

definition pbuf_init_alloced_pbuf :: "bytes \<Rightarrow> nat \<Rightarrow> u16 \<Rightarrow> u16 \<Rightarrow> pbuf_type \<Rightarrow> u8 \<Rightarrow> pbuf" where
  "pbuf_init_alloced_pbuf m off tlen l ty fl =
    \<lparr>pnext = None, pmem = m, poff = off, tot_len = tlen, plen = l, type_internal = ucast (type_bits ty), pflags = fl, ref = 1, if_idx = 0\<rparr>"

definition pbuf_alloc_reference :: "malloc \<Rightarrow> heap \<Rightarrow> bytes \<Rightarrow> u16 \<Rightarrow> pbuf_type \<Rightarrow> (nat option \<times> heap) option" where
  "pbuf_alloc_reference malloc h payload l ty =
    (if ty = PBUF_REF \<or> ty = PBUF_ROM then
       (case malloc h 0 of None \<Rightarrow> Some (None, h)
        | Some (a, _) \<Rightarrow> Some (Some a, h(a \<mapsto> pbuf_init_alloced_pbuf payload 0 l l ty 0)))
     else None)"

text \<open>The loop of the case \<open>PBUF_POOL\<close>; \<open>p\<close>, \<open>lst\<close> (\<open>last\<close>), \<open>rem_len\<close> and \<open>offset\<close> are its local variables.\<close>

partial_function (option) pbuf_alloc_pool :: "malloc \<Rightarrow> heap \<Rightarrow> nat option \<Rightarrow> nat option \<Rightarrow> u16 \<Rightarrow> u16 \<Rightarrow> (nat option \<times> heap) option" where
  "pbuf_alloc_pool malloc h p lst rem_len offset =
    (case malloc h (unat PBUF_POOL_BUFSIZE_ALIGNED) of
       None \<Rightarrow> (if p = None then Some (None, h) else map_option (\<lambda>(_, h). (None, h)) (pbuf_free h p))
     | Some (q, m) \<Rightarrow>
         let qlen = min rem_len (ucast (PBUF_POOL_BUFSIZE_ALIGNED - LWIP_MEM_ALIGN_SIZE (ucast offset)));
             h = h(q \<mapsto> pbuf_init_alloced_pbuf m (unat (LWIP_MEM_ALIGN_SIZE (ucast offset))) rem_len qlen PBUF_POOL 0);
             rem_len = rem_len - qlen
         in Option.bind (case lst of None \<Rightarrow> Some h | Some l \<Rightarrow> map_option (\<lambda>b. h(l \<mapsto> b\<lparr>pnext := Some q\<rparr>)) (h l)) (\<lambda>h.
            let p = (if p = None then Some q else p)
            in if rem_len > 0 then pbuf_alloc_pool malloc h p (Some q) rem_len 0 else Some (p, h)))"

definition pbuf_alloc :: "malloc \<Rightarrow> heap \<Rightarrow> pbuf_layer \<Rightarrow> u16 \<Rightarrow> pbuf_type \<Rightarrow> (nat option \<times> heap) option" where
  "pbuf_alloc malloc h layer l ty =
    (let offset = layer_offset layer in
     case ty of
       PBUF_REF \<Rightarrow> pbuf_alloc_reference malloc h [] l ty
     | PBUF_ROM \<Rightarrow> pbuf_alloc_reference malloc h [] l ty
     | PBUF_POOL \<Rightarrow> pbuf_alloc_pool malloc h None None l offset
     | PBUF_RAM \<Rightarrow>
         (let payload_len = LWIP_MEM_ALIGN_SIZE (ucast offset) + LWIP_MEM_ALIGN_SIZE (ucast l);
              alloc_len = LWIP_MEM_ALIGN_SIZE SIZEOF_STRUCT_PBUF + payload_len
          in if payload_len < LWIP_MEM_ALIGN_SIZE (ucast l) \<or> alloc_len < LWIP_MEM_ALIGN_SIZE (ucast l) then Some (None, h)
             else case malloc h (unat payload_len) of None \<Rightarrow> Some (None, h)
               | Some (a, m) \<Rightarrow> Some (Some a, h(a \<mapsto> pbuf_init_alloced_pbuf m (unat (LWIP_MEM_ALIGN_SIZE (ucast offset))) l l PBUF_RAM 0))))"

text \<open>
  \<open>pbuf_realloc\<close>: the loop over the pbufs that stay, then the new last one. With \<open>MEM_LIBC_MALLOC\<close> \<open>mem_trim\<close> returns its argument.
\<close>

partial_function (option) pbuf_realloc_loop :: "heap \<Rightarrow> nat option \<Rightarrow> u16 \<Rightarrow> u16 \<Rightarrow> (nat \<times> u16 \<times> heap) option" where
  "pbuf_realloc_loop h q rem_len shrink =
    (case q of None \<Rightarrow> None
     | Some a \<Rightarrow> Option.bind (h a) (\<lambda>b.
         if rem_len > plen b then pbuf_realloc_loop (h(a \<mapsto> b\<lparr>tot_len := tot_len b - shrink\<rparr>)) (pnext b) (rem_len - plen b) shrink
         else Some (a, rem_len, h)))"

definition pbuf_realloc :: "heap \<Rightarrow> nat option \<Rightarrow> u16 \<Rightarrow> heap option" where
  "pbuf_realloc h p new_len = do {
     b \<leftarrow> deref h p;
     if new_len \<ge> tot_len b then Some h
     else do {
       (q, rem_len, h) \<leftarrow> pbuf_realloc_loop h p new_len (tot_len b - new_len);
       b \<leftarrow> h q;
       let h = h(q \<mapsto> b\<lparr>plen := rem_len, tot_len := rem_len\<rparr>);
       h \<leftarrow> (case pnext b of None \<Rightarrow> Some h | Some n \<Rightarrow> map_option snd (pbuf_free h (Some n)));
       b \<leftarrow> h q;
       Some (h(q \<mapsto> b\<lparr>pnext := None\<rparr>))
     }
   }"

section \<open>Headers\<close>

definition pbuf_add_header_impl :: "heap \<Rightarrow> nat option \<Rightarrow> u32 \<Rightarrow> bool \<Rightarrow> (u8 \<times> heap) option" where
  "pbuf_add_header_impl h p inc force = do {
     a \<leftarrow> p;
     b \<leftarrow> h a;
     let inc16 = (ucast inc :: u16);
     if inc > 0xFFFF then Some (1, h)
     else if inc = 0 then Some (0, h)
     else if inc16 + tot_len b < inc16 then Some (1, h)
     else if type_internal b AND 0x80 \<noteq> 0 \<and> poff b < unat inc then Some (1, h)
     else if type_internal b AND 0x80 = 0 \<and> \<not> force then Some (1, h)
     else if poff b < unat inc then None
     else Some (0, h(a \<mapsto> b\<lparr>poff := poff b - unat inc, plen := plen b + inc16, tot_len := tot_len b + inc16\<rparr>))
   }"

definition pbuf_remove_header :: "heap \<Rightarrow> nat option \<Rightarrow> u32 \<Rightarrow> (u8 \<times> heap) option" where
  "pbuf_remove_header h p dec = do {
     a \<leftarrow> p;
     b \<leftarrow> h a;
     let dec16 = (ucast dec :: u16);
     if dec > 0xFFFF then Some (1, h)
     else if dec = 0 then Some (0, h)
     else if \<not> dec16 \<le> plen b then Some (1, h)
     else Some (0, h(a \<mapsto> b\<lparr>poff := poff b + unat dec, plen := plen b - dec16, tot_len := tot_len b - dec16\<rparr>))
   }"

definition pbuf_header_impl :: "heap \<Rightarrow> nat option \<Rightarrow> 16 word \<Rightarrow> bool \<Rightarrow> (u8 \<times> heap) option" where
  "pbuf_header_impl h p inc force =
     (if sint inc < 0 then pbuf_remove_header h p (word_of_int (- sint inc)) else pbuf_add_header_impl h p (ucast inc) force)"

partial_function (option) pbuf_free_header :: "heap \<Rightarrow> nat option \<Rightarrow> u16 \<Rightarrow> (nat option \<times> heap) option" where
  "pbuf_free_header h p free_left =
    (case p of None \<Rightarrow> Some (None, h)
     | Some a \<Rightarrow>
         if free_left = 0 then Some (p, h)
         else Option.bind (h a) (\<lambda>b.
           if free_left \<ge> plen b then
             Option.bind (pbuf_free (h(a \<mapsto> b\<lparr>pnext := None\<rparr>)) (Some a)) (\<lambda>(_, h).
               pbuf_free_header h (pnext b) (free_left - plen b))
           else map_option (\<lambda>(_, h). (p, h)) (pbuf_remove_header h p (ucast free_left))))"

definition pbuf_add_header :: "heap \<Rightarrow> nat option \<Rightarrow> u32 \<Rightarrow> (u8 \<times> heap) option" where
  "pbuf_add_header h p inc = pbuf_add_header_impl h p inc False"

definition pbuf_add_header_force :: "heap \<Rightarrow> nat option \<Rightarrow> u32 \<Rightarrow> (u8 \<times> heap) option" where
  "pbuf_add_header_force h p inc = pbuf_add_header_impl h p inc True"

definition pbuf_header :: "heap \<Rightarrow> nat option \<Rightarrow> 16 word \<Rightarrow> (u8 \<times> heap) option" where
  "pbuf_header h p inc = pbuf_header_impl h p inc False"

definition pbuf_header_force :: "heap \<Rightarrow> nat option \<Rightarrow> 16 word \<Rightarrow> (u8 \<times> heap) option" where
  "pbuf_header_force h p inc = pbuf_header_impl h p inc True"

section \<open>Chains\<close>

partial_function (option) pbuf_clen_loop :: "heap \<Rightarrow> nat option \<Rightarrow> u16 \<Rightarrow> u16 option" where
  "pbuf_clen_loop h p n = (case p of None \<Rightarrow> Some n | Some a \<Rightarrow> Option.bind (h a) (\<lambda>b. pbuf_clen_loop h (pnext b) (n + 1)))"

definition pbuf_clen :: "heap \<Rightarrow> nat option \<Rightarrow> u16 option" where
  "pbuf_clen h p = pbuf_clen_loop h p 0"

partial_function (option) pbuf_cat_loop :: "heap \<Rightarrow> nat \<Rightarrow> u16 \<Rightarrow> nat \<Rightarrow> heap option" where
  "pbuf_cat_loop h p tlen t =
    Option.bind (h p) (\<lambda>b. case pnext b of
       Some n \<Rightarrow> pbuf_cat_loop (h(p \<mapsto> b\<lparr>tot_len := tot_len b + tlen\<rparr>)) n tlen t
     | None \<Rightarrow> if tot_len b \<noteq> plen b then None else Some (h(p \<mapsto> b\<lparr>tot_len := tot_len b + tlen, pnext := Some t\<rparr>)))"

definition pbuf_cat :: "heap \<Rightarrow> nat option \<Rightarrow> nat option \<Rightarrow> heap option" where
  "pbuf_cat h hp tp = (case (hp, tp) of
     (Some p, Some t) \<Rightarrow> Option.bind (h t) (\<lambda>tb. pbuf_cat_loop h p (tot_len tb) t)
   | _ \<Rightarrow> Some h)"

definition pbuf_chain :: "heap \<Rightarrow> nat option \<Rightarrow> nat option \<Rightarrow> heap option" where
  "pbuf_chain h hp tp = Option.bind (pbuf_cat h hp tp) (\<lambda>h. pbuf_ref h tp)"

definition pbuf_dechain :: "heap \<Rightarrow> nat option \<Rightarrow> (nat option \<times> heap) option" where
  "pbuf_dechain h p = do {
     a \<leftarrow> p;
     b \<leftarrow> h a;
     case pnext b of
       None \<Rightarrow> if tot_len b = plen b then Some (None, h) else None
     | Some q \<Rightarrow> do {
         c \<leftarrow> h q;
         if uint (tot_len c) \<noteq> uint (tot_len b) - uint (plen b) then None
         else do {
           let h = h(q \<mapsto> c\<lparr>tot_len := tot_len b - plen b\<rparr>);
           let h = h(a \<mapsto> b\<lparr>pnext := None, tot_len := plen b\<rparr>);
           (tail_gone, h) \<leftarrow> pbuf_free h (Some q);
           Some (if tail_gone > 0 then None else Some q, h)
         }
       }
   }"

section \<open>Copying\<close>

text \<open>\<open>pbuf_copy_partial\<close>: \<open>acc\<close> holds the bytes written to the caller's buffer so far.\<close>

partial_function (option) pbuf_copy_loop :: "heap \<Rightarrow> nat option \<Rightarrow> u16 \<Rightarrow> u16 \<Rightarrow> bytes \<Rightarrow> bytes option" where
  "pbuf_copy_loop h p l offset acc =
    (case p of None \<Rightarrow> Some acc
     | Some a \<Rightarrow>
         if l = 0 then Some acc
         else Option.bind (h a) (\<lambda>b.
           if offset \<noteq> 0 \<and> offset \<ge> plen b then pbuf_copy_loop h (pnext b) l (offset - plen b) acc
           else let n = min (plen b - offset) l
                in Option.bind (pread b (unat offset) (unat n)) (\<lambda>ys. pbuf_copy_loop h (pnext b) (l - n) 0 (acc @ ys))))"

definition pbuf_copy_partial :: "heap \<Rightarrow> nat option \<Rightarrow> u16 \<Rightarrow> u16 \<Rightarrow> (u16 \<times> bytes) option" where
  "pbuf_copy_partial h p l offset =
    (if p = None then Some (0, []) else map_option (\<lambda>ys. (of_nat (length ys), ys)) (pbuf_copy_loop h p l offset []))"

partial_function (option) pbuf_skip_const :: "heap \<Rightarrow> nat option \<Rightarrow> u16 \<Rightarrow> (nat option \<times> u16) option" where
  "pbuf_skip_const h q offset_left =
    (case q of None \<Rightarrow> Some (None, offset_left)
     | Some a \<Rightarrow> Option.bind (h a) (\<lambda>b.
         if plen b \<le> offset_left then pbuf_skip_const h (pnext b) (offset_left - plen b) else Some (q, offset_left)))"

partial_function (option) pbuf_take_loop :: "heap \<Rightarrow> nat option \<Rightarrow> bytes \<Rightarrow> heap option" where
  "pbuf_take_loop h p data =
    (if data = [] then Some h
     else Option.bind p (\<lambda>a. Option.bind (h a) (\<lambda>b.
       let n = min (length data) (unat (plen b))
       in Option.bind (pwrite b 0 (take n data)) (\<lambda>b. pbuf_take_loop (h(a \<mapsto> b)) (pnext b) (drop n data)))))"

definition pbuf_take :: "heap \<Rightarrow> nat option \<Rightarrow> bytes \<Rightarrow> (err_t \<times> heap) option" where
  "pbuf_take h p data =
    (if p = None then Some (ERR_ARG, h)
     else Option.bind (deref h p) (\<lambda>b.
       if \<not> unat (tot_len b) \<ge> length data then Some (ERR_MEM, h)
       else map_option (\<lambda>h. (ERR_OK, h)) (pbuf_take_loop h p data)))"

definition pbuf_take_at :: "heap \<Rightarrow> nat option \<Rightarrow> bytes \<Rightarrow> u16 \<Rightarrow> (err_t \<times> heap) option" where
  "pbuf_take_at h p data offset = do {
     (q, target_offset) \<leftarrow> pbuf_skip_const h p offset;
     case q of None \<Rightarrow> Some (ERR_MEM, h)
     | Some a \<Rightarrow> do {
         b \<leftarrow> h a;
         if unat (tot_len b) \<ge> unat target_offset + length data then
           (if \<not> target_offset < plen b then None
            else do {
              let n = min (unat (plen b) - unat target_offset) (length data);
              b \<leftarrow> pwrite b (unat target_offset) (take n data);
              let h = h(a \<mapsto> b);
              if drop n data \<noteq> [] then pbuf_take h (pnext b) (drop n data) else Some (ERR_OK, h)
            })
         else Some (ERR_MEM, h)
       }
   }"

text \<open>
  \<open>pbuf_copy_partial_pbuf\<close>: the loop with its local variables. The differences of a \<open>u16_t\<close> length and a \<open>size_t\<close> offset are
  calculated in 32 bits.
\<close>

definition one_packet :: "heap \<Rightarrow> nat option \<Rightarrow> bool option" where
  "one_packet h p = (case p of None \<Rightarrow> Some True
     | Some a \<Rightarrow> map_option (\<lambda>b. plen b = tot_len b \<longrightarrow> pnext b = None) (h a))"

partial_function (option) pbuf_copy_pbuf_loop :: "heap \<Rightarrow> nat option \<Rightarrow> nat option \<Rightarrow> u16 \<Rightarrow> u32 \<Rightarrow> u32 \<Rightarrow> (err_t \<times> heap) option" where
  "pbuf_copy_pbuf_loop h p_to p_from copy_len offset_to offset_from =
    Option.bind p_to (\<lambda>t. Option.bind (deref h p_from) (\<lambda>fb. Option.bind (h t) (\<lambda>tb.
      let to_left = ucast (plen tb) - offset_to;
          from_left = ucast (plen fb) - offset_from;
          len_calc = (if to_left \<ge> from_left then from_left else to_left);
          len = (ucast (min (ucast copy_len) len_calc) :: u16)
      in Option.bind (pread fb (unat offset_from) (unat len)) (\<lambda>ys. Option.bind (pwrite tb (unat offset_to) ys) (\<lambda>tb.
         let h = h(t \<mapsto> tb);
             offset_to = offset_to + ucast len;
             offset_from = offset_from + ucast len;
             copy_len = copy_len - len
         in if \<not> offset_to \<le> ucast (plen tb) \<or> \<not> offset_from \<le> ucast (plen fb) then None
            else let (offset_from, p_from) = (if offset_from \<ge> ucast (plen fb) then (0, pnext fb) else (offset_from, p_from))
              in if p_from = None \<and> copy_len \<noteq> 0 then Some (ERR_ARG, h)
                 else let (offset_to, p_to) = (if offset_to = ucast (plen tb) then (0, pnext tb) else (offset_to, p_to))
                   in if p_to = None \<and> copy_len \<noteq> 0 then Some (ERR_ARG, h)
                      else Option.bind (one_packet h p_from) (\<lambda>f. Option.bind (one_packet h p_to) (\<lambda>g.
                        if \<not> f \<or> \<not> g then Some (ERR_VAL, h)
                        else if copy_len \<noteq> 0 then pbuf_copy_pbuf_loop h p_to p_from copy_len offset_to offset_from
                        else Some (ERR_OK, h))))))))"

definition pbuf_copy_partial_pbuf :: "heap \<Rightarrow> nat option \<Rightarrow> nat option \<Rightarrow> u16 \<Rightarrow> u16 \<Rightarrow> (err_t \<times> heap) option" where
  "pbuf_copy_partial_pbuf h p_to p_from copy_len offset =
    (if p_from = None then Some (ERR_ARG, h)
     else Option.bind (deref h p_from) (\<lambda>fb.
       if \<not> tot_len fb \<ge> copy_len \<or> p_to = None then Some (ERR_ARG, h)
       else Option.bind (deref h p_to) (\<lambda>tb.
         if \<not> unat (tot_len tb) \<ge> unat offset + unat copy_len then Some (ERR_ARG, h)
         else pbuf_copy_pbuf_loop h p_to p_from copy_len (ucast offset) 0)))"

definition pbuf_copy :: "heap \<Rightarrow> nat option \<Rightarrow> nat option \<Rightarrow> (err_t \<times> heap) option" where
  "pbuf_copy h p_to p_from =
    (if p_from = None then Some (ERR_ARG, h)
     else Option.bind (deref h p_from) (\<lambda>fb. pbuf_copy_partial_pbuf h p_to p_from (tot_len fb) 0))"

definition pbuf_clone :: "malloc \<Rightarrow> heap \<Rightarrow> pbuf_layer \<Rightarrow> pbuf_type \<Rightarrow> nat option \<Rightarrow> (nat option \<times> heap) option" where
  "pbuf_clone malloc h layer ty p = do {
     b \<leftarrow> deref h p;
     (q, h) \<leftarrow> pbuf_alloc malloc h layer (tot_len b) ty;
     if q = None then Some (None, h)
     else do {
       (err, h) \<leftarrow> pbuf_copy h q p;
       if err = ERR_OK then Some (q, h) else None
     }
   }"

definition pbuf_coalesce :: "malloc \<Rightarrow> heap \<Rightarrow> nat option \<Rightarrow> pbuf_layer \<Rightarrow> (nat option \<times> heap) option" where
  "pbuf_coalesce malloc h p layer = do {
     b \<leftarrow> deref h p;
     if pnext b = None then Some (p, h)
     else do {
       (q, h) \<leftarrow> pbuf_clone malloc h layer PBUF_RAM p;
       if q = None then Some (p, h)
       else map_option (\<lambda>(_, h). (q, h)) (pbuf_free h p)
     }
   }"

section \<open>Access and search\<close>

text \<open>
  The result of \<open>pbuf_get_contiguous\<close>: a pointer into the payload of a pbuf (\<open>Inl\<close>, with the address of the pbuf and the offset), the caller's
  buffer with its new contents (\<open>Inr\<close>) or null.
\<close>

definition pbuf_get_contiguous :: "heap \<Rightarrow> nat option \<Rightarrow> nat \<Rightarrow> u16 \<Rightarrow> u16 \<Rightarrow> (nat \<times> u16 + bytes) option option" where
  "pbuf_get_contiguous h p bufsize l offset =
    (if p = None \<or> \<not> bufsize \<ge> unat l then Some None
     else do {
       (q, out_offset) \<leftarrow> pbuf_skip_const h p offset;
       case q of None \<Rightarrow> Some None
       | Some a \<Rightarrow> do {
           b \<leftarrow> h a;
           if unat (plen b) \<ge> unat out_offset + unat l then Some (Some (Inl (a, out_offset)))
           else do {
             (n, ys) \<leftarrow> pbuf_copy_partial h q l out_offset;
             Some (if n \<noteq> l then None else Some (Inr ys))
           }
         }
     })"

definition pbuf_try_get_at :: "heap \<Rightarrow> nat option \<Rightarrow> u16 \<Rightarrow> int option" where
  "pbuf_try_get_at h p offset = do {
     (q, q_idx) \<leftarrow> pbuf_skip_const h p offset;
     case q of None \<Rightarrow> Some (- 1)
     | Some a \<Rightarrow> do {
         b \<leftarrow> h a;
         if plen b > q_idx then map_option (\<lambda>ys. uint (hd ys)) (pread b (unat q_idx) 1) else Some (- 1)
       }
   }"

definition pbuf_get_at :: "heap \<Rightarrow> nat option \<Rightarrow> u16 \<Rightarrow> u8 option" where
  "pbuf_get_at h p offset = map_option (\<lambda>r. if r \<ge> 0 then word_of_int r else 0) (pbuf_try_get_at h p offset)"

definition pbuf_put_at :: "heap \<Rightarrow> nat option \<Rightarrow> u16 \<Rightarrow> u8 \<Rightarrow> heap option" where
  "pbuf_put_at h p offset d = do {
     (q, q_idx) \<leftarrow> pbuf_skip_const h p offset;
     case q of None \<Rightarrow> Some h
     | Some a \<Rightarrow> do {
         b \<leftarrow> h a;
         if plen b > q_idx then map_option (\<lambda>b. h(a \<mapsto> b)) (pwrite b (unat q_idx) [d]) else Some h
       }
   }"

fun pbuf_memcmp_loop :: "heap \<Rightarrow> nat option \<Rightarrow> u16 \<Rightarrow> bytes \<Rightarrow> u16 \<Rightarrow> u16 option" where
  "pbuf_memcmp_loop h q start [] i = Some 0"
| "pbuf_memcmp_loop h q start (b # s2) i =
     Option.bind (pbuf_get_at h q (start + i)) (\<lambda>a.
       if a \<noteq> b then Some (if unat i + 1 < 0xFFFF then i + 1 else 0xFFFF) else pbuf_memcmp_loop h q start s2 (i + 1))"

definition pbuf_memcmp :: "heap \<Rightarrow> nat option \<Rightarrow> u16 \<Rightarrow> bytes \<Rightarrow> u16 option" where
  "pbuf_memcmp h p offset s2 = do {
     b \<leftarrow> deref h p;
     if unat (tot_len b) < unat offset + length s2 then Some 0xFFFF
     else do {
       (q, start) \<leftarrow> pbuf_skip_const h p offset;
       pbuf_memcmp_loop h q start s2 0
     }
   }"

partial_function (option) pbuf_memfind_loop :: "heap \<Rightarrow> nat option \<Rightarrow> bytes \<Rightarrow> u16 \<Rightarrow> u16 \<Rightarrow> u16 option" where
  "pbuf_memfind_loop h p m max_cmp_start i =
    (if i \<le> max_cmp_start then
       Option.bind (pbuf_memcmp h p i m) (\<lambda>plus. if plus = 0 then Some i else pbuf_memfind_loop h p m max_cmp_start (i + 1))
     else Some 0xFFFF)"

definition pbuf_memfind :: "heap \<Rightarrow> nat option \<Rightarrow> bytes \<Rightarrow> u16 \<Rightarrow> u16 option" where
  "pbuf_memfind h p m start_offset = do {
     b \<leftarrow> deref h p;
     let max_cmp_start = tot_len b - of_nat (length m);
     if unat (tot_len b) \<ge> length m + unat start_offset then pbuf_memfind_loop h p m max_cmp_start start_offset
     else Some 0xFFFF
   }"

text \<open>\<open>substr\<close> is the string without its terminating zero.\<close>

definition pbuf_strstr :: "heap \<Rightarrow> nat option \<Rightarrow> bytes \<Rightarrow> u16 option" where
  "pbuf_strstr h p substr =
    (if substr = [] then Some 0xFFFF
     else Option.bind (deref h p) (\<lambda>b.
       if tot_len b = 0xFFFF \<or> length substr \<ge> 0xFFFF then Some 0xFFFF else pbuf_memfind h p substr 0))"

declare pbuf_free_loop.simps [code] pbuf_alloc_pool.simps [code] pbuf_realloc_loop.simps [code] pbuf_free_header.simps [code]
  pbuf_clen_loop.simps [code] pbuf_cat_loop.simps [code] pbuf_copy_loop.simps [code] pbuf_copy_pbuf_loop.simps [code] pbuf_skip_const.simps [code]
  pbuf_take_loop.simps [code] pbuf_memfind_loop.simps [code]

end
