(* ===== verification/Lwip_Pbuf_Chain.thy ===== *)
theory Lwip_Pbuf_Chain
  imports Lwip_Pbuf
begin

text \<open>
  Chains of pbufs and what the functions of \<open>Lwip_Pbuf\<close> do to their contents. \<open>plink h p xs\<close> says that the pbufs at the
  addresses \<open>xs\<close> are linked from \<open>p\<close> on, \<open>pwf h xs\<close> is the invariant documented in \<open>pbuf.h\<close> (\<open>tot_len\<close> is the length of
  the rest of the chain, the payload lies inside of its memory), and \<open>pdata h xs\<close> are the bytes of the packet.
\<close>

definition bdata :: "pbuf \<Rightarrow> bytes" where
  "bdata b = sub_at (poff b) (unat (plen b)) (pmem b)"

definition pdata :: "heap \<Rightarrow> nat list \<Rightarrow> bytes" where
  "pdata h xs = concat (map (\<lambda>x. case h x of None \<Rightarrow> [] | Some b \<Rightarrow> bdata b) xs)"

fun plink :: "heap \<Rightarrow> nat option \<Rightarrow> nat list \<Rightarrow> bool" where
  "plink h p [] \<longleftrightarrow> p = None"
| "plink h p (x # xs) \<longleftrightarrow> p = Some x \<and> x \<notin> set xs \<and> (case h x of None \<Rightarrow> False | Some b \<Rightarrow> plink h (pnext b) xs)"

fun pwf :: "heap \<Rightarrow> nat list \<Rightarrow> bool" where
  "pwf h [] \<longleftrightarrow> True"
| "pwf h (x # xs) \<longleftrightarrow> (case h x of None \<Rightarrow> False
     | Some b \<Rightarrow> poff b + unat (plen b) \<le> length (pmem b) \<and> unat (tot_len b) = unat (plen b) + length (pdata h xs)) \<and> pwf h xs"

abbreviation pchain :: "heap \<Rightarrow> nat option \<Rightarrow> nat list \<Rightarrow> bool" where
  "pchain h p xs \<equiv> plink h p xs \<and> pwf h xs"

lemma pdata_simps [simp]: "pdata h [] = []" "pdata h (x # xs) = (case h x of None \<Rightarrow> [] | Some b \<Rightarrow> bdata b) @ pdata h xs"
  by (simp_all add: pdata_def)

lemma pdata_append [simp]: "pdata h (xs @ ys) = pdata h xs @ pdata h ys"
  by (simp add: pdata_def)

lemma length_bdata: "poff b + unat (plen b) \<le> length (pmem b) \<Longrightarrow> length (bdata b) = unat (plen b)"
  by (simp add: bdata_def)

text \<open>Two heaps that agree on a chain.\<close>

lemma chain_cong:
  assumes "\<And>x. x \<in> set xs \<Longrightarrow> h' x = h x"
  shows pdata_cong: "pdata h' xs = pdata h xs" and plink_cong: "plink h' p xs = plink h p xs" and pwf_cong: "pwf h' xs = pwf h xs"
proof -
  show *: "pdata h' xs = pdata h xs" using assms by (simp add: pdata_def cong: map_cong)
  show "plink h' p xs = plink h p xs" using assms by (induction xs arbitrary: p) (auto split: option.split)
  show "pwf h' xs = pwf h xs"
    using assms
  proof (induction xs)
    case (Cons x xs)
    moreover have "pdata h' xs = pdata h xs" using Cons.prems by (simp add: pdata_def cong: map_cong)
    ultimately show ?case by (simp split: option.split)
  qed simp
qed

lemma chain_upd_out:
  assumes "x \<notin> set xs"
  shows "pdata (h(x := v)) xs = pdata h xs" "plink (h(x := v)) p xs = plink h p xs" "pwf (h(x := v)) xs = pwf h xs"
  using assms by (auto intro!: chain_cong)

lemma pchain_Cons_E:
  assumes "pchain h p (x # xs)"
  obtains b where "p = Some x" "x \<notin> set xs" "h x = Some b" "pchain h (pnext b) xs"
    "poff b + unat (plen b) \<le> length (pmem b)" "unat (tot_len b) = unat (plen b) + length (pdata h xs)" "length (bdata b) = unat (plen b)"
  using assms that by (auto simp: length_bdata split: option.splits)

section \<open>Copying out and in\<close>

lemma pbuf_copy_loop_data:
  "pchain h p xs \<Longrightarrow> pbuf_copy_loop h p l offset acc = Some (acc @ take (unat l) (drop (unat offset) (pdata h xs)))"
proof (induction xs arbitrary: p l offset acc)
  case Nil
  then show ?case by (subst pbuf_copy_loop.simps) simp
next
  case (Cons x xs)
  from Cons.prems obtain b where b: "p = Some x" "x \<notin> set xs" "h x = Some b" "pchain h (pnext b) xs"
    "poff b + unat (plen b) \<le> length (pmem b)" "length (bdata b) = unat (plen b)" by (rule pchain_Cons_E)
  note step = pbuf_copy_loop.simps [of h p l offset acc]
  consider "l = 0" | "l \<noteq> 0" "offset \<noteq> 0 \<and> offset \<ge> plen b" | "l \<noteq> 0" "\<not> (offset \<noteq> 0 \<and> offset \<ge> plen b)" by blast
  then show ?case
  proof cases
    case 1
    then show ?thesis using b by (subst step) simp
  next
    case 2
    then have "unat (offset - plen b) = unat offset - unat (plen b)" "unat (plen b) \<le> unat offset"
      by (simp_all add: wordnat)
    with 2 b Cons.IH [OF b(4), of l "offset - plen b" acc] show ?thesis by (subst step) simp
  next
    case 3
    then have off: "unat offset \<le> unat (plen b)" by (auto simp: wordnat not_le)
    define n where "n = min (plen b - offset) l"
    have n: "unat n = min (unat (plen b) - unat offset) (unat l)"
      using off by (simp add: n_def min_def wordnat)
    have rd: "pread b (unat offset) (unat n) = Some (take (unat n) (drop (unat offset) (bdata b)))"
      using b(5) off n by (auto simp: pread_def bdata_def sub_at_def drop_take min_def add.commute)
    have ln: "unat (l - n) = unat l - unat n" using n by (simp add: wordnat)
    have "take (unat l) (drop (unat offset) (pdata h (x # xs))) =
        take (unat n) (drop (unat offset) (bdata b)) @ take (unat l - unat n) (pdata h xs)"
      using b(3,6) off n by (auto simp: min_def)
    with 3 b rd ln Cons.IH [OF b(4), of "l - n" 0] show ?thesis
      by (subst step) (auto simp: n_def [symmetric])
  qed
qed

lemma pbuf_take_loop_data:
  "pchain h p xs \<Longrightarrow> length data \<le> length (pdata h xs) \<Longrightarrow>
   \<exists>h'. pbuf_take_loop h p data = Some h' \<and> pchain h' p xs \<and> pdata h' xs = data @ drop (length data) (pdata h xs) \<and>
     (\<forall>y. y \<notin> set xs \<longrightarrow> h' y = h y)"
proof (induction xs arbitrary: h p data)
  case Nil
  then show ?case by (subst pbuf_take_loop.simps) simp
next
  case (Cons x xs)
  from Cons.prems(1) obtain b where b: "p = Some x" "x \<notin> set xs" "h x = Some b" "pchain h (pnext b) xs"
    "poff b + unat (plen b) \<le> length (pmem b)" "unat (tot_len b) = unat (plen b) + length (pdata h xs)"
    "length (bdata b) = unat (plen b)" by (rule pchain_Cons_E)
  show ?case
  proof (cases "data = []")
    case True
    then show ?thesis using Cons.prems by (subst pbuf_take_loop.simps) simp
  next
    case False
    define n where "n = min (length data) (unat (plen b))"
    define b' where "b' = b\<lparr>pmem := put_at (poff b) (take n data) (pmem b)\<rparr>"
    have wr: "pwrite b 0 (take n data) = Some b'" using b(5) by (simp add: pwrite_def b'_def n_def)
    have bd: "bdata b' = take n data @ drop n (bdata b)"
      using b(5) by (auto simp: bdata_def b'_def put_at_def sub_at_def n_def min_def drop_take take_append add.commute)
    define h1 where "h1 = h(x \<mapsto> b')"
    have c: "pchain h1 (pnext b') xs" "pdata h1 xs = pdata h xs"
      using b(2,4) chain_upd_out [OF b(2)] by (simp_all add: b'_def h1_def)
    have "length (drop n data) \<le> length (pdata h1 xs)"
      using Cons.prems(2) b(3,7) c(2) by (auto simp: n_def min_def)
    from Cons.IH [OF c(1) this] obtain h' where h': "pbuf_take_loop h1 (pnext b') (drop n data) = Some h'" "pchain h' (pnext b') xs"
      "pdata h' xs = drop n data @ drop (length (drop n data)) (pdata h xs)" "\<forall>y. y \<notin> set xs \<longrightarrow> h' y = h1 y"
      using c(2) by auto
    have x: "h' x = Some b'" using h'(4) b(2) by (simp add: h1_def)
    have run: "pbuf_take_loop h p data = Some h'"
      using False b(1,3) wr h'(1) by (subst pbuf_take_loop.simps) (simp add: n_def [symmetric] h1_def [symmetric])
    have len: "length (pdata h' xs) = length (pdata h xs)"
      using h'(3) Cons.prems(2) b(3,7) by (auto simp: n_def min_def)
    have "pchain h' p (x # xs)"
      using b(1,2,5,6) x h'(2) len by (simp add: b'_def n_def)
    moreover have "pdata h' (x # xs) = data @ drop (length data) (pdata h (x # xs))"
      using x bd h'(3) b(3,7) by (auto simp: n_def min_def)
    moreover have "\<forall>y. y \<notin> set (x # xs) \<longrightarrow> h' y = h y" using h'(4) by (simp add: h1_def)
    ultimately show ?thesis using run by blast
  qed
qed

section \<open>Freeing\<close>

text \<open>
  The pbufs that \<open>pbuf_free\<close> releases: those in front that have one reference. \<open>freed h xs\<close> is the heap without them, in
  which the pbuf that follows them has lost a reference.
\<close>

definition single :: "heap \<Rightarrow> nat \<Rightarrow> bool" where
  "single h x \<longleftrightarrow> (case h x of None \<Rightarrow> False | Some b \<Rightarrow> ref b = 1)"

definition freeable :: "heap \<Rightarrow> nat \<Rightarrow> bool" where
  "freeable h x \<longleftrightarrow> (case h x of None \<Rightarrow> False | Some b \<Rightarrow> ref b \<noteq> 0 \<and> pflags b AND 2 = 0 \<and> type_internal b AND 0x0F \<le> 2)"

fun freed :: "heap \<Rightarrow> nat list \<Rightarrow> heap" where
  "freed h [] = h"
| "freed h (x # xs) = (if single h x then freed (h(x := None)) xs else h(x := map_option (\<lambda>b. b\<lparr>ref := ref b - 1\<rparr>) (h x)))"

lemma pwrite_freeable: "h a = Some b \<Longrightarrow> pwrite b i ys = Some b' \<Longrightarrow> freeable (h(a \<mapsto> b')) x = freeable h x"
  by (auto simp: pwrite_def freeable_def split: if_splits)

lemma pbuf_take_freeable:
  assumes "pbuf_take_loop h p data = Some h'"
  shows "freeable h' x = freeable h x"
proof (rule pbuf_take_loop.raw_induct [where P = "\<lambda>h p data h'. freeable h' x = freeable h x", OF _ assms])
  fix f and h :: heap and p data h'
  assume IH: "\<And>h p data h'. f h p data = Some h' \<Longrightarrow> freeable h' x = freeable h x"
    and "(if data = [] then Some h
      else Option.bind p (\<lambda>a. Option.bind (h a) (\<lambda>b. let n = min (length data) (unat (plen b))
        in Option.bind (pwrite b 0 (take n data)) (\<lambda>b. f (h(a \<mapsto> b)) (pnext b) (drop n data))))) = Some h'"
  then show "freeable h' x = freeable h x"
    by (auto simp: Let_def bind_eq_Some_conv pwrite_freeable simp del: fun_upd_apply dest!: IH split: if_splits)
qed

lemma single_upd_out: "x \<notin> set xs \<Longrightarrow> takeWhile (single (h(x := v))) xs = takeWhile (single h) xs"
  by (rule takeWhile_cong) (auto simp: single_def)

lemma pbuf_free_loop_freed:
  "plink h p xs \<Longrightarrow> list_all (freeable h) xs \<Longrightarrow>
   pbuf_free_loop h p c = Some (c + of_nat (length (takeWhile (single h) xs)), freed h xs)"
proof (induction xs arbitrary: h p c)
  case Nil
  then show ?case by (subst pbuf_free_loop.simps) simp
next
  case (Cons x xs)
  from Cons.prems have "freeable h x" "list_all (freeable h) xs" by simp_all
  with Cons.prems(1) obtain b where b: "p = Some x" "x \<notin> set xs" "h x = Some b" "plink h (pnext b) xs" "ref b \<noteq> 0"
    "pflags b AND 2 = 0" "type_internal b AND 0x0F \<le> 2" "list_all (freeable h) xs"
    by (auto simp: freeable_def [of h x] split: option.splits)
  have one: "ref b - 1 = 0 \<longleftrightarrow> ref b = 1" by (simp add: eq_iff_diff_eq_0 [symmetric])
  show ?case
  proof (cases "ref b = 1")
    case True
    define h1 where "h1 = h(x := None)"
    have "list_all (freeable h1) xs" "plink h1 (pnext b) xs" "takeWhile (single h1) xs = takeWhile (single h) xs"
      using b(2,4,8) by (auto simp: h1_def list_all_iff freeable_def chain_upd_out single_upd_out)
    with Cons.IH [OF this(2,1), of "c + 1"] True b one show ?thesis
      by (subst pbuf_free_loop.simps) (simp add: single_def [of h x] add.assoc h1_def [symmetric])
  next
    case False
    then show ?thesis using b one by (subst pbuf_free_loop.simps) (simp add: single_def)
  qed
qed

lemma freed_other: "x \<notin> set xs \<Longrightarrow> freed h xs x = h x"
  by (induction xs arbitrary: h) auto

lemma freed_single:
  "distinct xs \<Longrightarrow> list_all (single h) xs \<Longrightarrow> freed h xs = (\<lambda>x. if x \<in> set xs then None else h x)"
proof (induction xs arbitrary: h)
  case (Cons x xs)
  have "list_all (single (h(x := None))) xs" using Cons.prems by (auto simp: list_all_iff single_def)
  with Cons show ?case by (auto simp: fun_eq_iff)
qed simp

lemma plink_distinct: "plink h p xs \<Longrightarrow> distinct xs"
  by (induction xs arbitrary: p) (auto split: option.splits)

section \<open>Shrinking\<close>

lemma pbuf_realloc_loop_data:
  "pchain h p xs \<Longrightarrow> unat r \<le> length (pdata h xs) \<Longrightarrow> xs \<noteq> [] \<Longrightarrow> unat s = length (pdata h xs) - unat r \<Longrightarrow>
   \<exists>ys q zs r' h' b. xs = ys @ q # zs \<and> pbuf_realloc_loop h p r s = Some (q, r', h') \<and> h' q = Some b \<and> h q = Some b \<and>
     plink h (pnext b) zs \<and> unat r' \<le> unat (plen b) \<and> unat r = length (pdata h ys) + unat r' \<and>
     h' = (\<lambda>y. if y \<in> set ys then map_option (\<lambda>b. b\<lparr>tot_len := tot_len b - s\<rparr>) (h y) else h y)"
proof (induction xs arbitrary: h p r)
  case (Cons x xs)
  from Cons.prems(1) obtain b where b: "p = Some x" "x \<notin> set xs" "h x = Some b" "pchain h (pnext b) xs"
    "poff b + unat (plen b) \<le> length (pmem b)" "unat (tot_len b) = unat (plen b) + length (pdata h xs)"
    "length (bdata b) = unat (plen b)" by (rule pchain_Cons_E)
  show ?case
  proof (cases "r > plen b")
    case False
    then have "pbuf_realloc_loop h p r s = Some (x, r, h)" using b(1,3) by (subst pbuf_realloc_loop.simps) simp
    then show ?thesis
      by - (rule exI [of _ "[]"], rule exI [of _ x], rule exI [of _ xs], rule exI [of _ r], rule exI [of _ h], rule exI [of _ b],
        use b False in \<open>simp add: wordnat not_less\<close>)
  next
    case True
    then have r: "unat (r - plen b) = unat r - unat (plen b)" "unat (plen b) < unat r" by (simp_all add: wordnat)
    let ?b = "b\<lparr>tot_len := tot_len b - s\<rparr>"
    let ?h = "h(x \<mapsto> ?b)"
    note out = chain_upd_out [OF b(2), of h "Some ?b"]
    have ne: "xs \<noteq> []" using Cons.prems(2) r b(3,7) by auto
    have "unat (r - plen b) \<le> length (pdata ?h xs)" "unat s = length (pdata ?h xs) - unat (r - plen b)" "pchain ?h (pnext b) xs"
      using Cons.prems(2,4) r b(3,4,7) out by simp_all
    from Cons.IH [OF this(3,1) ne this(2)] obtain ys q zs r' h' c where *:
      "xs = ys @ q # zs" "pbuf_realloc_loop ?h (pnext b) (r - plen b) s = Some (q, r', h')" "h' q = Some c" "?h q = Some c"
      "plink ?h (pnext c) zs" "unat r' \<le> unat (plen c)" "unat (r - plen b) = length (pdata ?h ys) + unat r'"
      "h' = (\<lambda>y. if y \<in> set ys then map_option (\<lambda>b. b\<lparr>tot_len := tot_len b - s\<rparr>) (?h y) else ?h y)" by blast
    have x: "x \<notin> set ys" "x \<noteq> q" "x \<notin> set zs" using b(2) *(1) by auto
    have "pbuf_realloc_loop h p r s = Some (q, r', h')" using b(1,3) True *(2) by (subst pbuf_realloc_loop.simps) simp
    moreover have "h' = (\<lambda>y. if y \<in> set (x # ys) then map_option (\<lambda>b. b\<lparr>tot_len := tot_len b - s\<rparr>) (h y) else h y)"
      using x b(3) by (auto simp: *(8) fun_eq_iff)
    moreover have "unat r = length (pdata h (x # ys)) + unat r'" using *(7) r b(3,7) chain_upd_out(1) [OF x(1)] by simp
    ultimately show ?thesis
      by - (rule exI [of _ "x # ys"], rule exI [of _ q], rule exI [of _ zs], rule exI [of _ r'], rule exI [of _ h'], rule exI [of _ c],
        use *(1,3-6) x chain_upd_out in \<open>simp\<close>)
  qed
qed simp

lemma dropWhile_upd_out: "x \<notin> set xs \<Longrightarrow> dropWhile (single (h(x := v))) xs = dropWhile (single h) xs"
  by (rule dropWhile_cong) (auto simp: single_def)

lemma pwf_append: "pwf h (xs @ ys) \<Longrightarrow> pwf h ys"
  by (induction xs) auto

lemma freed_eq:
  "distinct xs \<Longrightarrow> list_all (\<lambda>x. h x \<noteq> None) xs \<Longrightarrow>
   freed h xs = (\<lambda>a. if a \<in> set (takeWhile (single h) xs) then None
     else if dropWhile (single h) xs \<noteq> [] \<and> a = hd (dropWhile (single h) xs) then map_option (\<lambda>b. b\<lparr>ref := ref b - 1\<rparr>) (h a) else h a)"
proof (induction xs arbitrary: h)
  case (Cons x xs)
  show ?case
  proof (cases "single h x")
    case True
    define h1 where "h1 = h(x := None)"
    have h1: "takeWhile (single h1) xs = takeWhile (single h) xs" "dropWhile (single h1) xs = dropWhile (single h) xs"
      "list_all (\<lambda>x. h1 x \<noteq> None) xs" "distinct xs"
      using Cons.prems by (auto simp: h1_def single_upd_out dropWhile_upd_out list_all_iff)
    have "x \<notin> set (dropWhile (single h) xs)" using Cons.prems(1) by (auto dest: set_dropWhileD)
    then have "dropWhile (single h) xs \<noteq> [] \<Longrightarrow> hd (dropWhile (single h) xs) \<noteq> x" by (metis hd_in_set)
    with Cons.IH [OF h1(4,3)] True h1 show ?thesis
      by (auto simp: h1_def [symmetric] fun_eq_iff) (auto simp: h1_def)
  next
    case False
    then show ?thesis by (auto simp: fun_eq_iff)
  qed
qed simp

lemma plink_alloc: "plink h p xs \<Longrightarrow> list_all (\<lambda>x. h x \<noteq> None) xs"
  by (induction xs arbitrary: p) (auto split: option.splits)

lemma shrunk_chain:
  assumes "pchain h p (ys @ q # zs)" "h q = Some b" "unat r \<le> unat (plen b)" "unat s = length (pdata h (q # zs)) - unat r"
    and "\<And>y. y \<in> set ys \<Longrightarrow> h' y = map_option (\<lambda>b. b\<lparr>tot_len := tot_len b - s\<rparr>) (h y)"
    and "h' q = Some (b\<lparr>plen := r, tot_len := r, pnext := None\<rparr>)"
  shows "pchain h' p (ys @ [q]) \<and> pdata h' (ys @ [q]) = pdata h ys @ take (unat r) (bdata b)"
  using assms
proof (induction ys arbitrary: p)
  case Nil
  then show ?case by (auto simp: bdata_def sub_at_def min_def)
next
  case (Cons y ys)
  from Cons.prems(1) have "pchain h p (y # ys @ q # zs)" by simp
  then obtain c where c: "p = Some y" "y \<notin> set (ys @ q # zs)" "h y = Some c" "pchain h (pnext c) (ys @ q # zs)"
    "poff c + unat (plen c) \<le> length (pmem c)" "unat (tot_len c) = unat (plen c) + length (pdata h (ys @ q # zs))"
    by (rule pchain_Cons_E)
  from Cons.IH [OF c(4) Cons.prems(2-4) _ Cons.prems(6)] Cons.prems(5)
  have ih: "pchain h' (pnext c) (ys @ [q])" "pdata h' (ys @ [q]) = pdata h ys @ take (unat r) (bdata b)" by simp_all
  have y: "h' y = Some (c\<lparr>tot_len := tot_len c - s\<rparr>)" using Cons.prems(5) [of y] c(3) by simp
  have "pwf h (q # zs)" using c(4) pwf_append by blast
  then have q: "length (bdata b) = unat (plen b)" using Cons.prems(2) length_bdata by simp
  have "unat s \<le> unat (tot_len c)" using c(6) Cons.prems(4) by simp
  then have "unat (tot_len c - s) = unat (tot_len c) - unat s" by (simp add: wordnat)
  then have "unat (tot_len c - s) = unat (plen c) + length (pdata h' (ys @ [q]))"
    using c(6) Cons.prems(2-4) ih(2) q by simp
  moreover have "bdata (c\<lparr>tot_len := tot_len c - s\<rparr>) = bdata c" by (simp add: bdata_def)
  ultimately show ?case using c(1-3,5) ih y by (simp del: pdata_append)
qed

lemma freed_cong: "(\<And>x. x \<in> set xs \<Longrightarrow> h' x = h x) \<Longrightarrow> z \<in> set xs \<Longrightarrow> freed h' xs z = freed h xs z"
proof (induction xs arbitrary: h h')
  case (Cons x xs)
  have s: "single h' x = single h x" using Cons.prems(1) by (simp add: single_def)
  show ?case
  proof (cases "z \<in> set xs")
    case True
    have "freed (h'(x := None)) xs z = freed (h(x := None)) xs z"
      by (rule Cons.IH) (use Cons.prems(1) True in auto)
    then show ?thesis using s Cons.prems by auto
  next
    case False
    then show ?thesis using s Cons.prems by (auto simp: freed_other)
  qed
qed simp

lemma pbuf_realloc_data:
  assumes "pchain h p xs" "list_all (freeable h) xs" "unat n < length (pdata h xs)"
  shows "\<exists>ys q zs h'. xs = ys @ q # zs \<and> pbuf_realloc h p n = Some h' \<and> pchain h' p (ys @ [q]) \<and>
    pdata h' (ys @ [q]) = take (unat n) (pdata h xs) \<and> (\<forall>z \<in> set zs. h' z = freed h zs z) \<and> (\<forall>z. z \<notin> set xs \<longrightarrow> h' z = h z)"
proof -
  obtain x xs' where xs: "xs = x # xs'" using assms(3) by (cases xs) auto
  with assms(1) have "pchain h p (x # xs')" by simp
  then obtain c where c: "p = Some x" "h x = Some c" "unat (tot_len c) = unat (plen c) + length (pdata h xs')" "length (bdata c) = unat (plen c)"
    by (rule pchain_Cons_E)
  then have tot: "unat (tot_len c) = length (pdata h xs)" by (simp add: xs)
  define s where "s = tot_len c - n"
  have s: "unat s = length (pdata h xs) - unat n" using assms(3) tot by (simp add: s_def wordnat)
  obtain ys q zs r h1 b where *: "xs = ys @ q # zs" "pbuf_realloc_loop h p n s = Some (q, r, h1)" "h1 q = Some b" "h q = Some b"
    "plink h (pnext b) zs" "unat r \<le> unat (plen b)" "unat n = length (pdata h ys) + unat r"
    "h1 = (\<lambda>y. if y \<in> set ys then map_option (\<lambda>b. b\<lparr>tot_len := tot_len b - s\<rparr>) (h y) else h y)"
    using pbuf_realloc_loop_data [OF assms(1) less_imp_le [OF assms(3)] _ s] xs by blast
  define h2 where "h2 = h1(q \<mapsto> b\<lparr>plen := r, tot_len := r\<rparr>)"
  have d: "distinct xs" using assms(1) plink_distinct by blast
  have agree: "h2 z = h z" if "z \<in> set zs" for z using that d *(1) by (auto simp: h2_def *(8))
  have l2: "plink h2 (pnext b) zs" using plink_cong [OF agree] *(5) by simp
  have f2: "list_all (freeable h2) zs" using assms(2) *(1) agree by (simp add: list_all_iff freeable_def)
  define h3 where "h3 = freed h2 zs"
  have q3: "h3 q = Some (b\<lparr>plen := r, tot_len := r\<rparr>)" using d *(1) by (simp add: h3_def freed_other h2_def)
  have free: "(case pnext b of None \<Rightarrow> Some h2 | Some m \<Rightarrow> map_option snd (pbuf_free h2 (Some m))) = Some h3"
  proof (cases zs)
    case Nil
    then show ?thesis using *(5) by (simp add: h3_def)
  next
    case (Cons z zs')
    then have "pnext b = Some z" using *(5) by simp
    then show ?thesis using pbuf_free_loop_freed [OF l2 f2, of 0] by (simp add: pbuf_free_def h3_def)
  qed
  define h4 where "h4 = h3(q \<mapsto> b\<lparr>plen := r, tot_len := r, pnext := None\<rparr>)"
  have h4_q: "h4 q = Some (b\<lparr>plen := r, tot_len := r, pnext := None\<rparr>)" by (simp add: h4_def)
  have run: "pbuf_realloc h p n = Some h4"
    using c(1,2) assms(3) tot *(2,3) free q3
    by (simp add: pbuf_realloc_def deref_def s_def [symmetric] h2_def [symmetric] word_le_nat_alt h4_def)
  have rest: "length (pdata h (q # zs)) - unat r = unat s" using s *(1,7) by simp
  have "h4 y = map_option (\<lambda>b. b\<lparr>tot_len := tot_len b - s\<rparr>) (h y)" if "y \<in> set ys" for y
  proof -
    have "y \<notin> set zs" "y \<noteq> q" using that d *(1) by auto
    then show ?thesis using that by (simp add: h4_def h3_def freed_other h2_def *(8))
  qed
  from shrunk_chain [OF assms(1) [unfolded *(1)] *(4,6) rest [symmetric] this] h4_q
  have "pchain h4 p (ys @ [q])" "pdata h4 (ys @ [q]) = pdata h ys @ take (unat r) (bdata b)" by blast+
  moreover have "take (unat n) (pdata h xs) = pdata h ys @ take (unat r) (bdata b)"
    using *(1,4,6,7) assms(1) pwf_append [of h ys "q # zs"] length_bdata [of b] by simp
  moreover have "h4 z = freed h zs z" if "z \<in> set zs" for z
    using that d *(1) freed_cong [OF agree that] by (auto simp: h4_def h3_def)
  moreover have "h4 z = h z" if "z \<notin> set xs" for z
    using that *(1) by (auto simp: h4_def h3_def freed_other h2_def *(8))
  ultimately show ?thesis using run *(1)
    by - (rule exI [of _ ys], rule exI [of _ q], rule exI [of _ zs], rule exI [of _ h4], simp del: pdata_append)
qed

section \<open>Allocation\<close>

text \<open>What the allocator promises: a free address, and memory of the requested size.\<close>

definition malloc_ok :: "malloc \<Rightarrow> bool" where
  "malloc_ok malloc \<longleftrightarrow> (\<forall>h n a m. malloc h n = Some (a, m) \<longrightarrow> h a = None \<and> length m = n)"

lemma align_size: "unat x < 65536 \<Longrightarrow> unat x \<le> unat (LWIP_MEM_ALIGN_SIZE x)" "unat x < 65536 \<Longrightarrow> unat (LWIP_MEM_ALIGN_SIZE x) \<le> unat x + 3"
proof -
  assume x: "unat x < 65536"
  have "(y AND 3) + (y AND NOT 3) = y" for y :: u32
  proof -
    have "(y AND 3) AND (y AND NOT 3) = 0" "(y AND 3) OR (y AND NOT 3) = y"
      by (rule bit_word_eqI, auto simp: bit_simps)+
    then show ?thesis by (metis disjunctive_add_eq_or)
  qed
  from this [of "x + 3"] have "(x + 3) AND NOT 3 = (x + 3) - ((x + 3) AND 3)" by (simp add: algebra_simps)
  moreover have "unat ((x + 3) AND 3) = unat (x + 3) mod 4" using word_and_mask_mod [of "x + 3" 2] by simp
  moreover have "unat (x + 3) = unat x + 3" using x by (simp add: unat_plus_if')
  ultimately have "unat (LWIP_MEM_ALIGN_SIZE x) = unat x + 3 - (unat x + 3) mod 4"
    unfolding LWIP_MEM_ALIGN_SIZE_def by (simp add: unat_sub_if')
  then show "unat x \<le> unat (LWIP_MEM_ALIGN_SIZE x)" "unat (LWIP_MEM_ALIGN_SIZE x) \<le> unat x + 3" by linarith+
qed

lemma pbuf_alloc_ram:
  assumes "malloc_ok malloc"
  shows "\<exists>p h'. pbuf_alloc malloc h layer l PBUF_RAM = Some (p, h') \<and>
    (case p of None \<Rightarrow> h' = h \<and> (\<exists>n. malloc h n = None)
     | Some a \<Rightarrow> h a = None \<and> (\<exists>m off. h' = h(a \<mapsto> pbuf_init_alloced_pbuf m off l l PBUF_RAM 0)) \<and> pchain h' p [a] \<and> freeable h' a \<and>
        length (pdata h' [a]) = unat l)"
proof -
  have lay: "unat (layer_offset layer) \<le> 54" by (cases layer) simp_all
  let ?o = "LWIP_MEM_ALIGN_SIZE (ucast (layer_offset layer))" and ?l = "LWIP_MEM_ALIGN_SIZE (ucast l)"
  have u: "unat (ucast (layer_offset layer) :: u32) = unat (layer_offset layer)" "unat (ucast l :: u32) = unat l"
    by (simp_all add: unsigned_ucast_eq take_bit_eq_mod mod_less unat_u16_less [THEN less_trans])
  have o: "unat ?o \<le> 57" "unat l \<le> unat ?l" "unat ?l \<le> unat l + 3"
    using align_size [of "ucast (layer_offset layer)"] align_size [of "ucast l"] lay u unat_u16_less [of l] by auto
  have "unat ?o + unat ?l < 65600" using o unat_u16_less [of l] by linarith
  then have s: "unat (?o + ?l) = unat ?o + unat ?l" "unat (LWIP_MEM_ALIGN_SIZE 16 + (?o + ?l)) = 16 + (unat ?o + unat ?l)"
    by (simp_all add: unat_plus_if' LWIP_MEM_ALIGN_SIZE_def [of 16])
  have no: "\<not> (?o + ?l < ?l \<or> LWIP_MEM_ALIGN_SIZE 16 + (?o + ?l) < ?l)" by (simp add: word_less_nat_alt s)
  show ?thesis
  proof (cases "malloc h (unat (?o + ?l))")
    case None
    then show ?thesis using no by (auto simp: pbuf_alloc_def Let_def)
  next
    case (Some am)
    obtain a m where am: "am = (a, m)" by (cases am)
    with Some assms have m: "h a = None" "length m = unat ?o + unat ?l" using s(1) by (auto simp: malloc_ok_def)
    then show ?thesis
      using Some am no o(2) by (auto simp: pbuf_alloc_def Let_def freeable_def bdata_def pbuf_init_alloced_pbuf_def)
  qed
qed

lemma pbuf_take_data:
  assumes "pchain h p xs" "xs \<noteq> []"
  shows "if length data \<le> length (pdata h xs)
    then \<exists>h'. pbuf_take h p data = Some (ERR_OK, h') \<and> pchain h' p xs \<and> pdata h' xs = data @ drop (length data) (pdata h xs) \<and>
      (\<forall>y. y \<notin> set xs \<longrightarrow> h' y = h y) \<and> (\<forall>y. freeable h' y = freeable h y)
    else pbuf_take h p data = Some (ERR_MEM, h)"
proof -
  obtain x xs' where xs: "xs = x # xs'" using assms(2) by (cases xs) auto
  with assms(1) have "pchain h p (x # xs')" by simp
  then obtain b where b: "p = Some x" "h x = Some b" "unat (tot_len b) = unat (plen b) + length (pdata h xs')" "length (bdata b) = unat (plen b)"
    by (rule pchain_Cons_E)
  then have tot: "unat (tot_len b) = length (pdata h xs)" by (simp add: xs)
  show ?thesis
    using pbuf_take_loop_data [OF assms(1), of data] b(1,2) tot by (auto simp: pbuf_take_def deref_def pbuf_take_freeable)
qed

section \<open>Properties\<close>

text \<open>
  C24. Data put into a packet buffer comes out again: \<open>pbuf_take\<close> on a chain with room for the data succeeds, replaces exactly the first
  bytes of the packet and keeps the chain and every other pbuf; afterwards \<open>pbuf_copy_partial\<close> returns, for every length and
  offset, that part of the new contents. Data that is too long is refused with \<open>ERR_MEM\<close> and changes nothing.
\<close>

theorem pbuf_take_copy_roundtrip:
  assumes "pchain h p xs" "xs \<noteq> []"
  shows "(if length data \<le> length (pdata h xs)
     then \<exists>h'. pbuf_take h p data = Some (ERR_OK, h') \<and> pchain h' p xs \<and> (\<forall>y. y \<notin> set xs \<longrightarrow> h' y = h y) \<and>
       (\<forall>l off. pbuf_copy_partial h' p l off = (let ys = take (unat l) (drop (unat off) (data @ drop (length data) (pdata h xs)))
          in Some (of_nat (length ys), ys)))
     else pbuf_take h p data = Some (ERR_MEM, h))"
proof -
  have "p \<noteq> None" using assms by (cases xs) auto
  then show ?thesis
    using pbuf_take_data [OF assms, of data] pbuf_copy_loop_data by (fastforce simp: pbuf_copy_partial_def Let_def split: if_splits)
qed

text \<open>
  C32. \<open>pbuf_free\<close> follows the reference counts: of a chain it releases the pbufs in front that have a single reference, takes one
  reference from the next one, and leaves everything else alone; it returns the number of pbufs released.
\<close>

theorem pbuf_free_releases:
  assumes "plink h p xs" "xs \<noteq> []" "list_all (freeable h) xs" "length xs < 256"
  shows "\<exists>n h'. pbuf_free h p = Some (n, h') \<and> unat n = length (takeWhile (single h) xs) \<and>
    h' = (\<lambda>a. if a \<in> set (takeWhile (single h) xs) then None
      else if dropWhile (single h) xs \<noteq> [] \<and> a = hd (dropWhile (single h) xs) then map_option (\<lambda>b. b\<lparr>ref := ref b - 1\<rparr>) (h a) else h a)"
proof -
  have "p \<noteq> None" using assms(1,2) by (cases xs) auto
  then have "pbuf_free h p = Some (of_nat (length (takeWhile (single h) xs)), freed h xs)"
    using pbuf_free_loop_freed [OF assms(1,3), of 0] by (simp add: pbuf_free_def)
  moreover have "length (takeWhile (single h) xs) \<le> length xs" by (rule length_takeWhile_le)
  ultimately show ?thesis
    using freed_eq [OF plink_distinct [OF assms(1)] plink_alloc [OF assms(1)]] assms(4)
    by - (rule exI [of _ "of_nat (length (takeWhile (single h) xs))"], rule exI [of _ "freed h xs"], simp add: unat_u8_of_nat)
qed

text \<open>
  \<open>pbuf_realloc\<close> shrinks a packet: the chain ends up with exactly the first bytes, as a prefix of the old chain with its
  lengths corrected; the pbufs behind lose the reference of the chain, and no other pbuf changes.
\<close>

theorem pbuf_realloc_shrinks:
  assumes "pchain h p xs" "list_all (freeable h) xs" "unat n < length (pdata h xs)"
  shows "\<exists>ys zs h'. xs = ys @ zs \<and> pbuf_realloc h p n = Some h' \<and> pchain h' p ys \<and> pdata h' ys = take (unat n) (pdata h xs) \<and>
    (\<forall>z \<in> set zs. h' z = freed h zs z) \<and> (\<forall>z. z \<notin> set xs \<longrightarrow> h' z = h z)"
proof -
  obtain ys q zs h' where *: "xs = ys @ q # zs" "pbuf_realloc h p n = Some h'" "pchain h' p (ys @ [q])"
    "pdata h' (ys @ [q]) = take (unat n) (pdata h xs)" "\<forall>z \<in> set zs. h' z = freed h zs z" "\<forall>z. z \<notin> set xs \<longrightarrow> h' z = h z"
    using pbuf_realloc_data [OF assms] by blast
  then show ?thesis by - (rule exI [of _ "ys @ [q]"], rule exI [of _ zs], rule exI [of _ h'], simp del: pdata_append)
qed

text \<open>A packet of seven bytes in two pbufs, the second of which has another user.\<close>

definition two_pbufs :: heap where
  "two_pbufs = [3 \<mapsto> (pbuf_init_alloced_pbuf [0, 0, 1, 2, 3, 4] 2 7 4 PBUF_POOL 0)\<lparr>pnext := Some 5\<rparr>,
                5 \<mapsto> (pbuf_init_alloced_pbuf [5, 6, 7] 0 3 3 PBUF_POOL 0)\<lparr>ref := 2\<rparr>]"

lemma two_pbufs: "pchain two_pbufs (Some 3) [3, 5]" "list_all (freeable two_pbufs) [3, 5]" "pdata two_pbufs [3, 5] = [1, 2, 3, 4, 5, 6, 7]"
  by (simp_all add: two_pbufs_def pbuf_init_alloced_pbuf_def freeable_def bdata_def sub_at_def)

theorem pbuf_take_copy_roundtrip_witness:
  "\<exists>h'. pbuf_take two_pbufs (Some 3) [9, 9, 9, 9, 8] = Some (ERR_OK, h') \<and> pbuf_copy_partial h' (Some 3) 3 3 = Some (3, [9, 8, 6])"
  using pbuf_take_copy_roundtrip [OF two_pbufs(1), of "[9, 9, 9, 9, 8]"] unfolding two_pbufs(3) by (auto simp: Let_def)

theorem pbuf_free_releases_witness:
  "\<exists>n h'. pbuf_free two_pbufs (Some 3) = Some (n, h') \<and> unat n = 1 \<and> h' 3 = None \<and> map_option ref (h' 5) = Some 1"
proof -
  have "takeWhile (single two_pbufs) [3, 5] = [3]" "dropWhile (single two_pbufs) [3, 5] = [5]"
    "map_option (ref \<circ> (\<lambda>b. b\<lparr>ref := ref b - 1\<rparr>)) (two_pbufs 5) = Some 1"
    by (simp_all add: single_def two_pbufs_def pbuf_init_alloced_pbuf_def)
  with pbuf_free_releases [OF conjunct1 [OF two_pbufs(1)] _ two_pbufs(2)] show ?thesis
    by (fastforce simp: option.map_comp)
qed

theorem pbuf_realloc_shrinks_witness:
  "\<exists>ys h'. pbuf_realloc two_pbufs (Some 3) 2 = Some h' \<and> pdata h' ys = [1, 2] \<and> pchain h' (Some 3) ys"
  using pbuf_realloc_shrinks [OF two_pbufs(1,2), of 2] unfolding two_pbufs(3) by auto

text \<open>An allocator for one buffer.\<close>

definition one_malloc :: malloc where
  "one_malloc h n = (if h 8 = None then Some (8, replicate n 0) else None)"

lemma one_malloc_ok: "malloc_ok one_malloc" "one_malloc Map.empty 1536 \<noteq> None"
  by (auto simp: malloc_ok_def one_malloc_def)

end
