(* ===== verification/Arduino_Netif.thy ===== *)
theory Arduino_Netif
  imports Tc6_Wire Tc6_Regs Lwip_Pbuf_Chain
begin

text \<open>
  The network interface of the Arduino integration (\<open>TC6_Arduino_10BASE_T1S.cpp\<close>, \<open>TC6_Io.cpp\<close>): the callbacks through which the driver
  delivers frames to lwIP and lwIP frames to the driver, the service function, the reaction to errors and events.

  The state \<open>lw\<close> holds the fields of \<open>TC6LwIP_t\<close> that the callbacks use and the packet buffers that the interface is responsible
  for (\<open>heap\<close>). Handing a pbuf to the stack (\<open>netint.input\<close>) records its contents in \<open>delivered\<close> and takes it out of this heap:
  the stack releases it. Output on the serial console is left out.
\<close>

section \<open>State\<close>

abbreviation TC6LwIP_MTU :: nat where "TC6LwIP_MTU \<equiv> 1536"
abbreviation MIN_HEADER_LEN :: u16 where "MIN_HEADER_LEN \<equiv> 42"

record lw =
  lw_pbuf :: "nat option"
  rxLen :: u16
  rxInvalid :: bool
  tc6NeedService :: bool
  heap :: heap
  delivered :: "bytes list"

section \<open>Receiving\<close>

definition TC6_CB_OnRxEthernetSlice :: "malloc \<Rightarrow> bytes \<Rightarrow> u16 \<Rightarrow> lw \<Rightarrow> lw option" where
  "TC6_CB_OnRxEthernetSlice malloc pRx offset s = do {
     s \<leftarrow> (if offset = 0 \<and> lw_pbuf s \<noteq> None
          then map_option (\<lambda>(_, h). s\<lparr>heap := h, lw_pbuf := None, rxLen := 0, rxInvalid := False\<rparr>) (pbuf_free (heap s) (lw_pbuf s))
          else Some s);
     if rxInvalid s then Some s
     else if unat offset + length pRx > TC6LwIP_MTU then Some (s\<lparr>rxInvalid := True\<rparr>)
     else do {
       (success, s) \<leftarrow>
         (if lw_pbuf s = None then do {
            (p, h) \<leftarrow> pbuf_alloc malloc (heap s) PBUF_RAW (of_nat TC6LwIP_MTU) PBUF_RAM;
            case p of
              None \<Rightarrow> Some (False, s\<lparr>heap := h, lw_pbuf := None, rxInvalid := True\<rparr>)
            | Some a \<Rightarrow> do {
                b \<leftarrow> h a;
                if pnext b \<noteq> None
                then map_option (\<lambda>(_, h). (False, s\<lparr>heap := h, lw_pbuf := None, rxInvalid := True\<rparr>)) (pbuf_free h p)
                else Some (True, s\<lparr>heap := h, lw_pbuf := p\<rparr>)
              }
          }
          else Some (True, s));
       if success then do {
         a \<leftarrow> lw_pbuf s;
         b \<leftarrow> heap s a;
         b \<leftarrow> pwrite b (unat offset) pRx;
         Some (s\<lparr>heap := (heap s)(a \<mapsto> b), rxLen := rxLen s + of_nat (length pRx)\<rparr>)
       }
       else Some s
     }
   }"

definition TC6_CB_OnRxEthernetPacket :: "bool \<Rightarrow> u16 \<Rightarrow> lw \<Rightarrow> lw option" where
  "TC6_CB_OnRxEthernetPacket success len s =
    (let result = (success \<and> \<not> rxInvalid s \<and> lw_pbuf s \<noteq> None \<and> rxLen s \<noteq> 0);
         result = (result \<and> rxLen s = len);
         result = (result \<and> \<not> len < MIN_HEADER_LEN)
     in if result then do {
          a \<leftarrow> lw_pbuf s;
          h \<leftarrow> pbuf_realloc (heap s) (lw_pbuf s) len;
          b \<leftarrow> h a;
          data \<leftarrow> pread b 0 (unat (plen b));
          Some (s\<lparr>heap := h(a := None), delivered := delivered s @ [data], lw_pbuf := None, rxLen := 0, rxInvalid := False\<rparr>)
        }
        else do {
          h \<leftarrow> (if lw_pbuf s \<noteq> None then map_option snd (pbuf_free (heap s) (lw_pbuf s)) else Some (heap s));
          Some (s\<lparr>heap := h, lw_pbuf := None, rxLen := 0, rxInvalid := False\<rparr>)
        })"

definition TC6_CB_OnNeedService :: "lw \<Rightarrow> lw" where
  "TC6_CB_OnNeedService s = s\<lparr>tc6NeedService := True\<rparr>"

text \<open>The callbacks of the driver that concern reception, as they appear in its trace of calls.\<close>

fun rx_call :: "malloc \<Rightarrow> tc6_call \<Rightarrow> lw \<Rightarrow> lw option" where
  "rx_call malloc (OnRxEthernetSlice d off n) s = TC6_CB_OnRxEthernetSlice malloc d off s"
| "rx_call malloc (OnRxEthernetPacket ok len t) s = TC6_CB_OnRxEthernetPacket ok len s"
| "rx_call malloc OnNeedService s = Some (TC6_CB_OnNeedService s)"
| "rx_call malloc _ s = Some s"

fun rx_calls :: "malloc \<Rightarrow> tc6_call list \<Rightarrow> lw \<Rightarrow> lw option" where
  "rx_calls malloc [] s = Some s"
| "rx_calls malloc (c # cs) s = Option.bind (rx_call malloc c s) (rx_calls malloc cs)"

section \<open>Sending\<close>

text \<open>\<open>lwIpOut\<close>: the loop that fills the segments from the chain, at most \<open>maxSeg\<close>, then the whole function. The transmit callback frees the pbuf.\<close>

fun lwIpOut_loop :: "heap \<Rightarrow> nat option \<Rightarrow> nat \<Rightarrow> TC6_RawTxSegment list option" where
  "lwIpOut_loop h pC 0 = Some []"
| "lwIpOut_loop h pC (Suc left) = do {
     b \<leftarrow> deref h pC;
     ss \<leftarrow> (if pnext b \<noteq> None then lwIpOut_loop h (pnext b) left else Some []);
     Some (\<lparr>pEth = drop (poff b) (pmem b), segLen = plen b\<rparr> # ss)
   }"

definition lwIpOut_callback :: nat where "lwIpOut_callback = 1"

definition lwIpOut_done :: "heap \<Rightarrow> nat \<Rightarrow> heap option" where
  "lwIpOut_done h p = map_option snd (pbuf_free h (Some p))"

definition lwIpOut :: "'h spi \<Rightarrow> tc6 \<Rightarrow> 'h \<Rightarrow> heap \<Rightarrow> nat \<Rightarrow> (err_t \<times> tc6 \<times> 'h \<times> heap) option" where
  "lwIpOut spi g bus h p =
    (case TC6_GetRawSegments g of
       None \<Rightarrow> Some (ERR_WOULDBLOCK, g, bus, h)
     | Some (maxSeg, txSeg) \<Rightarrow> do {
         h \<leftarrow> pbuf_ref h (Some p);
         ss \<leftarrow> lwIpOut_loop h (Some p) maxSeg;
         b \<leftarrow> h p;
         (success, g, bus) \<leftarrow> TC6_SendRawEthernetSegments spi (fill_segments (ss @ drop (length ss) txSeg) g) bus (of_nat (length ss)) (tot_len b) 0
            (Some lwIpOut_callback) p;
         Some (if success then ERR_OK else ERR_IF, g, bus, h)
       })"

definition sendWouldBlock :: "tc6 \<Rightarrow> bool" where
  "sendWouldBlock g = (TC6_GetRawSegments g = None)"

section \<open>Errors and events\<close>

definition error_reinit :: "TC6_Error_t \<Rightarrow> bool" where
  "error_reinit err = (case err of
     TC6Error_Succeeded \<Rightarrow> False
   | TC6Error_NoHardware \<Rightarrow> True
   | TC6Error_UnexpectedSv \<Rightarrow> False
   | TC6Error_UnexpectedDvEv \<Rightarrow> False
   | TC6Error_BadChecksum \<Rightarrow> True
   | TC6Error_UnexpectedCtrl \<Rightarrow> True
   | TC6Error_BadTxData \<Rightarrow> True
   | TC6Error_SyncLost \<Rightarrow> True
   | TC6Error_SpiError \<Rightarrow> True
   | TC6Error_ControlTxFail \<Rightarrow> False)"

text \<open>\<open>count\<close> is \<open>g_tc6_reinit_count\<close>, \<open>m_reg\<close> the table of contexts of the register component, \<open>p\<close> the instance.\<close>

definition TC6_CB_OnError :: "nat option \<Rightarrow> TC6_Error_t \<Rightarrow> u32 \<times> TC6Reg_t list \<Rightarrow> u32 \<times> TC6Reg_t list" where
  "TC6_CB_OnError p err = (\<lambda>(count, m_reg). if error_reinit err then (count + 1, TC6Regs_Reinit p m_reg) else (count, m_reg))"

definition event_reinit :: "TC6Regs_Event_t \<Rightarrow> bool" where
  "event_reinit event = (case event of
     TC6Regs_Event_Loss_of_Framing_Error \<Rightarrow> True
   | TC6Regs_Event_RX_Non_Recoverable_Error \<Rightarrow> True
   | TC6Regs_Event_TX_Non_Recoverable_Error \<Rightarrow> True
   | _ \<Rightarrow> False)"

definition on_event :: "nat option \<Rightarrow> TC6Regs_Event_t \<Rightarrow> u32 \<times> TC6Reg_t list \<Rightarrow> u32 \<times> TC6Reg_t list" where
  "on_event p event = (\<lambda>(count, m_reg). if event_reinit event then (count + 1, TC6Regs_Reinit p m_reg) else (count, m_reg))"

section \<open>Interrupts\<close>

record tc6_io =
  int_in :: u8
  int_out :: u8
  int_reported :: u8

definition TC6_Io_init :: tc6_io where
  "TC6_Io_init = \<lparr>int_in = 0, int_out = 0, int_reported = 0\<rparr>"

definition onInterrupt :: "tc6_io \<Rightarrow> tc6_io" where
  "onInterrupt io = io\<lparr>int_in := int_in io + 1\<rparr>"

definition isInterruptActive :: "tc6_io \<Rightarrow> bool \<times> tc6_io" where
  "isInterruptActive io = (let io = io\<lparr>int_reported := int_in io\<rparr> in (int_reported io \<noteq> int_out io, io))"

text \<open>\<open>irq_high\<close> is \<open>digitalRead(_irq_pin) == HIGH\<close>: the MACPHY no longer asserts its interrupt line.\<close>

definition releaseInterrupt :: "bool \<Rightarrow> tc6_io \<Rightarrow> tc6_io" where
  "releaseInterrupt irq_high io = (if irq_high then io\<lparr>int_out := int_reported io\<rparr> else io)"

section \<open>The interface object\<close>

text \<open>
  \<open>TC6_Arduino_10BASE_T1S::service\<close> on the state of the driver with its register component, the interrupt counters and the interface.
  The calls that the driver has made meanwhile are taken from its trace. \<open>timeouts\<close> is \<open>sys_check_timeouts\<close>, \<open>irq_high\<close> the interrupt pin,
  \<open>now\<close> the time in milliseconds. The stack does not send from inside of \<open>netint.input\<close> here.
\<close>

definition take_calls :: "malloc \<Rightarrow> 'h regs \<Rightarrow> 'h regs \<Rightarrow> lw \<Rightarrow> lw option" where
  "take_calls malloc old new s = rx_calls malloc (drop (length (calls (tc old))) (calls (tc new))) s"

definition tc6_service ::
  "malloc \<Rightarrow> (lw \<Rightarrow> lw) \<Rightarrow> bool \<Rightarrow> u32 \<Rightarrow> 'h spi \<Rightarrow> 'h regs \<Rightarrow> tc6_io \<Rightarrow> lw \<Rightarrow> ('h regs \<times> tc6_io \<times> lw) option" where
  "tc6_service malloc timeouts irq_high now spi r io s = do {
     let s = timeouts s;
     let (active, io) = isInterruptActive io;
     (r', io, s) \<leftarrow>
       (if active then do {
          (done, r') \<leftarrow> TC6_Service_cb spi False r;
          s \<leftarrow> take_calls malloc r r' s;
          Some (r', if done then releaseInterrupt irq_high io else io, s)
        }
        else if tc6NeedService s then do {
          (_, r') \<leftarrow> TC6_Service_cb spi True r;
          s \<leftarrow> take_calls malloc r r' (s\<lparr>tc6NeedService := False\<rparr>);
          Some (r', io, s)
        }
        else Some (r, io, s));
     r'' \<leftarrow> TC6Regs_CheckTimers spi now r';
     s \<leftarrow> take_calls malloc r' r'' s;
     Some (r'', io, s)
   }"

text \<open>The status callback \<open>OnPlcaStatus\<close>: what it passes to the user's function, if one is set.\<close>

definition OnPlcaStatus :: "bool \<Rightarrow> bool \<Rightarrow> u32 \<Rightarrow> (bool \<times> bool) option" where
  "OnPlcaStatus has_callback success value =
    (if has_callback then Some (success, if success then push_bit 15 1 AND value \<noteq> 0 else False) else None)"

definition getPlcaStatus :: "tc6 \<Rightarrow> nat \<Rightarrow> nat \<Rightarrow> bool \<times> tc6" where
  "getPlcaStatus g cb lw_tag = TC6_ReadRegister g 0x0004CA03 True (Some cb) lw_tag"

definition enablePlca_fn :: "nat option \<Rightarrow> u8 \<Rightarrow> u8 \<Rightarrow> TC6Reg_t list \<Rightarrow> bool \<times> TC6Reg_t list" where
  "enablePlca_fn p ni nc m_reg = TC6Regs_SetPlca p True ni nc m_reg"

text \<open>
  \<open>digitalWrite_A0\<close> and \<open>digitalWrite_A1\<close> with their static variables, the pin being enabled and its last value.
\<close>

definition digitalWrite_pin ::
  "('h regs \<Rightarrow> 'h regs option) \<Rightarrow> ('h regs \<Rightarrow> 'h regs option) \<Rightarrow> bool \<Rightarrow> bool \<times> bool \<Rightarrow> 'h regs \<Rightarrow> ((bool \<times> bool) \<times> 'h regs) option" where
  "digitalWrite_pin enable toggle val = (\<lambda>(is_enabled, pin_val) r. do {
     r \<leftarrow> (if \<not> is_enabled then enable r else Some r);
     r \<leftarrow> (if val \<noteq> pin_val then toggle r else Some r);
     Some ((True, val), r)
   })"

definition digitalWrite_A0 :: "'h spi \<Rightarrow> bool \<Rightarrow> bool \<times> bool \<Rightarrow> 'h regs \<Rightarrow> ((bool \<times> bool) \<times> 'h regs) option" where
  "digitalWrite_A0 spi = digitalWrite_pin (TC6Regs_EnableDio_A0 spi) (TC6Regs_ToggleDio_A0 spi)"

definition digitalWrite_A1 :: "'h spi \<Rightarrow> bool \<Rightarrow> bool \<times> bool \<Rightarrow> 'h regs \<Rightarrow> ((bool \<times> bool) \<times> 'h regs) option" where
  "digitalWrite_A1 spi = digitalWrite_pin (TC6Regs_EnableDio_A1 spi) (TC6Regs_ToggleDio_A1 spi)"

text \<open>
  The list of interfaces: \<open>GetContextTC6\<close> searches it for the interface of an instance, \<open>begin\<close> adds a node to it. The node is linked
  only if the list is empty.
\<close>

definition GetContextTC6 :: "(nat \<times> nat) list \<Rightarrow> nat \<Rightarrow> nat option" where
  "GetContextTC6 nodes tc6 = map_option fst (find (\<lambda>(lw, t). t = tc6) nodes)"

definition begin_link :: "(nat \<times> nat) \<Rightarrow> (nat \<times> nat) list \<Rightarrow> (nat \<times> nat) list" where
  "begin_link node nodes = (if nodes = [] then [node] else nodes)"

end
