(* ===== verification/Tc6_Rx_Stream.thy ===== *)
theory Tc6_Rx_Stream
  imports Tc6_Rx
begin

text \<open>
  Correctness of the receive path: the calls to the integrator put together give exactly the
  frames that the chunks mean by the specification, errors included.
\<close>

section \<open>What the integrator puts together\<close>

text \<open>
  The contract of the receive callbacks: a slice is stored at its offset, a successful packet
  event completes the frame of the given length, an unsuccessful one drops it.
\<close>

fun reasm :: "tc6_call \<Rightarrow> bytes \<times> bytes list \<Rightarrow> bytes \<times> bytes list" where
  "reasm (OnRxEthernetSlice d offset len) (acc, got) = (take (unat offset) acc @ d, got)"
| "reasm (OnRxEthernetPacket ok len t) (acc, got) = (acc, if ok then got @ [take (unat len) acc] else got)"
| "reasm _ s = s"

definition rx_view :: "tc6 \<Rightarrow> bytes \<times> bytes list" where
  "rx_view g = fold reasm (calls g) ([], [])"

lemma rx_view_call [simp]: "rx_view (call c g) = reasm c (rx_view g)"
  by (simp add: rx_view_def call_def)

lemma rx_view_update [simp]:
  "rx_view (g\<lparr>buf_len := v1\<rparr>) = rx_view g" "rx_view (g\<lparr>ts := v2\<rparr>) = rx_view g"
  "rx_view (g\<lparr>eth_error := v3\<rparr>) = rx_view g" "rx_view (g\<lparr>eth_started := v3\<rparr>) = rx_view g"
  "rx_view (g\<lparr>offsetRx := v1\<rparr>) = rx_view g" "rx_view (g\<lparr>synced := v3\<rparr>) = rx_view g"
  "rx_view (g\<lparr>exst_locked := v3\<rparr>) = rx_view g"
  by (simp_all add: rx_view_def)

text \<open>
  The same contract with its conditions: slices are not empty, come without gap and end at the reported length. The result is \<open>None\<close> for
  calls an integrator cannot put together. A slice at offset 0 starts over; only the frame of a failed reception is left unfinished.
\<close>

fun rx_assemble :: "bytes option \<times> bytes list \<Rightarrow> tc6_call \<Rightarrow> (bytes option \<times> bytes list) option" where
  "rx_assemble (cur, got) (OnRxEthernetSlice d off n) =
    (if d = [] \<or> 64 < length d then None
     else if off = 0 then Some (Some d, got)
     else case cur of None \<Rightarrow> None
       | Some acc \<Rightarrow> if unat off = length acc then Some (Some (acc @ d), got) else None)"
| "rx_assemble (cur, got) (OnRxEthernetPacket ok len t) =
    (if ok then case cur of None \<Rightarrow> None | Some acc \<Rightarrow> if unat len = length acc then Some (None, got @ [acc]) else None
     else Some (None, got))"
| "rx_assemble (cur, got) _ = Some (cur, got)"

fun rx_assemble_all :: "bytes option \<times> bytes list \<Rightarrow> tc6_call list \<Rightarrow> (bytes option \<times> bytes list) option" where
  "rx_assemble_all s [] = Some s"
| "rx_assemble_all s (c # cs) = Option.bind (rx_assemble s c) (\<lambda>s. rx_assemble_all s cs)"

lemma rx_assemble_all_append:
  "rx_assemble_all s (xs @ ys) = Option.bind (rx_assemble_all s xs) (\<lambda>s. rx_assemble_all s ys)"
  by (induction xs arbitrary: s) (auto simp: bind_assoc)

definition rx_trace :: "tc6 \<Rightarrow> (bytes option \<times> bytes list) option" where
  "rx_trace g = rx_assemble_all (None, []) (calls g)"

lemma rx_trace_call [simp]: "rx_trace (call c g) = Option.bind (rx_trace g) (\<lambda>s. rx_assemble s c)"
  by (simp add: rx_trace_def call_def rx_assemble_all_append)

lemma rx_trace_update [simp]:
  "rx_trace (g\<lparr>buf_len := v1\<rparr>) = rx_trace g" "rx_trace (g\<lparr>ts := v2\<rparr>) = rx_trace g"
  "rx_trace (g\<lparr>eth_error := v3\<rparr>) = rx_trace g" "rx_trace (g\<lparr>eth_started := v3\<rparr>) = rx_trace g"
  "rx_trace (g\<lparr>offsetRx := v1\<rparr>) = rx_trace g" "rx_trace (g\<lparr>synced := v3\<rparr>) = rx_trace g"
  "rx_trace (g\<lparr>exst_locked := v3\<rparr>) = rx_trace g"
  by (simp_all add: rx_trace_def)

lemma call_fields [simp]:
  "buf_len (call c g) = buf_len g" "ts (call c g) = ts g" "eth_error (call c g) = eth_error g"
  "eth_started (call c g) = eth_started g" "offsetRx (call c g) = offsetRx g" "synced (call c g) = synced g"
  "exst_locked (call c g) = exst_locked g" "calls (call c g) = calls g @ [c]"
  "txc (call c g) = txc g" "rca (call c g) = rca g" "eth_q (call c g) = eth_q g"
  "qSpi (call c g) = qSpi g" "regop_q (call c g) = regop_q g" "offsetEth (call c g) = offsetEth g"
  "currentOp (call c g) = currentOp g"
  by (simp_all add: call_def)

text \<open>
  The driver's receive state stands for the frame in progress: \<open>offsetRx\<close> and \<open>buf_len\<close> are its
  length, the integrator holds its bytes.
\<close>

definition rx_rel :: "bytes option \<Rightarrow> bytes list \<Rightarrow> tc6 \<Rightarrow> bool" where
  "rx_rel cur got g \<longleftrightarrow> \<not> eth_error g \<and> snd (rx_view g) = got \<and> 
     (case rx_trace g of None \<Rightarrow> False | Some (c, got') \<Rightarrow> got' = got \<and> (cur = None \<or> c = cur)) \<and>
     (case cur of
        None \<Rightarrow> \<not> eth_started g \<and> offsetRx g = 0
      | Some part \<Rightarrow> eth_started g \<and> part \<noteq> [] \<and> int (length part) + 64 < 65536 \<and>
          unat (offsetRx g) = length part \<and> unat (buf_len g) = length part \<and> fst (rx_view g) = part)"

lemma GET_VAL_bound: "w \<le> 8 \<Longrightarrow> unat (GET_VAL (i, j, w) h) < 2 ^ w"
proof -
  assume w: "w \<le> 8"
  have "unat (GET_VAL (i, j, w) h) = unat (drop_bit j (h ! i)) mod 2 ^ w"
    using w by (simp add: MASK_mask unat_take_bit_mod flip: take_bit_eq_mask)
  then show ?thesis by simp
qed

lemma on_rx_slice_False:
  "on_rx_slice g p off n False r = call (OnRxEthernetSlice (take (unat n) p) off n)
     (if off = 0 then g\<lparr>ts := 0, buf_len := n\<rparr> else g\<lparr>buf_len := buf_len g + n\<rparr>)"
  by (simp add: on_rx_slice_def)

text \<open>One slice without time stamp appends to the frame in progress or starts one.\<close>

lemma on_rx_slice_plain:
  fixes r :: bool
  assumes "unat n \<le> length p" "offsetRx g = 0 \<or> unat (offsetRx g) = length (fst (rx_view g)) \<and>
     unat (buf_len g) = length (fst (rx_view g)) \<and> length (fst (rx_view g)) + unat n < 65536"
  defines "g' \<equiv> on_rx_slice g p (offsetRx g) n False r"
  defines "part \<equiv> (if offsetRx g = 0 then [] else fst (rx_view g)) @ take (unat n) p"
  shows "rx_view g' = (part, snd (rx_view g))" "unat (buf_len g') = length part"
    "eth_started g' = eth_started g" "eth_error g' = eth_error g" "offsetRx g' = offsetRx g"
    "synced g' = synced g" "exst_locked g' = exst_locked g" "eth_q g' = eth_q g" "regop_q g' = regop_q g" "qSpi g' = qSpi g"
proof -
  obtain acc got where v: "rx_view g = (acc, got)" by fastforce
  show "rx_view g' = (part, snd (rx_view g))" "unat (buf_len g') = length part"
    using assms(1,2) by (auto simp: g'_def part_def on_rx_slice_False v unat_u16_add)
qed (simp_all add: g'_def on_rx_slice_False)

text \<open>The calls that a slice and the end of a frame add are ones the integrator can put together.\<close>

definition rx_trace_ok :: "tc6 \<Rightarrow> bool" where
  "rx_trace_ok g \<longleftrightarrow> (\<exists>c. rx_trace g = Some (c, snd (rx_view g)) \<and> (offsetRx g = 0 \<or> c = Some (fst (rx_view g))))"

lemma on_rx_slice_trace:
  fixes r :: bool
  assumes "unat n \<le> length p" "offsetRx g = 0 \<or> unat (offsetRx g) = length (fst (rx_view g))" "rx_trace_ok g" "0 < unat n" "unat n \<le> 64"
  defines "g' \<equiv> on_rx_slice g p (offsetRx g) n False r"
  shows "rx_trace g' = Some (Some (fst (rx_view g')), snd (rx_view g))"
proof -
  obtain acc got where v: "rx_view g = (acc, got)" by fastforce
  show ?thesis using assms(1-5) by (auto simp: g'_def on_rx_slice_False v rx_trace_ok_def)
qed

lemma on_rx_done_trace:
  assumes "\<not> eth_error g" "rx_trace g = Some (Some part, got)" "unat (buf_len g) = length part"
  shows "rx_trace (on_rx_done g b False) = Some (None, got @ [part])"
  using assms by (simp add: on_rx_done_def Let_def)

lemma on_rx_done_ok:
  assumes "\<not> eth_error g" "unat (buf_len g) = length (fst (rx_view g))"
  shows "snd (rx_view (on_rx_done g b False)) = snd (rx_view g) @ [fst (rx_view g)]"
    "fst (rx_view (on_rx_done g b False)) = fst (rx_view g)"
    "\<not> eth_error (on_rx_done g b False)" "eth_started (on_rx_done g b False) = eth_started g"
    "offsetRx (on_rx_done g b False) = offsetRx g"
proof -
  obtain acc got where "rx_view g = (acc, got)" by fastforce
  then show "snd (rx_view (on_rx_done g b False)) = snd (rx_view g) @ [fst (rx_view g)]"
    "fst (rx_view (on_rx_done g b False)) = fst (rx_view g)"
    "\<not> eth_error (on_rx_done g b False)" "eth_started (on_rx_done g b False) = eth_started g"
    "offsetRx (on_rx_done g b False) = offsetRx g"
    using assms by (simp_all add: on_rx_done_def Let_def)
qed

section \<open>Chunks of the receive direction\<close>

text \<open>
  The meaning of a received chunk (64 bytes of payload, then the footer) by the specification.
  The 16-bit offsets of the driver bound the length of a frame.
\<close>

definition rx_accept :: "bytes option \<times> bytes list \<Rightarrow> bytes \<Rightarrow> (bytes option \<times> bytes list) option" where
  "rx_accept s chunk =
    (let f = drop 64 chunk
     in if GET_VAL FTR_SV f = 0 \<and> GET_VAL FTR_DV f = 0 \<and> GET_VAL FTR_EV f = 0 then Some s
        else case chunk_accept (fld_opt (GET_VAL FTR_SV f) (GET_VAL FTR_SWO f))
               (fld_opt (GET_VAL FTR_EV f) (GET_VAL FTR_EBO f)) (take 64 chunk) s of
          Some (Some part, got) \<Rightarrow> if int (length part) + 64 < 65536 then Some (Some part, got) else None
        | r \<Rightarrow> r)"

fun rx_accept_all :: "bytes option \<times> bytes list \<Rightarrow> bytes list \<Rightarrow> (bytes option \<times> bytes list) option" where
  "rx_accept_all s [] = Some s"
| "rx_accept_all s (c # cs) = Option.bind (rx_accept s c) (\<lambda>s. rx_accept_all s cs)"

text \<open>The position arithmetic of \<open>process_rx\<close> in natural numbers.\<close>

lemma rx_positions:
  fixes f :: bytes
  defines "sbo \<equiv> (if GET_VAL FTR_SV f \<noteq> 0 then GET_VAL FTR_SWO f * 4 else 0 :: u8)"
  defines "ebo \<equiv> (if GET_VAL FTR_EV f \<noteq> 0 then GET_VAL FTR_EBO f + 1 else 64 :: u8)"
  shows "unat sbo = (case fld_opt (GET_VAL FTR_SV f) (GET_VAL FTR_SWO f) of None \<Rightarrow> 0 | Some w \<Rightarrow> 4 * w)"
    "unat ebo = (case fld_opt (GET_VAL FTR_EV f) (GET_VAL FTR_EBO f) of None \<Rightarrow> 64 | Some x \<Rightarrow> x + 1)"
    "unat sbo \<le> 60" "unat ebo \<le> 64" "0 < unat ebo"
    "unat (ucast sbo :: u16) = unat sbo" "unat (ucast ebo :: u16) = unat ebo"
proof -
  have w: "unat (GET_VAL FTR_SWO f) < 16" and x: "unat (GET_VAL FTR_EBO f) < 64"
    using GET_VAL_bound [of 4 1 0 f] GET_VAL_bound [of 6 2 0 f] by simp_all
  have "unat (GET_VAL FTR_SWO f * 4) = 4 * unat (GET_VAL FTR_SWO f)"
    using w by (simp add: unat_word_ariths del: GET_VAL.simps)
  moreover have "unat (GET_VAL FTR_EBO f + 1) = unat (GET_VAL FTR_EBO f) + 1"
    using x by (simp add: unat_u8_add del: GET_VAL.simps)
  ultimately show *: "unat sbo = (case fld_opt (GET_VAL FTR_SV f) (GET_VAL FTR_SWO f) of None \<Rightarrow> 0 | Some w \<Rightarrow> 4 * w)"
    "unat ebo = (case fld_opt (GET_VAL FTR_EV f) (GET_VAL FTR_EBO f) of None \<Rightarrow> 64 | Some x \<Rightarrow> x + 1)"
    by (simp_all add: sbo_def ebo_def fld_opt_def del: GET_VAL.simps)
  from w x show "unat sbo \<le> 60" "unat ebo \<le> 64" "0 < unat ebo"
    unfolding * by (simp_all add: fld_opt_def del: GET_VAL.simps)
  show "unat (ucast sbo :: u16) = unat sbo" "unat (ucast ebo :: u16) = unat ebo"
    by simp_all
qed

lemma on_rx_done_error: "eth_error (on_rx_done g b m) = False"
  by (simp add: on_rx_done_def Let_def)

text \<open>The tail of \<open>process_rx\<close>: a slice that may end its frame.\<close>

definition rx_slice_end :: "tc6 \<Rightarrow> bytes \<Rightarrow> u16 \<Rightarrow> bool \<Rightarrow> bool \<Rightarrow> tc6" where
  "rx_slice_end g p len fin r =
    (let g = on_rx_slice (g\<lparr>eth_started := True, eth_error := False\<rparr>) p (offsetRx g) len False r
     in if fin then on_rx_done (g\<lparr>eth_started := False, offsetRx := 0\<rparr>) (offsetRx g + len) False
        else g\<lparr>offsetRx := offsetRx g + len\<rparr>)"

text \<open>\<open>process_rx\<close> on chunks without drop flag and time stamp, by the frames they hold.\<close>

lemma process_rx_cases:
  assumes "GET_VAL FTR_FD (drop 64 c) = 0" "GET_VAL FTR_RTSA (drop 64 c) = 0" "\<not> eth_error g"
    and "GET_VAL FTR_SV (drop 64 c) \<noteq> 0 \<or> GET_VAL FTR_DV (drop 64 c) \<noteq> 0 \<or> GET_VAL FTR_EV (drop 64 c) \<noteq> 0"
    and sf: "st = fld_opt (GET_VAL FTR_SV (drop 64 c)) (GET_VAL FTR_SWO (drop 64 c))"
      "fin = fld_opt (GET_VAL FTR_EV (drop 64 c)) (GET_VAL FTR_EBO (drop 64 c))"
  defines "s \<equiv> (case st of None \<Rightarrow> 0 | Some w \<Rightarrow> 4 * w)" and "x \<equiv> (case fin of None \<Rightarrow> 64 | Some x \<Rightarrow> x + 1)"
  defines "r \<equiv> st \<noteq> None \<and> GET_VAL FTR_RTSP (drop 64 c) \<noteq> 0"
  shows "x \<le> s \<Longrightarrow> process_rx g c =
      (let g1 = on_rx_done (on_rx_slice g c (offsetRx g) (of_nat x) False False)
                 (offsetRx (on_rx_slice g c (offsetRx g) (of_nat x) False False) + of_nat x) False
       in rx_slice_end (g1\<lparr>offsetRx := 0\<rparr>) (drop s c) (of_nat (64 - s)) False r)"
    and "s < x \<Longrightarrow> st = None \<and> eth_started g \<or> st \<noteq> None \<and> \<not> eth_started g \<Longrightarrow>
      process_rx g c = rx_slice_end g (drop s c) (of_nat (x - s)) (fin \<noteq> None) r"
proof -
  define f where "f = drop 64 c"
  define sbo where "sbo = (if GET_VAL FTR_SV f \<noteq> 0 then GET_VAL FTR_SWO f * 4 else 0 :: u8)"
  define ebo where "ebo = (if GET_VAL FTR_EV f \<noteq> 0 then GET_VAL FTR_EBO f + 1 else 64 :: u8)"
  note pos = rx_positions [of f, folded sbo_def ebo_def]
  have sx: "unat sbo = s" "unat ebo = x" using pos(1,2) by (simp_all add: s_def x_def sf f_def)
  have two: "ebo \<le> sbo \<longleftrightarrow> x \<le> s" by (simp add: u8_le_nat sx)
  have sv: "GET_VAL FTR_SV f = 0 \<longleftrightarrow> st = None" "GET_VAL FTR_EV f = 0 \<longleftrightarrow> fin = None"
    by (simp_all add: sf fld_opt_def f_def del: GET_VAL.simps)
  have len: "ucast ebo - ucast sbo = (of_nat (x - s) :: u16)" if "s < x"
    using that pos(6,7) sx pos(4) by (simp add: word_unat_eq_iff unat_u16_sub unat_u16_of_nat del: of_nat_diff)
  have "s \<le> 60" using pos(3) sx by simp
  then have len2: "64 - ucast sbo = (of_nat (64 - s) :: u16)"
    using pos(6) sx by (simp add: word_unat_eq_iff unat_u16_sub unat_u16_of_nat del: of_nat_diff)
  have xo: "ucast ebo = (of_nat x :: u16)"
    using pos(7) sx pos(4) by (simp add: word_unat_eq_iff unat_u16_of_nat)
  have flags: "GET_VAL FTR_FD f = 0" "GET_VAL FTR_RTSA f = 0" "st \<noteq> None \<or> GET_VAL FTR_DV f \<noteq> 0 \<or> fin \<noteq> None"
    using assms(1,2,4) by (simp_all add: f_def [symmetric] sv del: GET_VAL.simps One_nat_def not_None_eq)
  have rr: "r \<longleftrightarrow> st \<noteq> None \<and> GET_VAL FTR_RTSP f \<noteq> 0" by (simp add: r_def f_def del: GET_VAL.simps)
  have prx: "process_rx g c = process_rx_frames g c (st \<noteq> None) sbo (fin \<noteq> None) ebo False False r"
    using flags(3)
    by (simp add: process_rx_def Let_def f_def [symmetric] sv sbo_def ebo_def flags(1,2) rr del: GET_VAL.simps One_nat_def not_None_eq)
  note unf = prx process_rx_frames_def two sx rx_slice_end_def Let_def
  show "process_rx g c = rx_slice_end g (drop s c) (of_nat (x - s)) (fin \<noteq> None) r"
    if sx': "s < x" and "st = None \<and> eth_started g \<or> st \<noteq> None \<and> \<not> eth_started g"
    using that(2)
  proof (elim disjE conjE)
    assume a: "st = None" "eth_started g"
    with sx' assms(3) len [OF sx'] show ?thesis
      by (simp add: unf del: GET_VAL.simps One_nat_def not_None_eq of_nat_diff)
  next
    assume a: "st \<noteq> None" "\<not> eth_started g"
    with sx' assms(3) len [OF sx'] show ?thesis
      by (simp add: unf del: GET_VAL.simps One_nat_def not_None_eq of_nat_diff)
  qed
  show "process_rx g c =
      (let g1 = on_rx_done (on_rx_slice g c (offsetRx g) (of_nat x) False False)
                 (offsetRx (on_rx_slice g c (offsetRx g) (of_nat x) False False) + of_nat x) False
       in rx_slice_end (g1\<lparr>offsetRx := 0\<rparr>) (drop s c) (of_nat (64 - s)) False r)" if "x \<le> s"
  proof -
    have "st \<noteq> None" "fin \<noteq> None"
      using that \<open>s \<le> 60\<close> by (cases st; cases fin; simp add: s_def x_def)+
    with that show ?thesis
      by (simp add: unf len2 xo on_rx_done_error del: GET_VAL.simps One_nat_def not_None_eq of_nat_diff)
  qed
qed

lemma rx_slice_end_ok:
  assumes "unat n \<le> length p" "0 < unat n"
    and "offsetRx g = 0 \<or> unat (offsetRx g) = length (fst (rx_view g)) \<and>
     unat (buf_len g) = length (fst (rx_view g)) \<and> length (fst (rx_view g)) + 64 < 65536" "unat n \<le> 64" "rx_trace_ok g"
  defines "part \<equiv> (if offsetRx g = 0 then [] else fst (rx_view g)) @ take (unat n) p"
  shows "rx_rel None (snd (rx_view g) @ [part]) (rx_slice_end g p n True r)"
    and "length part + 64 < 65536 \<Longrightarrow> rx_rel (Some part) (snd (rx_view g)) (rx_slice_end g p n False r)"
proof -
  define g0 where "g0 = g\<lparr>eth_started := True, eth_error := False\<rparr>"
  define g1 where "g1 = on_rx_slice g0 p (offsetRx g0) n False r"
  have g0: "offsetRx g0 = offsetRx g" "rx_view g0 = rx_view g" "buf_len g0 = buf_len g" by (simp_all add: g0_def)
  have c: "offsetRx g0 = 0 \<or> unat (offsetRx g0) = length (fst (rx_view g0)) \<and>
     unat (buf_len g0) = length (fst (rx_view g0)) \<and> length (fst (rx_view g0)) + unat n < 65536"
    using assms(3,4) g0 by auto
  note s = on_rx_slice_plain [OF assms(1) c, of r, folded g1_def, unfolded g0(1,2)]
  have "rx_trace_ok g0" using assms(5) g0 by (simp add: rx_trace_ok_def g0_def)
  then have tr: "rx_trace g1 = Some (Some part, snd (rx_view g))"
    using on_rx_slice_trace [OF assms(1) _ _ assms(2,4), of g0 r, folded g1_def] c s(1) g0(2) by (auto simp: part_def)
  have e1: "\<not> eth_error g1" "eth_started g1" using s(3,4) by (simp_all add: g0_def)
  have lp: "length part = (if offsetRx g = 0 then 0 else length (fst (rx_view g))) + unat n"
    using assms(1) by (simp add: part_def)
  define g2 where "g2 = g1\<lparr>eth_started := False, offsetRx := 0\<rparr>"
  have g2: "\<not> eth_error g2" "unat (buf_len g2) = length (fst (rx_view g2))" "rx_view g2 = (part, snd (rx_view g))"
    using s(1,2) e1 by (simp_all add: g2_def part_def [symmetric])
  have e: "rx_slice_end g p n True r = on_rx_done g2 (offsetRx g1 + n) False"
    "rx_slice_end g p n False r = g1\<lparr>offsetRx := offsetRx g1 + n\<rparr>"
    by (simp_all add: rx_slice_end_def Let_def g0_def g1_def g2_def)
  show "rx_rel None (snd (rx_view g) @ [part]) (rx_slice_end g p n True r)"
    using on_rx_done_ok [OF g2(1,2), of "offsetRx g1 + n"] on_rx_done_trace [OF g2(1), of part "snd (rx_view g)"] g2(2,3) tr
    by (simp add: rx_rel_def e g2_def)
  show "rx_rel (Some part) (snd (rx_view g)) (rx_slice_end g p n False r)" if "length part + 64 < 65536"
  proof -
    have "unat (offsetRx g + n) = length part"
      using lp that assms(3) by (auto simp: unat_u16_add unat_eq_0)
    moreover have "part \<noteq> []" using lp assms(2) by auto
    ultimately show ?thesis
      using s(1,2,5) e1 that g2(3) tr by (simp add: rx_rel_def e part_def [symmetric])
  qed
qed

text \<open>\<open>process_rx\<close> follows the specification of chunks.\<close>

lemma process_rx_refines:
  assumes rel: "rx_rel cur got g" and len: "68 \<le> length c"
    and fl: "GET_VAL FTR_FD (drop 64 c) = 0" "GET_VAL FTR_RTSA (drop 64 c) = 0"
    and acc: "rx_accept (cur, got) c = Some (cur', got')"
  shows "rx_rel cur' got' (process_rx g c)"
proof (cases "GET_VAL FTR_SV (drop 64 c) = 0 \<and> GET_VAL FTR_DV (drop 64 c) = 0 \<and> GET_VAL FTR_EV (drop 64 c) = 0")
  case True
  then have "process_rx g c = g\<lparr>eth_error := False\<rparr>" "cur' = cur" "got' = got"
    using acc by (auto simp: process_rx_def rx_accept_def Let_def simp del: GET_VAL.simps)
  then show ?thesis using rel by (simp add: rx_rel_def split: option.splits)
next
  case False
  define st where "st = fld_opt (GET_VAL FTR_SV (drop 64 c)) (GET_VAL FTR_SWO (drop 64 c))"
  define fin where "fin = fld_opt (GET_VAL FTR_EV (drop 64 c)) (GET_VAL FTR_EBO (drop 64 c))"
  define s where "s = (case st of None \<Rightarrow> 0 | Some w \<Rightarrow> 4 * w)"
  define x where "x = (case fin of None \<Rightarrow> 64 | Some x \<Rightarrow> x + 1)"
  have bnd: "s \<le> 60" "x \<le> 64" "0 < x"
    using rx_positions [of "drop 64 c"] by (simp_all add: s_def x_def st_def fin_def)
  have err: "\<not> eth_error g" and got: "snd (rx_view g) = got" and tr: "rx_trace_ok g"
    using rel by (auto simp: rx_rel_def rx_trace_ok_def split: option.splits prod.splits)
  have data: "GET_VAL FTR_SV (drop 64 c) \<noteq> 0 \<or> GET_VAL FTR_DV (drop 64 c) \<noteq> 0 \<or> GET_VAL FTR_EV (drop 64 c) \<noteq> 0"
    using False by blast
  obtain r where two: "x \<le> s \<Longrightarrow> process_rx g c =
      (let g1 = on_rx_done (on_rx_slice g c (offsetRx g) (of_nat x) False False)
                 (offsetRx (on_rx_slice g c (offsetRx g) (of_nat x) False False) + of_nat x) False
       in rx_slice_end (g1\<lparr>offsetRx := 0\<rparr>) (drop s c) (of_nat (64 - s)) False r)"
    and one: "s < x \<Longrightarrow> st = None \<and> eth_started g \<or> st \<noteq> None \<and> \<not> eth_started g \<Longrightarrow>
      process_rx g c = rx_slice_end g (drop s c) (of_nat (x - s)) (fin \<noteq> None) r"
    using process_rx_cases [OF fl err data st_def fin_def, folded s_def x_def] by blast
  have acc': "chunk_accept st fin (take 64 c) (cur, got) = Some (cur', got')"
    and fits: "\<And>part. cur' = Some part \<Longrightarrow> length part + 64 < 65536"
    using acc False unfolding rx_accept_def Let_def st_def fin_def
    by (auto simp del: GET_VAL.simps split: option.splits if_splits)
  have u: "unat (of_nat (x - s) :: u16) = x - s" "unat (of_nat (64 - s) :: u16) = 64 - s" "unat (of_nat x :: u16) = x"
    using bnd by (simp_all add: unat_u16_of_nat del: of_nat_diff)
  show ?thesis
  proof (cases cur)
    case None
    then have g: "\<not> eth_started g" "offsetRx g = 0" using rel by (auto simp: rx_rel_def)
    obtain w where w: "st = Some w" "s < x"
      using acc' bnd None by (cases st; cases fin) (auto simp: s_def x_def split: if_splits)
    have p: "process_rx g c = rx_slice_end g (drop s c) (of_nat (x - s)) (fin \<noteq> None) r"
      using one w g by simp
    have "take (x - s) (drop s c) = sub_at s (x - s) (take 64 c)"
      using bnd w by (simp add: sub_at_def drop_take)
    then show ?thesis
      using rx_slice_end_ok [of "of_nat (x - s)" "drop s c" g r] u w bnd len g acc' got None fits tr unfolding p
      by (auto simp: s_def x_def sub_at_def split: option.splits if_splits)
  next
    case (Some part)
    then have g: "eth_started g" "fst (rx_view g) = part" "unat (offsetRx g) = length part" "part \<noteq> []"
      "unat (buf_len g) = length part" "length part + 64 < 65536" using rel by (auto simp: rx_rel_def)
    then have off: "offsetRx g \<noteq> 0" by auto
    show ?thesis
    proof (cases st)
      case None
      then have p: "process_rx g c = rx_slice_end g c (of_nat x) (fin \<noteq> None) r"
        using one g bnd by (simp add: s_def)
      show ?thesis
        using rx_slice_end_ok [of "of_nat x" c g r] u bnd len g acc' got Some None fits off tr unfolding p
        by (auto simp: x_def split: option.splits if_splits)
    next
      case (Some w)
      then have xs: "x \<le> s" and c': "cur' = Some (drop s (take 64 c))" "got' = got @ [part @ take x (take 64 c)]"
        using acc' \<open>cur = Some part\<close> by (auto simp: s_def x_def split: option.splits if_splits)
      define g1 where "g1 = on_rx_slice g c (offsetRx g) (of_nat x) False False"
      have s1: "rx_view g1 = (part @ take x c, got)" "unat (buf_len g1) = length (part @ take x c)" "\<not> eth_error g1"
        using on_rx_slice_plain(1,2,4) [of "of_nat x" c g False] u bnd len g off got err by (auto simp: g1_def)
      define g2 where "g2 = (on_rx_done g1 (offsetRx g1 + of_nat x) False)\<lparr>offsetRx := 0\<rparr>"
      have v2: "snd (rx_view g2) = got'" "offsetRx g2 = 0"
        using on_rx_done_ok(1) [of g1] s1 c' bnd by (auto simp: g2_def min_def)
      have "rx_trace g1 = Some (Some (part @ take x c), got)"
        using on_rx_slice_trace [of "of_nat x" c g False] u bnd len g got tr s1(1) by (auto simp: g1_def)
      then have "rx_trace_ok g2"
        using on_rx_done_trace [OF s1(3)] s1(2) v2 c' bnd by (auto simp: rx_trace_ok_def g2_def min_def)
      have "process_rx g c = rx_slice_end g2 (drop s c) (of_nat (64 - s)) False r"
        using two xs by (simp add: g1_def g2_def Let_def)
      then show ?thesis
        using rx_slice_end_ok(2) [of "of_nat (64 - s)" "drop s c" g2 r] u bnd len v2 c' \<open>rx_trace_ok g2\<close> by (simp add: drop_take)
    qed
  qed
qed

section \<open>The receive buffer\<close>

definition rx_footer_ok :: "bytes \<Rightarrow> bool" where
  "rx_footer_ok c \<longleftrightarrow> get_parity (drop 64 c) = 0 \<and> GET_VAL FTR_HDRB (drop 64 c) = 0 \<and>
     GET_VAL FTR_SYNC (drop 64 c) \<noteq> 0 \<and> GET_VAL FTR_FD (drop 64 c) = 0"

text \<open>A footer of zeros or ones, as an unconnected bus reads, does not have the right flags.\<close>

lemma no_hardware_flags:
  "f ! 0 = 0 \<Longrightarrow> GET_VAL FTR_SYNC f = 0" "f ! 0 = 0xFF \<Longrightarrow> GET_VAL FTR_HDRB f = 1"
  by (simp_all add: MASK_def)

lemma enqueue_rx_chunk_ok:
  assumes "rx_footer_ok c"
  shows "enqueue_rx_chunk g c =
    (process_rx (if \<not> exst_locked g \<and> GET_VAL FTR_EXST (drop 64 c) \<noteq> 0
       then call OnExtendedStatus (g\<lparr>synced := True, exst_locked := True\<rparr>) else g\<lparr>synced := True\<rparr>) c, True)"
proof -
  have "drop 64 c ! 0 \<noteq> 0" "drop 64 c ! 0 \<noteq> 0xFF"
    using assms no_hardware_flags [of "drop 64 c"] unfolding rx_footer_ok_def
    by (metis, metis zero_neq_one)
  with assms show ?thesis
    by (simp add: enqueue_rx_chunk_def rx_footer_ok_def Let_def del: GET_VAL.simps)
qed

lemma rx_rel_status [simp]:
  "rx_rel cur got (g\<lparr>synced := b\<rparr>) = rx_rel cur got g"
  "rx_rel cur got (call OnExtendedStatus (g\<lparr>synced := b, exst_locked := b'\<rparr>)) = rx_rel cur got g"
  by (cases "rx_view g"; auto simp: rx_rel_def split: option.splits)+

lemma enqueue_rx_chunk_refines:
  assumes "rx_rel cur got g" "68 \<le> length c" "rx_footer_ok c" "GET_VAL FTR_RTSA (drop 64 c) = 0"
    and "rx_accept (cur, got) c = Some (cur', got')"
  shows "\<exists>g'. enqueue_rx_chunk g c = (g', True) \<and> rx_rel cur' got' g'"
  using assms process_rx_refines [of cur got _ c cur' got']
  by (simp add: enqueue_rx_chunk_ok rx_footer_ok_def del: GET_VAL.simps)

text \<open>The chunks of a receive buffer.\<close>

definition rx_chunks :: "nat \<Rightarrow> bytes \<Rightarrow> bytes list" where
  "rx_chunks n buff = map (\<lambda>i. sub_at (68 * i) 68 buff) [0..<n]"

lemma rx_chunks_Suc: "rx_chunks (Suc n) buff = take 68 buff # rx_chunks n (drop 68 buff)"
  unfolding rx_chunks_def upt_conv_Cons [OF zero_less_Suc] map_Suc_upt [symmetric] list.map map_map
  by (simp add: sub_at_def comp_def add.commute)

lemma chunk_prefix:
  assumes "68 \<le> length b"
  shows "i < 4 \<Longrightarrow> GET_VAL (i, j, w) (drop 64 (take 68 b)) = GET_VAL (i, j, w) (drop 64 b)"
    "get_parity (drop 64 (take 68 b)) = get_parity (drop 64 b)"
    "rx_footer_ok (take 68 b) = rx_footer_ok b" "rx_accept s (take 68 b) = rx_accept s b"
proof -
  have n: "drop 64 (take 68 b) ! i = drop 64 b ! i" if "i < 4" for i
    using assms that by simp
  then show gv: "GET_VAL (i, j, w) (drop 64 (take 68 b)) = GET_VAL (i, j, w) (drop 64 b)" if "i < 4" for i j w
    using that by simp
  show gp: "get_parity (drop 64 (take 68 b)) = get_parity (drop 64 b)"
    using n by (simp add: get_parity_def)
  show "rx_footer_ok (take 68 b) = rx_footer_ok b" "rx_accept s (take 68 b) = rx_accept s b"
    by (simp_all add: rx_footer_ok_def rx_accept_def Let_def gv gp del: GET_VAL.simps drop_take)
qed

lemma enqueue_rx_loop_delivers:
  assumes "rx_rel cur got g" "68 * n \<le> length buff"
    and "\<forall>c \<in> set (rx_chunks n buff). rx_footer_ok c \<and> GET_VAL FTR_RTSA (drop 64 c) = 0"
    and "rx_accept_all (cur, got) (rx_chunks n buff) = Some (cur', got')"
  shows "rx_rel cur' got' (enqueue_rx_loop n g buff)"
  using assms
proof (induction n arbitrary: cur got g buff)
  case 0
  then show ?case by (simp add: rx_chunks_def)
next
  case (Suc n)
  have len: "68 \<le> length buff" using Suc.prems(2) by simp
  obtain cur1 got1 where a1: "rx_accept (cur, got) buff = Some (cur1, got1)"
    and a2: "rx_accept_all (cur1, got1) (rx_chunks n (drop 68 buff)) = Some (cur', got')"
    using Suc.prems(4) by (auto simp: rx_chunks_Suc chunk_prefix(4) [OF len] bind_eq_Some_conv)
  have "rx_footer_ok buff" "GET_VAL FTR_RTSA (drop 64 buff) = 0"
    using Suc.prems(3) chunk_prefix [OF len] by (simp_all add: rx_chunks_Suc del: GET_VAL.simps drop_take)
  from enqueue_rx_chunk_refines [OF Suc.prems(1) len this a1]
  obtain g1 where g1: "enqueue_rx_chunk g buff = (g1, True)" "rx_rel cur1 got1 g1" by blast
  then show ?case
    using Suc.IH [OF g1(2) _ _ a2] Suc.prems(2,3) by (simp add: rx_chunks_Suc)
qed

lemma enqueue_rx_spi_loop:
  assumes "0 < n" "68 * n < 65536"
  shows "enqueue_rx_spi g buff (of_nat (68 * n)) = enqueue_rx_loop n g buff"
proof -
  have u: "unat (of_nat (68 * n) :: u16) = 68 * n"
    using assms(2) by (simp add: unat_u16_of_nat del: of_nat_mult)
  then show ?thesis
    using assms(1) by (simp add: enqueue_rx_spi_def unat_eq_0 [symmetric] del: of_nat_mult unat_eq_0)
qed

text \<open>
  C2. The receive path delivers what the MACPHY sends: if the chunks of an SPI transfer have sound
  footers and mean, by the TC6 specification, that the frame in progress becomes \<open>cur'\<close> and the
  completed frames become \<open>got'\<close>, then \<open>enqueue_rx_spi\<close> hands exactly these frames to the integrator,
  in order and with their bytes, and its offsets stand for \<open>cur'\<close>.
\<close>

theorem enqueue_rx_spi_delivers:
  assumes "rx_rel cur got g" "0 < n" "68 * n < 65536" "68 * n \<le> length buff"
    and "\<forall>c \<in> set (rx_chunks n buff). rx_footer_ok c \<and> GET_VAL FTR_RTSA (drop 64 c) = 0"
    and "rx_accept_all (cur, got) (rx_chunks n buff) = Some (cur', got')"
  shows "rx_rel cur' got' (enqueue_rx_spi g buff (of_nat (68 * n)))"
  using enqueue_rx_loop_delivers [OF assms(1,4-6)] unfolding enqueue_rx_spi_loop [OF assms(2,3)] .

section \<open>Errors\<close>

text \<open>A footer that fails one of the checks, and what the driver then does with the chunk.\<close>

definition rx_footer_bad :: "bytes \<Rightarrow> bool" where
  "rx_footer_bad c \<longleftrightarrow> get_parity (drop 64 c) \<noteq> 0 \<or> GET_VAL FTR_HDRB (drop 64 c) \<noteq> 0 \<or> GET_VAL FTR_SYNC (drop 64 c) = 0"

definition rx_footer_error :: "bytes \<Rightarrow> TC6_Error_t" where
  "rx_footer_error c =
    (let f = drop 64 c
     in if take 4 f = [0, 0, 0, 0] \<or> take 4 f = [0xFF, 0xFF, 0xFF, 0xFF] then TC6Error_NoHardware
        else if get_parity f \<noteq> 0 then TC6Error_BadChecksum
        else if GET_VAL FTR_HDRB f \<noteq> 0 then TC6Error_BadTxData
        else TC6Error_SyncLost)"

lemma take_4_eq: "4 \<le> length f \<Longrightarrow> take 4 f = [a, b, c, d] \<longleftrightarrow> f ! 0 = a \<and> f ! 1 = b \<and> f ! 2 = c \<and> f ! 3 = d"
  by (auto simp: list_eq_iff_nth_eq less_Suc_eq numeral_eq_Suc)

lemma enqueue_rx_chunk_bad:
  assumes "rx_footer_bad c" "68 \<le> length c"
  shows "enqueue_rx_chunk g c =
      (g\<lparr>eth_started := False, calls := calls g @ [OnError (rx_footer_error c)],
         synced := GET_VAL FTR_SYNC (drop 64 c) \<noteq> 0, offsetRx := 0, eth_error := False\<rparr>, False)"
proof -
  define f where "f = drop 64 c"
  have len: "4 \<le> length f" using assms(2) by (simp add: f_def)
  consider (nohw) "take 4 f = [0, 0, 0, 0] \<or> take 4 f = [0xFF, 0xFF, 0xFF, 0xFF]"
    | (hw) "\<not> (take 4 f = [0, 0, 0, 0] \<or> take 4 f = [0xFF, 0xFF, 0xFF, 0xFF])" by blast
  then show ?thesis
  proof cases
    case nohw
    then have "rx_footer_error c = TC6Error_NoHardware" by (simp add: rx_footer_error_def f_def [symmetric])
    with nohw show ?thesis
      unfolding enqueue_rx_chunk_def f_def [symmetric] take_4_eq [OF len]
      by (simp add: Let_def signal_rx_error_def call_def del: GET_VAL.simps)
  next
    case hw
    then have no: "\<not> (f ! 0 = 0 \<and> f ! 1 = 0 \<and> f ! 2 = 0 \<and> f ! 3 = 0 \<or>
        f ! 0 = 0xFF \<and> f ! 1 = 0xFF \<and> f ! 2 = 0xFF \<and> f ! 3 = 0xFF)"
      by (simp add: take_4_eq [OF len])
    show ?thesis
      unfolding enqueue_rx_chunk_def rx_footer_error_def f_def [symmetric] if_not_P [OF hw] Let_def if_not_P [OF no]
      using assms(1)
      by (simp add: rx_footer_bad_def f_def [symmetric] signal_rx_error_def call_def del: GET_VAL.simps)
  qed
qed

lemma rx_footer_error_take: "68 \<le> length b \<Longrightarrow> rx_footer_error (sub_at 0 68 b) = rx_footer_error b"
proof -
  assume len: "68 \<le> length b"
  have "take 4 (drop 64 (take 68 b)) = take 4 (drop 64 b)" by (simp add: drop_take)
  then show ?thesis
    using chunk_prefix(1,2) [OF len] by (simp add: rx_footer_error_def Let_def sub_at_def del: GET_VAL.simps drop_take)
qed

lemma rx_chunks_nth: "i < n \<Longrightarrow> rx_chunks n buff ! i = sub_at (68 * i) 68 buff"
  by (simp add: rx_chunks_def)

lemma enqueue_rx_loop_recovers:
  assumes "rx_rel cur got g" "n < m" "68 * m \<le> length buff"
    and "\<forall>c \<in> set (rx_chunks n buff). rx_footer_ok c \<and> GET_VAL FTR_RTSA (drop 64 c) = 0"
    and "rx_accept_all (cur, got) (rx_chunks n buff) = Some (cur', got')"
    and "rx_footer_bad (sub_at (68 * n) 68 buff)"
  shows "rx_rel None got' (enqueue_rx_loop m g buff) \<and>
    last (calls (enqueue_rx_loop m g buff)) = OnError (rx_footer_error (sub_at (68 * n) 68 buff))"
  using assms
proof (induction n arbitrary: cur got g buff m)
  case 0
  then obtain k where m: "m = Suc k" by (cases m) auto
  have len: "68 \<le> length buff" using 0 m by simp
  have "rx_footer_bad buff"
    using 0(6) chunk_prefix(1,2) [OF len] by (simp add: rx_footer_bad_def sub_at_def del: GET_VAL.simps drop_take)
  then have st: "enqueue_rx_loop m g buff = g\<lparr>eth_started := False, calls := calls g @ [OnError (rx_footer_error buff)],
         synced := GET_VAL FTR_SYNC (drop 64 buff) \<noteq> 0, offsetRx := 0, eth_error := False\<rparr>"
    using enqueue_rx_chunk_bad [OF _ len] by (simp add: m del: GET_VAL.simps)
  obtain a b where v: "rx_view g = (a, b)" by fastforce
  obtain c where t: "rx_trace g = Some (c, got)" using 0(1) by (auto simp: rx_rel_def split: option.splits)
  from 0(1,5) have "b = got'" "got = got'" by (simp_all add: rx_rel_def rx_chunks_def v)
  then show ?case
    unfolding st using v t by (simp add: rx_rel_def) (simp add: rx_view_def rx_trace_def rx_assemble_all_append rx_footer_error_take [OF len])
next
  case (Suc n)
  then obtain k where m: "m = Suc k" "n < k" by (cases m) auto
  have len: "68 \<le> length buff" using Suc.prems m by simp
  obtain cur1 got1 where a1: "rx_accept (cur, got) buff = Some (cur1, got1)"
    and a2: "rx_accept_all (cur1, got1) (rx_chunks n (drop 68 buff)) = Some (cur', got')"
    using Suc.prems(5) by (auto simp: rx_chunks_Suc chunk_prefix(4) [OF len] bind_eq_Some_conv)
  have "rx_footer_ok buff" "GET_VAL FTR_RTSA (drop 64 buff) = 0"
    using Suc.prems(4) chunk_prefix [OF len] by (simp_all add: rx_chunks_Suc del: GET_VAL.simps drop_take)
  from enqueue_rx_chunk_refines [OF Suc.prems(1) len this a1]
  obtain g1 where g1: "enqueue_rx_chunk g buff = (g1, True)" "rx_rel cur1 got1 g1" by blast
  have "rx_footer_bad (sub_at (68 * n) 68 (drop 68 buff))"
    using Suc.prems(6) by (simp add: sub_at_def add.commute)
  moreover have "sub_at (68 * n) 68 (drop 68 buff) = sub_at (68 * Suc n) 68 buff"
    by (simp add: sub_at_def add.commute)
  ultimately show ?case
    using Suc.IH [OF g1(2) m(2) _ _ a2] Suc.prems(3,4) g1(1) m by (simp add: rx_chunks_Suc)
qed

text \<open>
  C10. Recovery from a bad footer (no hardware, parity, rejected header, lost configuration): the
  frames completed before it stay delivered, the frame in progress is given up and never
  reported as received, the error is the last call to the integrator, the rest of the transfer is
  skipped, and the driver waits for the start of a frame.
\<close>

theorem rx_bad_footer_recovers:
  assumes "rx_rel cur got g" "n < m" "68 * m < 65536" "68 * m \<le> length buff"
    and "\<forall>c \<in> set (rx_chunks n buff). rx_footer_ok c \<and> GET_VAL FTR_RTSA (drop 64 c) = 0"
    and "rx_accept_all (cur, got) (rx_chunks n buff) = Some (cur', got')"
    and "rx_footer_bad (sub_at (68 * n) 68 buff)"
  shows "rx_rel None got' (enqueue_rx_spi g buff (of_nat (68 * m))) \<and>
    last (calls (enqueue_rx_spi g buff (of_nat (68 * m)))) = OnError (rx_footer_error (sub_at (68 * n) 68 buff))"
  using enqueue_rx_loop_recovers [OF assms(1,2,4-7)] unfolding enqueue_rx_spi_loop [OF order.strict_trans1 [OF le0 assms(2)] assms(3)] .

text \<open>
  C35. The drop flag desynchronises the receiver: when the MACPHY drops the frame in progress
  (\<open>FTR_FD\<close>), \<open>eth_started\<close> stays set, so that a complete, sound frame in the next chunk is reported as
  \<open>TC6Error_UnexpectedSv\<close> and not delivered.
\<close>

theorem rx_frame_drop_loses_next_frame:
  assumes "rx_rel (Some part) got g"
    and "\<not> rx_footer_bad c" "GET_VAL FTR_FD (drop 64 c) \<noteq> 0"
    and "rx_footer_ok c'" "GET_VAL FTR_SV (drop 64 c') = 1" "GET_VAL FTR_EV (drop 64 c') = 1"
    and "4 * unat (GET_VAL FTR_SWO (drop 64 c')) \<le> unat (GET_VAL FTR_EBO (drop 64 c'))"
  defines "g1 \<equiv> fst (enqueue_rx_chunk g c)"
  defines "g2 \<equiv> fst (enqueue_rx_chunk g1 c')"
  shows "eth_started g1 \<and> last (calls g2) = OnError TC6Error_UnexpectedSv \<and> snd (rx_view g2) = got"
proof (intro conjI)
  have nz: "drop 64 c ! 0 \<noteq> 0" "drop 64 c ! 0 \<noteq> 0xFF"
    using assms(2) no_hardware_flags [of "drop 64 c"] unfolding rx_footer_bad_def by (metis, metis zero_neq_one)
  have g1: "g1 = call (OnRxEthernetPacket False 0 None) (g\<lparr>synced := True, offsetRx := 0, eth_error := False\<rparr>)"
    using assms(2,3) nz by (simp add: g1_def enqueue_rx_chunk_def rx_footer_bad_def Let_def call_def del: GET_VAL.simps)
  show st: "eth_started g1" using assms(1) by (simp add: g1 rx_rel_def)
  define g1' where "g1' = (if \<not> exst_locked g1 \<and> GET_VAL FTR_EXST (drop 64 c') \<noteq> 0
       then call OnExtendedStatus (g1\<lparr>synced := True, exst_locked := True\<rparr>) else g1\<lparr>synced := True\<rparr>)"
  have g1': "eth_started g1'" "\<not> eth_error g1'" using st by (auto simp: g1'_def g1)
  have "snd (rx_view g1) = got" using assms(1) by (cases "rx_view g") (simp add: g1 rx_rel_def)
  then have v: "snd (rx_view g1') = got" by (cases "rx_view g1") (simp add: g1'_def)
  define f where "f = drop 64 c'"
  define sbo where "sbo = (if GET_VAL FTR_SV f \<noteq> 0 then GET_VAL FTR_SWO f * 4 else 0 :: u8)"
  define ebo where "ebo = (if GET_VAL FTR_EV f \<noteq> 0 then GET_VAL FTR_EBO f + 1 else 64 :: u8)"
  have two: "\<not> ebo \<le> sbo"
    using rx_positions(1,2) [of f, folded sbo_def ebo_def] assms(5-7) by (simp add: u8_le_nat fld_opt_def f_def)
  obtain a b where "process_rx g1' c' = process_rx_frames g1' c' True sbo True ebo False a b"
    using assms(4-6) by (simp add: process_rx_def Let_def rx_footer_ok_def sbo_def ebo_def f_def del: GET_VAL.simps)
  then have "process_rx g1' c' = signal_rx_error g1' TC6Error_UnexpectedSv"
    using two g1' by (simp add: process_rx_frames_def signal_rx_error_def)
  then have g2: "g2 = signal_rx_error g1' TC6Error_UnexpectedSv"
    using enqueue_rx_chunk_ok [OF assms(4), of g1] by (simp add: g2_def g1'_def)
  show "last (calls g2) = OnError TC6Error_UnexpectedSv" by (simp add: g2 signal_rx_error_def)
  show "snd (rx_view g2) = got" using v by (cases "rx_view g1'") (simp add: g2 signal_rx_error_def)
qed

section \<open>Examples\<close>

text \<open>A received chunk with its footer bytes and parity; an instance that receives.\<close>

definition rx_chunk :: "bytes \<Rightarrow> u8 \<Rightarrow> u8 \<Rightarrow> u8 \<Rightarrow> bytes" where
  "rx_chunk p b0 b1 b2 = p @ (let f = [b0, b1, b2, 0] in SET_VAL HDR_P (get_parity f) f)"

definition rx_example :: tc6 where
  "rx_example = tc6_zeroed (init_qtxeth_queue [] 4) (init_qspibuf_queue [] 1) (init_regop_queue [] 4)"

text \<open>
  Three chunks: a frame of 70 bytes starts; it ends with byte 5 and the next frame starts at word 2;
  that frame ends with byte 9.
\<close>

definition rx_example_buffer :: bytes where
  "rx_example_buffer = rx_chunk (replicate 64 3) 0x20 0x30 0 @ rx_chunk (replicate 64 4) 0x20 0x32 0x45
     @ rx_chunk (replicate 64 5) 0x20 0x20 0x49"

lemma rx_example_rel: "rx_rel None [] rx_example"
  by code_simp

lemma length_rx_chunk [simp]: "length (rx_chunk p a b c) = length p + 4"
  by (simp add: rx_chunk_def Let_def)

lemma rx_chunks_Cons: "length c = 68 \<Longrightarrow> rx_chunks (Suc n) (c @ b) = c # rx_chunks n b"
  by (simp add: rx_chunks_Suc)

lemma rx_chunks_three: "length a = 68 \<Longrightarrow> length b = 68 \<Longrightarrow> length c = 68 \<Longrightarrow> rx_chunks 3 (a @ b @ c) = [a, b, c]"
  using rx_chunks_Cons [of c 0 "[]"] by (simp add: numeral_3_eq_3 rx_chunks_Cons) (simp add: rx_chunks_def)

lemma rx_example_parts:
  "list_all (\<lambda>c. rx_footer_ok c \<and> GET_VAL FTR_RTSA (drop 64 c) = 0)
     [rx_chunk (replicate 64 3) 0x20 0x30 0, rx_chunk (replicate 64 4) 0x20 0x32 0x45, rx_chunk (replicate 64 5) 0x20 0x20 0x49]"
  "rx_accept (None, []) (rx_chunk (replicate 64 3) 0x20 0x30 0) = Some (Some (replicate 64 3), [])"
  "rx_accept (Some (replicate 64 3), []) (rx_chunk (replicate 64 4) 0x20 0x32 0x45) =
     Some (Some (replicate 56 4), [replicate 64 3 @ replicate 6 4])"
  "rx_accept (Some (replicate 56 4), [replicate 64 3 @ replicate 6 4]) (rx_chunk (replicate 64 5) 0x20 0x20 0x49) =
     Some (None, [replicate 64 3 @ replicate 6 4, replicate 56 4 @ replicate 10 5])"
  by code_simp+

lemma rx_example_chunks:
  "length rx_example_buffer = 204"
  "list_all (\<lambda>c. rx_footer_ok c \<and> GET_VAL FTR_RTSA (drop 64 c) = 0) (rx_chunks 3 rx_example_buffer)"
  "rx_accept_all (None, []) (rx_chunks 3 rx_example_buffer) =
     Some (None, [replicate 64 3 @ replicate 6 4, replicate 56 4 @ replicate 10 5])"
  unfolding rx_example_buffer_def by (simp_all only: rx_chunks_three length_rx_chunk length_append length_replicate
      rx_accept_all.simps rx_example_parts Option.bind.bind_lunit)

theorem enqueue_rx_spi_delivers_witness:
  "rx_rel None [replicate 64 3 @ replicate 6 4, replicate 56 4 @ replicate 10 5]
     (enqueue_rx_spi rx_example rx_example_buffer (of_nat (68 * 3)))"
  by (rule enqueue_rx_spi_delivers [OF rx_example_rel _ _ _ _ rx_example_chunks(3)])
    (use rx_example_chunks(1,2) in \<open>simp_all add: list_all_iff del: GET_VAL.simps\<close>)

text \<open>The second chunk has a parity error: the frame in progress is given up.\<close>

definition rx_example_bad :: bytes where
  "rx_example_bad = rx_chunk (replicate 64 3) 0x20 0x30 0 @ replicate 64 4 @ [0x20, 0x32, 0x45, 1]
     @ rx_chunk (replicate 64 5) 0x20 0x20 0x49"

lemma rx_example_bad_chunks:
  "length rx_example_bad = 204" "rx_footer_bad (sub_at (68 * 1) 68 rx_example_bad)"
  "list_all (\<lambda>c. rx_footer_ok c \<and> GET_VAL FTR_RTSA (drop 64 c) = 0) (rx_chunks 1 rx_example_bad)"
  "rx_accept_all (None, []) (rx_chunks 1 rx_example_bad) = Some (Some (replicate 64 3), [])"
  "rx_footer_error (sub_at (68 * 1) 68 rx_example_bad) = TC6Error_BadChecksum"
  by code_simp+

theorem rx_bad_footer_recovers_witness:
  "rx_rel None [] (enqueue_rx_spi rx_example rx_example_bad (of_nat (68 * 3))) \<and>
   last (calls (enqueue_rx_spi rx_example rx_example_bad (of_nat (68 * 3)))) = OnError TC6Error_BadChecksum"
  using rx_bad_footer_recovers [OF rx_example_rel _ _ _ _ rx_example_bad_chunks(4,2), of 3]
    rx_example_bad_chunks(1,3)
  unfolding rx_example_bad_chunks(5) by (simp add: list_all_iff del: GET_VAL.simps of_nat_mult)

text \<open>A frame of 64 bytes and more is received, then dropped; the next chunk is a frame of 60 bytes.\<close>

definition rx_example_started :: tc6 where
  "rx_example_started = enqueue_rx_spi rx_example (rx_chunk (replicate 64 3) 0x20 0x30 0) 68"

theorem rx_frame_drop_loses_next_frame_witness:
  "let g1 = fst (enqueue_rx_chunk rx_example_started (rx_chunk (replicate 64 4) 0x20 0x20 0xC9));
       g2 = fst (enqueue_rx_chunk g1 (rx_chunk (replicate 64 5) 0x20 0x30 0x7B))
   in eth_started g1 \<and> last (calls g2) = OnError TC6Error_UnexpectedSv \<and> snd (rx_view g2) = []"
proof -
  have 1: "rx_rel (Some (replicate 64 3)) [] rx_example_started"
    "\<not> rx_footer_bad (rx_chunk (replicate 64 4) 0x20 0x20 0xC9)"
    "GET_VAL FTR_FD (drop 64 (rx_chunk (replicate 64 4) 0x20 0x20 0xC9)) \<noteq> 0"
    by code_simp+
  have 2: "rx_footer_ok (rx_chunk (replicate 64 5) 0x20 0x30 0x7B)"
    "GET_VAL FTR_SV (drop 64 (rx_chunk (replicate 64 5) 0x20 0x30 0x7B)) = 1"
    "GET_VAL FTR_EV (drop 64 (rx_chunk (replicate 64 5) 0x20 0x30 0x7B)) = 1"
    "4 * unat (GET_VAL FTR_SWO (drop 64 (rx_chunk (replicate 64 5) 0x20 0x30 0x7B)))
      \<le> unat (GET_VAL FTR_EBO (drop 64 (rx_chunk (replicate 64 5) 0x20 0x30 0x7B)))"
    by code_simp+
  show ?thesis
    using rx_frame_drop_loses_next_frame [OF 1 2] unfolding Let_def .
qed

end
