(* ===== verification/Arduino_Netif_Rx.thy ===== *)
theory Arduino_Netif_Rx
  imports Arduino_Netif Tc6_Rx_Stream "HOL-Library.Sublist"
begin

text \<open>
  What the network interface does with the driver's calls. \<open>rx_assemble\<close> (in the theory of the receive stream) is the meaning of a sequence
  of calls: which frame is in progress and which frames are complete. The relation \<open>netif_rel\<close> ties it to the interface's state,
  and shows on the way that every packet buffer is either held, handed to the stack or freed. Composed with the receive path of the driver
  this leads from the bytes on the SPI bus to the frames that lwIP gets.
\<close>

section \<open>Frames\<close>

text \<open>The frames that are passed on: not shorter than the headers of a UDP or ARP packet, not longer than the buffer.\<close>

definition good_frame :: "bytes \<Rightarrow> bool" where
  "good_frame f \<longleftrightarrow> 42 \<le> length f \<and> length f \<le> TC6LwIP_MTU"

section \<open>The relation\<close>

definition rx_pbuf :: "pbuf \<Rightarrow> bool" where
  "rx_pbuf b \<longleftrightarrow> pnext b = None \<and> ref b = 1 \<and> plen b = 1536 \<and> tot_len b = 1536 \<and> poff b + 1536 \<le> length (pmem b) \<and>
     pflags b AND 2 = 0 \<and> type_internal b AND 0x0F \<le> 2"

definition holds :: "heap \<Rightarrow> (pbuf \<Rightarrow> bool) \<Rightarrow> lw \<Rightarrow> bool" where
  "holds h0 P s \<longleftrightarrow> (\<exists>a b. lw_pbuf s = Some a \<and> h0 a = None \<and> heap s = h0(a \<mapsto> b) \<and> rx_pbuf b \<and> P b)"

definition free_of_pbuf :: "heap \<Rightarrow> lw \<Rightarrow> bool" where
  "free_of_pbuf h0 s \<longleftrightarrow> lw_pbuf s = None \<and> heap s = h0"

text \<open>\<open>may_fail\<close>: an allocation may have failed; \<open>h0\<close>: the pbufs there were at the beginning.\<close>

definition netif_rel :: "bool \<Rightarrow> heap \<Rightarrow> bytes option \<Rightarrow> bytes list \<Rightarrow> lw \<Rightarrow> bool" where
  "netif_rel may_fail h0 cur got s \<longleftrightarrow>
     subseq (delivered s) (filter good_frame got) \<and> (\<not> may_fail \<longrightarrow> delivered s = filter good_frame got) \<and>
     (case cur of
        None \<Rightarrow> free_of_pbuf h0 s \<and> rxLen s = 0 \<and> \<not> rxInvalid s
      | Some acc \<Rightarrow> acc \<noteq> [] \<and>
          (if rxInvalid s then free_of_pbuf h0 s \<and> may_fail \<or> holds h0 (\<lambda>_. True) s \<and> TC6LwIP_MTU < length acc
           else length acc \<le> TC6LwIP_MTU \<and> unat (rxLen s) = length acc \<and> holds h0 (\<lambda>b. take (length acc) (bdata b) = acc) s))"

section \<open>The buffer\<close>

lemma rx_pbuf_freed:
  assumes "h0 a = None" "rx_pbuf b"
  shows "pbuf_free (h0(a \<mapsto> b)) (Some a) = Some (1, h0)"
proof -
  have "plink (h0(a \<mapsto> b)) (Some a) [a]" "list_all (freeable (h0(a \<mapsto> b))) [a]"
    using assms by (simp_all add: rx_pbuf_def freeable_def)
  from pbuf_free_loop_freed [OF this, of 0] assms show ?thesis
    by (auto simp: pbuf_free_def single_def rx_pbuf_def fun_eq_iff)
qed

lemma rx_pbuf_realloc:
  assumes "rx_pbuf b" "unat n \<le> 1536"
  shows "\<exists>b'. pbuf_realloc (h(a \<mapsto> b)) (Some a) n = Some (h(a \<mapsto> b')) \<and> pread b' 0 (unat (plen b')) = Some (take (unat n) (bdata b))"
proof (cases "n = 1536")
  case True
  then show ?thesis
    using assms by (intro exI [of _ b]) (simp add: pbuf_realloc_def deref_def rx_pbuf_def pread_def bdata_def)
next
  case False
  then have "unat n < 1536" using assms(2) by (auto simp: word_unat_eq_iff le_less)
  then have n: "\<not> n \<ge> 1536" "\<not> n > 1536" by (simp_all add: word_le_nat_alt word_less_nat_alt)
  have "pbuf_realloc_loop (h(a \<mapsto> b)) (Some a) n s = Some (a, n, h(a \<mapsto> b))" for s
    using n assms(1) by (subst pbuf_realloc_loop.simps) (simp add: rx_pbuf_def)
  then have "pbuf_realloc (h(a \<mapsto> b)) (Some a) n = Some (h(a \<mapsto> b\<lparr>plen := n, tot_len := n, pnext := None\<rparr>))"
    using n assms(1) by (simp add: pbuf_realloc_def deref_def rx_pbuf_def)
  then show ?thesis
    using assms by (intro exI [of _ "b\<lparr>plen := n, tot_len := n, pnext := None\<rparr>"]) (simp add: pread_def bdata_def sub_at_def rx_pbuf_def)
qed

lemma rx_pbuf_alloc:
  assumes "malloc_ok malloc"
  shows "pbuf_alloc malloc h PBUF_RAW 1536 PBUF_RAM = Some (None, h) \<and> malloc h 1536 = None \<or>
    (\<exists>a b. pbuf_alloc malloc h PBUF_RAW 1536 PBUF_RAM = Some (Some a, h(a \<mapsto> b)) \<and> h a = None \<and> rx_pbuf b)"
proof -
  have "LWIP_MEM_ALIGN_SIZE 0 = 0" "LWIP_MEM_ALIGN_SIZE 1536 = 1536" "LWIP_MEM_ALIGN_SIZE 16 = 16"
    by (simp_all add: LWIP_MEM_ALIGN_SIZE_def)
  then show ?thesis
    using assms by (cases "malloc h 1536") (auto simp: pbuf_alloc_def malloc_ok_def rx_pbuf_def pbuf_init_alloced_pbuf_def split: prod.splits)
qed

lemma drop_put_inside: "p + k + length d \<le> length m \<Longrightarrow> drop p (put_at (p + k) d m) = take k (drop p m) @ d @ drop (p + k + length d) m"
  by (simp add: put_at_def take_drop add.commute)

lemma bdata_put_inside:
  assumes "poff b + N \<le> length (pmem b)" "unat (plen b) = N" "off + length d \<le> N"
  shows "take (off + length d) (bdata (b\<lparr>pmem := put_at (poff b + off) d (pmem b)\<rparr>)) = take off (bdata b) @ d"
proof -
  have "drop (poff b) (put_at (poff b + off) d (pmem b)) = take off (drop (poff b) (pmem b)) @ d @ drop (poff b + off + length d) (pmem b)"
    using assms by (intro drop_put_inside) linarith
  moreover have "min off (length (pmem b) - poff b) = off" using assms by linarith
  ultimately show ?thesis
    using assms by (simp add: bdata_def sub_at_def min_absorb2)
qed

lemma rx_pbuf_write:
  assumes "rx_pbuf b" "off + length d \<le> 1536"
  shows "\<exists>b'. pwrite b off d = Some b' \<and> rx_pbuf b' \<and> take (off + length d) (bdata b') = take off (bdata b) @ d"
proof -
  have len: "poff b + 1536 \<le> length (pmem b)" "unat (plen b) = 1536" using assms(1) by (simp_all add: rx_pbuf_def)
  moreover have "poff b + off + length d \<le> length (pmem b)" using len assms(2) by linarith
  ultimately show ?thesis
    using assms bdata_put_inside [OF len assms(2)]
    by (intro exI [of _ "b\<lparr>pmem := put_at (poff b + off) d (pmem b)\<rparr>"]) (simp add: pwrite_def rx_pbuf_def)
qed

section \<open>One call\<close>

text \<open>The part of the slice callback after the check for a stale buffer.\<close>

definition slice_rest :: "malloc \<Rightarrow> bytes \<Rightarrow> u16 \<Rightarrow> lw \<Rightarrow> lw option" where
  "slice_rest malloc pRx offset s =
    (if rxInvalid s then Some s
     else if unat offset + length pRx > TC6LwIP_MTU then Some (s\<lparr>rxInvalid := True\<rparr>)
     else do {
       (success, s) \<leftarrow>
         (if lw_pbuf s = None then do {
            (p, h) \<leftarrow> pbuf_alloc malloc (heap s) PBUF_RAW (of_nat TC6LwIP_MTU) PBUF_RAM;
            case p of
              None \<Rightarrow> Some (False, s\<lparr>heap := h, lw_pbuf := None, rxInvalid := True\<rparr>)
            | Some a \<Rightarrow> do {
                b \<leftarrow> h a;
                if pnext b \<noteq> None
                then map_option (\<lambda>(_, h). (False, s\<lparr>heap := h, lw_pbuf := None, rxInvalid := True\<rparr>)) (pbuf_free h p)
                else Some (True, s\<lparr>heap := h, lw_pbuf := p\<rparr>)
              }
          }
          else Some (True, s));
       if success then do {
         a \<leftarrow> lw_pbuf s;
         b \<leftarrow> heap s a;
         b \<leftarrow> pwrite b (unat offset) pRx;
         Some (s\<lparr>heap := (heap s)(a \<mapsto> b), rxLen := rxLen s + of_nat (length pRx)\<rparr>)
       }
       else Some s
     })"

lemma slice_split:
  "TC6_CB_OnRxEthernetSlice malloc d off s =
    Option.bind (if off = 0 \<and> lw_pbuf s \<noteq> None
          then map_option (\<lambda>(_, h). s\<lparr>heap := h, lw_pbuf := None, rxLen := 0, rxInvalid := False\<rparr>) (pbuf_free (heap s) (lw_pbuf s))
          else Some s) (slice_rest malloc d off)"
  unfolding TC6_CB_OnRxEthernetSlice_def slice_rest_def by (rule refl)

lemma slice_first:
  assumes "malloc_ok malloc" "free_of_pbuf h0 s" "rxLen s = 0" "\<not> rxInvalid s" "d \<noteq> []" "length d \<le> 64"
  shows "\<exists>s'. slice_rest malloc d 0 s = Some s' \<and> delivered s' = delivered s \<and>
    (rxInvalid s' \<and> free_of_pbuf h0 s' \<and> malloc h0 1536 = None \<or>
     \<not> rxInvalid s' \<and> unat (rxLen s') = length d \<and> holds h0 (\<lambda>b. take (length d) (bdata b) = d) s')"
proof -
  have s: "lw_pbuf s = None" "heap s = h0" using assms(2) by (simp_all add: free_of_pbuf_def)
  from rx_pbuf_alloc [OF assms(1), of h0] show ?thesis
  proof (elim disjE exE conjE)
    assume "pbuf_alloc malloc h0 PBUF_RAW 1536 PBUF_RAM = Some (None, h0)" "malloc h0 1536 = None"
    then show ?thesis using s assms(4,6) by (simp add: slice_rest_def free_of_pbuf_def)
  next
    fix a b
    assume a: "pbuf_alloc malloc h0 PBUF_RAW 1536 PBUF_RAM = Some (Some a, h0(a \<mapsto> b))" "h0 a = None" "rx_pbuf b"
    obtain b' where b': "pwrite b 0 d = Some b'" "rx_pbuf b'" "take (length d) (bdata b') = d"
      using rx_pbuf_write [OF a(3), of 0 d] assms(6) by auto
    have "pnext b = None" using a(3) by (simp add: rx_pbuf_def)
    with a(1) b'(1) s assms(3,4,6)
    have "slice_rest malloc d 0 s = Some (s\<lparr>heap := h0(a \<mapsto> b'), lw_pbuf := Some a, rxLen := of_nat (length d)\<rparr>)"
      by (simp add: slice_rest_def)
    then show ?thesis using a(2) b'(2,3) assms(4,6) by (auto simp: holds_def unat_u16_of_nat)
  qed
qed

lemma slice_next:
  assumes "\<not> rxInvalid s" "unat (rxLen s) = length acc" "length acc \<le> 1536" "holds h0 (\<lambda>b. take (length acc) (bdata b) = acc) s"
    "unat off = length acc" "length d \<le> 64"
  shows "\<exists>s'. slice_rest malloc d off s = Some s' \<and> delivered s' = delivered s \<and>
    (rxInvalid s' \<and> holds h0 (\<lambda>_. True) s' \<and> 1536 < length (acc @ d) \<or>
     \<not> rxInvalid s' \<and> length (acc @ d) \<le> 1536 \<and> unat (rxLen s') = length (acc @ d) \<and>
       holds h0 (\<lambda>b. take (length (acc @ d)) (bdata b) = acc @ d) s')"
proof -
  obtain a b where a: "lw_pbuf s = Some a" "h0 a = None" "heap s = h0(a \<mapsto> b)" "rx_pbuf b" "take (length acc) (bdata b) = acc"
    using assms(4) by (auto simp: holds_def)
  show ?thesis
  proof (cases "length acc + length d > 1536")
    case True
    then have "slice_rest malloc d off s = Some (s\<lparr>rxInvalid := True\<rparr>)" using assms(1,5) by (simp add: slice_rest_def)
    then show ?thesis using True a by (auto simp: holds_def)
  next
    case False
    then obtain b' where b': "pwrite b (length acc) d = Some b'" "rx_pbuf b'" "take (length acc + length d) (bdata b') = acc @ d"
      using rx_pbuf_write [OF a(4), of "length acc" d] a(5) by auto
    have "slice_rest malloc d off s = Some (s\<lparr>heap := h0(a \<mapsto> b'), rxLen := rxLen s + of_nat (length d)\<rparr>)"
      using False assms(1,5) a b'(1) by (simp add: slice_rest_def)
    moreover have "unat (rxLen s + of_nat (length d)) = length acc + length d"
      using False assms(2,6) by (simp add: unat_u16_add unat_u16_of_nat)
    ultimately show ?thesis using False a(1,2) b'(2,3) assms(1) by (auto simp: holds_def)
  qed
qed

lemma released:
  assumes "free_of_pbuf h0 s \<or> holds h0 P s"
  shows "(if lw_pbuf s \<noteq> None then map_option snd (pbuf_free (heap s) (lw_pbuf s)) else Some (heap s)) = Some h0"
  using assms rx_pbuf_freed by (auto simp: free_of_pbuf_def holds_def)

lemma netif_owned: "netif_rel F h0 cur got s \<Longrightarrow> free_of_pbuf h0 s \<or> holds h0 (\<lambda>_. True) s"
  by (auto simp: netif_rel_def holds_def split: option.splits if_splits)

lemma netif_idle:
  "netif_rel F h0 None got s \<longleftrightarrow>
     subseq (delivered s) (filter good_frame got) \<and> (\<not> F \<longrightarrow> delivered s = filter good_frame got) \<and>
     free_of_pbuf h0 s \<and> rxLen s = 0 \<and> \<not> rxInvalid s"
  by (simp add: netif_rel_def)

lemma rx_slice_rel:
  assumes "malloc_ok malloc" "\<not> F \<longrightarrow> malloc h0 1536 \<noteq> None"
    "netif_rel F h0 cur got s" "rx_assemble (cur, got) (OnRxEthernetSlice d off n) = Some (cur', got')"
  shows "\<exists>s'. TC6_CB_OnRxEthernetSlice malloc d off s = Some s' \<and> netif_rel F h0 cur' got' s'"
proof (cases "off = 0")
  case True
  then have d: "d \<noteq> []" "length d \<le> 64" "cur' = Some d" "got' = got" using assms(4) by (auto split: if_splits)
  let ?t = "s\<lparr>heap := h0, lw_pbuf := None, rxLen := 0, rxInvalid := False\<rparr>"
  have first: "\<exists>s'. slice_rest malloc d 0 t = Some s' \<and> netif_rel F h0 (Some d) got s'"
    if "free_of_pbuf h0 t" "rxLen t = 0" "\<not> rxInvalid t" "delivered t = delivered s" for t
  proof -
    note t = that
    obtain s' where s': "slice_rest malloc d 0 t = Some s'" "delivered s' = delivered t"
      "rxInvalid s' \<and> free_of_pbuf h0 s' \<and> malloc h0 1536 = None \<or>
       \<not> rxInvalid s' \<and> unat (rxLen s') = length d \<and> holds h0 (\<lambda>b. take (length d) (bdata b) = d) s'"
      using slice_first [OF assms(1) t(1-3) d(1,2)] by blast
    moreover have "rxInvalid s' \<Longrightarrow> F" using s'(3) assms(2) by blast
    moreover have "subseq (delivered s') (filter good_frame got)" "\<not> F \<longrightarrow> delivered s' = filter good_frame got"
      using assms(3) s'(2) t(4) by (simp_all add: netif_rel_def)
    ultimately show ?thesis using d(1,2) by (intro exI [of _ s']) (simp add: netif_rel_def, blast)
  qed
  show ?thesis
  proof (cases "lw_pbuf s = None")
    case False
    then have "holds h0 (\<lambda>_. True) s" using netif_owned [OF assms(3)] by (auto simp: free_of_pbuf_def)
    then have "map_option snd (pbuf_free (heap s) (lw_pbuf s)) = Some h0" using released [of h0 s] False by auto
    then have "TC6_CB_OnRxEthernetSlice malloc d off s = slice_rest malloc d 0 ?t"
      using True False by (auto simp: slice_split)
    then show ?thesis using first [of ?t] d by (simp add: free_of_pbuf_def)
  next
    case nobuf: True
    then have e: "TC6_CB_OnRxEthernetSlice malloc d off s = slice_rest malloc d 0 s" using True by (simp add: slice_split)
    show ?thesis
    proof (cases "rxInvalid s")
      case True
      then have "slice_rest malloc d 0 s = Some s" by (simp add: slice_rest_def)
      then show ?thesis using e True d assms(3) nobuf by (auto simp: netif_rel_def holds_def split: option.splits)
    next
      case False
      then have "cur = None" using assms(3) nobuf by (auto simp: netif_rel_def holds_def split: option.splits)
      then show ?thesis using e first [of s] assms(3) d False by (simp add: netif_idle)
    qed
  qed
next
  case False
  then obtain acc where c: "cur = Some acc" "unat off = length acc" "cur' = Some (acc @ d)" "got' = got" "length d \<le> 64"
    using assms(4) by (auto split: if_splits option.splits)
  have e: "TC6_CB_OnRxEthernetSlice malloc d off s = slice_rest malloc d off s" using False by (simp add: slice_split)
  show ?thesis
  proof (cases "rxInvalid s")
    case True
    then have "slice_rest malloc d off s = Some s" by (simp add: slice_rest_def)
    then show ?thesis using e True c assms(3) by (auto simp: netif_rel_def)
  next
    case False
    then have "unat (rxLen s) = length acc" "length acc \<le> 1536" "holds h0 (\<lambda>b. take (length acc) (bdata b) = acc) s" "acc \<noteq> []"
      using assms(3) c(1) by (auto simp: netif_rel_def)
    then obtain s' where s': "slice_rest malloc d off s = Some s'" "delivered s' = delivered s"
      "rxInvalid s' \<and> holds h0 (\<lambda>_. True) s' \<and> 1536 < length (acc @ d) \<or>
       \<not> rxInvalid s' \<and> length (acc @ d) \<le> 1536 \<and> unat (rxLen s') = length (acc @ d) \<and>
         holds h0 (\<lambda>b. take (length (acc @ d)) (bdata b) = acc @ d) s'" and "acc @ d \<noteq> []"
      using slice_next [OF False _ _ _ c(2,5), of h0 malloc] by blast
    moreover have "subseq (delivered s') (filter good_frame got)" "\<not> F \<longrightarrow> delivered s' = filter good_frame got"
      using assms(3) s'(2) by (simp_all add: netif_rel_def)
    ultimately show ?thesis unfolding e c(3,4) by (intro exI [of _ s']) (simp only: netif_rel_def option.case if_split, blast)
  qed
qed

lemma rx_packet_rel:
  assumes "netif_rel F h0 cur got s" "rx_assemble (cur, got) (OnRxEthernetPacket ok len t) = Some (cur', got')"
  shows "\<exists>s'. TC6_CB_OnRxEthernetPacket ok len s = Some s' \<and> netif_rel F h0 cur' got' s'"
proof (cases "ok \<and> \<not> rxInvalid s \<and> \<not> len < 42")
  case True
  then obtain acc where c: "cur = Some acc" "unat len = length acc" "cur' = None" "got' = got @ [acc]"
    using assms(2) by (auto split: if_splits option.splits)
  then have l: "length acc \<le> 1536" "unat (rxLen s) = length acc" "acc \<noteq> []" "holds h0 (\<lambda>b. take (length acc) (bdata b) = acc) s"
    using assms(1) True by (auto simp: netif_rel_def)
  then obtain a b where a: "lw_pbuf s = Some a" "h0 a = None" "heap s = h0(a \<mapsto> b)" "rx_pbuf b" "take (length acc) (bdata b) = acc"
    by (auto simp: holds_def)
  obtain b' where b': "pbuf_realloc (h0(a \<mapsto> b)) (Some a) len = Some (h0(a \<mapsto> b'))" "pread b' 0 (unat (plen b')) = Some acc"
    using rx_pbuf_realloc [OF a(4), of len h0 a] l(1) c(2) a(5) by auto
  have "rxLen s = len" using l(2) c(2) by (simp add: word_unat_eq_iff)
  moreover have "rxLen s \<noteq> 0" using l(2,3) by auto
  ultimately have "TC6_CB_OnRxEthernetPacket ok len s =
      Some (s\<lparr>heap := h0, delivered := delivered s @ [acc], lw_pbuf := None, rxLen := 0, rxInvalid := False\<rparr>)"
    using True a(1,2,3) b' by (auto simp: TC6_CB_OnRxEthernetPacket_def fun_upd_idem_iff)
  moreover have "good_frame acc" using True l(1) c(2) by (simp add: good_frame_def u16_less_nat)
  ultimately show ?thesis
    using assms(1) c(3,4) by (auto simp: netif_rel_def free_of_pbuf_def list_emb_append_mono)
next
  case False
  have "TC6_CB_OnRxEthernetPacket ok len s = Some (s\<lparr>heap := h0, lw_pbuf := None, rxLen := 0, rxInvalid := False\<rparr>)"
    using False released [OF netif_owned [OF assms(1)]]
    by (auto simp: TC6_CB_OnRxEthernetPacket_def Let_def split: if_splits)
  moreover have "\<not> F \<longrightarrow> filter good_frame got' = filter good_frame got" "subseq (filter good_frame got) (filter good_frame got')"
    using assms False by (auto simp: netif_rel_def good_frame_def u16_less_nat split: if_splits option.splits)
  moreover have "cur' = None" using assms(2) by (auto split: if_splits option.splits)
  ultimately show ?thesis
    using assms(1) by (auto simp: netif_rel_def free_of_pbuf_def intro: subseq_order.trans)
qed

lemma rx_call_rel:
  assumes "malloc_ok malloc" "\<not> F \<longrightarrow> malloc h0 1536 \<noteq> None"
    "netif_rel F h0 cur got s" "rx_assemble (cur, got) c = Some (cur', got')"
  shows "\<exists>s'. rx_call malloc c s = Some s' \<and> netif_rel F h0 cur' got' s'"
proof (cases c)
  case (OnRxEthernetSlice d off n)
  then show ?thesis using rx_slice_rel [OF assms(1-3)] assms(4) by simp
next
  case (OnRxEthernetPacket ok len t)
  then show ?thesis using rx_packet_rel [OF assms(3)] assms(4) by simp
qed (use assms(3,4) in \<open>auto simp: netif_rel_def holds_def free_of_pbuf_def TC6_CB_OnNeedService_def split: option.splits\<close>)

lemma rx_calls_rel:
  assumes "malloc_ok malloc" "\<not> F \<longrightarrow> malloc h0 1536 \<noteq> None"
    "netif_rel F h0 cur got s" "rx_assemble_all (cur, got) cs = Some (cur', got')"
  shows "\<exists>s'. rx_calls malloc cs s = Some s' \<and> netif_rel F h0 cur' got' s'"
  using assms(3,4)
proof (induction cs arbitrary: cur got s)
  case (Cons c cs)
  then obtain cur1 got1 where c: "rx_assemble (cur, got) c = Some (cur1, got1)" "rx_assemble_all (cur1, got1) cs = Some (cur', got')"
    by (auto simp: bind_eq_Some_conv)
  then obtain s1 where s1: "rx_call malloc c s = Some s1" "netif_rel F h0 cur1 got1 s1"
    using rx_call_rel [OF assms(1,2) Cons.prems(1)] by blast
  from Cons.IH [OF s1(2) c(2)] s1(1) show ?case by auto
qed auto

section \<open>Properties\<close>

text \<open>An interface with no frame in progress.\<close>

definition netif_idle_state :: "heap \<Rightarrow> lw \<Rightarrow> bool" where
  "netif_idle_state h0 s \<longleftrightarrow> lw_pbuf s = None \<and> heap s = h0 \<and> rxLen s = 0 \<and> \<not> rxInvalid s \<and> delivered s = []"

lemma netif_idle_rel: "netif_idle_state h0 s \<Longrightarrow> netif_rel F h0 None [] s"
  by (simp add: netif_idle_state_def netif_idle free_of_pbuf_def)

lemma netif_runs:
  assumes "malloc_ok malloc" "netif_idle_state h0 s" "rx_assemble_all (None, []) cs = Some (cur, got)"
  shows "\<exists>s'. rx_calls malloc cs s = Some s' \<and> subseq (delivered s') (filter good_frame got) \<and>
    (malloc h0 1536 \<noteq> None \<longrightarrow> delivered s' = filter good_frame got) \<and>
    (heap s' = h0 \<and> lw_pbuf s' = None \<or> cur \<noteq> None \<and> (\<exists>a b. h0 a = None \<and> lw_pbuf s' = Some a \<and> ref b = 1 \<and> heap s' = h0(a \<mapsto> b)))"
proof -
  obtain s' where s': "rx_calls malloc cs s = Some s'" "netif_rel (malloc h0 1536 = None) h0 cur got s'"
    using rx_calls_rel [OF assms(1) _ netif_idle_rel [OF assms(2)] assms(3), of "malloc h0 1536 = None"] by blast
  then have "cur = None \<Longrightarrow> free_of_pbuf h0 s'" by (simp add: netif_idle)
  moreover have "subseq (delivered s') (filter good_frame got)" "malloc h0 1536 \<noteq> None \<longrightarrow> delivered s' = filter good_frame got"
    using s'(2) by (simp_all add: netif_rel_def)
  moreover have "free_of_pbuf h0 s' \<or> holds h0 (\<lambda>_. True) s'" using netif_owned [OF s'(2)] .
  ultimately show ?thesis using s'(1) by (auto simp: free_of_pbuf_def holds_def rx_pbuf_def)
qed


text \<open>
  C15. From the wire to the stack: when the chunks of an SPI transfer mean that the frames received so far are \<open>got'\<close>, then the callbacks that
  \<open>enqueue_rx_spi\<close> and the calls before it have made, run by the network interface, hand exactly the frames of \<open>got'\<close> between 42 and 1536 bytes
  to lwIP, each byte for byte and in the order of the wire.
\<close>

theorem spi_chunks_reach_the_stack:
  assumes "rx_rel cur got g" "0 < n" "68 * n < 65536" "68 * n \<le> length buff"
    and "\<forall>c \<in> set (rx_chunks n buff). rx_footer_ok c \<and> GET_VAL FTR_RTSA (drop 64 c) = 0"
    and "rx_accept_all (cur, got) (rx_chunks n buff) = Some (cur', got')"
    and "malloc_ok malloc" "malloc h0 1536 \<noteq> None" "netif_idle_state h0 s"
  shows "\<exists>s'. rx_calls malloc (calls (enqueue_rx_spi g buff (of_nat (68 * n)))) s = Some s' \<and> delivered s' = filter good_frame got'"
proof -
  have "rx_rel cur' got' (enqueue_rx_spi g buff (of_nat (68 * n)))"
    using enqueue_rx_loop_delivers [OF assms(1,4-6)] unfolding enqueue_rx_spi_loop [OF assms(2,3)] .
  then obtain c where "rx_assemble_all (None, []) (calls (enqueue_rx_spi g buff (of_nat (68 * n)))) = Some (c, got')"
    by (auto simp: rx_rel_def rx_trace_def split: option.splits)
  from netif_runs [OF assms(7,9) this] assms(8) show ?thesis by blast
qed

section \<open>Examples\<close>

definition lw_example :: lw where
  "lw_example = \<lparr>lw_pbuf = None, rxLen = 0, rxInvalid = False, tc6NeedService = False, heap = Map.empty, delivered = []\<rparr>"

lemma lw_example_idle: "netif_idle_state Map.empty lw_example"
  by (simp add: netif_idle_state_def lw_example_def)


theorem spi_chunks_reach_the_stack_witness:
  "\<exists>s'. rx_calls one_malloc (calls (enqueue_rx_spi rx_example rx_example_buffer (of_nat (68 * 3)))) lw_example = Some s' \<and>
     delivered s' = [replicate 64 3 @ replicate 6 4, replicate 56 4 @ replicate 10 5]"
  using spi_chunks_reach_the_stack [OF rx_example_rel _ _ _ _ rx_example_chunks(3) one_malloc_ok lw_example_idle]
    rx_example_chunks(1,2)
  by (simp add: list_all_iff good_frame_def del: GET_VAL.simps of_nat_mult)

section \<open>A failed allocation\<close>

text \<open>
  C40. A failed allocation can cost two frames: when no buffer is free for the first slice of a frame and that frame is then broken off
  by a receive error, which makes no packet event, \<open>rxInvalid\<close> stays set. The check for a stale buffer at the start of the
  next frame does not reset it, as there is no buffer, so this frame is dropped as well, even if memory is free by then.
\<close>

theorem failed_allocation_drops_next_frame:
  assumes "malloc (heap s) 1536 = None" "lw_pbuf s = None" "\<not> rxInvalid s" "length d \<le> 1536"
  shows "\<exists>s1. rx_calls malloc [OnRxEthernetSlice d 0 n, OnError err] s = Some s1 \<and> rxInvalid s1 \<and>
    (\<exists>s2. rx_calls malloc' [OnRxEthernetSlice d' 0 n', OnRxEthernetPacket True len t] s1 = Some s2 \<and> delivered s2 = delivered s)"
proof -
  have "LWIP_MEM_ALIGN_SIZE 0 = 0" "LWIP_MEM_ALIGN_SIZE 1536 = 1536" "LWIP_MEM_ALIGN_SIZE 16 = 16"
    by (simp_all add: LWIP_MEM_ALIGN_SIZE_def)
  then have "pbuf_alloc malloc (heap s) PBUF_RAW 1536 PBUF_RAM = Some (None, heap s)"
    using assms(1) by (simp add: pbuf_alloc_def)
  then have "rx_calls malloc [OnRxEthernetSlice d 0 n, OnError err] s = Some (s\<lparr>rxInvalid := True\<rparr>)"
    using assms(2-4) by (simp add: TC6_CB_OnRxEthernetSlice_def)
  moreover have "\<exists>s2. rx_calls malloc' [OnRxEthernetSlice d' 0 n', OnRxEthernetPacket True len t] (s\<lparr>rxInvalid := True\<rparr>) = Some s2 \<and>
      delivered s2 = delivered s"
    using assms(2) by (simp add: TC6_CB_OnRxEthernetSlice_def TC6_CB_OnRxEthernetPacket_def)
  ultimately show ?thesis by auto
qed

theorem failed_allocation_drops_next_frame_witness:
  "\<exists>s1. rx_calls (\<lambda>h n. None) [OnRxEthernetSlice (replicate 64 1) 0 64, OnError TC6Error_BadChecksum] lw_example = Some s1 \<and> rxInvalid s1 \<and>
    (\<exists>s2. rx_calls one_malloc [OnRxEthernetSlice (replicate 60 2) 0 60, OnRxEthernetPacket True 60 None] s1 = Some s2 \<and> delivered s2 = [])"
  using failed_allocation_drops_next_frame [of "\<lambda>h n. None" lw_example "replicate 64 1" 64 TC6Error_BadChecksum one_malloc "replicate 60 2" 60 60 None]
  by (simp add: lw_example_def)

end
