(* ===== verification/Arduino_Netif_Tx.thy ===== *)
theory Arduino_Netif_Tx
  imports Arduino_Netif_Rx Tc6_Wire
begin

text \<open>
  The other direction: what \<open>lwIpOut\<close> puts into the driver's transmit queue for a chain of packet buffers, with the reference it holds
  on the chain until the transmit callback. Then the interrupt counters and the list of interfaces.

  A segment is modelled with the bytes its pointer leads to at the time of the call. They are read when the frame is sent; until then the
  reference taken on the chain keeps the stack from changing it.
\<close>

section \<open>Sending a chain\<close>

text \<open>The segment that \<open>lwIpOut\<close> makes of a pbuf, and the segments of a chain.\<close>

definition pbuf_seg :: "heap \<Rightarrow> nat \<Rightarrow> TC6_RawTxSegment" where
  "pbuf_seg h x = (case h x of None \<Rightarrow> \<lparr>pEth = [], segLen = 0\<rparr> | Some b \<Rightarrow> \<lparr>pEth = drop (poff b) (pmem b), segLen = plen b\<rparr>)"

lemma lwIpOut_loop_segs:
  "plink h p ps \<Longrightarrow> ps \<noteq> [] \<Longrightarrow> 0 < n \<Longrightarrow> lwIpOut_loop h p n = Some (map (pbuf_seg h) (take n ps))"
proof (induction n arbitrary: p ps)
  case (Suc n)
  then obtain x xs b where x: "ps = x # xs" "p = Some x" "h x = Some b" "plink h (pnext b) xs"
    by (cases ps) (auto split: option.splits)
  then have seg: "pbuf_seg h x = \<lparr>pEth = drop (poff b) (pmem b), segLen = plen b\<rparr>" by (simp add: pbuf_seg_def)
  have nx: "xs = [] \<longleftrightarrow> pnext b = None" using x(4) by (cases xs) (auto split: option.splits)
  show ?case
  proof (cases "xs = [] \<or> n = 0")
    case True
    then show ?thesis using x seg nx by (auto simp: deref_def)
  next
    case False
    then have "lwIpOut_loop h (pnext b) n = Some (map (pbuf_seg h) (take n xs))" using Suc.IH [OF x(4)] by simp
    then show ?thesis using x seg nx False by (simp add: deref_def)
  qed
qed simp

lemma pbuf_seg_data: "concat (map (seg_data \<circ> pbuf_seg h) ps) = pdata h ps"
  by (induction ps) (auto simp: seg_data_def pbuf_seg_def bdata_def sub_at_def split: option.splits)

lemma pbuf_seg_fits: "pwf h ps \<Longrightarrow> x \<in> set ps \<Longrightarrow> unat (segLen (pbuf_seg h x)) \<le> length (pEth (pbuf_seg h x))"
  by (induction ps) (auto simp: pbuf_seg_def split: option.splits)

text \<open>The reference that \<open>lwIpOut\<close> takes changes nothing of the chain.\<close>

lemma ref_keeps_chain:
  assumes "plink h (Some p) ps" "h p = Some b"
  shows "plink (h(p \<mapsto> b\<lparr>ref := r\<rparr>)) (Some p) ps" "pwf (h(p \<mapsto> b\<lparr>ref := r\<rparr>)) ps = pwf h ps" "pbuf_seg (h(p \<mapsto> b\<lparr>ref := r\<rparr>)) = pbuf_seg h"
proof -
  obtain xs where ps: "ps = p # xs" "p \<notin> set xs" "plink h (pnext b) xs" using assms by (cases ps) auto
  then show "plink (h(p \<mapsto> b\<lparr>ref := r\<rparr>)) (Some p) ps" using chain_upd_out(2) [OF ps(2)] by simp
  show "pwf (h(p \<mapsto> b\<lparr>ref := r\<rparr>)) ps = pwf h ps" using ps chain_upd_out(1,3) [OF ps(2)] assms(2) by simp
  show "pbuf_seg (h(p \<mapsto> b\<lparr>ref := r\<rparr>)) = pbuf_seg h" using assms(2) by (auto simp: pbuf_seg_def)
qed

definition out_entry :: "tc6 \<Rightarrow> heap \<Rightarrow> nat \<Rightarrow> nat list \<Rightarrow> u16 \<Rightarrow> qtxeth" where
  "out_entry g h p ps len =
    \<lparr>priv = p, txCallback = Some lwIpOut_callback,
     ethSegs = map (pbuf_seg h) ps @ drop (length ps) (ethSegs (tx_buffer (eth_q g) ! qtxeth_stage1_enqueue_ptr (eth_q g))),
     totalLen = len, segCount = of_nat (length ps), tsc = 0\<rparr>"

lemma out_entry_segs: "length ps \<le> 8 \<Longrightarrow> segs (out_entry g h p ps len) = map (pbuf_seg h) ps"
  by (simp add: segs_def out_entry_def unat_u8_of_nat)

lemma out_entry_wf:
  assumes "core_ok g" "pwf h ps" "ps \<noteq> []" "length ps \<le> 8" "\<forall>x \<in> set ps. segLen (pbuf_seg h x) \<noteq> 0" "unat len = length (pdata h ps)"
  shows "wf_entry (out_entry g h p ps len)" "frame (out_entry g h p ps len) = pdata h ps" "length (ethSegs (out_entry g h p ps len)) = 8"
proof -
  show f: "frame (out_entry g h p ps len) = pdata h ps"
    using pbuf_seg_data [of h ps] by (simp add: frame_def out_entry_segs [OF assms(4)])
  show l: "length (ethSegs (out_entry g h p ps len)) = 8"
    using tx_slot [OF assms(1)] assms(4) by (simp add: out_entry_def)
  have "unat (segCount (out_entry g h p ps len)) = length ps" using assms(4) by (simp add: out_entry_def unat_u8_of_nat)
  then show "wf_entry (out_entry g h p ps len)"
    using assms(3-6) l f pbuf_seg_fits [OF assms(2)]
    by (auto simp: wf_entry_def out_entry_segs [OF assms(4)] list_all_iff word_neq_0_conv unat_gt_0) (simp add: out_entry_def)
qed

lemma lwIpOut_eq:
  assumes ok: "core_ok g" and gs: "\<not> sendWouldBlock g" and pl: "plink h (Some p) ps" and b: "h p = Some b" "ref b + 1 \<noteq> 0"
  defines "h1 \<equiv> h(p \<mapsto> b\<lparr>ref := ref b + 1\<rparr>)"
  defines "g1 \<equiv> g\<lparr>eth_q := qtxeth_put (out_entry g h p (take 8 ps) (tot_len b)) (eth_q g)\<rparr>"
  shows "lwIpOut spi g bus h p =
    (if intContext g then Some (ERR_OK, g1, bus, h1) else map_option (\<lambda>(_, g, bus). (ERR_OK, g, bus, h1)) (serviceData spi False g1 bus))"
proof -
  have seg: "TC6_GetRawSegments g = Some (8, ethSegs (tx_buffer (eth_q g) ! qtxeth_stage1_enqueue_ptr (eth_q g)))"
    using gs by (auto simp: sendWouldBlock_def TC6_GetRawSegments_def split: if_splits)
  have ps: "ps \<noteq> []" using pl by auto
  have "lwIpOut_loop h1 (Some p) 8 = Some (map (pbuf_seg h) (take 8 ps))"
    using lwIpOut_loop_segs [OF ref_keeps_chain(1) [OF pl b(1)] ps, of 8] ref_keeps_chain(3) [OF pl b(1)] by (simp add: h1_def)
  moreover have "pbuf_ref h (Some p) = Some h1" using b by (simp add: pbuf_ref_def h1_def)
  moreover have "h1 p = Some (b\<lparr>ref := ref b + 1\<rparr>)" by (simp add: h1_def)
  moreover have "\<lparr>priv = p, txCallback = Some lwIpOut_callback,
      ethSegs = map (pbuf_seg h) (take 8 ps) @ drop (length (take 8 ps)) (ethSegs (tx_buffer (eth_q g) ! qtxeth_stage1_enqueue_ptr (eth_q g))),
      totalLen = tot_len b, segCount = of_nat (length (take 8 ps)), tsc = 0\<rparr> = out_entry g h p (take 8 ps) (tot_len b)"
    by (simp add: out_entry_def)
  ultimately show ?thesis
    using segments_sent [OF ok seg, where ss = "map (pbuf_seg h) (take 8 ps) @ drop (length (take 8 ps)) (ethSegs (tx_buffer (eth_q g) ! qtxeth_stage1_enqueue_ptr (eth_q g)))"
        and k = "of_nat (length (take 8 ps))" and len = "tot_len b" and tc = 0 and cb = "Some lwIpOut_callback" and tg = p and spi = spi and h = bus]
    by (cases "serviceData spi False g1 bus") (auto simp: lwIpOut_def seg g1_def split: prod.splits)
qed

text \<open>What happens if a slot is free: the entry for the chain is put into the queue.\<close>

lemma lwIpOut_queues:
  fixes dev
  assumes "core_ok g" "pchain h (Some p) ps" "h p = Some b" "ref b + 1 \<noteq> 0" "length ps \<le> 8"
    and "\<forall>x \<in> set ps. segLen (pbuf_seg h x) \<noteq> 0" "\<not> sendWouldBlock g"
  defines "e \<equiv> out_entry g h p ps (tot_len b)" and "spi \<equiv> TC6_Io_spiTransaction dev"
  defines "g1 \<equiv> g\<lparr>eth_q := qtxeth_put e (eth_q g)\<rparr>"
  shows "\<exists>g' bus'. lwIpOut spi g bus h p = Some (ERR_OK, g', bus', h(p \<mapsto> b\<lparr>ref := ref b + 1\<rparr>)) \<and> core_ok g' \<and>
      (if intContext g then g' = g1 \<and> bus' = bus else \<exists>s. serviceData spi False g1 bus = Some (s, g', bus'))"
    and "qtxeth_list (eth_q g1) = qtxeth_list (eth_q g) @ [e]" and "frame e = pdata h ps"
proof -
  have ps: "ps \<noteq> []" "unat (tot_len b) = length (pdata h ps)"
    using assms(2,3) by (cases ps; auto simp: length_bdata)+
  note wf = out_entry_wf [OF assms(1) _ ps(1) assms(5,6) ps(2), where p = p, folded e_def]
  have room: "qtxeth_stage1_enqueue_ready (eth_q g)" using assms(7) by (simp add: sendWouldBlock_def TC6_GetRawSegments_def split: if_splits)
  have ok1: "core_ok g1" using core_ok_put [OF assms(1) _ _ room] wf assms(2) by (simp add: g1_def)
  show "qtxeth_list (eth_q g1) = qtxeth_list (eth_q g) @ [e]"
    using tx_ok_put(2) [OF core_okD(1) [OF assms(1)] _ room, of e] wf assms(2) by (simp add: g1_def)
  show "frame e = pdata h ps" using wf(2) assms(2) by blast
  obtain s g' bus' where r: "serviceData spi False g1 bus = Some (s, g', bus')" "core_ok g'"
    using io.serviceData_core_ok [OF ok1, of dev False bus] unfolding spi_def by blast
  then show "\<exists>g' bus'. lwIpOut spi g bus h p = Some (ERR_OK, g', bus', h(p \<mapsto> b\<lparr>ref := ref b + 1\<rparr>)) \<and> core_ok g' \<and>
      (if intContext g then g' = g1 \<and> bus' = bus else \<exists>s. serviceData spi False g1 bus = Some (s, g', bus'))"
    using lwIpOut_eq [OF assms(1,7) conjunct1 [OF assms(2)] assms(3,4), of spi bus] ok1 assms(5) by (auto simp: e_def g1_def)
qed

text \<open>
  C17. \<open>lwIpOut\<close> sends what it is given: if no transmit slot is free the call changes nothing and returns \<open>ERR_WOULDBLOCK\<close>. Otherwise, for a
  chain of at most eight non-empty packet buffers, it returns \<open>ERR_OK\<close>, exactly one entry is added behind the frames that wait, whose frame
  is the data of the chain, and the data service is run on it unless the call comes from an interrupt. The reference it takes on the chain is
  given back by the callback of that entry.
\<close>

theorem lwIpOut_sends:
  fixes dev
  assumes "core_ok g" "pchain h (Some p) ps" "h p = Some b" "ref b \<noteq> 0" "ref b + 1 \<noteq> 0" "length ps \<le> 8"
    and "\<forall>x \<in> set ps. segLen (pbuf_seg h x) \<noteq> 0"
  defines "h1 \<equiv> h(p \<mapsto> b\<lparr>ref := ref b + 1\<rparr>)" and "spi \<equiv> TC6_Io_spiTransaction dev"
  shows "if sendWouldBlock g then lwIpOut spi g bus h p = Some (ERR_WOULDBLOCK, g, bus, h)
    else \<exists>g' bus' g1 e. lwIpOut spi g bus h p = Some (ERR_OK, g', bus', h1) \<and> core_ok g' \<and>
      qtxeth_list (eth_q g1) = qtxeth_list (eth_q g) @ [e] \<and> frame e = pdata h ps \<and>
      (if intContext g then g' = g1 \<and> bus' = bus else \<exists>s. serviceData spi False g1 bus = Some (s, g', bus')) \<and>
      tx_note e = [TxCallback lwIpOut_callback (pEth (ethSegs e ! 0)) (tot_len b) p] \<and> lwIpOut_done h1 p = Some h"
proof (cases "sendWouldBlock g")
  case True
  then show ?thesis by (simp add: sendWouldBlock_def lwIpOut_def)
next
  case False
  let ?e = "out_entry g h p ps (tot_len b)"
  have "tx_note ?e = [TxCallback lwIpOut_callback (pEth (ethSegs ?e ! 0)) (tot_len b) p]" by (simp add: tx_note_def out_entry_def)
  moreover have "lwIpOut_done h1 p = Some h"
    using assms(3-5) by (simp add: lwIpOut_done_def pbuf_free_def h1_def fun_upd_idem_iff) (subst pbuf_free_loop.simps, auto simp: fun_upd_idem_iff)
  ultimately show ?thesis
    using lwIpOut_queues(1) [OF assms(1-3,5-7) False, of dev bus, folded h1_def spi_def] lwIpOut_queues(2,3) [OF assms(1-3,5-7) False]
    unfolding if_not_P [OF False] by blast
qed

text \<open>
  C39. A chain of more than eight packet buffers is sent short: \<open>lwIpOut\<close> stops filling segments after the eighth but announces the length of
  the whole chain. The entry it queues, with the result \<open>ERR_OK\<close>, then holds only the data of the first eight buffers and breaks what the transmit path
  relies on.
\<close>

theorem lwIpOut_truncates:
  assumes "core_ok g" "\<not> sendWouldBlock g" "pchain h (Some p) ps" "h p = Some b" "ref b + 1 \<noteq> 0" "8 < length ps"
    and "\<forall>x \<in> set ps. segLen (pbuf_seg h x) \<noteq> 0"
  shows "\<exists>e h1. lwIpOut spi (g\<lparr>intContext := True\<rparr>) bus h p =
      Some (ERR_OK, g\<lparr>intContext := True, eth_q := qtxeth_put e (eth_q g)\<rparr>, bus, h1) \<and>
    frame e = pdata h (take 8 ps) \<and> totalLen e = tot_len b \<and> length (frame e) < unat (totalLen e) \<and> \<not> wf_entry e"
proof -
  let ?g = "g\<lparr>intContext := True\<rparr>"
  define e where "e = out_entry ?g h p (take 8 ps) (tot_len b)"
  have ok: "core_ok ?g" using core_ok_cong [of g ?g] assms(1) by simp
  have "\<not> sendWouldBlock ?g" using assms(2) by (simp add: sendWouldBlock_def TC6_GetRawSegments_def split: if_splits)
  note eq = lwIpOut_eq [OF ok this conjunct1 [OF assms(3)] assms(4,5), of spi bus, folded e_def]
  have f: "frame e = pdata h (take 8 ps)"
    using pbuf_seg_data [of h "take 8 ps"] by (simp add: frame_def e_def out_entry_segs)
  obtain x xs where x: "drop 8 ps = x # xs" "x \<in> set ps" using assms(6) by (metis drop_eq_Nil in_set_dropD list.exhaust list.set_intros(1) not_le)
  have "pwf h (take 8 ps @ drop 8 ps)" using assms(3) by simp
  then have "pwf h (x # xs)" using pwf_append x(1) by metis
  then have "pdata h (drop 8 ps) \<noteq> []"
    using x assms(7) by (auto simp: pbuf_seg_def length_bdata unat_gt_0 simp flip: length_greater_0_conv split: option.splits)
  moreover have "pdata h ps = pdata h (take 8 ps) @ pdata h (drop 8 ps)" by (simp flip: pdata_append)
  moreover have "unat (tot_len b) = length (pdata h ps)" using assms(3,4) by (cases ps) (auto simp: length_bdata)
  ultimately have "length (frame e) < unat (tot_len b)" by (simp add: f)
  moreover have "totalLen e = tot_len b" by (simp add: e_def out_entry_def)
  ultimately show ?thesis using f eq by (intro exI [of _ e]) (auto simp: wf_entry_def)
qed

section \<open>Interrupts\<close>

lemma onInterrupt_pow: "(onInterrupt ^^ n) io = io\<lparr>int_in := int_in io + of_nat n\<rparr>"
  by (induction n) (simp_all add: onInterrupt_def add.assoc add.commute [of 1])

text \<open>
  Interrupts are not lost while one is served: if \<open>n\<close> interrupts come in between the query and the release, the next query reports an
  interrupt exactly if the pin is still low and the counts differ, or it was released and \<open>n\<close> is not a multiple of 256, the width of the counters.
\<close>

theorem interrupt_not_lost:
  "fst (isInterruptActive (releaseInterrupt irq_high ((onInterrupt ^^ n) (snd (isInterruptActive io))))) \<longleftrightarrow>
    (if irq_high then n mod 256 \<noteq> 0 else (unat (int_in io - int_out io) + n) mod 256 \<noteq> 0)"
proof -
  have z: "(of_nat n :: u8) = 0 \<longleftrightarrow> n mod 256 = 0" for n by (simp add: word_unat_eq_iff unat_of_nat)
  have "int_in io + of_nat n = int_out io \<longleftrightarrow> of_nat (unat (int_in io - int_out io) + n) = (0 :: u8)"
    by (auto simp: algebra_simps)
  then show ?thesis by (simp add: isInterruptActive_def releaseInterrupt_def onInterrupt_pow z Let_def del: of_nat_add)
qed

section \<open>The list of interfaces\<close>

text \<open>
  Only the first interface is ever found: \<open>begin\<close> links its node only into an empty list, so the callbacks of a second TC6 instance do not find
  their context.
\<close>

theorem second_interface_not_found:
  assumes "t \<noteq> t1"
  shows "GetContextTC6 (begin_link (lw1, t1) []) t1 = Some lw1 \<and> GetContextTC6 (begin_link (lw2, t) (begin_link (lw1, t1) [])) t = None"
  using assms by (simp add: begin_link_def GetContextTC6_def)

theorem second_interface_not_found_witness:
  "GetContextTC6 (begin_link (10, 1) []) 1 = Some 10 \<and> GetContextTC6 (begin_link (20, 2) (begin_link (10, 1) [])) 2 = None"
  using second_interface_not_found [of 2 1 10 20] by simp

section \<open>Examples of sending\<close>

lemma wire_example_free: "\<not> sendWouldBlock wire_example" "\<not> intContext wire_example"
  by code_simp+

text \<open>A chain of nine buffers of one byte.\<close>

definition nine_pbufs :: heap where
  "nine_pbufs x = (if 3 \<le> x \<and> x < 12
     then Some ((pbuf_init_alloced_pbuf [of_nat x] 0 (of_nat (12 - x)) 1 PBUF_REF 0)\<lparr>pnext := if x = 11 then None else Some (x + 1)\<rparr>) else None)"

lemma nine_pbufs: "pchain nine_pbufs (Some 3) [3, 4, 5, 6, 7, 8, 9, 10, 11]" "pdata nine_pbufs (take 8 [3, 4, 5, 6, 7, 8, 9, 10, 11]) = [3, 4, 5, 6, 7, 8, 9, 10]"
  by code_simp+

theorem lwIpOut_sends_witness:
  "\<exists>g' bus' g1 e h1. lwIpOut (TC6_Io_spiTransaction (\<lambda>n tx. (tx, n + 1))) wire_example (0 :: nat) two_pbufs 3 = Some (ERR_OK, g', bus', h1) \<and>
     core_ok g' \<and> qtxeth_list (eth_q (g1 :: tc6)) = qtxeth_list (eth_q wire_example) @ [e] \<and> frame e = [1, 2, 3, 4, 5, 6, 7] \<and>
     lwIpOut_done h1 3 = Some two_pbufs"
proof -
  define b where "b = (pbuf_init_alloced_pbuf [0, 0, 1, 2, 3, 4] 2 7 4 PBUF_POOL 0)\<lparr>pnext := Some 5\<rparr>"
  have b: "two_pbufs 3 = Some b" "ref b \<noteq> 0" "ref b + 1 \<noteq> 0"
    by (simp_all add: two_pbufs_def b_def pbuf_init_alloced_pbuf_def)
  have l: "length [3, 5 :: nat] \<le> 8" "\<forall>x \<in> set [3, 5]. segLen (pbuf_seg two_pbufs x) \<noteq> 0"
    by (simp_all add: pbuf_seg_def two_pbufs_def pbuf_init_alloced_pbuf_def)
  show ?thesis
    using lwIpOut_sends [OF wire_example(1) two_pbufs(1) b l, of "\<lambda>n tx. (tx, n + 1)" "0 :: nat"]
    unfolding if_not_P [OF wire_example_free(1)] two_pbufs(3) by blast
qed

theorem lwIpOut_truncates_witness:
  "\<exists>e h1. lwIpOut (TC6_Io_spiTransaction (\<lambda>n tx. (tx, n + 1))) (wire_example\<lparr>intContext := True\<rparr>) (0 :: nat) nine_pbufs 3 =
      Some (ERR_OK, wire_example\<lparr>intContext := True, eth_q := qtxeth_put e (eth_q wire_example)\<rparr>, 0, h1) \<and>
    frame e = [3, 4, 5, 6, 7, 8, 9, 10] \<and> totalLen e = 9 \<and> \<not> wf_entry e"
proof -
  define b where "b = (pbuf_init_alloced_pbuf [3] 0 9 1 PBUF_REF 0)\<lparr>pnext := Some 4\<rparr>"
  have b: "nine_pbufs 3 = Some b" "ref b + 1 \<noteq> 0" "tot_len b = 9"
    by (simp_all add: nine_pbufs_def b_def pbuf_init_alloced_pbuf_def)
  have l: "8 < length [3, 4, 5, 6, 7, 8, 9, 10, 11 :: nat]" "\<forall>x \<in> set [3, 4, 5, 6, 7, 8, 9, 10, 11]. segLen (pbuf_seg nine_pbufs x) \<noteq> 0"
    by (simp_all add: pbuf_seg_def nine_pbufs_def pbuf_init_alloced_pbuf_def)
  show ?thesis
    using lwIpOut_truncates [OF wire_example(1) wire_example_free(1) nine_pbufs(1) b(1,2) l,
        of "TC6_Io_spiTransaction (\<lambda>n tx. (tx, n + 1))" "0 :: nat"]
    unfolding nine_pbufs(2) b(3) by blast
qed

end
