(* ===== verification/Arduino_Udp.thy ===== *)
theory Arduino_Udp
  imports Lwip_Pbuf_Chain
begin

text \<open>
  The UDP socket of the Arduino interface (\<open>Arduino_10BASE_T1S_UDP\<close>): a vector of bytes to be sent, a list of received datagrams and the one that is being
  read. The UDP layer of lwIP is a parameter (\<open>udp_api\<close>); what is relied on of it is \<open>sendto_keeps\<close>. The multicast functions
  only pass an address on to lwIP and are left out.
\<close>

section \<open>State\<close>

type_synonym ip_address = "u8 \<times> u8 \<times> u8 \<times> u8"

record UdpRxPacket =
  remote_ip :: ip_address
  remote_port :: u16
  rx_data_len :: nat
  rx_data :: bytes

record udp =
  udp_pcb :: "nat option"
  send_to_ip :: ip_address
  send_to_port :: u16
  tx_data :: bytes
  tx_allocated :: bool
  rx_pkt_list_size :: "32 word"
  rx_pkt_list :: "UdpRxPacket list"
  rx_pkt :: "UdpRxPacket option"

text \<open>\<open>tx_allocated\<close>: the vector has memory, so that its \<open>data()\<close> is not null; \<open>clear()\<close> keeps the memory.\<close>

definition udp_construct :: udp where
  "udp_construct = \<lparr>udp_pcb = None, send_to_ip = (0, 0, 0, 0), send_to_port = 0, tx_data = [], tx_allocated = False, rx_pkt_list_size = 10, rx_pkt_list = [], rx_pkt = None\<rparr>"

text \<open>
  The functions of lwIP that the class calls, on the state \<open>'s\<close> of the stack: \<open>udp_new\<close>, \<open>udp_bind\<close>, \<open>udp_recv\<close>, \<open>udp_disconnect\<close> with
  \<open>udp_remove\<close>, and \<open>udp_sendto\<close>, which gets the pbuf in the heap.
\<close>

record 's udp_api =
  api_new :: "'s \<Rightarrow> nat option \<times> 's"
  api_bind :: "nat option \<Rightarrow> u16 \<Rightarrow> 's \<Rightarrow> err_t \<times> 's"
  api_recv :: "nat option \<Rightarrow> 's \<Rightarrow> 's"
  api_remove :: "nat option \<Rightarrow> 's \<Rightarrow> 's"
  api_sendto :: "nat option \<Rightarrow> nat \<Rightarrow> ip_address \<Rightarrow> u16 \<Rightarrow> heap \<Rightarrow> 's \<Rightarrow> err_t \<times> heap \<times> 's"

section \<open>Opening and closing\<close>

definition udp_begin :: "'s udp_api \<Rightarrow> u16 \<Rightarrow> udp \<Rightarrow> 's \<Rightarrow> u8 \<times> udp \<times> 's" where
  "udp_begin api port u s =
    (let (u, s) = (if udp_pcb u = None then (case api_new api s of (pcb, s) \<Rightarrow> (u\<lparr>udp_pcb := pcb\<rparr>, s)) else (u, s));
         (err, s) = api_bind api (udp_pcb u) port s
     in if err \<noteq> ERR_OK then (0, u, s) else (1, u, api_recv api (udp_pcb u) s))"

definition udp_stop :: "'s udp_api \<Rightarrow> udp \<Rightarrow> 's \<Rightarrow> udp \<times> 's" where
  "udp_stop api u s = (if udp_pcb u \<noteq> None then (u\<lparr>udp_pcb := None\<rparr>, api_remove api (udp_pcb u) s) else (u, s))"

section \<open>Sending\<close>

definition beginPacket :: "ip_address \<Rightarrow> u16 \<Rightarrow> udp \<Rightarrow> int \<times> udp" where
  "beginPacket ip port u =
    (if udp_pcb u = None then (0, u) else (1, u\<lparr>send_to_ip := ip, send_to_port := port, tx_data := []\<rparr>))"

definition beginPacket_host :: "string \<Rightarrow> u16 \<Rightarrow> udp \<Rightarrow> int \<times> udp" where
  "beginPacket_host host port u = (0, u)"

definition udp_write1 :: "u8 \<Rightarrow> udp \<Rightarrow> nat \<times> udp" where
  "udp_write1 d u = (1, u\<lparr>tx_data := tx_data u @ [d], tx_allocated := True\<rparr>)"

definition udp_write :: "bytes \<Rightarrow> udp \<Rightarrow> nat \<times> udp" where
  "udp_write buffer u = (length buffer, u\<lparr>tx_data := tx_data u @ buffer, tx_allocated := (tx_allocated u \<or> buffer \<noteq> [])\<rparr>)"

text \<open>The size of the vector is cut to the \<open>u16_t\<close> of the pbuf functions.\<close>

definition endPacket :: "malloc \<Rightarrow> 's udp_api \<Rightarrow> udp \<Rightarrow> heap \<Rightarrow> 's \<Rightarrow> (int \<times> udp \<times> heap \<times> 's) option" where
  "endPacket malloc api u h s =
    (if udp_pcb u = None then Some (0, u, h, s)
     else do {
       let n = (of_nat (length (tx_data u)) :: u16);
       (p, h) \<leftarrow> pbuf_alloc malloc h PBUF_TRANSPORT n PBUF_RAM;
       case p of None \<Rightarrow> Some (0, u, h, s)
       | Some a \<Rightarrow> do {
           (err, h) \<leftarrow> (if tx_allocated u then pbuf_take h p (take (unat n) (tx_data u)) else Some (ERR_ARG, h));
           if err \<noteq> ERR_OK then do { (_, h) \<leftarrow> pbuf_free h p; Some (- 1, u, h, s) }
           else do {
             let u = u\<lparr>tx_data := []\<rparr>;
             let (err, h, s) = api_sendto api (udp_pcb u) a (send_to_ip u) (send_to_port u) h s;
             (_, h) \<leftarrow> pbuf_free h p;
             Some (if err \<noteq> ERR_OK then - 1 else 1, u, h, s)
           }
         }
     })"

section \<open>A received packet\<close>

text \<open>\<open>None\<close> is \<open>front\<close> or \<open>pop_front\<close> on an empty deque, which is undefined.\<close>

definition pkt_available :: "UdpRxPacket \<Rightarrow> int" where
  "pkt_available k = int (length (rx_data k))"

definition pkt_read :: "UdpRxPacket \<Rightarrow> (int \<times> UdpRxPacket) option" where
  "pkt_read k = (case rx_data k of [] \<Rightarrow> None | d # ds \<Rightarrow> Some (uint d, k\<lparr>rx_data := ds\<rparr>))"

fun pkt_read_loop :: "nat \<Rightarrow> bytes \<Rightarrow> bytes \<times> bytes" where
  "pkt_read_loop 0 ds = ([], ds)"
| "pkt_read_loop (Suc len) [] = ([], [])"
| "pkt_read_loop (Suc len) (d # ds) = (case pkt_read_loop len ds of (out, rest) \<Rightarrow> (d # out, rest))"

definition pkt_read_buf :: "nat \<Rightarrow> UdpRxPacket \<Rightarrow> int \<times> bytes \<times> UdpRxPacket" where
  "pkt_read_buf len k = (case pkt_read_loop len (rx_data k) of (out, rest) \<Rightarrow> (int (length out), out, k\<lparr>rx_data := rest\<rparr>))"

definition pkt_peek :: "UdpRxPacket \<Rightarrow> int option" where
  "pkt_peek k = (case rx_data k of [] \<Rightarrow> None | d # ds \<Rightarrow> Some (uint d))"

section \<open>Receiving\<close>

definition parsePacket :: "udp \<Rightarrow> int \<times> udp" where
  "parsePacket u = (case rx_pkt_list u of
     k # ks \<Rightarrow> (int (rx_data_len k), u\<lparr>rx_pkt := Some k, rx_pkt_list := ks\<rparr>)
   | [] \<Rightarrow> (0, u\<lparr>rx_pkt := None\<rparr>))"

definition udp_available :: "udp \<Rightarrow> int" where
  "udp_available u = (case rx_pkt u of Some k \<Rightarrow> pkt_available k | None \<Rightarrow> 0)"

definition udp_read :: "udp \<Rightarrow> (int \<times> udp) option" where
  "udp_read u = (case rx_pkt u of
     Some k \<Rightarrow> map_option (\<lambda>(d, k). (d, u\<lparr>rx_pkt := Some k\<rparr>)) (pkt_read k)
   | None \<Rightarrow> Some (- 1, u))"

definition udp_read_buf :: "nat \<Rightarrow> udp \<Rightarrow> int \<times> bytes \<times> udp" where
  "udp_read_buf len u = (case rx_pkt u of
     Some k \<Rightarrow> (case pkt_read_buf len k of (n, out, k) \<Rightarrow> (n, out, u\<lparr>rx_pkt := Some k\<rparr>))
   | None \<Rightarrow> (- 1, [], u))"

definition udp_peek :: "udp \<Rightarrow> int option" where
  "udp_peek u = (case rx_pkt u of Some k \<Rightarrow> pkt_peek k | None \<Rightarrow> Some (- 1))"

definition udp_flush :: "udp \<Rightarrow> udp" where
  "udp_flush u = (if rx_pkt u \<noteq> None then u\<lparr>rx_pkt := None\<rparr> else u)"

definition remoteIP :: "udp \<Rightarrow> ip_address" where
  "remoteIP u = (case rx_pkt u of Some k \<Rightarrow> remote_ip k | None \<Rightarrow> (0, 0, 0, 0))"

definition remotePort :: "udp \<Rightarrow> u16" where
  "remotePort u = (case rx_pkt u of Some k \<Rightarrow> remote_port k | None \<Rightarrow> 0)"

definition bufferSize :: "32 word \<Rightarrow> udp \<Rightarrow> udp" where
  "bufferSize n u = u\<lparr>rx_pkt_list_size := n\<rparr>"

text \<open>The comparison of the list's size with the \<open>int\<close> is unsigned.\<close>

definition onUdpRawRecv :: "heap \<Rightarrow> nat \<Rightarrow> ip_address \<Rightarrow> u16 \<Rightarrow> udp \<Rightarrow> (udp \<times> heap) option" where
  "onUdpRawRecv h p addr port u = do {
     b \<leftarrow> h p;
     data \<leftarrow> pread b 0 (unat (plen b));
     let k = \<lparr>remote_ip = addr, remote_port = port, rx_data_len = unat (plen b), rx_data = data\<rparr>;
     let u = (if length (rx_pkt_list u) > unat (rx_pkt_list_size u) then u\<lparr>rx_pkt_list := tl (rx_pkt_list u)\<rparr> else u);
     let u = u\<lparr>rx_pkt_list := rx_pkt_list u @ [k]\<rparr>;
     (_, h) \<leftarrow> pbuf_free h (Some p);
     Some (u, h)
   }"

section \<open>What a packet carries\<close>

text \<open>
  \<open>udp_sendto\<close> leaves the caller its reference to the pbuf: it may put headers in front of the data and keep references of its own,
  but the buffer is still there afterwards, for the caller to free.
\<close>

definition sendto_keeps :: "'s udp_api \<Rightarrow> bool" where
  "sendto_keeps api \<longleftrightarrow> (\<forall>pcb a ip port h s. plink h (Some a) [a] \<and> freeable h a \<longrightarrow>
     (case api_sendto api pcb a ip port h s of (err, h', s') \<Rightarrow> plink h' (Some a) [a] \<and> freeable h' a))"

lemma pbuf_free_single: "plink h (Some a) [a] \<Longrightarrow> freeable h a \<Longrightarrow> \<exists>n. pbuf_free h (Some a) = Some (n, freed h [a])"
  using pbuf_free_loop_freed [of h "Some a" "[a]" 0] by (simp add: pbuf_free_def del: plink.simps freed.simps)

text \<open>
  C25. \<open>endPacket\<close> sends exactly the bytes written since \<open>beginPacket\<close>, if any: if a buffer can be allocated, \<open>udp_sendto\<close> is called once, with the address and
  port given and a pbuf of its own that holds the written bytes; the transmit buffer is emptied, the reference to the
  pbuf is given up, and the result is 1, or -1 if lwIP reports an error. If none can be allocated, nothing changes and the result is 0.
\<close>

theorem udp_sends_what_was_written:
  fixes ip port
  assumes "malloc_ok malloc" "sendto_keeps api" "udp_pcb u = Some pcb" "concat bufs \<noteq> []" "length (concat bufs) < 65536"
  defines "u1 \<equiv> fold (\<lambda>buf u. snd (udp_write buf u)) bufs (snd (beginPacket ip port u))"
  shows "(\<exists>n. malloc h n = None) \<and> endPacket malloc api u1 h s = Some (0, u1, h, s) \<or>
    (\<exists>a h1. h a = None \<and> pchain h1 (Some a) [a] \<and> pdata h1 [a] = concat bufs \<and> (\<forall>x. x \<noteq> a \<longrightarrow> h1 x = h x) \<and>
      (case api_sendto api (Some pcb) a ip port h1 s of (err, h2, s2) \<Rightarrow>
         endPacket malloc api u1 h s = Some (if err = ERR_OK then 1 else - 1, u1\<lparr>tx_data := []\<rparr>, freed h2 [a], s2)))"
proof -
  have "fold (\<lambda>buf u. snd (udp_write buf u)) bufs v =
      v\<lparr>tx_data := tx_data v @ concat bufs, tx_allocated := (tx_allocated v \<or> concat bufs \<noteq> [])\<rparr>" for v
    by (induction bufs arbitrary: v) (auto simp add: udp_write_def)
  then have u1: "tx_data u1 = concat bufs" "send_to_ip u1 = ip" "send_to_port u1 = port" "udp_pcb u1 = Some pcb" "tx_allocated u1"
    using assms(3,4) by (simp_all add: u1_def beginPacket_def)
  define n where "n = (of_nat (length (concat bufs)) :: u16)"
  have n: "unat n = length (concat bufs)" using assms(5) by (simp add: n_def unat_u16_of_nat)
  obtain p h0 where al: "pbuf_alloc malloc h PBUF_TRANSPORT n PBUF_RAM = Some (p, h0)"
    "case p of None \<Rightarrow> h0 = h \<and> (\<exists>n. malloc h n = None) | Some a \<Rightarrow> h a = None \<and> (\<exists>m off. h0 = h(a \<mapsto> pbuf_init_alloced_pbuf m off n n PBUF_RAM 0)) \<and>
        pchain h0 p [a] \<and> freeable h0 a \<and> length (pdata h0 [a]) = unat n"
    using pbuf_alloc_ram [OF assms(1), of h PBUF_TRANSPORT n] by blast
  show ?thesis
  proof (cases p)
    case None
    then show ?thesis using al u1 by (simp add: endPacket_def n_def [symmetric])
  next
    case (Some a)
    then have a: "h a = None" "pchain h0 (Some a) [a]" "length (concat bufs) = length (pdata h0 [a])" "\<forall>x. x \<noteq> a \<longrightarrow> h0 x = h x"
      using al(2) n by (auto simp del: pdata_simps)
    then obtain h1 where h1: "pbuf_take h0 (Some a) (concat bufs) = Some (ERR_OK, h1)" "pchain h1 (Some a) [a]" "pdata h1 [a] = concat bufs"
      "\<forall>y. y \<notin> {a} \<longrightarrow> h1 y = h0 y" "\<forall>y. freeable h1 y = freeable h0 y"
      using pbuf_take_data [OF a(2), of "concat bufs"] by (auto simp del: pdata_simps plink.simps pwf.simps)
    obtain err h2 s2 where st: "api_sendto api (Some pcb) a ip port h1 s = (err, h2, s2)" by (metis prod_cases3)
    have "plink h1 (Some a) [a] \<and> freeable h1 a" using h1(2,5) al(2) Some by (simp del: plink.simps)
    then have "plink h2 (Some a) [a]" "freeable h2 a" using assms(2) st unfolding sendto_keeps_def by (metis (mono_tags, lifting) case_prod_conv)+
    then obtain c where "pbuf_free h2 (Some a) = Some (c, freed h2 [a])" using pbuf_free_single by blast
    then have "endPacket malloc api u1 h s = Some (if err = ERR_OK then 1 else - 1, u1\<lparr>tx_data := []\<rparr>, freed h2 [a], s2)"
      using al(1) Some h1(1) st u1 n by (simp add: endPacket_def n_def [symmetric] del: freed.simps)
    then show ?thesis
      using a(1,4) h1(2-4) st
      by - (rule disjI2, rule exI [of _ a], rule exI [of _ h1], simp del: freed.simps plink.simps pwf.simps pdata_simps)
  qed
qed

section \<open>What the application reads\<close>

text \<open>Arrivals of datagrams, one call of \<open>onUdpRawRecv\<close> after the other, and a series of reads of the current packet.\<close>

fun udp_arrivals :: "heap \<Rightarrow> (nat \<times> ip_address \<times> u16) list \<Rightarrow> udp \<Rightarrow> (udp \<times> heap) option" where
  "udp_arrivals h [] u = Some (u, h)"
| "udp_arrivals h ((p, ip, port) # as) u = Option.bind (onUdpRawRecv h p ip port u) (\<lambda>(u, h). udp_arrivals h as u)"

fun udp_reads :: "nat list \<Rightarrow> udp \<Rightarrow> bytes \<times> udp" where
  "udp_reads [] u = ([], u)"
| "udp_reads (n # ns) u = (case udp_read_buf n u of (_, out, u) \<Rightarrow> case udp_reads ns u of (outs, u) \<Rightarrow> (out @ outs, u))"

definition datagram :: "heap \<Rightarrow> nat \<times> ip_address \<times> u16 \<Rightarrow> UdpRxPacket" where
  "datagram h = (\<lambda>(p, ip, port). \<lparr>remote_ip = ip, remote_port = port, rx_data_len = length (pdata h [p]), rx_data = pdata h [p]\<rparr>)"

definition newest :: "nat \<Rightarrow> 'a list \<Rightarrow> 'a list" where
  "newest n xs = drop (length xs - n) xs"

lemma newest_append: "newest n (newest n xs @ ys) = newest n (xs @ ys)"
proof (cases "length xs \<le> n")
  case False
  then have "length xs - (length xs - n) = n" by simp
  moreover have "length xs + length ys - n - length xs = length ys - n" "length xs - n + (n + length ys - n) = length xs + length ys - n"
    using False by simp_all
  ultimately show ?thesis by (simp add: newest_def add.commute)
qed (simp add: newest_def)

text \<open>A packet buffer with one user, not in a chain.\<close>

definition lone :: "heap \<Rightarrow> nat \<Rightarrow> bool" where
  "lone h p \<longleftrightarrow> pchain h (Some p) [p] \<and> freeable h p \<and> single h p"

lemma lone_cong: "h' p = h p \<Longrightarrow> lone h' p = lone h p"
  by (auto simp: lone_def freeable_def single_def split: option.splits)

lemma length_newest: "length (newest n xs) = min n (length xs)"
  by (simp add: newest_def)

lemma onUdpRawRecv_single:
  assumes "lone h p" "length (rx_pkt_list u) \<le> Suc (unat (rx_pkt_list_size u))"
  shows "onUdpRawRecv h p ip port u =
    Some (u\<lparr>rx_pkt_list := newest (Suc (unat (rx_pkt_list_size u))) (rx_pkt_list u @ [datagram h (p, ip, port)])\<rparr>, h(p := None))"
proof -
  obtain b where b: "h p = Some b" "poff b + unat (plen b) \<le> length (pmem b)" "pnext b = None" using assms(1) by (cases "h p") (auto simp: lone_def)
  have "pbuf_free h (Some p) = Some (1, h(p := None))"
    using pbuf_free_loop_freed [of h "Some p" "[p]" 0] assms(1) by (simp add: pbuf_free_def lone_def)
  then show ?thesis
    using b assms(2) by (auto simp: onUdpRawRecv_def pread_def datagram_def bdata_def newest_def Let_def le_Suc_eq drop_Suc)
qed

lemma udp_arrivals_queue:
  assumes "distinct (map fst as)" "\<forall>p \<in> fst ` set as. lone h p"
    and "length (rx_pkt_list u) \<le> Suc (unat (rx_pkt_list_size u))"
  shows "udp_arrivals h as u = Some (u\<lparr>rx_pkt_list := newest (Suc (unat (rx_pkt_list_size u))) (rx_pkt_list u @ map (datagram h) as)\<rparr>,
    \<lambda>x. if x \<in> fst ` set as then None else h x)"
  using assms
proof (induction as arbitrary: h u)
  case Nil
  then show ?case by (simp add: newest_def)
next
  case (Cons a as)
  obtain p ip port where a: "a = (p, ip, port)" by (cases a)
  let ?n = "Suc (unat (rx_pkt_list_size u))"
  define u1 where "u1 = u\<lparr>rx_pkt_list := newest ?n (rx_pkt_list u @ [datagram h a])\<rparr>"
  define h1 where "h1 = h(p := None)"
  have step: "onUdpRawRecv h p ip port u = Some (u1, h1)"
    unfolding u1_def h1_def a by (rule onUdpRawRecv_single) (use Cons.prems a in auto)
  have same: "h1 q = h q" if "q \<in> fst ` set as" for q using that Cons.prems(1) a by (auto simp: h1_def)
  have p1: "\<forall>q \<in> fst ` set as. lone h1 q"
    using Cons.prems(2) same lone_cong [of h1 _ h] by auto
  have l1: "length (rx_pkt_list u1) \<le> Suc (unat (rx_pkt_list_size u1))" by (simp add: u1_def length_newest)
  have d1: "distinct (map fst as)" using Cons.prems(1) by simp
  have m: "map (datagram h1) as = map (datagram h) as" using same by (force simp: datagram_def pdata_def)
  have "(\<lambda>x. if x \<in> fst ` set as then None else h1 x) = (\<lambda>x. if x \<in> fst ` set (a # as) then None else h x)"
    by (auto simp: a h1_def)
  moreover have "u1\<lparr>rx_pkt_list := newest (Suc (unat (rx_pkt_list_size u1))) (rx_pkt_list u1 @ map (datagram h) as)\<rparr> =
      u\<lparr>rx_pkt_list := newest ?n (rx_pkt_list u @ map (datagram h) (a # as))\<rparr>"
    by (simp add: u1_def newest_append)
  ultimately show ?case
    using Cons.IH [OF d1 p1 l1] step unfolding m by (simp add: a)
qed

lemma pkt_read_loop_take: "pkt_read_loop n ds = (take n ds, drop n ds)"
  by (induction n ds rule: pkt_read_loop.induct) auto

lemma udp_reads_data:
  "rx_pkt u = Some k \<Longrightarrow> udp_reads ns u = (take (sum_list ns) (rx_data k), u\<lparr>rx_pkt := Some (k\<lparr>rx_data := drop (sum_list ns) (rx_data k)\<rparr>)\<rparr>)"
  by (induction ns arbitrary: u k)
    (auto simp: udp_read_buf_def pkt_read_buf_def pkt_read_loop_take take_add add.commute simp del: append_take_drop_id)

text \<open>
  C26. The socket is a queue of datagrams that drops the oldest: of the datagrams that have arrived in one packet buffer each, it keeps the newest, one more than
  its buffer size, and frees every buffer. They come out in the order of arrival: \<open>parsePacket\<close> takes the first one, reports its length and
  its sender, and the reads that follow return its bytes in pieces of any length, never beyond its end.
\<close>

theorem udp_reads_datagrams_in_order:
  assumes "distinct (map fst as)" "\<forall>p \<in> fst ` set as. lone h p" "rx_pkt_list u = []"
  shows "\<exists>u'. udp_arrivals h as u = Some (u', \<lambda>x. if x \<in> fst ` set as then None else h x) \<and>
    (case newest (Suc (unat (rx_pkt_list_size u))) as of
       [] \<Rightarrow> fst (parsePacket u') = 0 \<and> udp_available (snd (parsePacket u')) = 0 \<and> udp_read (snd (parsePacket u')) = Some (- 1, snd (parsePacket u'))
     | (p, ip, port) # as' \<Rightarrow>
         (let u1 = snd (parsePacket u')
          in fst (parsePacket u') = int (length (pdata h [p])) \<and> remoteIP u1 = ip \<and> remotePort u1 = port \<and> rx_pkt_list u1 = map (datagram h) as' \<and>
            (\<forall>ns. fst (udp_reads ns u1) = take (sum_list ns) (pdata h [p]) \<and>
               udp_available (snd (udp_reads ns u1)) = int (length (pdata h [p]) - sum_list ns))))"
proof -
  let ?n = "Suc (unat (rx_pkt_list_size u))"
  define u' where "u' = u\<lparr>rx_pkt_list := map (datagram h) (newest ?n as)\<rparr>"
  have "udp_arrivals h as u = Some (u', \<lambda>x. if x \<in> fst ` set as then None else h x)"
    using udp_arrivals_queue [OF assms(1,2), of u] assms(3) by (simp add: u'_def newest_def drop_map)
  then show ?thesis
    using udp_reads_data
    by (intro exI [of _ u'])
      (auto simp: u'_def parsePacket_def remoteIP_def remotePort_def udp_available_def pkt_available_def udp_read_def datagram_def Let_def split: list.splits)
qed

section \<open>Examples\<close>

text \<open>A stack that records what it is asked to send, and that has no room for another socket.\<close>

definition udp_recorder :: "(ip_address \<times> u16 \<times> bytes) list udp_api" where
  "udp_recorder = \<lparr>api_new = (\<lambda>s. (Some 4, s)), api_bind = (\<lambda>pcb port s. (ERR_OK, s)), api_recv = (\<lambda>pcb s. s), api_remove = (\<lambda>pcb s. s),
     api_sendto = (\<lambda>pcb a ip port h s. (ERR_OK, h, s @ [(ip, port, pdata h [a])]))\<rparr>"

lemma udp_recorder_keeps: "sendto_keeps udp_recorder"
  by (simp add: sendto_keeps_def udp_recorder_def)

definition udp_socket :: udp where
  "udp_socket = fst (snd (udp_begin udp_recorder 5000 udp_construct []))"

lemma udp_socket: "udp_pcb udp_socket = Some 4" "rx_pkt_list udp_socket = []" "rx_pkt_list_size udp_socket = 10"
  by (simp_all add: udp_socket_def udp_begin_def udp_construct_def udp_recorder_def)

theorem udp_sends_what_was_written_witness:
  "\<exists>u' h'. endPacket one_malloc udp_recorder
      (snd (udp_write [3] (snd (udp_write [1, 2] (snd (beginPacket (10, 0, 0, 1) 7 udp_socket)))))) Map.empty [] =
     Some (1, u', h', [((10, 0, 0, 1), 7, [1, 2, 3])]) \<and> tx_data u' = []"
proof -
  have "one_malloc Map.empty n \<noteq> None" for n by (simp add: one_malloc_def)
  with udp_sends_what_was_written [OF one_malloc_ok(1) udp_recorder_keeps udp_socket(1), where bufs = "[[1, 2], [3]]" and ip = "(10, 0, 0, 1)"
      and port = 7 and h = Map.empty and s = "[]"]
  show ?thesis by (auto simp: udp_recorder_def simp del: plink.simps pwf.simps freed.simps pdata_simps)
qed

definition two_datagrams :: heap where
  "two_datagrams = [3 \<mapsto> pbuf_init_alloced_pbuf [0, 0, 1, 2, 3, 4] 2 4 4 PBUF_POOL 0, 5 \<mapsto> pbuf_init_alloced_pbuf [5, 6, 7] 0 3 3 PBUF_POOL 0]"

lemma two_datagrams: "lone two_datagrams 3" "lone two_datagrams 5" "pdata two_datagrams [3] = [1, 2, 3, 4]"
  by (simp_all add: two_datagrams_def lone_def freeable_def single_def pbuf_init_alloced_pbuf_def bdata_def sub_at_def)

theorem udp_reads_datagrams_in_order_witness:
  "\<exists>u' h'. udp_arrivals two_datagrams [(3, (10, 0, 0, 1), 7), (5, (10, 0, 0, 2), 8)] udp_socket = Some (u', h') \<and> h' 3 = None \<and>
    fst (parsePacket u') = 4 \<and> remotePort (snd (parsePacket u')) = 7 \<and> fst (udp_reads [3, 100] (snd (parsePacket u'))) = [1, 2, 3, 4] \<and>
    udp_available (snd (udp_reads [3, 100] (snd (parsePacket u')))) = 0"
proof -
  let ?as = "[(3, (10, 0, 0, 1), 7), (5, (10, 0, 0, 2), 8)] :: (nat \<times> ip_address \<times> u16) list"
  have 1: "distinct (map fst ?as)" "\<forall>p \<in> fst ` set ?as. lone two_datagrams p" using two_datagrams(1,2) by auto
  have 2: "newest (Suc (unat (rx_pkt_list_size udp_socket))) ?as = ?as" by (simp add: newest_def udp_socket)
  from udp_reads_datagrams_in_order [OF 1 udp_socket(2)] show ?thesis
    unfolding 2 list.case prod.case two_datagrams(3) Let_def
    by (elim exE conjE) (intro exI conjI, assumption, simp_all del: udp_reads.simps udp_arrivals.simps)
qed

end
