(* ===== verification/C_String.thy ===== *)
theory C_String
  imports Prelude
begin

text \<open>
  Strings of C: character arrays as byte lists of their full size, with the functions of \<open>string.h\<close> and \<open>snprintf\<close> on them. \<open>None\<close> is an access outside
  of the array. \<open>upto_nul\<close> is the text that an array holds.
\<close>

section \<open>Functions\<close>

definition str :: "string \<Rightarrow> bytes" where
  "str s = map of_char s"

fun strlen :: "bytes \<Rightarrow> nat option" where
  "strlen [] = None"
| "strlen (x # xs) = (if x = 0 then Some 0 else map_option Suc (strlen xs))"

fun strchr :: "u8 \<Rightarrow> bytes \<Rightarrow> nat option option" where
  "strchr c [] = None"
| "strchr c (x # xs) = (if x = c then Some (Some 0) else if x = 0 then Some None else map_option (map_option Suc) (strchr c xs))"

fun memchr :: "u8 \<Rightarrow> nat \<Rightarrow> bytes \<Rightarrow> nat option option" where
  "memchr c 0 xs = Some None"
| "memchr c (Suc n) [] = None"
| "memchr c (Suc n) (x # xs) = (if x = c then Some (Some 0) else map_option (map_option Suc) (memchr c n xs))"

text \<open>The string that an array holds.\<close>

definition cstr :: "bytes \<Rightarrow> bytes option" where
  "cstr a = map_option (\<lambda>n. take n a) (strlen a)"

definition memcpy :: "bytes \<Rightarrow> nat \<Rightarrow> bytes \<Rightarrow> nat \<Rightarrow> nat \<Rightarrow> bytes option" where
  "memcpy dst i src j n =
    (if i + n \<le> length dst \<and> j + n \<le> length src then Some (put_at i (sub_at j n src) dst) else None)"

definition store :: "bytes \<Rightarrow> nat \<Rightarrow> u8 \<Rightarrow> bytes option" where
  "store a i c = (if i < length a then Some (a[i := c]) else None)"

text \<open>\<open>snprintf\<close> of a text into an array of size \<open>n > 0\<close>; it returns the length of the text. \<open>dec\<close> is the conversion \<open>%u\<close>.\<close>

definition snprintf :: "bytes \<Rightarrow> nat \<Rightarrow> bytes \<Rightarrow> bytes option" where
  "snprintf a n text = (if n \<le> length a then Some (put_at 0 (take (n - 1) text @ [0]) a) else None)"

fun dec :: "nat \<Rightarrow> bytes" where
  "dec n = (if n < 10 then [48 + of_nat n] else dec (n div 10) @ [48 + of_nat (n mod 10)])"

declare dec.simps [simp del]

section \<open>Facts\<close>

text \<open>The string in front of the first 0.\<close>

abbreviation upto_nul :: "bytes \<Rightarrow> bytes" where
  "upto_nul \<equiv> takeWhile (\<lambda>c. c \<noteq> 0)"

lemma strlen_takeWhile: "0 \<in> set a \<Longrightarrow> strlen a = Some (length (upto_nul a))"
  by (induction a) auto

lemma cstr_upto: "0 \<in> set a \<Longrightarrow> cstr a = Some (upto_nul a)"
  by (simp add: cstr_def strlen_takeWhile takeWhile_eq_take [symmetric])

lemma strchr_upto:
  "0 \<in> set a \<Longrightarrow> c \<noteq> 0 \<Longrightarrow>
   strchr c a = Some (if c \<in> set (upto_nul a) then Some (length (takeWhile (\<lambda>x. x \<noteq> c) (upto_nul a))) else None)"
  by (induction a) auto

lemma memchr_take:
  "n \<le> length a \<Longrightarrow> memchr c n a = Some (if c \<in> set (take n a) then Some (length (takeWhile (\<lambda>x. x \<noteq> c) (take n a))) else None)"
  by (induction c n a rule: memchr.induct) auto

lemma upto_nul_append: "0 \<notin> set xs \<Longrightarrow> upto_nul (xs @ 0 # ys) = xs"
  by (induction xs) auto

lemma length_takeWhile_upto: "0 \<in> set a \<Longrightarrow> length (upto_nul a) < length a"
  by (induction a) auto

lemma take_upto_nul: "n \<le> length (upto_nul a) \<Longrightarrow> take n (upto_nul a) = take n a"
  by (metis takeWhile_eq_take take_take min.absorb1)

text \<open>A text copied into an array, with its terminating 0.\<close>

lemma memcpy_store:
  assumes "n < length dst" "j + n \<le> length src" "0 \<notin> set (sub_at j n src)"
  obtains a a' where "memcpy dst 0 src j n = Some a" "store a n 0 = Some a'" "length a' = length dst" "0 \<in> set a'" "cstr a' = Some (sub_at j n src)"
proof -
  let ?a = "put_at 0 (sub_at j n src) dst"
  have l: "length (sub_at j n src) = n" using assms(2) by simp
  have "?a[n := 0] = sub_at j n src @ 0 # drop (Suc n) dst"
    using l assms(1) by (simp add: put_at_def list_update_append Cons_nth_drop_Suc [symmetric])
  moreover from this have "0 \<in> set (?a[n := 0])" by simp
  ultimately have "cstr (?a[n := 0]) = Some (sub_at j n src)" using assms(3) by (simp add: cstr_upto upto_nul_append)
  then show ?thesis
    using that [of ?a "?a[n := 0]"] assms l \<open>0 \<in> set (?a[n := 0])\<close> by (simp add: memcpy_def store_def)
qed

lemma store_nul: "a \<noteq> [] \<Longrightarrow> \<exists>a'. store a 0 0 = Some a' \<and> length a' = length a \<and> 0 \<in> set a' \<and> cstr a' = Some []"
  by (cases a) (auto simp: store_def cstr_def)

lemma upto_nul_drop: "k \<le> length (upto_nul a) \<Longrightarrow> upto_nul (drop k a) = drop k (upto_nul a)"
  by (induction a arbitrary: k) (auto split: nat.splits simp: drop_Cons)

lemma nul_in_drop: "0 \<in> set a \<Longrightarrow> k \<le> length (upto_nul a) \<Longrightarrow> 0 \<in> set (drop k a)"
  by (induction a arbitrary: k) (auto split: nat.splits if_splits simp: drop_Cons)

lemma upto_nul_front: "upto_nul (xs @ 0 # ys) = upto_nul xs"
  by (induction xs) auto

lemma length_takeWhile_in: "c \<in> set s \<Longrightarrow> length (takeWhile (\<lambda>x. x \<noteq> c) s) < length s"
  by (induction s) auto

lemma takeWhile_notin: "c \<notin> set s \<Longrightarrow> takeWhile (\<lambda>x. x \<noteq> c) s = s"
  by (induction s) auto

lemma length_dec: "n < 10 ^ Suc k \<Longrightarrow> length (dec n) \<le> Suc k"
proof (induction k arbitrary: n)
  case (Suc k)
  have "n div 10 < 10 ^ Suc k" using Suc.prems by (simp add: less_mult_imp_div_less mult.commute)
  then show ?case using Suc.IH by (subst dec.simps) simp
qed (simp add: dec.simps)

lemma length_str [simp]: "length (str s) = length s"
  by (simp add: str_def)

lemma cstr_no_nul: "cstr a = Some s \<Longrightarrow> 0 \<notin> set s"
proof -
  have "strlen a = Some n \<Longrightarrow> 0 \<notin> set (take n a)" for n by (induction a arbitrary: n) (auto split: if_splits)
  then show "cstr a = Some s \<Longrightarrow> 0 \<notin> set s" by (auto simp: cstr_def)
qed

lemma takeWhile_front: "c \<notin> set xs \<Longrightarrow> takeWhile (\<lambda>x. x \<noteq> c) (xs @ c # ys) = xs"
  by (induction xs) auto

lemma upto_nul_skip: "0 \<notin> set xs \<Longrightarrow> upto_nul (xs @ ys) = xs @ upto_nul ys"
  by (induction xs) auto

end
