(* ===== verification/Arduino_Http.thy ===== *)
theory Arduino_Http
  imports C_String Lwip_Pbuf_Chain
begin

text \<open>
  The HTTP server of the Arduino interface (\<open>Arduino_10BASE_T1S_HTTP\<close>): the table of routes, the states of the connections on the heap, the callbacks
  that lwIP makes for them, and the parser of the request line. Character arrays are byte lists of their full size, with the terminating 0 in them;
  \<open>None\<close> is an access outside of an array, through a null pointer, or to a connection state that has been deleted.
  The TCP functions of lwIP are a parameter (\<open>tcp_api\<close>), apart from those that only store a callback or its argument in a connection. The application's
  handlers are functions. The messages on the serial line are left out.
\<close>

section \<open>Searching\<close>

partial_function (option) mem_find_loop :: "bytes \<Rightarrow> bytes \<Rightarrow> u16 \<Rightarrow> u16 \<Rightarrow> nat option option" where
  "mem_find_loop hay needle lst i =
    (if i \<le> lst then
       (if unat i + length needle \<le> length hay then
          (if sub_at (unat i) (length needle) hay = needle then Some (Some (unat i)) else mem_find_loop hay needle lst (i + 1))
        else None)
     else Some None)"

definition mem_find :: "bytes \<Rightarrow> u16 \<Rightarrow> bytes \<Rightarrow> u16 \<Rightarrow> nat option option" where
  "mem_find hay haystack_len needle needle_len =
    (if needle_len = 0 \<or> haystack_len < needle_len then Some None
     else mem_find_loop hay (take (unat needle_len) needle) (haystack_len - needle_len) 0)"

section \<open>State\<close>

text \<open>A handler gets the method, the path, the query and the array for the body; it returns the status code and the array as it leaves it.\<close>

type_synonym handler = "bytes \<Rightarrow> bytes \<Rightarrow> bytes \<Rightarrow> bytes \<Rightarrow> u16 \<times> bytes"

record Route =
  rpath :: "bytes option"
  rhandler :: "handler option"

text \<open>The \<open>void *\<close> argument of the callbacks: null, the server object, or a connection state.\<close>

datatype cb_arg = Null | This | Conn nat

record ConnState =
  cserver :: cb_arg
  req_buf :: bytes
  req_len :: u16
  headers_done :: bool
  cmethod :: bytes
  cpath :: bytes
  cquery :: bytes
  close_after_send :: bool

text \<open>The fields of \<open>struct tcp_pcb\<close> that the server sets; a callback is the server's function or null.\<close>

record pcb_callbacks =
  callback_arg :: cb_arg
  recv_cb :: bool
  sent_cb :: bool
  err_cb :: bool
  poll_cb :: bool
  pollinterval :: u8
  accept_cb :: bool
  prio :: u8

record 's http =
  hport :: u16
  listen_pcb :: "nat option"
  routes :: "Route list"
  route_count :: u8
  not_found_handler :: "handler option"
  resp_body :: bytes
  header_buf :: bytes
  conns :: "nat \<Rightarrow> ConnState option"
  pcbs :: "nat \<Rightarrow> pcb_callbacks"
  stack :: 's

text \<open>
  The functions of lwIP, on the state \<open>'s\<close> of the stack. The server looks at the results of \<open>tcp_new\<close>, \<open>tcp_bind\<close> and \<open>tcp_listen\<close> only.
\<close>

record 's tcp_api =
  do_new :: "'s \<Rightarrow> nat option \<times> 's"
  do_reuse :: "nat \<Rightarrow> 's \<Rightarrow> 's"
  do_bind :: "nat \<Rightarrow> u16 \<Rightarrow> 's \<Rightarrow> err_t \<times> 's"
  do_listen :: "nat \<Rightarrow> 's \<Rightarrow> nat option \<times> 's"
  do_close :: "nat \<Rightarrow> 's \<Rightarrow> 's"
  do_abort :: "nat \<Rightarrow> 's \<Rightarrow> 's"
  do_recved :: "nat \<Rightarrow> u16 \<Rightarrow> 's \<Rightarrow> 's"
  do_write :: "nat \<Rightarrow> bytes \<Rightarrow> u8 \<Rightarrow> 's \<Rightarrow> 's"
  do_output :: "nat \<Rightarrow> 's \<Rightarrow> 's"
  do_shutdown :: "nat \<Rightarrow> bool \<Rightarrow> bool \<Rightarrow> 's \<Rightarrow> 's"

abbreviation on_pcb :: "nat \<Rightarrow> (pcb_callbacks \<Rightarrow> pcb_callbacks) \<Rightarrow> 's http \<Rightarrow> 's http" where
  "on_pcb pcb f w \<equiv> w\<lparr>pcbs := (pcbs w)(pcb := f (pcbs w pcb))\<rparr>"

abbreviation on_stack :: "('s \<Rightarrow> 's) \<Rightarrow> 's http \<Rightarrow> 's http" where
  "on_stack f w \<equiv> w\<lparr>stack := f (stack w)\<rparr>"

definition tcp_arg :: "nat \<Rightarrow> cb_arg \<Rightarrow> 's http \<Rightarrow> 's http" where
  "tcp_arg pcb arg = on_pcb pcb (callback_arg_update (\<lambda>_. arg))"

definition tcp_recv :: "nat \<Rightarrow> bool \<Rightarrow> 's http \<Rightarrow> 's http" where
  "tcp_recv pcb cb = on_pcb pcb (recv_cb_update (\<lambda>_. cb))"

definition tcp_sent :: "nat \<Rightarrow> bool \<Rightarrow> 's http \<Rightarrow> 's http" where
  "tcp_sent pcb cb = on_pcb pcb (sent_cb_update (\<lambda>_. cb))"

definition tcp_err :: "nat \<Rightarrow> bool \<Rightarrow> 's http \<Rightarrow> 's http" where
  "tcp_err pcb cb = on_pcb pcb (err_cb_update (\<lambda>_. cb))"

definition tcp_poll :: "nat \<Rightarrow> bool \<Rightarrow> u8 \<Rightarrow> 's http \<Rightarrow> 's http" where
  "tcp_poll pcb cb interval = on_pcb pcb (\<lambda>c. c\<lparr>poll_cb := cb, pollinterval := interval\<rparr>)"

definition tcp_accept :: "nat \<Rightarrow> bool \<Rightarrow> 's http \<Rightarrow> 's http" where
  "tcp_accept pcb cb = on_pcb pcb (accept_cb_update (\<lambda>_. cb))"

definition tcp_setprio :: "nat \<Rightarrow> u8 \<Rightarrow> 's http \<Rightarrow> 's http" where
  "tcp_setprio pcb p = on_pcb pcb (prio_update (\<lambda>_. p))"

section \<open>Server\<close>

abbreviation HTTP_SERVER_MAX_ROUTES :: nat where "HTTP_SERVER_MAX_ROUTES \<equiv> 8"
abbreviation HTTP_SERVER_REQ_BUF_SIZE :: u16 where "HTTP_SERVER_REQ_BUF_SIZE \<equiv> 512"
abbreviation HTTP_SERVER_RESP_BUF_SIZE :: nat where "HTTP_SERVER_RESP_BUF_SIZE \<equiv> 512"

definition http_construct :: "u16 \<Rightarrow> (nat \<Rightarrow> pcb_callbacks) \<Rightarrow> 's \<Rightarrow> 's http" where
  "http_construct port cbs s =
    \<lparr>hport = port, listen_pcb = None, routes = replicate HTTP_SERVER_MAX_ROUTES \<lparr>rpath = None, rhandler = None\<rparr>, route_count = 0, not_found_handler = None,
     resp_body = replicate HTTP_SERVER_RESP_BUF_SIZE 0, header_buf = replicate 192 0, conns = Map.empty, pcbs = cbs, stack = s\<rparr>"

definition http_stop :: "'s tcp_api \<Rightarrow> 's http \<Rightarrow> 's http" where
  "http_stop api w = (case listen_pcb w of None \<Rightarrow> w
     | Some l \<Rightarrow> (on_stack (do_close api l) (tcp_accept l False (tcp_arg l Null w)))\<lparr>listen_pcb := None\<rparr>)"

definition http_destruct :: "'s tcp_api \<Rightarrow> 's http \<Rightarrow> 's http" where
  "http_destruct api w = http_stop api w"

definition http_begin :: "'s tcp_api \<Rightarrow> 's http \<Rightarrow> bool \<times> 's http" where
  "http_begin api w =
    (let w = (if listen_pcb w \<noteq> None then http_stop api w else w);
         (pcb, s) = do_new api (stack w); w = w\<lparr>stack := s\<rparr>
     in case pcb of None \<Rightarrow> (False, w)
        | Some pcb \<Rightarrow>
            let w = on_stack (do_reuse api pcb) w;
                (err, s) = do_bind api pcb (hport w) (stack w); w = w\<lparr>stack := s\<rparr>
            in if err \<noteq> ERR_OK then (False, on_stack (do_close api pcb) w)
               else
                 let (lpcb, s) = do_listen api pcb (stack w); w = w\<lparr>stack := s\<rparr>
                 in case lpcb of None \<Rightarrow> (False, on_stack (do_close api pcb) w)
                    | Some l \<Rightarrow> (True, tcp_accept l True (tcp_arg l This (w\<lparr>listen_pcb := Some l\<rparr>))))"

definition isRunning :: "'s http \<Rightarrow> bool" where
  "isRunning w = (listen_pcb w \<noteq> None)"

definition http_on :: "bytes option \<Rightarrow> handler option \<Rightarrow> 's http \<Rightarrow> bool \<times> 's http" where
  "http_on path handler w =
    (if unat (route_count w) \<ge> HTTP_SERVER_MAX_ROUTES then (False, w)
     else (True, w\<lparr>routes := (routes w)[unat (route_count w) := \<lparr>rpath = path, rhandler = handler\<rparr>], route_count := route_count w + 1\<rparr>))"

definition setNotFoundHandler :: "handler option \<Rightarrow> 's http \<Rightarrow> 's http" where
  "setNotFoundHandler handler w = w\<lparr>not_found_handler := handler\<rparr>"

fun findHandler_loop :: "bytes \<Rightarrow> Route list \<Rightarrow> handler option" where
  "findHandler_loop path [] = None"
| "findHandler_loop path (r # rs) = (if rpath r = Some path then rhandler r else findHandler_loop path rs)"

definition findHandler :: "'s http \<Rightarrow> bytes \<Rightarrow> handler option" where
  "findHandler w path = findHandler_loop path (take (unat (route_count w)) (routes w))"

section \<open>Response\<close>

definition status_text :: "u16 \<Rightarrow> bytes" where
  "status_text code = str (
     if code = 200 then ''OK'' else if code = 201 then ''Created'' else if code = 204 then ''No Content'' else if code = 400 then ''Bad Request''
     else if code = 403 then ''Forbidden'' else if code = 404 then ''Not Found'' else if code = 500 then ''Internal Server Error'' else ''OK'')"

definition crlf :: bytes where
  "crlf = [13, 10]"

definition response_header :: "u16 \<Rightarrow> bytes \<Rightarrow> nat \<Rightarrow> bytes" where
  "response_header code text n =
    str ''HTTP/1.0 '' @ dec (unat code) @ str '' '' @ text @ crlf @
    str ''Content-Type: text/html; charset=utf-8'' @ crlf @
    str ''Content-Length: '' @ dec n @ crlf @
    str ''Connection: close'' @ crlf @ crlf"

definition sendResponse :: "'s tcp_api \<Rightarrow> nat \<Rightarrow> u16 \<Rightarrow> bytes \<Rightarrow> bytes \<Rightarrow> 's http \<Rightarrow> 's http option" where
  "sendResponse api tpcb code text body w = do {
     body_len \<leftarrow> strlen body;
     let hdr = response_header code text body_len;
     hb \<leftarrow> snprintf (header_buf w) 192 hdr;
     let w = w\<lparr>header_buf := hb\<rparr>;
     if length hdr = 0 \<or> length hdr \<ge> 192 then Some w
     else do {
       let w = on_stack (do_write api tpcb (take (length hdr) hb) 3) w;
       let w = (if body_len > 0 then on_stack (do_write api tpcb (take (unat (of_nat body_len :: u16)) body) 1) w else w);
       let w = on_stack (do_output api tpcb) w;
       Some (on_stack (do_shutdown api tpcb False True) w)
     }
   }"

definition not_found_page :: "bytes \<Rightarrow> bytes" where
  "not_found_page path = str ''<html><body><h2>404 Not Found</h2><p>'' @ path @ str ''</p></body></html>''"

definition handleRequest :: "'s tcp_api \<Rightarrow> nat \<Rightarrow> nat \<Rightarrow> 's http \<Rightarrow> 's http option" where
  "handleRequest api tpcb a w = do {
     st \<leftarrow> conns w a;
     body \<leftarrow> store (resp_body w) 0 0;
     path \<leftarrow> cstr (cpath st);
     m \<leftarrow> cstr (cmethod st);
     q \<leftarrow> cstr (cquery st);
     (code, text, body) \<leftarrow>
       (case findHandler w path of
          Some f \<Rightarrow> (case f m path q body of (code, body) \<Rightarrow> Some (code, status_text code, body))
        | None \<Rightarrow> (case not_found_handler w of
            Some f \<Rightarrow> (case f m path q body of (code, body) \<Rightarrow> Some (code, str ''Not Found'', body))
          | None \<Rightarrow> map_option (\<lambda>body. (404, str ''Not Found'', body)) (snprintf body HTTP_SERVER_RESP_BUF_SIZE (not_found_page path))));
     sendResponse api tpcb code text body (w\<lparr>resp_body := body\<rparr>)
   }"

section \<open>Connections\<close>

definition closeConn :: "'s tcp_api \<Rightarrow> nat \<Rightarrow> nat option \<Rightarrow> 's http \<Rightarrow> 's http option" where
  "closeConn api tpcb state w =
    (let w = tcp_poll tpcb False 0 (tcp_err tpcb False (tcp_sent tpcb False (tcp_recv tpcb False (tcp_arg tpcb Null w))))
     in case state of None \<Rightarrow> Some (on_stack (do_close api tpcb) w)
        | Some a \<Rightarrow> (case conns w a of None \<Rightarrow> None
            | Some _ \<Rightarrow> Some (on_stack (do_close api tpcb) (w\<lparr>conns := (conns w)(a := None)\<rparr>))))"

definition ConnState_zero :: ConnState where
  "ConnState_zero = \<lparr>cserver = Null, req_buf = replicate 512 0, req_len = 0, headers_done = False, cmethod = replicate 8 0, cpath = replicate 128 0,
     cquery = replicate 64 0, close_after_send = False\<rparr>"

text \<open>\<open>alloc\<close> is the \<open>new\<close> for a connection state.\<close>

definition onAccept :: "'s tcp_api \<Rightarrow> ((nat \<Rightarrow> ConnState option) \<Rightarrow> nat option) \<Rightarrow> cb_arg \<Rightarrow> nat option \<Rightarrow> err_t \<Rightarrow> 's http \<Rightarrow> err_t \<times> 's http" where
  "onAccept api alloc arg new_pcb err w =
    (case new_pcb of None \<Rightarrow> (ERR_VAL, w)
     | Some pcb \<Rightarrow> if err \<noteq> ERR_OK then (ERR_VAL, w)
        else (case alloc (conns w) of None \<Rightarrow> (ERR_MEM, on_stack (do_abort api pcb) w)
          | Some a \<Rightarrow> (ERR_OK,
              tcp_poll pcb True 24 (tcp_err pcb True (tcp_sent pcb True (tcp_recv pcb True (tcp_arg pcb (Conn a)
                (tcp_setprio pcb 1 (w\<lparr>conns := (conns w)(a \<mapsto> ConnState_zero\<lparr>cserver := arg\<rparr>)\<rparr>)))))))))"

text \<open>The request line, \<open>METHOD /path?query HTTP/1.x\<close>. The inner \<open>None\<close>: there is no space in the request.\<close>

definition parse_request :: "ConnState \<Rightarrow> ConnState option option" where
  "parse_request st = do {
     let req = req_buf st;
     sp1 \<leftarrow> strchr 32 req;
     case sp1 of None \<Rightarrow> Some None
     | Some i \<Rightarrow> do {
         let method_len = (of_nat i :: u8);
         let method_len = unat (if method_len \<ge> 8 then 7 else method_len);
         m \<leftarrow> memcpy (cmethod st) 0 req 0 method_len;
         m \<leftarrow> store m method_len 0;
         let uri_start = drop (i + 1) req;
         sp2 \<leftarrow> strchr 32 uri_start;
         sp2 \<leftarrow> (case sp2 of Some j \<Rightarrow> Some j | None \<Rightarrow> strlen uri_start);
         q \<leftarrow> memchr 63 sp2 uri_start;
         let (path_len, query_len) = (case q of Some k \<Rightarrow> (k, sp2 - k - 1) | None \<Rightarrow> (sp2, 0));
         let path_len = (if path_len \<ge> 128 then 127 else path_len);
         let query_len = (if query_len \<ge> 64 then 63 else query_len);
         path \<leftarrow> memcpy (cpath st) 0 uri_start 0 path_len;
         path \<leftarrow> store path path_len 0;
         query \<leftarrow> (case q of Some k \<Rightarrow> if query_len > 0 then memcpy (cquery st) 0 uri_start (k + 1) query_len else Some (cquery st) | None \<Rightarrow> Some (cquery st));
         query \<leftarrow> store query query_len 0;
         Some (Some (st\<lparr>cmethod := m, cpath := path, cquery := query\<rparr>))
       }
   }"

text \<open>The copy of the data into the request buffer.\<close>

definition append_request :: "heap \<Rightarrow> nat \<Rightarrow> u16 \<Rightarrow> ConnState \<Rightarrow> ConnState option" where
  "append_request h p total_len st = do {
     let available = HTTP_SERVER_REQ_BUF_SIZE - 1 - req_len st;
     let copy_len = (if total_len > available then available else total_len);
     (_, ys) \<leftarrow> pbuf_copy_partial h (Some p) copy_len 0;
     buf \<leftarrow> memcpy (req_buf st) (unat (req_len st)) ys 0 (length ys);
     let n = req_len st + copy_len;
     buf \<leftarrow> store buf (unat n) 0;
     Some (st\<lparr>req_buf := buf, req_len := n\<rparr>)
   }"

definition find_end :: "ConnState \<Rightarrow> nat option option" where
  "find_end st = do {
     e \<leftarrow> mem_find (req_buf st) (req_len st) [13, 10, 13, 10] 4;
     case e of Some i \<Rightarrow> Some (Some i) | None \<Rightarrow> mem_find (req_buf st) (req_len st) [10, 10] 2
   }"

definition onRecv :: "'s tcp_api \<Rightarrow> cb_arg \<Rightarrow> nat \<Rightarrow> nat option \<Rightarrow> err_t \<Rightarrow> heap \<Rightarrow> 's http \<Rightarrow> (err_t \<times> heap \<times> 's http) option" where
  "onRecv api arg tpcb p err h w =
    (case arg of
       This \<Rightarrow> None
     | Null \<Rightarrow> (case p of None \<Rightarrow> Some (ERR_OK, h, w) | Some _ \<Rightarrow> map_option (\<lambda>(_, h). (ERR_OK, h, w)) (pbuf_free h p))
     | Conn a \<Rightarrow>
         (case p of None \<Rightarrow> map_option (\<lambda>w. (ERR_OK, h, w)) (closeConn api tpcb (Some a) w)
          | Some pb \<Rightarrow>
              if err \<noteq> ERR_OK then do { (_, h) \<leftarrow> pbuf_free h p; w \<leftarrow> closeConn api tpcb (Some a) w; Some (err, h, w) }
              else do {
                b \<leftarrow> h pb;
                let w = on_stack (do_recved api tpcb (tot_len b)) w;
                st \<leftarrow> conns w a;
                st \<leftarrow> append_request h pb (tot_len b) st;
                (_, h) \<leftarrow> pbuf_free h p;
                let w = w\<lparr>conns := (conns w)(a \<mapsto> st)\<rparr>;
                if headers_done st then Some (ERR_OK, h, w)
                else do {
                  e \<leftarrow> find_end st;
                  if e = None then Some (ERR_OK, h, w)
                  else do {
                    let st = st\<lparr>headers_done := True\<rparr>;
                    r \<leftarrow> parse_request st;
                    case r of
                      None \<Rightarrow> map_option (\<lambda>w. (ERR_OK, h, w)) (closeConn api tpcb (Some a) (w\<lparr>conns := (conns w)(a \<mapsto> st)\<rparr>))
                    | Some st \<Rightarrow>
                        if cserver st = This then
                          map_option (\<lambda>w. (ERR_OK, h, w)) (handleRequest api tpcb a (w\<lparr>conns := (conns w)(a \<mapsto> st)\<rparr>))
                        else None
                  }
                }
              }))"

definition onSent :: "cb_arg \<Rightarrow> nat \<Rightarrow> u16 \<Rightarrow> 's http \<Rightarrow> err_t \<times> 's http" where
  "onSent arg tpcb len w = (ERR_OK, w)"

definition onError :: "cb_arg \<Rightarrow> err_t \<Rightarrow> 's http \<Rightarrow> 's http option" where
  "onError arg err w = (case arg of Null \<Rightarrow> Some w | This \<Rightarrow> None
     | Conn a \<Rightarrow> (case conns w a of None \<Rightarrow> None | Some _ \<Rightarrow> Some (w\<lparr>conns := (conns w)(a := None)\<rparr>)))"

definition onPoll :: "'s tcp_api \<Rightarrow> cb_arg \<Rightarrow> nat \<Rightarrow> 's http \<Rightarrow> (err_t \<times> 's http) option" where
  "onPoll api arg tpcb w = (case arg of
       This \<Rightarrow> None
     | Null \<Rightarrow> map_option (\<lambda>w. (ERR_OK, w)) (closeConn api tpcb None w)
     | Conn a \<Rightarrow> do {
         st \<leftarrow> conns w a;
         if headers_done st then Some (ERR_OK, w) else map_option (\<lambda>w. (ERR_OK, w)) (closeConn api tpcb (Some a) w)
       })"

end
