(* ===== verification/Arduino_Http_Parse.thy ===== *)
theory Arduino_Http_Parse
  imports Arduino_Http
begin

text \<open>
  The request parser of the HTTP server against a description on lists: \<open>find_sub\<close> is the first occurrence of a pattern, \<open>request_line\<close> the method, path and
  query of a request. The arrays of a connection state stay within their sizes and stay terminated (\<open>conn_ok\<close>) whatever arrives.
\<close>

section \<open>Searching\<close>

fun find_sub :: "bytes \<Rightarrow> bytes \<Rightarrow> nat option" where
  "find_sub pat [] = (if pat = [] then Some 0 else None)"
| "find_sub pat (x # xs) = (if take (length pat) (x # xs) = pat then Some 0 else map_option Suc (find_sub pat xs))"

lemma find_sub_short: "length xs < length pat \<Longrightarrow> find_sub pat xs = None"
  by (induction xs) auto

lemma find_sub_drop:
  "i < length xs \<Longrightarrow> find_sub pat (drop i xs) =
     (if sub_at i (length pat) xs = pat then Some 0 else map_option Suc (find_sub pat (drop (Suc i) xs)))"
  by (simp add: sub_at_def Cons_nth_drop_Suc [symmetric])

lemma find_sub_None:
  "find_sub pat xs = None \<longleftrightarrow> (\<forall>i \<le> length xs. sub_at i (length pat) xs \<noteq> pat)"
proof (induction xs)
  case (Cons x xs)
  have "(\<forall>i \<le> length (x # xs). sub_at i (length pat) (x # xs) \<noteq> pat) \<longleftrightarrow>
      sub_at 0 (length pat) (x # xs) \<noteq> pat \<and> (\<forall>i \<le> length xs. sub_at (Suc i) (length pat) (x # xs) \<noteq> pat)"
    by (metis Suc_le_mono le0 length_Cons not0_implies_Suc)
  then show ?case using Cons by (simp add: sub_at_def)
qed (auto simp: sub_at_def)

lemma sub_at_of_take: "i + k \<le> n \<Longrightarrow> sub_at i k (take n xs) = sub_at i k xs"
  by (simp add: sub_at_def drop_take)

lemma mem_find_loop_sub:
  assumes "pat \<noteq> []" "unat n + length pat = length xs" "xs = take (length xs) hay" "unat n < 65535" "unat i \<le> unat n + 1"
  shows "mem_find_loop hay pat n i = Some (map_option (\<lambda>k. unat i + k) (find_sub pat (drop (unat i) xs)))"
  using assms(5)
proof (induction "unat n + 1 - unat i" arbitrary: i)
  case 0
  then have "\<not> i \<le> n" "unat i = unat n + 1" by (simp_all add: word_le_nat_alt)
  moreover have "length (drop (unat i) xs) < length pat" using calculation(2) assms(1,2) by (cases pat) auto
  ultimately show ?case using find_sub_short [of "drop (unat i) xs"] by (subst mem_find_loop.simps) (simp del: length_drop)
next
  case (Suc d)
  then have le: "unat i \<le> unat n" by simp
  then have i1: "unat (i + 1) = unat i + 1" using assms(4) by (simp add: unat_u16_add)
  have len: "length xs \<le> length hay" using assms(3) by (metis length_take min.cobounded1)
  have il: "unat i < length xs" using le assms(1,2) by (cases pat) auto
  have sub: "sub_at (unat i) (length pat) hay = sub_at (unat i) (length pat) xs"
    using sub_at_of_take [of "unat i" "length pat" "length xs" hay] assms(2,3) le by simp
  show ?case
  proof (cases "sub_at (unat i) (length pat) xs = pat")
    case True
    then show ?thesis using le len il assms(2) sub find_sub_drop [of "unat i" xs pat]
      by (subst mem_find_loop.simps) (simp add: word_le_nat_alt)
  next
    case False
    have "mem_find_loop hay pat n (i + 1) = Some (map_option (\<lambda>k. unat (i + 1) + k) (find_sub pat (drop (unat (i + 1)) xs)))"
      by (rule Suc.hyps(1)) (use Suc.hyps(2) le i1 in simp_all)
    then show ?thesis
      using False le len il assms(2) sub find_sub_drop [of "unat i" xs pat] i1
      by (subst mem_find_loop.simps) (simp add: word_le_nat_alt option.map_comp comp_def)
  qed
qed

lemma mem_find_sub:
  assumes "pat \<noteq> []" "length pat < 65536" "unat n \<le> length hay"
  shows "mem_find hay n pat (of_nat (length pat)) = Some (find_sub pat (take (unat n) hay))"
proof (cases "unat n < length pat")
  case True
  then show ?thesis
    using assms find_sub_short [of "take (unat n) hay" pat] by (simp add: mem_find_def word_less_nat_alt unat_u16_of_nat)
next
  case False
  then have "unat (n - of_nat (length pat)) = unat n - length pat" using assms(2) by (simp add: unat_u16_sub unat_u16_of_nat)
  moreover have "0 < length pat" using assms(1) by simp
  then have "unat n - length pat < 65535" using unat_u16_less [of n] by linarith
  ultimately show ?thesis
    using False assms mem_find_loop_sub [of pat "n - of_nat (length pat)" "take (unat n) hay" hay 0]
    by (auto simp: mem_find_def word_less_nat_alt unat_u16_of_nat word_unat_eq_iff option.map_ident)
qed

section \<open>Connection states\<close>

definition conn_ok :: "ConnState \<Rightarrow> bool" where
  "conn_ok st \<longleftrightarrow> length (req_buf st) = 512 \<and> unat (req_len st) < 512 \<and> req_buf st ! unat (req_len st) = 0 \<and>
     length (cmethod st) = 8 \<and> length (cpath st) = 128 \<and> length (cquery st) = 64 \<and> 0 \<in> set (cmethod st) \<and> 0 \<in> set (cpath st) \<and> 0 \<in> set (cquery st)"

text \<open>The bytes of the request that the server has kept: the first 511.\<close>

definition received :: "ConnState \<Rightarrow> bytes" where
  "received st = take (unat (req_len st)) (req_buf st)"

lemma conn_ok_zero: "conn_ok (ConnState_zero\<lparr>cserver := arg\<rparr>)" "received (ConnState_zero\<lparr>cserver := arg\<rparr>) = []"
  by (simp_all add: conn_ok_def ConnState_zero_def received_def)

lemma append_request_data:
  assumes "conn_ok st" "pchain h (Some p) xs" "h p = Some b"
  obtains st' where "append_request h p (tot_len b) st = Some st'" "conn_ok st'" "received st' = take 511 (received st @ pdata h xs)"
    "headers_done st' = headers_done st" "cserver st' = cserver st"
proof -
  define n where "n = unat (req_len st)"
  have n: "n < 512" "length (req_buf st) = 512" using assms(1) by (simp_all add: conn_ok_def n_def)
  have tot: "unat (tot_len b) = length (pdata h xs)"
    using assms(2,3) by (cases xs) (auto simp: length_bdata)
  have av: "unat (512 - 1 - req_len st) = 511 - n" using n by (simp add: unat_u16_sub n_def [symmetric])
  define c where "c = (if tot_len b > 512 - 1 - req_len st then 512 - 1 - req_len st else tot_len b)"
  have c: "unat c = min (511 - n) (length (pdata h xs))" using av tot by (auto simp: c_def word_less_nat_alt)
  define ys where "ys = take (unat c) (pdata h xs)"
  have ys: "pbuf_copy_partial h (Some p) c 0 = Some (of_nat (length ys), ys)" "length ys = unat c"
    using pbuf_copy_loop_data [OF assms(2), of c 0 "[]"] c by (simp_all add: pbuf_copy_partial_def ys_def)
  have le: "n + unat c < 512" using c n by linarith
  then have nc: "unat (req_len st + c) = n + unat c" by (simp add: unat_u16_add n_def [symmetric])
  define buf where "buf = take n (req_buf st) @ ys @ 0 # drop (Suc (n + unat c)) (req_buf st)"
  have "(put_at n ys (req_buf st))[n + unat c := 0] = buf"
    using n ys(2) c by (simp add: buf_def put_at_def list_update_append Cons_nth_drop_Suc [symmetric])
  moreover have "memcpy (req_buf st) n ys 0 (length ys) = Some (put_at n ys (req_buf st))"
    using n ys(2) c by (simp add: memcpy_def sub_at_def)
  ultimately have app: "append_request h p (tot_len b) st = Some (st\<lparr>req_buf := buf, req_len := req_len st + c\<rparr>)"
    using ys n nc le unfolding append_request_def Let_def c_def [symmetric] n_def [symmetric] by (simp add: store_def)
  have "length buf = 512" "buf ! (n + unat c) = 0" "take (n + unat c) buf = take n (req_buf st) @ ys"
    using n ys(2) c by (simp_all add: buf_def nth_append)
  moreover have "take n (req_buf st) @ ys = take 511 (received st @ pdata h xs)"
  proof -
    have "length (received st) = n" using n by (simp add: received_def n_def)
    moreover have "ys = take (511 - n) (pdata h xs)" using c by (simp add: ys_def min_def)
    ultimately show ?thesis using n by (simp add: received_def n_def [symmetric])
  qed
  ultimately show ?thesis
    using that [OF app] assms(1) nc n le by (simp add: conn_ok_def received_def n_def [symmetric])
qed

text \<open>A request is complete when it has an empty line.\<close>

definition complete :: "bytes \<Rightarrow> bool" where
  "complete bs \<longleftrightarrow> find_sub [13, 10, 13, 10] bs \<noteq> None \<or> find_sub [10, 10] bs \<noteq> None"

lemma find_end_complete:
  assumes "conn_ok st"
  obtains e where "find_end st = Some e" "e \<noteq> None \<longleftrightarrow> complete (received st)"
proof -
  have "unat (req_len st) \<le> length (req_buf st)" using assms by (simp add: conn_ok_def)
  from mem_find_sub [OF _ _ this, of "[13, 10, 13, 10]"] mem_find_sub [OF _ _ this, of "[10, 10]"] show ?thesis
    using that by (fastforce simp: find_end_def complete_def received_def split: option.splits)
qed

section \<open>The request line\<close>

definition request_line :: "bytes \<Rightarrow> (bytes \<times> bytes \<times> bytes) option" where
  "request_line s =
    (if 32 \<in> set s then
       let m = takeWhile (\<lambda>c. c \<noteq> 32) s; u = takeWhile (\<lambda>c. c \<noteq> 32) (drop (length m + 1) s); p = takeWhile (\<lambda>c. c \<noteq> 63) u
       in Some (m, p, drop (length p + 1) u)
     else None)"

lemma upto_nul_received:
  assumes "conn_ok st"
  shows "upto_nul (req_buf st) = upto_nul (received st)"
proof -
  have "req_buf st = take (unat (req_len st)) (req_buf st) @ req_buf st ! unat (req_len st) # drop (Suc (unat (req_len st))) (req_buf st)"
    by (rule id_take_nth_drop) (use assms in \<open>simp add: conn_ok_def\<close>)
  then have "req_buf st = received st @ 0 # drop (Suc (unat (req_len st))) (req_buf st)"
    using assms by (simp add: conn_ok_def received_def)
  then show ?thesis using upto_nul_front by metis
qed

lemma uri_fields:
  assumes "0 \<in> set uri"
  defines "u \<equiv> takeWhile (\<lambda>c. c \<noteq> 32) (upto_nul uri)"
  defines "p \<equiv> takeWhile (\<lambda>c. c \<noteq> 63) u"
  shows "strchr 32 uri \<bind> (\<lambda>sp2. case sp2 of Some j \<Rightarrow> Some j | None \<Rightarrow> strlen uri) = Some (length u)"
    and "memchr 63 (length u) uri = Some (if 63 \<in> set u then Some (length p) else None)"
    and "63 \<notin> set u \<Longrightarrow> length u = length p"
    and "length u < length uri" and "0 \<notin> set u"
    and "j \<le> length u \<Longrightarrow> sub_at j (length (drop j u)) uri = drop j u"
proof -
  have le: "length u \<le> length (upto_nul uri)" by (simp add: u_def length_takeWhile_le)
  have "take (length u) (upto_nul uri) = u" unfolding u_def by (rule takeWhile_eq_take [symmetric])
  then have u: "take (length u) uri = u" using take_upto_nul [OF le] by simp
  have lu: "length u < length uri" using le length_takeWhile_upto [OF assms(1)] by simp
  have 32: "32 \<notin> set (upto_nul uri) \<Longrightarrow> u = upto_nul uri" unfolding u_def by (rule takeWhile_notin)
  show "strchr 32 uri \<bind> (\<lambda>sp2. case sp2 of Some j \<Rightarrow> Some j | None \<Rightarrow> strlen uri) = Some (length u)"
    using strchr_upto [OF assms(1), of 32] strlen_takeWhile [OF assms(1)] 32
    by (cases "32 \<in> set (upto_nul uri)") (simp_all add: u_def [symmetric])
  show "memchr 63 (length u) uri = Some (if 63 \<in> set u then Some (length p) else None)"
    using memchr_take [of "length u" uri 63] lu by (simp add: u p_def)
  show "63 \<notin> set u \<Longrightarrow> length u = length p" unfolding p_def by (rule arg_cong [OF takeWhile_notin [symmetric]])
  show "length u < length uri" by (rule lu)
  show "0 \<notin> set u" by (auto simp: u_def dest!: set_takeWhileD)
  show "sub_at j (length (drop j u)) uri = drop j u" if "j \<le> length u"
    using that u lu sub_at_of_take [of j "length u - j" "length u" uri] by (simp add: sub_at_def)
qed

text \<open>The value of a field is cut to the size of its array.\<close>

lemma copy_field:
  assumes "length dst = Suc k" "sub_at j (length ys) src = ys" "j + length ys \<le> length src" "0 \<notin> set ys"
  defines "n \<equiv> if length ys \<ge> Suc k then k else length ys"
  shows "\<exists>a a'. memcpy dst 0 src j n = Some a \<and> store a n 0 = Some a' \<and> length a' = Suc k \<and> 0 \<in> set a' \<and> cstr a' = Some (take k ys)"
proof -
  have n: "n \<le> length ys" "n < length dst" "take n ys = take k ys" using assms(1) by (auto simp: n_def)
  have "sub_at j n src = take n ys" using n(1) assms(2) unfolding sub_at_def by (metis min.absorb1 take_take)
  moreover have "0 \<notin> set (take n ys)" using assms(4) by (auto dest: in_set_takeD)
  ultimately obtain a a' where "memcpy dst 0 src j n = Some a" "store a n 0 = Some a'" "length a' = length dst" "0 \<in> set a'" "cstr a' = Some (take n ys)"
    using n(1,2) assms(3) by - (rule memcpy_store [of n dst j src], simp_all)
  then show ?thesis using n(3) assms(1) by simp
qed

text \<open>The three fields of the request, each copied into its array.\<close>

lemma copy_method:
  assumes "0 \<in> set req" "length dst = 8"
  defines "m \<equiv> takeWhile (\<lambda>c. c \<noteq> 32) (upto_nul req)"
  defines "ml \<equiv> unat (if (of_nat (length m) :: u8) \<ge> 8 then 7 else of_nat (length m) :: u8)"
  shows "\<exists>a a'. memcpy dst 0 req 0 ml = Some a \<and> store a ml 0 = Some a' \<and> length a' = 8 \<and> 0 \<in> set a' \<and>
    cstr a' = Some (take (min 7 (length m mod 256)) m)"
proof -
  define ys where "ys = take (length m mod 256) m"
  have ys: "length ys = length m mod 256" "length ys \<le> length m" by (simp_all add: ys_def min_def)
  have "sub_at 0 (length m) req = m" "length m < length req" "0 \<notin> set m" using uri_fields(4,5) [OF assms(1)] uri_fields(6) [OF assms(1), of 0] by (simp_all add: m_def)
  then have "sub_at 0 (length ys) req = ys" "0 + length ys \<le> length req" "0 \<notin> set ys"
    using ys by (auto simp: ys_def sub_at_def min_def dest: in_set_takeD) (metis min.absorb1 take_take mod_less_eq_dividend)
  moreover have "ml = (if length ys \<ge> Suc 7 then 7 else length ys)" by (auto simp: ys ml_def word_le_nat_alt unat_u8_of_nat)
  ultimately show ?thesis
    using copy_field [of dst 7 0 ys req] assms(2) by (simp add: ys_def)
qed

lemma copy_path:
  assumes "0 \<in> set uri" "length dst = 128"
  defines "u \<equiv> takeWhile (\<lambda>c. c \<noteq> 32) (upto_nul uri)"
  defines "p \<equiv> takeWhile (\<lambda>c. c \<noteq> 63) u"
  defines "pl \<equiv> if length p \<ge> 128 then 127 else length p"
  shows "\<exists>a a'. memcpy dst 0 uri 0 pl = Some a \<and> store a pl 0 = Some a' \<and> length a' = 128 \<and> 0 \<in> set a' \<and> cstr a' = Some (take 127 p)"
proof -
  note f = uri_fields(4,5) [OF assms(1), folded u_def] uri_fields(6) [OF assms(1), folded u_def, of 0]
  have p: "length p \<le> length u" "take (length p) u = p" unfolding p_def by (simp_all add: length_takeWhile_le takeWhile_eq_take [symmetric])
  then have "sub_at 0 (length p) uri = p" using f(3) by (simp add: sub_at_def) (metis min.absorb1 take_take)
  moreover have "0 \<notin> set p" using f(2) by (auto simp: p_def dest: set_takeWhileD)
  ultimately show ?thesis
    using copy_field [of dst 127 0 p uri] assms(2) p(1) f(1) by (simp add: pl_def)
qed

lemma copy_query:
  assumes "0 \<in> set uri" "length dst = 64"
  defines "u \<equiv> takeWhile (\<lambda>c. c \<noteq> 32) (upto_nul uri)"
  defines "p \<equiv> takeWhile (\<lambda>c. c \<noteq> 63) u"
  defines "q \<equiv> drop (length p + 1) u"
  defines "ql \<equiv> if length q \<ge> 64 then 63 else length q"
  shows "\<exists>a a'. (if 63 \<in> set u then if ql > 0 then memcpy dst 0 uri (length p + 1) ql else Some dst else Some dst) = Some a \<and>
    store a ql 0 = Some a' \<and> length a' = 64 \<and> 0 \<in> set a' \<and> cstr a' = Some (take 63 q)"
proof (cases "63 \<in> set u \<and> ql > 0")
  case True
  note f = uri_fields(4,5) [OF assms(1), folded u_def] uri_fields(6) [OF assms(1), folded u_def, of "length p + 1"]
  have "length p + 1 \<le> length u" using True length_takeWhile_in [of 63 u] by (simp add: p_def)
  moreover have "0 \<notin> set q" using f(2) by (auto simp: q_def dest: in_set_dropD)
  ultimately show ?thesis
    using True copy_field [of dst 63 "length p + 1" q uri] assms(2) f by (simp add: ql_def [symmetric] q_def [symmetric])
      (simp add: q_def)
next
  case False
  then have "q = []" using uri_fields(3) [OF assms(1), folded u_def, folded p_def] by (auto simp: q_def ql_def split: if_splits)
  moreover have "dst \<noteq> []" using assms(2) by auto
  ultimately show ?thesis using False store_nul [of dst] assms(2) by (auto simp: ql_def)
qed

lemma parse_request_line:
  assumes "conn_ok st"
  shows "case request_line (upto_nul (req_buf st)) of
     None \<Rightarrow> parse_request st = Some None
   | Some (m, p, q) \<Rightarrow> \<exists>cm cp cq. parse_request st = Some (Some (st\<lparr>cmethod := cm, cpath := cp, cquery := cq\<rparr>)) \<and>
       conn_ok (st\<lparr>cmethod := cm, cpath := cp, cquery := cq\<rparr>) \<and>
       cstr cm = Some (take (min 7 (length m mod 256)) m) \<and> cstr cp = Some (take 127 p) \<and> cstr cq = Some (take 63 q)"
proof -
  define s where "s = upto_nul (req_buf st)"
  have nul: "0 \<in> set (req_buf st)" using assms by (auto simp: conn_ok_def set_conv_nth)
  have chr: "strchr 32 (req_buf st) = Some (if 32 \<in> set s then Some (length (takeWhile (\<lambda>x. x \<noteq> 32) s)) else None)"
    using strchr_upto [OF nul, of 32] by (simp add: s_def)
  show ?thesis
  proof (cases "32 \<in> set s")
    case False
    then show ?thesis using chr by (simp add: parse_request_def request_line_def s_def [symmetric])
  next
    case True
    define m where "m = takeWhile (\<lambda>c. c \<noteq> 32) s"
    define uri where "uri = drop (length m + 1) (req_buf st)"
    define u where "u = takeWhile (\<lambda>c. c \<noteq> 32) (upto_nul uri)"
    define p where "p = takeWhile (\<lambda>c. c \<noteq> 63) u"
    define q where "q = drop (length p + 1) u"
    have i: "length m + 1 \<le> length s" using length_takeWhile_in [OF True] by (simp add: m_def)
    have uri: "upto_nul uri = drop (length m + 1) s" "0 \<in> set uri"
      using i upto_nul_drop [of "length m + 1" "req_buf st"] nul_in_drop [OF nul, of "length m + 1"] by (simp_all add: uri_def s_def)
    note f = uri_fields [OF uri(2), folded u_def, folded p_def]
    have rl: "request_line s = Some (m, p, q)" using True by (simp add: request_line_def Let_def m_def q_def p_def u_def uri(1))
    define ml where "ml = unat (if (of_nat (length m) :: u8) \<ge> 8 then 7 else of_nat (length m) :: u8)"
    define pl where "pl = (if length p \<ge> 128 then 127 else length p)"
    define ql where "ql = (if length q \<ge> 64 then 63 else length q)"
    have lens: "(case if 63 \<in> set u then Some (length p) else None of Some k \<Rightarrow> (k, length u - k - 1) | None \<Rightarrow> (length u, 0)) = (length p, length q)"
      using f(3) by (simp add: q_def)
    obtain cm cm' where cm: "memcpy (cmethod st) 0 (req_buf st) 0 ml = Some cm" "store cm ml 0 = Some cm'" "length cm' = 8" "0 \<in> set cm'"
        "cstr cm' = Some (take (min 7 (length m mod 256)) m)"
      using copy_method [OF nul, of "cmethod st"] assms unfolding conn_ok_def s_def [symmetric] m_def [symmetric] ml_def [symmetric] by blast
    obtain cp cp' where cp: "memcpy (cpath st) 0 uri 0 pl = Some cp" "store cp pl 0 = Some cp'" "length cp' = 128" "0 \<in> set cp'"
        "cstr cp' = Some (take 127 p)"
      using copy_path [OF uri(2), of "cpath st"] assms unfolding conn_ok_def u_def [symmetric] p_def [symmetric] pl_def [symmetric] by blast
    obtain cq cq' where cq: "(if 63 \<in> set u then if ql > 0 then memcpy (cquery st) 0 uri (length p + 1) ql else Some (cquery st) else Some (cquery st)) = Some cq"
        "store cq ql 0 = Some cq'" "length cq' = 64" "0 \<in> set cq'" "cstr cq' = Some (take 63 q)"
      using copy_query [OF uri(2), of "cquery st"] assms
      unfolding conn_ok_def u_def [symmetric] p_def [symmetric] q_def [symmetric] ql_def [symmetric] by blast
    have cq1: "(case if 63 \<in> set u then Some (length p) else None of Some k \<Rightarrow> if ql > 0 then memcpy (cquery st) 0 uri (k + 1) ql else Some (cquery st)
        | None \<Rightarrow> Some (cquery st)) = Some cq" using cq(1) by (simp del: gr0_conv_Suc split: if_split_asm)
    have sp1: "strchr 32 (req_buf st) = Some (Some (length m))" using chr True by (simp add: m_def)
    from f(1) obtain sp2 where sp2: "strchr 32 uri = Some sp2" "(case sp2 of Some j \<Rightarrow> Some j | None \<Rightarrow> strlen uri) = Some (length u)"
      by (auto simp: bind_eq_Some_conv)
    have "parse_request st = Some (Some (st\<lparr>cmethod := cm', cpath := cp', cquery := cq'\<rparr>))"
      by (simp only: parse_request_def Let_def sp1 Option.bind_lunit option.case uri_def [symmetric] ml_def [symmetric] cm sp2 f(2) lens prod.case
          pl_def [symmetric] ql_def [symmetric] cp cq1 cq(2))
    then show ?thesis
      using cm(3-5) cp(3-5) cq(3-5) assms unfolding s_def [symmetric] rl option.case prod.case
      by (intro exI [of _ cm'] exI [of _ cp'] exI [of _ cq']) (simp add: conn_ok_def)
  qed
qed

end
