(* ===== verification/Arduino_Http_Server.thy ===== *)
theory Arduino_Http_Server
  imports Arduino_Http_Parse
begin

text \<open>
  What the HTTP server answers, and to whom its memory belongs: every callback that lwIP makes on a connection is safe and keeps the ownership of
  the connection states, and a request is answered once, by the handler of its path, however it is cut into segments.
\<close>

section \<open>Responses\<close>

text \<open>A handler leaves a terminated string in the array for the body.\<close>

definition handler_ok :: "handler \<Rightarrow> bool" where
  "handler_ok f \<longleftrightarrow> (\<forall>m p q b. length b = 512 \<longrightarrow> length (snd (f m p q b)) = 512 \<and> 0 \<in> set (snd (f m p q b)))"

definition server_ok :: "'s http \<Rightarrow> bool" where
  "server_ok w \<longleftrightarrow> length (resp_body w) = 512 \<and> length (header_buf w) = 192 \<and> length (routes w) = 8 \<and> unat (route_count w) \<le> 8 \<and>
     (\<forall>r \<in> set (routes w). pred_option handler_ok (rhandler r)) \<and> pred_option handler_ok (not_found_handler w)"

text \<open>The calls that send a response, and the response to a request: code, text and body.\<close>

definition respond :: "'s tcp_api \<Rightarrow> nat \<Rightarrow> u16 \<times> bytes \<times> bytes \<Rightarrow> 's \<Rightarrow> 's" where
  "respond api tpcb = (\<lambda>(code, text, body) s.
     do_shutdown api tpcb False True (do_output api tpcb
       ((if body = [] then (\<lambda>s. s) else do_write api tpcb body 1) (do_write api tpcb (response_header code text (length body)) 3 s))))"

definition answer :: "'s http \<Rightarrow> bytes \<Rightarrow> bytes \<Rightarrow> bytes \<Rightarrow> u16 \<times> bytes \<times> bytes" where
  "answer w m p q =
    (let call = (\<lambda>f. case f m p q ((resp_body w)[0 := 0]) of (code, body) \<Rightarrow> (code, upto_nul body))
     in case findHandler w p of
          Some f \<Rightarrow> (case call f of (code, body) \<Rightarrow> (code, status_text code, body))
        | None \<Rightarrow> (case not_found_handler w of
            Some f \<Rightarrow> (case call f of (code, body) \<Rightarrow> (code, str ''Not Found'', body))
          | None \<Rightarrow> (404, str ''Not Found'', not_found_page p)))"

lemma length_status_text: "length (status_text code) \<le> 21"
  by (simp add: status_text_def str_def)

lemma response_header_fits:
  assumes "length text \<le> 21" "n < 1000"
  shows "0 < length (response_header code text n)" "length (response_header code text n) < 192"
proof -
  have "length (dec (unat code)) \<le> 5" using length_dec [of "unat code" 4] unat_u16_less [of code] by simp
  moreover have "length (dec n) \<le> 3" using length_dec [of n 2] assms(2) by simp
  ultimately show "0 < length (response_header code text n)" "length (response_header code text n) < 192"
    using assms(1) by (simp_all add: response_header_def crlf_def)
qed

lemma sendResponse_respond:
  assumes "0 \<in> set body" "length body = 512" "length text \<le> 21" "length (header_buf w) = 192"
  shows "\<exists>hb. length hb = 192 \<and> sendResponse api tpcb code text body w =
    Some (w\<lparr>header_buf := hb, stack := respond api tpcb (code, text, upto_nul body) (stack w)\<rparr>)"
proof -
  let ?n = "length (upto_nul body)"
  define hdr where "hdr = response_header code text ?n"
  have n: "strlen body = Some ?n" "?n < 512" using strlen_takeWhile [OF assms(1)] length_takeWhile_upto [OF assms(1)] assms(2) by simp_all
  have fit: "0 < length hdr" "length hdr < 192" using response_header_fits [OF assms(3)] n(2) by (simp_all add: hdr_def)
  define hb where "hb = put_at 0 (hdr @ [0]) (header_buf w)"
  have hb: "snprintf (header_buf w) 192 hdr = Some hb" "take (length hdr) hb = hdr" "length hb = 192"
    using fit assms(4) by (simp_all add: snprintf_def hb_def put_at_def)
  have body: "take (unat (of_nat ?n :: u16)) body = upto_nul body"
    using n(2) by (simp add: unat_u16_of_nat takeWhile_eq_take [symmetric])
  have "sendResponse api tpcb code text body w = Some (w\<lparr>header_buf := hb, stack := respond api tpcb (code, text, upto_nul body) (stack w)\<rparr>)"
    unfolding sendResponse_def respond_def Let_def n(1) Option.bind_lunit hdr_def [symmetric] hb(1) prod.case using fit hb(2) body by simp
  with hb(3) show ?thesis by blast
qed

lemma findHandler_ok: "server_ok w \<Longrightarrow> pred_option handler_ok (findHandler w p)"
proof -
  have *: "(\<forall>r \<in> set rs. pred_option handler_ok (rhandler r)) \<Longrightarrow> pred_option handler_ok (findHandler_loop p rs)" for rs
    by (induction rs) auto
  assume "server_ok w"
  then show ?thesis unfolding findHandler_def by (intro *) (auto simp: server_ok_def dest: in_set_takeD)
qed

lemma not_found_page_fits:
  assumes "length p \<le> 127" "0 \<notin> set p" "length b = 512"
  shows "\<exists>b'. snprintf b 512 (not_found_page p) = Some b' \<and> length b' = 512 \<and> 0 \<in> set b' \<and> upto_nul b' = not_found_page p"
proof -
  have l: "length (not_found_page p) \<le> 511" using assms(1) by (simp add: not_found_page_def)
  moreover have "0 \<notin> set (not_found_page p)" using assms(2) by (auto simp: not_found_page_def str_def)
  ultimately show ?thesis
    using assms(3) by (auto simp: snprintf_def put_at_def upto_nul_append)
qed

lemma handleRequest_answer:
  assumes "conns w a = Some st" "server_ok w" "cstr (cmethod st) = Some m" "cstr (cpath st) = Some p" "cstr (cquery st) = Some q" "length p \<le> 127"
  shows "\<exists>rb hb. length rb = 512 \<and> length hb = 192 \<and>
    handleRequest api tpcb a w = Some (w\<lparr>resp_body := rb, header_buf := hb, stack := respond api tpcb (answer w m p q) (stack w)\<rparr>)"
proof -
  have l: "length (resp_body w) = 512" "length (header_buf w) = 192" using assms(2) by (simp_all add: server_ok_def)
  define b0 where "b0 = (resp_body w)[0 := 0]"
  have b0: "store (resp_body w) 0 0 = Some b0" "length b0 = 512" using l by (simp_all add: store_def b0_def)
  have hs: "\<And>f. findHandler w p = Some f \<Longrightarrow> handler_ok f" "\<And>f. not_found_handler w = Some f \<Longrightarrow> handler_ok f"
    using findHandler_ok [OF assms(2), of p] assms(2) by (auto simp: server_ok_def)
  obtain code tx body where r: "(case findHandler w p of
          Some f \<Rightarrow> (case f m p q b0 of (code, body) \<Rightarrow> Some (code, status_text code, body))
        | None \<Rightarrow> (case not_found_handler w of
            Some f \<Rightarrow> (case f m p q b0 of (code, body) \<Rightarrow> Some (code, str ''Not Found'', body))
          | None \<Rightarrow> map_option (\<lambda>body. (404, str ''Not Found'', body)) (snprintf b0 HTTP_SERVER_RESP_BUF_SIZE (not_found_page p)))) = Some (code, tx, body)"
      "answer w m p q = (code, tx, upto_nul body)" "length tx \<le> 21" "length body = 512" "0 \<in> set body"
  proof -
    consider f c b where "findHandler w p = Some f" "f m p q b0 = (c, b)" "length b = 512" "0 \<in> set b"
      | f c b where "findHandler w p = None" "not_found_handler w = Some f" "f m p q b0 = (c, b)" "length b = 512" "0 \<in> set b"
      | "findHandler w p = None" "not_found_handler w = None"
      using hs b0(2) unfolding handler_ok_def by (metis not_None_eq snd_conv surj_pair)
    then show ?thesis
    proof cases
      case 1
      then show ?thesis using that [of c "status_text c" b] length_status_text by (simp add: answer_def b0_def [symmetric])
    next
      case 2
      then show ?thesis using that [of c "str ''Not Found''" b] by (simp add: answer_def b0_def [symmetric])
    next
      case 3
      obtain b where "snprintf b0 512 (not_found_page p) = Some b" "length b = 512" "0 \<in> set b" "upto_nul b = not_found_page p"
        using not_found_page_fits [OF assms(6) cstr_no_nul [OF assms(4)] b0(2)] by blast
      with 3 show ?thesis using that [of 404 "str ''Not Found''" b] by (simp add: answer_def)
    qed
  qed
  have "\<exists>hb. length hb = 192 \<and> sendResponse api tpcb code tx body (w\<lparr>resp_body := body\<rparr>) =
      Some (w\<lparr>resp_body := body, header_buf := hb, stack := respond api tpcb (answer w m p q) (stack w)\<rparr>)"
    using sendResponse_respond [OF r(5,4,3), of "w\<lparr>resp_body := body\<rparr>" api tpcb code] l(2) r(2) by simp
  then obtain hb where "length hb = 192" "sendResponse api tpcb code tx body (w\<lparr>resp_body := body\<rparr>) =
      Some (w\<lparr>resp_body := body, header_buf := hb, stack := respond api tpcb (answer w m p q) (stack w)\<rparr>)" by blast
  moreover from this have "handleRequest api tpcb a w = Some (w\<lparr>resp_body := body, header_buf := hb, stack := respond api tpcb (answer w m p q) (stack w)\<rparr>)"
    by (simp only: handleRequest_def assms(1,3-5) b0(1) Option.bind_lunit r(1) prod.case)
  ultimately show ?thesis using r(4) by blast
qed

section \<open>Data on a connection\<close>

text \<open>What happens to a connection after the copy of the data.\<close>

definition dispatch :: "'s tcp_api \<Rightarrow> nat \<Rightarrow> nat \<Rightarrow> ConnState \<Rightarrow> 's http \<Rightarrow> 's http option" where
  "dispatch api tpcb a st w =
    (if headers_done st \<or> \<not> complete (received st) then Some (w\<lparr>conns := (conns w)(a \<mapsto> st)\<rparr>)
     else Option.bind (parse_request (st\<lparr>headers_done := True\<rparr>)) (\<lambda>r. case r of
       None \<Rightarrow> closeConn api tpcb (Some a) (w\<lparr>conns := (conns w)(a \<mapsto> st\<lparr>headers_done := True\<rparr>)\<rparr>)
     | Some st \<Rightarrow> if cserver st = This then handleRequest api tpcb a (w\<lparr>conns := (conns w)(a \<mapsto> st)\<rparr>) else None))"

lemma onRecv_dispatch:
  assumes "conns w a = Some st" "conn_ok st" "pchain h (Some p) xs" "list_all (freeable h) xs"
  obtains st' where "conn_ok st'" "received st' = take 511 (received st @ pdata h xs)" "headers_done st' = headers_done st" "cserver st' = cserver st"
    "onRecv api (Conn a) tpcb (Some p) ERR_OK h w = map_option (\<lambda>w. (ERR_OK, freed h xs, w))
       (dispatch api tpcb a st' (w\<lparr>stack := do_recved api tpcb (of_nat (length (pdata h xs))) (stack w)\<rparr>))"
proof -
  obtain b where b: "h p = Some b" "unat (tot_len b) = length (pdata h xs)" using assms(3) by (cases xs) (auto simp: length_bdata split: option.splits)
  have tl: "tot_len b = of_nat (length (pdata h xs))" using b(2) by (simp add: word_unat_eq_iff unat_u16_of_nat flip: b(2))
  obtain n where fr: "pbuf_free h (Some p) = Some (n, freed h xs)" using pbuf_free_loop_freed [of h "Some p" xs 0] assms(3,4) by (auto simp: pbuf_free_def)
  obtain st' where st': "append_request h p (tot_len b) st = Some st'" "conn_ok st'" "received st' = take 511 (received st @ pdata h xs)"
    "headers_done st' = headers_done st" "cserver st' = cserver st"
    by (rule append_request_data [OF assms(2,3) b(1)])
  obtain e where e: "find_end st' = Some e" "e \<noteq> None \<longleftrightarrow> complete (received st')" using find_end_complete [OF st'(2)] by blast
  have "onRecv api (Conn a) tpcb (Some p) ERR_OK h w = map_option (\<lambda>w. (ERR_OK, freed h xs, w))
       (dispatch api tpcb a st' (w\<lparr>stack := do_recved api tpcb (of_nat (length (pdata h xs))) (stack w)\<rparr>))"
    using b assms(1) fr st'(1) e
    by (auto simp: onRecv_def dispatch_def Let_def tl [symmetric] option.map_comp comp_def map_option_bind
        split: option.splits intro!: arg_cong2 [where f = Option.bind])
  then show ?thesis using that st'(2-5) by blast
qed

lemma findHandler_cong: "routes w' = routes w \<Longrightarrow> route_count w' = route_count w \<Longrightarrow> findHandler w' = findHandler w"
  by (simp add: findHandler_def fun_eq_iff)

lemma answer_cong:
  "routes w' = routes w \<Longrightarrow> route_count w' = route_count w \<Longrightarrow> not_found_handler w' = not_found_handler w \<Longrightarrow> resp_body w' = resp_body w \<Longrightarrow>
   answer w' = answer w"
  by (simp add: answer_def fun_eq_iff findHandler_cong [of w' w] cong: option.case_cong)

lemma dispatch_answer:
  assumes "conn_ok st" "server_ok w" "\<not> headers_done st" "complete (received st)" "cserver st = This"
    and "request_line (upto_nul (received st)) = Some (m, p, q)"
  shows "\<exists>st' rb hb. conn_ok st' \<and> headers_done st' \<and> cserver st' = This \<and> length rb = 512 \<and> length hb = 192 \<and>
    dispatch api tpcb a st w = Some (w\<lparr>conns := (conns w)(a \<mapsto> st'), resp_body := rb, header_buf := hb,
      stack := respond api tpcb (answer w (take (min 7 (length m mod 256)) m) (take 127 p) (take 63 q)) (stack w)\<rparr>)"
proof -
  have ok: "conn_ok (st\<lparr>headers_done := True\<rparr>)" using assms(1) by (simp add: conn_ok_def)
  have rl: "request_line (upto_nul (req_buf (st\<lparr>headers_done := True\<rparr>))) = Some (m, p, q)" using assms(6) upto_nul_received [OF assms(1)] by simp
  obtain cm cp cq where st': "parse_request (st\<lparr>headers_done := True\<rparr>) = Some (Some (st\<lparr>headers_done := True, cmethod := cm, cpath := cp, cquery := cq\<rparr>))"
    "conn_ok (st\<lparr>headers_done := True, cmethod := cm, cpath := cp, cquery := cq\<rparr>)"
    "cstr cm = Some (take (min 7 (length m mod 256)) m)" "cstr cp = Some (take 127 p)" "cstr cq = Some (take 63 q)"
    using parse_request_line [OF ok] unfolding rl option.case prod.case by blast
  define st1 where "st1 = st\<lparr>headers_done := True, cmethod := cm, cpath := cp, cquery := cq\<rparr>"
  define w1 where "w1 = w\<lparr>conns := (conns w)(a \<mapsto> st1)\<rparr>"
  have w1: "conns w1 a = Some st1" "server_ok w1" "answer w1 = answer w"
    using assms(2) answer_cong [of w1 w] by (simp_all add: w1_def server_ok_def)
  have c: "cstr (cmethod st1) = Some (take (min 7 (length m mod 256)) m)" "cstr (cpath st1) = Some (take 127 p)" "cstr (cquery st1) = Some (take 63 q)"
    using st'(3-5) by (simp_all add: st1_def)
  obtain rb hb where "length rb = 512" "length hb = 192" "handleRequest api tpcb a w1 = Some (w1\<lparr>resp_body := rb, header_buf := hb,
      stack := respond api tpcb (answer w (take (min 7 (length m mod 256)) m) (take 127 p) (take 63 q)) (stack w1)\<rparr>)"
    using handleRequest_answer [OF w1(1,2) c, of api tpcb] unfolding w1(3) by (elim meta_impE exE conjE) simp_all
  moreover have "dispatch api tpcb a st w = handleRequest api tpcb a w1"
    using assms(3-5) st'(1) by (simp add: dispatch_def w1_def st1_def)
  ultimately show ?thesis
    using st'(2) assms(5) by (intro exI [of _ st1] exI [of _ rb] exI [of _ hb]) (simp add: w1_def st1_def)
qed

section \<open>A request in segments\<close>

text \<open>Segments arrive as chains of pbufs, each in a heap of its own.\<close>

definition segment :: "heap \<times> nat \<Rightarrow> bytes \<Rightarrow> bool" where
  "segment = (\<lambda>(h, p) bs. \<exists>xs. pchain h (Some p) xs \<and> list_all (freeable h) xs \<and> pdata h xs = bs)"

fun http_receive :: "'s tcp_api \<Rightarrow> nat \<Rightarrow> nat \<Rightarrow> (heap \<times> nat) list \<Rightarrow> 's http \<Rightarrow> 's http option" where
  "http_receive api a tpcb [] w = Some w"
| "http_receive api a tpcb ((h, p) # segs) w =
    Option.bind (onRecv api (Conn a) tpcb (Some p) ERR_OK h w) (\<lambda>(_, _, w). http_receive api a tpcb segs w)"

abbreviation recved :: "'s tcp_api \<Rightarrow> nat \<Rightarrow> bytes \<Rightarrow> 's \<Rightarrow> 's" where
  "recved api tpcb bs \<equiv> do_recved api tpcb (of_nat (length bs))"

lemma segment_dispatch:
  assumes "conns w a = Some st" "conn_ok st" "segment (h, p) bs"
  obtains st' where "conn_ok st'" "received st' = take 511 (received st @ bs)" "headers_done st' = headers_done st" "cserver st' = cserver st"
    "http_receive api a tpcb ((h, p) # segs) w =
       Option.bind (dispatch api tpcb a st' (w\<lparr>stack := recved api tpcb bs (stack w)\<rparr>)) (http_receive api a tpcb segs)"
proof -
  obtain xs where xs: "pchain h (Some p) xs" "list_all (freeable h) xs" "pdata h xs = bs" using assms(3) by (auto simp: segment_def)
  obtain st' where st': "conn_ok st'" "received st' = take 511 (received st @ bs)" "headers_done st' = headers_done st" "cserver st' = cserver st"
    "onRecv api (Conn a) tpcb (Some p) ERR_OK h w = map_option (\<lambda>w. (ERR_OK, freed h xs, w)) (dispatch api tpcb a st' (w\<lparr>stack := recved api tpcb bs (stack w)\<rparr>))"
    using onRecv_dispatch [OF assms(1,2) xs(1,2), where api = api and tpcb = tpcb] unfolding xs(3) by blast
  then show ?thesis
    using that by (cases "dispatch api tpcb a st' (w\<lparr>stack := recved api tpcb bs (stack w)\<rparr>)") simp_all
qed

text \<open>Data after the request is acknowledged and ignored.\<close>

lemma receive_done:
  assumes "list_all2 segment segs ds" "conns w a = Some st" "conn_ok st" "headers_done st"
  shows "\<exists>st'. conn_ok st' \<and> headers_done st' \<and> cserver st' = cserver st \<and>
    http_receive api a tpcb segs w = Some (w\<lparr>conns := (conns w)(a \<mapsto> st'), stack := fold (recved api tpcb) ds (stack w)\<rparr>)"
  using assms
proof (induction segs arbitrary: ds w st)
  case Nil
  then have "(conns w)(a \<mapsto> st) = conns w" by (simp add: fun_upd_idem)
  with Nil show ?case by (intro exI [of _ st]) simp
next
  case (Cons hp segs)
  obtain h p d ds' where *: "hp = (h, p)" "ds = d # ds'" "segment (h, p) d" "list_all2 segment segs ds'"
    using Cons.prems(1) by (cases hp) (auto simp: list_all2_Cons1)
  obtain st1 where st1: "conn_ok st1" "headers_done st1 = headers_done st" "cserver st1 = cserver st"
    "http_receive api a tpcb ((h, p) # segs) w =
       Option.bind (dispatch api tpcb a st1 (w\<lparr>stack := recved api tpcb d (stack w)\<rparr>)) (http_receive api a tpcb segs)"
    using segment_dispatch [OF Cons.prems(2,3) *(3)] by metis
  define w1 where "w1 = w\<lparr>stack := recved api tpcb d (stack w), conns := (conns w)(a \<mapsto> st1)\<rparr>"
  have "conns w1 a = Some st1" "headers_done st1" using st1(2) Cons.prems(4) by (simp_all add: w1_def)
  from Cons.IH [OF *(4) this(1) st1(1) this(2)] obtain st' where st': "conn_ok st'" "headers_done st'" "cserver st' = cserver st1"
    "http_receive api a tpcb segs w1 = Some (w1\<lparr>conns := (conns w1)(a \<mapsto> st'), stack := fold (recved api tpcb) ds' (stack w1)\<rparr>)" by blast
  have "dispatch api tpcb a st1 (w\<lparr>stack := recved api tpcb d (stack w)\<rparr>) = Some w1"
    using st1(2) Cons.prems(4) by (simp add: dispatch_def w1_def)
  then show ?case
    using st1(3,4) st' *(1,2) by (intro exI [of _ st']) (simp add: w1_def del: fun_upd_apply http_receive.simps)
qed

text \<open>The server after it has taken the segments \<open>ds1\<close>, sent the response \<open>r\<close> and taken the segments \<open>ds2\<close>.\<close>

definition answered :: "'s tcp_api \<Rightarrow> nat \<Rightarrow> nat \<Rightarrow> u16 \<times> bytes \<times> bytes \<Rightarrow> bytes list \<Rightarrow> bytes list \<Rightarrow> 's http \<Rightarrow> 's http \<Rightarrow> bool" where
  "answered api tpcb a r ds1 ds2 w w' \<longleftrightarrow> (\<exists>st rb hb. conn_ok st \<and> headers_done st \<and> length rb = 512 \<and> length hb = 192 \<and>
     w' = w\<lparr>conns := (conns w)(a \<mapsto> st), resp_body := rb, header_buf := hb,
       stack := fold (recved api tpcb) ds2 (respond api tpcb r (fold (recved api tpcb) ds1 (stack w)))\<rparr>)"

lemma answered_later:
  "answered api tpcb a r ds1 ds2 (w\<lparr>stack := recved api tpcb d (stack w), conns := (conns w)(a \<mapsto> st)\<rparr>) w' \<Longrightarrow> answered api tpcb a r (d # ds1) ds2 w w'"
  unfolding answered_def by (elim exE conjE, intro exI conjI, assumption+) (simp del: fun_upd_apply)

lemma answered_now:
  assumes "list_all2 segment segs ds" "conn_ok st" "server_ok w" "\<not> headers_done st" "complete (received st)" "cserver st = This"
    and "request_line (upto_nul (received st)) = Some (m, p, q)"
  shows "\<exists>w'. Option.bind (dispatch api tpcb a st (w\<lparr>stack := recved api tpcb d (stack w)\<rparr>)) (http_receive api a tpcb segs) = Some w' \<and>
    answered api tpcb a (answer w (take (min 7 (length m mod 256)) m) (take 127 p) (take 63 q)) [d] ds w w'"
proof -
  define w1 where "w1 = w\<lparr>stack := recved api tpcb d (stack w)\<rparr>"
  have w1: "server_ok w1" "answer w1 = answer w"
    using assms(3) answer_cong [of w1 w] by (simp_all add: w1_def server_ok_def)
  obtain st2 rb hb where 2: "conn_ok st2" "headers_done st2" "length rb = 512" "length hb = 192"
    "dispatch api tpcb a st w1 = Some (w1\<lparr>conns := (conns w1)(a \<mapsto> st2), resp_body := rb, header_buf := hb,
       stack := respond api tpcb (answer w (take (min 7 (length m mod 256)) m) (take 127 p) (take 63 q)) (stack w1)\<rparr>)"
    using dispatch_answer [OF assms(2) w1(1) assms(4-7), of api tpcb a] unfolding w1(2) by blast
  define w2 where "w2 = the (dispatch api tpcb a st w1)"
  have "conns w2 a = Some st2" by (simp add: w2_def 2(5))
  from receive_done [OF assms(1) this 2(1,2), of api tpcb] obtain st3 where 3: "conn_ok st3" "headers_done st3"
    "http_receive api a tpcb segs w2 = Some (w2\<lparr>conns := (conns w2)(a \<mapsto> st3), stack := fold (recved api tpcb) ds (stack w2)\<rparr>)" by blast
  have "Option.bind (dispatch api tpcb a st w1) (http_receive api a tpcb segs) = http_receive api a tpcb segs w2" by (simp add: w2_def 2(5))
  then show ?thesis
    unfolding w1_def [symmetric] answered_def using 3 2(3-5)
    by (intro exI conjI) (assumption | simp add: w2_def w1_def del: http_receive.simps fun_upd_apply)+
qed

text \<open>
  The segments up to the one that completes the request are collected, that one is answered. \<open>pre\<close> is what has arrived before.
\<close>

lemma receive_answer:
  assumes "list_all2 segment segs ds" "conns w a = Some st" "conn_ok st" "server_ok w" "\<not> headers_done st" "cserver st = This"
    and "received st = take 511 pre" "\<not> complete (take 511 pre)" "complete (take 511 (pre @ concat ds))"
    and "\<And>n. complete (take n (pre @ concat ds)) \<Longrightarrow> request_line (upto_nul (take n (pre @ concat ds))) = Some (m, p, q)"
  shows "\<exists>k w'. k < length ds \<and> \<not> complete (take 511 (pre @ concat (take k ds))) \<and> complete (take 511 (pre @ concat (take (Suc k) ds))) \<and>
    http_receive api a tpcb segs w = Some w' \<and>
    answered api tpcb a (answer w (take (min 7 (length m mod 256)) m) (take 127 p) (take 63 q)) (take (Suc k) ds) (drop (Suc k) ds) w w'"
  using assms
proof (induction segs arbitrary: ds w st pre)
  case Nil
  then show ?case by simp
next
  case (Cons hp segs)
  obtain h i d ds' where *: "hp = (h, i)" "ds = d # ds'" "segment (h, i) d" "list_all2 segment segs ds'"
    using Cons.prems(1) by (cases hp) (auto simp: list_all2_Cons1)
  obtain st1 where st1: "conn_ok st1" "received st1 = take 511 (received st @ d)" "headers_done st1 = headers_done st" "cserver st1 = cserver st"
    "http_receive api a tpcb ((h, i) # segs) w =
       Option.bind (dispatch api tpcb a st1 (w\<lparr>stack := recved api tpcb d (stack w)\<rparr>)) (http_receive api a tpcb segs)"
    using segment_dispatch [OF Cons.prems(2,3) *(3)] by metis
  have r1: "received st1 = take 511 (pre @ d)" and s1: "\<not> headers_done st1" "cserver st1 = This"
    using st1(2-4) Cons.prems(5-7) by (simp_all add: min_def)
  show ?case
  proof (cases "complete (received st1)")
    case True
    define n where "n = min 511 (length (pre @ d))"
    have "received st1 = take n (pre @ concat ds)" unfolding r1 n_def *(2) by (simp add: min_def)
    then have "request_line (upto_nul (received st1)) = Some (m, p, q)" using Cons.prems(10) True by metis
    from answered_now [OF *(4) st1(1) Cons.prems(4) s1(1) True s1(2) this, of api tpcb a d] show ?thesis
      using True Cons.prems(8) st1(5) *(1,2) r1 by (elim exE conjE, intro exI [of _ 0] exI conjI) (assumption | simp)+
  next
    case False
    define w2 where "w2 = w\<lparr>stack := recved api tpcb d (stack w), conns := (conns w)(a \<mapsto> st1)\<rparr>"
    have eq: "http_receive api a tpcb (hp # segs) w = http_receive api a tpcb segs w2"
      using st1(5) False by (simp add: *(1) dispatch_def w2_def del: http_receive.simps)
    have w2: "conns w2 a = Some st1" "server_ok w2" "answer w2 = answer w"
      using Cons.prems(4) answer_cong [of w2 w] by (simp_all add: w2_def server_ok_def)
    have "\<exists>k w'. k < length ds' \<and> \<not> complete (take 511 ((pre @ d) @ concat (take k ds'))) \<and> complete (take 511 ((pre @ d) @ concat (take (Suc k) ds'))) \<and>
        http_receive api a tpcb segs w2 = Some w' \<and>
        answered api tpcb a (answer w2 (take (min 7 (length m mod 256)) m) (take 127 p) (take 63 q)) (take (Suc k) ds') (drop (Suc k) ds') w2 w'"
      by (rule Cons.IH [OF *(4) w2(1) st1(1) w2(2) s1 r1]) (use False r1 Cons.prems(9,10) *(2) in simp_all)
    then obtain k w' where k: "k < length ds'" "\<not> complete (take 511 ((pre @ d) @ concat (take k ds')))"
        "complete (take 511 ((pre @ d) @ concat (take (Suc k) ds')))" "http_receive api a tpcb segs w2 = Some w'"
        "answered api tpcb a (answer w (take (min 7 (length m mod 256)) m) (take 127 p) (take 63 q)) (take (Suc k) ds') (drop (Suc k) ds') w2 w'"
      unfolding w2(3) by blast
    from answered_later [OF k(5) [unfolded w2_def]] k(1-4) show ?thesis
      unfolding eq *(2) by (intro exI [of _ "Suc k"] exI [of _ w'] conjI) simp_all
  qed
qed

section \<open>Properties\<close>

lemma find_sub_has: "find_sub pat xs \<noteq> None \<Longrightarrow> c \<in> set pat \<Longrightarrow> c \<in> set xs"
proof (induction xs)
  case (Cons x xs)
  show ?case
  proof (cases "take (length pat) (x # xs) = pat")
    case True
    with Cons.prems(2) show ?thesis by (metis in_set_takeD)
  next
    case False
    with Cons show ?thesis by auto
  qed
qed (simp split: if_splits)

lemma complete_has_newline: "complete bs \<Longrightarrow> 10 \<in> set bs"
  unfolding complete_def using find_sub_has [of _ bs 10] by fastforce

lemma not_complete_Nil: "\<not> complete []"
  by (simp add: complete_def)

text \<open>The start of a request that has an empty line has the whole request line.\<close>

lemma request_line_prefix:
  assumes "bs = m @ 32 # u @ 32 # rest" "{0, 10, 32} \<inter> set (m @ u) = {}" "complete (take n bs)"
  shows "request_line (upto_nul (take n bs)) = Some (m, takeWhile (\<lambda>c. c \<noteq> 63) u, drop (length (takeWhile (\<lambda>c. c \<noteq> 63) u) + 1) u)"
proof -
  let ?l = "length m + length u + 2"
  have bs: "take n bs = take n (m @ 32 # u @ [32]) @ take (n - ?l) rest" using take_append [of n "m @ 32 # u @ [32]" rest] by (simp add: assms(1))
  have "\<not> n \<le> ?l"
  proof
    assume "n \<le> ?l"
    then have "take n bs = take n (m @ 32 # u @ [32])" by (simp add: bs)
    then show False using complete_has_newline [OF assms(3)] assms(2) by (auto dest!: in_set_takeD)
  qed
  then have "take n bs = m @ 32 # u @ 32 # take (n - ?l) rest" by (simp add: bs)
  moreover have "upto_nul (m @ 32 # u @ 32 # xs) = m @ 32 # u @ 32 # upto_nul xs" for xs
    using upto_nul_skip [of "m @ 32 # u @ [32]" xs] assms(2) by auto
  ultimately show ?thesis
    using assms(2) takeWhile_front [of 32 m] takeWhile_front [of 32 u] by (simp add: request_line_def Let_def)
qed

text \<open>
  C27. The server answers a request once, however it is cut into segments. On a connection just accepted, let the segments together carry \<open>method path?query version\<close>
  and then an empty line within the first 511 bytes. The segments before the empty line has arrived are acknowledged and collected; with the one that completes it, the
  handler registered for the path is called with the method, path and query, and its status and body are sent, with a header that states the body's length, then the sending
  side is closed; an unknown path goes to the not-found handler or gets the 404 page. Later segments are only acknowledged.
\<close>

theorem http_request_answered:
  assumes "conns w a = Some (ConnState_zero\<lparr>cserver := This\<rparr>)" "server_ok w" "list_all2 segment segs ds"
    and "concat ds = m @ 32 # u @ 32 # rest" "{0, 10, 32} \<inter> set (m @ u) = {}" "complete (take 511 (concat ds))"
    and "u = p \<and> q = [] \<or> u = p @ 63 # q" "63 \<notin> set p" "length m \<le> 7" "length p \<le> 127" "length q \<le> 63"
  shows "\<exists>k w'. k < length ds \<and> \<not> complete (take 511 (concat (take k ds))) \<and> complete (take 511 (concat (take (Suc k) ds))) \<and>
    http_receive api a tpcb segs w = Some w' \<and>
    answered api tpcb a (answer w m p q) (take (Suc k) ds) (drop (Suc k) ds) w w'"
proof -
  have pq: "takeWhile (\<lambda>c. c \<noteq> 63) u = p" "drop (length p + 1) u = q"
    using assms(7,8) takeWhile_front [of 63 p q] takeWhile_notin [of 63 p] by (elim disjE, simp_all)+
  have "\<And>n. complete (take n ([] @ concat ds)) \<Longrightarrow> request_line (upto_nul (take n ([] @ concat ds))) = Some (m, p, q)"
    using request_line_prefix [OF assms(4,5)] pq by simp
  moreover have "\<not> headers_done (ConnState_zero\<lparr>cserver := This\<rparr>)" "cserver (ConnState_zero\<lparr>cserver := This\<rparr>) = This"
    by (simp_all add: ConnState_zero_def)
  ultimately show ?thesis
    using receive_answer [OF assms(3,1) conn_ok_zero(1) assms(2), of "[]" m p q api tpcb] assms(6,9-11) not_complete_Nil
    by (simp add: conn_ok_zero(2) min_def del: ConnState.update_convs)
qed

section \<open>Examples\<close>

text \<open>A stack that records what is written, and a server with one page that has accepted a connection.\<close>

definition tcp_recorder :: "bytes list tcp_api" where
  "tcp_recorder = \<lparr>do_new = (\<lambda>s. (Some 3, s)), do_reuse = (\<lambda>pcb s. s), do_bind = (\<lambda>pcb port s. (ERR_OK, s)), do_listen = (\<lambda>pcb s. (Some 4, s)),
     do_close = (\<lambda>pcb s. s), do_abort = (\<lambda>pcb s. s), do_recved = (\<lambda>pcb n s. s), do_write = (\<lambda>pcb bs fl s. s @ [bs]), do_output = (\<lambda>pcb s. s),
     do_shutdown = (\<lambda>pcb rx tx s. s)\<rparr>"

definition hello :: handler where
  "hello m p q b = (200, put_at 0 (str ''hi'' @ [0]) b)"

definition no_callbacks :: pcb_callbacks where
  "no_callbacks = \<lparr>callback_arg = Null, recv_cb = False, sent_cb = False, err_cb = False, poll_cb = False, pollinterval = 0, accept_cb = False, prio = 64\<rparr>"

definition one_conn :: "(nat \<Rightarrow> ConnState option) \<Rightarrow> nat option" where
  "one_conn cs = (if cs 3 = None then Some 3 else None)"

definition hello_server :: "bytes list http" where
  "hello_server = snd (http_begin tcp_recorder (snd (http_on (Some (str ''/'')) (Some hello) (http_construct 80 (\<lambda>_. no_callbacks) []))))"

definition hello_accepted :: "bytes list http" where
  "hello_accepted = snd (onAccept tcp_recorder one_conn (callback_arg (pcbs hello_server 4)) (Some 5) ERR_OK hello_server)"

lemma hello_ok: "handler_ok hello"
  by (simp add: handler_ok_def hello_def put_at_def)

lemma hello_server:
  "hello_server = (http_construct 80 ((\<lambda>_. no_callbacks)(4 := no_callbacks\<lparr>callback_arg := This, accept_cb := True\<rparr>)) [])
     \<lparr>listen_pcb := Some 4, routes := \<lparr>rpath = Some (str ''/''), rhandler = Some hello\<rparr> # replicate 7 \<lparr>rpath = None, rhandler = None\<rparr>, route_count := 1\<rparr>"
  by (simp add: hello_server_def http_begin_def http_on_def http_construct_def tcp_recorder_def tcp_accept_def tcp_arg_def numeral_eq_Suc fun_eq_iff)

lemma hello_accepted:
  "conns hello_accepted 3 = Some (ConnState_zero\<lparr>cserver := This\<rparr>)" "server_ok hello_accepted" "stack hello_accepted = []"
  "findHandler hello_accepted (str ''/'') = Some hello" "callback_arg (pcbs hello_accepted 5) = Conn 3"
  using hello_ok
  by (simp_all add: hello_accepted_def onAccept_def one_conn_def hello_server http_construct_def server_ok_def findHandler_def
      tcp_setprio_def tcp_arg_def tcp_recv_def tcp_sent_def tcp_err_def tcp_poll_def)

definition one_segment :: "bytes \<Rightarrow> heap \<times> nat" where
  "one_segment bs = ([3 \<mapsto> pbuf_init_alloced_pbuf bs 0 (of_nat (length bs)) (of_nat (length bs)) PBUF_POOL 0], 3)"

lemma one_segment: "length bs < 65536 \<Longrightarrow> segment (one_segment bs) bs"
  by (simp add: one_segment_def segment_def)
    (intro exI [of _ "[3]"], simp add: pbuf_init_alloced_pbuf_def bdata_def sub_at_def freeable_def unat_u16_of_nat)

text \<open>\<open>GET / HTTP/1.0\<close> and the empty line, cut in the middle of a word and of the line end.\<close>

theorem http_request_answered_witness:
  "\<exists>w'. http_receive tcp_recorder 3 5 [one_segment (str ''GE''), one_segment (str ''T / HTTP/1.0'' @ [13, 10, 13]), one_segment [10]] hello_accepted = Some w' \<and>
    stack w' = [response_header 200 (str ''OK'') 2, str ''hi'']"
proof -
  let ?ds = "[str ''GE'', str ''T / HTTP/1.0'' @ [13, 10, 13], [10]]"
  have segs: "list_all2 segment [one_segment (str ''GE''), one_segment (str ''T / HTTP/1.0'' @ [13, 10, 13]), one_segment [10]] ?ds"
    by (simp add: one_segment)
  have req: "concat ?ds = str ''GET'' @ 32 # str ''/'' @ 32 # (str ''HTTP/1.0'' @ [13, 10, 13, 10])" by (simp add: str_def)
  have 1: "{0, 10, 32} \<inter> set (str ''GET'' @ str ''/'') = {}" "63 \<notin> set (str ''/'')" by (simp_all add: str_def)
  have 2: "complete (take 511 (concat ?ds))" by (simp add: str_def complete_def)
  have ans: "answer hello_accepted (str ''GET'') (str ''/'') [] = (200, str ''OK'', str ''hi'')"
    using hello_accepted(2,4) by (simp add: answer_def hello_def status_text_def put_at_def str_def)
  have f: "fold (\<lambda>b s. s) ds s = s" for ds :: "bytes list" and s :: "bytes list" by (induction ds) simp_all
  have "stack w' = [response_header 200 (str ''OK'') 2, str ''hi'']"
    if "answered tcp_recorder 5 3 (200, str ''OK'', str ''hi'') ds1 ds2 hello_accepted w'" for ds1 ds2 w'
    using that by (auto simp: answered_def f hello_accepted(3) respond_def str_def tcp_recorder_def numeral_2_eq_2)
  moreover from http_request_answered [OF hello_accepted(1,2) segs req 1(1) 2 _ 1(2), of "[]" tcp_recorder 5, unfolded ans]
  obtain k w' where "http_receive tcp_recorder 3 5 [one_segment (str ''GE''), one_segment (str ''T / HTTP/1.0'' @ [13, 10, 13]), one_segment [10]] hello_accepted = Some w'"
    "answered tcp_recorder 5 3 (200, str ''OK'', str ''hi'') (take (Suc k) ?ds) (drop (Suc k) ?ds) hello_accepted w'"
    by (auto simp del: take_Suc_Cons drop_Suc_Cons http_receive.simps)
  ultimately show ?thesis by blast
qed

end
