(* ===== verification/Arduino_Http_Memory.thy ===== *)
theory Arduino_Http_Memory
  imports Arduino_Http_Server
begin

text \<open>
  The memory of the HTTP server under the callbacks of lwIP: a step relation over the calls of the application and the events of the stack, and its invariant.
\<close>

section \<open>Events\<close>

text \<open>A connection that the server has no part in (any more, or yet): no callback of the server is set, and the argument is not a connection state.\<close>

definition idle :: "pcb_callbacks \<Rightarrow> bool" where
  "idle c \<longleftrightarrow> \<not> recv_cb c \<and> \<not> sent_cb c \<and> \<not> err_cb c \<and> \<not> poll_cb c \<and> (\<forall>a. callback_arg c \<noteq> Conn a)"

text \<open>
  What can happen: lwIP makes the callbacks that are set, with the argument that is stored; a new connection has none; the pcb is freed before the error callback is
  made. In between the stack changes its own state and the connections without callbacks.
\<close>

inductive http_reach :: "'s tcp_api \<Rightarrow> ((nat \<Rightarrow> ConnState option) \<Rightarrow> nat option) \<Rightarrow> 's http \<Rightarrow> bool" for api alloc where
  construct: "(\<And>pcb. idle (cbs pcb)) \<Longrightarrow> http_reach api alloc (http_construct port cbs s)"
| on: "http_reach api alloc w \<Longrightarrow> pred_option handler_ok f \<Longrightarrow> http_reach api alloc (snd (http_on path f w))"
| not_found: "http_reach api alloc w \<Longrightarrow> pred_option handler_ok f \<Longrightarrow> http_reach api alloc (setNotFoundHandler f w)"
| listen: "http_reach api alloc w \<Longrightarrow> (\<And>l. listen_pcb (snd (http_begin api w)) = Some l \<Longrightarrow> idle (pcbs w l)) \<Longrightarrow> http_reach api alloc (snd (http_begin api w))"
| stop: "http_reach api alloc w \<Longrightarrow> http_reach api alloc (http_stop api w)"
| accept: "http_reach api alloc w \<Longrightarrow> listen_pcb w = Some l \<Longrightarrow> pcb \<noteq> l \<Longrightarrow> idle (pcbs w pcb) \<Longrightarrow>
    http_reach api alloc (snd (onAccept api alloc (callback_arg (pcbs w l)) (Some pcb) ERR_OK w))"
| recv: "http_reach api alloc w \<Longrightarrow> recv_cb (pcbs w pcb) \<Longrightarrow> (\<And>x. p = Some x \<Longrightarrow> \<exists>bs. segment (h, x) bs) \<Longrightarrow>
    onRecv api (callback_arg (pcbs w pcb)) pcb p ERR_OK h w = Some (e, h', w') \<Longrightarrow> http_reach api alloc w'"
| sent: "http_reach api alloc w \<Longrightarrow> sent_cb (pcbs w pcb) \<Longrightarrow> http_reach api alloc (snd (onSent (callback_arg (pcbs w pcb)) pcb n w))"
| poll: "http_reach api alloc w \<Longrightarrow> poll_cb (pcbs w pcb) \<Longrightarrow> onPoll api (callback_arg (pcbs w pcb)) pcb w = Some (e, w') \<Longrightarrow> http_reach api alloc w'"
| err: "http_reach api alloc w \<Longrightarrow> err_cb (pcbs w pcb) \<Longrightarrow> idle c \<Longrightarrow>
    onError (callback_arg (pcbs w pcb)) e (w\<lparr>pcbs := (pcbs w)(pcb := c)\<rparr>) = Some w' \<Longrightarrow> http_reach api alloc w'"
| lwip: "http_reach api alloc w \<Longrightarrow> idle (pcbs w pcb) \<Longrightarrow> idle c \<Longrightarrow> listen_pcb w \<noteq> Some pcb \<Longrightarrow>
    http_reach api alloc (w\<lparr>pcbs := (pcbs w)(pcb := c), stack := s\<rparr>)"

text \<open>\<open>new\<close> returns memory that is not in use.\<close>

definition alloc_ok :: "((nat \<Rightarrow> ConnState option) \<Rightarrow> nat option) \<Rightarrow> bool" where
  "alloc_ok alloc \<longleftrightarrow> (\<forall>cs a. alloc cs = Some a \<longrightarrow> cs a = None)"

section \<open>Ownership\<close>

definition serving :: "pcb_callbacks \<Rightarrow> nat \<Rightarrow> bool" where
  "serving c a \<longleftrightarrow> callback_arg c = Conn a \<and> recv_cb c \<and> sent_cb c \<and> err_cb c \<and> poll_cb c"

definition live :: "ConnState \<Rightarrow> bool" where
  "live st \<longleftrightarrow> conn_ok st \<and> cserver st = This"

text \<open>
  Every connection is idle or serves a live state, two connections never the same one, and every state belongs to a connection.
\<close>

definition owned :: "(nat \<Rightarrow> pcb_callbacks) \<Rightarrow> (nat \<Rightarrow> ConnState option) \<Rightarrow> bool" where
  "owned cbs cs \<longleftrightarrow> (\<forall>pcb. idle (cbs pcb) \<or> (\<exists>a st. serving (cbs pcb) a \<and> cs a = Some st \<and> live st)) \<and>
     (\<forall>x y a. callback_arg (cbs x) = Conn a \<and> callback_arg (cbs y) = Conn a \<longrightarrow> x = y) \<and>
     (\<forall>a. cs a \<noteq> None \<longrightarrow> (\<exists>pcb. callback_arg (cbs pcb) = Conn a))"

definition http_inv :: "'s http \<Rightarrow> bool" where
  "http_inv w \<longleftrightarrow> server_ok w \<and> owned (pcbs w) (conns w) \<and> (\<forall>l. listen_pcb w = Some l \<longrightarrow> callback_arg (pcbs w l) = This)"

lemma idle_not_serving: "idle c \<Longrightarrow> callback_arg c \<noteq> Conn a"
  by (simp add: idle_def)

lemma owned_serving: "owned cbs cs \<Longrightarrow> \<not> idle (cbs pcb) \<Longrightarrow> \<exists>a st. serving (cbs pcb) a \<and> cs a = Some st \<and> live st"
  unfolding owned_def by blast

lemma ownedI:
  assumes "\<And>pcb. \<not> idle (cbs pcb) \<Longrightarrow> \<exists>a st. serving (cbs pcb) a \<and> cs a = Some st \<and> live st"
    and "\<And>x y a. callback_arg (cbs x) = Conn a \<Longrightarrow> callback_arg (cbs y) = Conn a \<Longrightarrow> x = y"
    and "\<And>a st. cs a = Some st \<Longrightarrow> \<exists>pcb. callback_arg (cbs pcb) = Conn a"
  shows "owned cbs cs"
  using assms unfolding owned_def by (auto simp del: not_None_eq)

lemma ownedD1: "owned cbs cs \<Longrightarrow> callback_arg (cbs x) = Conn a \<Longrightarrow> callback_arg (cbs y) = Conn a \<Longrightarrow> x = y"
  unfolding owned_def by (elim conjE) simp

lemma ownedD2: "owned cbs cs \<Longrightarrow> cs a = Some st \<Longrightarrow> \<exists>pcb. callback_arg (cbs pcb) = Conn a"
  unfolding owned_def by (elim conjE) simp

lemma ownedD3:
  assumes "owned cbs cs" "callback_arg (cbs x) = Conn a"
  shows "serving (cbs x) a \<and> (\<exists>st. cs a = Some st \<and> live st)"
proof -
  have "\<not> idle (cbs x)" using assms(2) by (auto simp: idle_def)
  then obtain b st where "serving (cbs x) b" "cs b = Some st" "live st" using owned_serving [OF assms(1)] by blast
  then show ?thesis using assms(2) by (simp add: serving_def)
qed

lemma owned_idle:
  assumes "owned cbs cs" "idle (cbs pcb)" "idle c"
  shows "owned (cbs(pcb := c)) cs"
proof (rule ownedI)
  fix x
  assume "\<not> idle ((cbs(pcb := c)) x)"
  then show "\<exists>a st. serving ((cbs(pcb := c)) x) a \<and> cs a = Some st \<and> live st"
    using assms(3) owned_serving [OF assms(1), of x] by (cases "x = pcb") auto
next
  fix x y a
  assume "callback_arg ((cbs(pcb := c)) x) = Conn a" "callback_arg ((cbs(pcb := c)) y) = Conn a"
  then show "x = y" using ownedD1 [OF assms(1)] idle_not_serving [OF assms(3)] by (auto split: if_splits)
next
  fix a st
  assume "cs a = Some st"
  then obtain x where "callback_arg (cbs x) = Conn a" using ownedD2 [OF assms(1)] by blast
  moreover from this have "x \<noteq> pcb" using idle_not_serving [OF assms(2)] by auto
  ultimately show "\<exists>x. callback_arg ((cbs(pcb := c)) x) = Conn a" by auto
qed

lemma owned_state:
  assumes "owned cbs cs" "cs a = Some st" "live st'"
  shows "owned cbs (cs(a \<mapsto> st'))"
proof (rule ownedI)
  fix x
  assume "\<not> idle (cbs x)"
  then obtain b st where "serving (cbs x) b" "cs b = Some st" "live st" using owned_serving [OF assms(1)] by blast
  then show "\<exists>b st. serving (cbs x) b \<and> (cs(a \<mapsto> st')) b = Some st \<and> live st" using assms(3) by (intro exI [of _ b]) auto
qed (use ownedD1 [OF assms(1)] ownedD2 [OF assms(1)] assms(2) in \<open>auto split: if_splits\<close>)

lemma owned_new:
  assumes "owned cbs cs" "idle (cbs pcb)" "cs a = None" "live st" "serving c a"
  shows "owned (cbs(pcb := c)) (cs(a \<mapsto> st))"
proof (rule ownedI)
  fix x
  assume "\<not> idle ((cbs(pcb := c)) x)"
  then show "\<exists>b st'. serving ((cbs(pcb := c)) x) b \<and> (cs(a \<mapsto> st)) b = Some st' \<and> live st'"
    using assms(3-5) owned_serving [OF assms(1), of x] by (cases "x = pcb") auto
next
  fix x y b
  assume "callback_arg ((cbs(pcb := c)) x) = Conn b" "callback_arg ((cbs(pcb := c)) y) = Conn b"
  moreover have "callback_arg (cbs z) \<noteq> Conn a" for z using ownedD3 [OF assms(1)] assms(3) by force
  ultimately show "x = y" using ownedD1 [OF assms(1)] assms(5) by (auto simp: serving_def split: if_splits)
next
  fix b st'
  assume b: "(cs(a \<mapsto> st)) b = Some st'"
  show "\<exists>x. callback_arg ((cbs(pcb := c)) x) = Conn b"
  proof (cases "b = a")
    case False
    then obtain x where "callback_arg (cbs x) = Conn b" using b ownedD2 [OF assms(1)] by auto
    moreover from this have "x \<noteq> pcb" using idle_not_serving [OF assms(2)] by auto
    ultimately show ?thesis by auto
  qed (use assms(5) in \<open>auto simp: serving_def\<close>)
qed

lemma owned_delete:
  assumes "owned cbs cs" "callback_arg (cbs pcb) = Conn a" "idle c"
  shows "owned (cbs(pcb := c)) (cs(a := None))"
proof (rule ownedI)
  fix x
  assume x: "\<not> idle ((cbs(pcb := c)) x)"
  then have "x \<noteq> pcb" using assms(3) by auto
  with x obtain b st where "serving (cbs x) b" "cs b = Some st" "live st" using owned_serving [OF assms(1), of x] by auto
  moreover from this have "b \<noteq> a" using ownedD1 [OF assms(1) _ assms(2), of x] \<open>x \<noteq> pcb\<close> by (auto simp: serving_def)
  ultimately show "\<exists>b st. serving ((cbs(pcb := c)) x) b \<and> (cs(a := None)) b = Some st \<and> live st" using \<open>x \<noteq> pcb\<close> by auto
next
  fix x y b
  assume "callback_arg ((cbs(pcb := c)) x) = Conn b" "callback_arg ((cbs(pcb := c)) y) = Conn b"
  then show "x = y" using ownedD1 [OF assms(1)] idle_not_serving [OF assms(3)] by (auto split: if_splits)
next
  fix b st
  assume "(cs(a := None)) b = Some st"
  then have "b \<noteq> a" "cs b = Some st" by (auto split: if_splits)
  then obtain x where "callback_arg (cbs x) = Conn b" using ownedD2 [OF assms(1)] by blast
  moreover from this have "x \<noteq> pcb" using assms(2) \<open>b \<noteq> a\<close> by auto
  ultimately show "\<exists>x. callback_arg ((cbs(pcb := c)) x) = Conn b" by auto
qed

section \<open>Steps keep it\<close>

lemma closeConn_frees:
  assumes "http_inv w" "callback_arg (pcbs w pcb) = Conn a"
  obtains w' where "closeConn api pcb (Some a) w = Some w'" "http_inv w'" "conns w' = (conns w)(a := None)" "stack w' = do_close api pcb (stack w)"
    "idle (pcbs w' pcb)"
proof -
  define c where "c = (pcbs w pcb)\<lparr>callback_arg := Null, recv_cb := False, sent_cb := False, err_cb := False, poll_cb := False, pollinterval := 0\<rparr>"
  have own: "owned (pcbs w) (conns w)" using assms(1) by (simp add: http_inv_def)
  obtain st where st: "conns w a = Some st" using ownedD3 [OF own assms(2)] by blast
  have c: "idle c" by (simp add: idle_def c_def)
  have "listen_pcb w \<noteq> Some pcb" using assms by (auto simp: http_inv_def)
  then have "http_inv (w\<lparr>pcbs := (pcbs w)(pcb := c), conns := (conns w)(a := None), stack := do_close api pcb (stack w)\<rparr>)"
    using assms(1) owned_delete [OF own assms(2) c] by (auto simp: http_inv_def server_ok_def)
  moreover have "closeConn api pcb (Some a) w = Some (w\<lparr>pcbs := (pcbs w)(pcb := c), conns := (conns w)(a := None), stack := do_close api pcb (stack w)\<rparr>)"
    using st by (simp add: closeConn_def Let_def tcp_arg_def tcp_recv_def tcp_sent_def tcp_err_def tcp_poll_def c_def)
  ultimately show ?thesis using that c by simp
qed

lemma inv_state:
  assumes "http_inv w" "conns w a = Some st" "live st'" "length rb = 512" "length hb = 192"
  shows "http_inv (w\<lparr>conns := (conns w)(a \<mapsto> st'), resp_body := rb, header_buf := hb, stack := s\<rparr>)"
  using assms owned_state [of "pcbs w" "conns w" a st st'] by (simp add: http_inv_def server_ok_def)

lemma dispatch_keeps:
  assumes "http_inv w" "callback_arg (pcbs w pcb) = Conn a" "live st"
  shows "\<exists>w'. dispatch api pcb a st w = Some w' \<and> http_inv w'"
proof -
  obtain st0 where st0: "conns w a = Some st0" using assms(1,2) ownedD3 by (fastforce simp: http_inv_def)
  have sv: "server_ok w" "length (resp_body w) = 512" "length (header_buf w) = 192" using assms(1) by (simp_all add: http_inv_def server_ok_def)
  have live: "conn_ok st" "cserver st = This" using assms(3) by (simp_all add: live_def)
  show ?thesis
  proof (cases "headers_done st \<or> \<not> complete (received st)")
    case True
    then show ?thesis using inv_state [OF assms(1) st0 assms(3) sv(2,3), of "stack w"] by (simp add: dispatch_def)
  next
    case False
    show ?thesis
    proof (cases "request_line (upto_nul (received st))")
      case None
      have ok: "conn_ok (st\<lparr>headers_done := True\<rparr>)" using live by (simp add: conn_ok_def)
      have "parse_request (st\<lparr>headers_done := True\<rparr>) = Some None"
        using parse_request_line [OF ok] None upto_nul_received [OF live(1)] by simp
      then have "dispatch api pcb a st w = closeConn api pcb (Some a) (w\<lparr>conns := (conns w)(a \<mapsto> st\<lparr>headers_done := True\<rparr>)\<rparr>)"
        using False by (simp add: dispatch_def)
      moreover have "http_inv (w\<lparr>conns := (conns w)(a \<mapsto> st\<lparr>headers_done := True\<rparr>)\<rparr>)"
        using inv_state [OF assms(1) st0 _ sv(2,3), of "st\<lparr>headers_done := True\<rparr>" "stack w"] ok live(2) by (simp add: live_def)
      ultimately show ?thesis using closeConn_frees [of "w\<lparr>conns := (conns w)(a \<mapsto> st\<lparr>headers_done := True\<rparr>)\<rparr>" pcb a api] assms(2) by auto
    next
      case (Some r)
      obtain m p q where "r = (m, p, q)" by (cases r)
      with Some False dispatch_answer [OF live(1) sv(1) _ _ live(2), of m p q api pcb a] show ?thesis
        using inv_state [OF assms(1) st0] by (auto simp: live_def)
    qed
  qed
qed

lemma inv_stack: "http_inv (w\<lparr>stack := s\<rparr>) = http_inv w"
  by (simp add: http_inv_def server_ok_def)

lemma inv_serving:
  assumes "http_inv w" "\<not> idle (pcbs w pcb)"
  obtains a st where "callback_arg (pcbs w pcb) = Conn a" "conns w a = Some st" "live st"
  using assms owned_serving [of "pcbs w" "conns w" pcb] unfolding http_inv_def serving_def by blast

lemma recv_keeps:
  assumes "http_inv w" "recv_cb (pcbs w pcb)" "\<And>x. p = Some x \<Longrightarrow> \<exists>bs. segment (h, x) bs"
  shows "\<exists>e h' w'. onRecv api (callback_arg (pcbs w pcb)) pcb p ERR_OK h w = Some (e, h', w') \<and> http_inv w'"
proof -
  have "\<not> idle (pcbs w pcb)" using assms(2) by (simp add: idle_def)
  then obtain a st where a: "callback_arg (pcbs w pcb) = Conn a" "conns w a = Some st" "live st" by (rule inv_serving [OF assms(1)])
  show ?thesis
  proof (cases p)
    case None
    obtain w' where "closeConn api pcb (Some a) w = Some w'" "http_inv w'" by (rule closeConn_frees [OF assms(1) a(1)])
    then show ?thesis using None a(1) by (simp add: onRecv_def)
  next
    case (Some x)
    then obtain xs where xs: "pchain h (Some x) xs" "list_all (freeable h) xs" using assms(3) by (auto simp: segment_def)
    have ok: "conn_ok st" "cserver st = This" using a(3) by (simp_all add: live_def)
    obtain st' where st': "conn_ok st'" "cserver st' = cserver st"
      "onRecv api (Conn a) pcb (Some x) ERR_OK h w = map_option (\<lambda>w. (ERR_OK, freed h xs, w))
         (dispatch api pcb a st' (w\<lparr>stack := do_recved api pcb (of_nat (length (pdata h xs))) (stack w)\<rparr>))"
      using onRecv_dispatch [OF a(2) ok(1) xs, where api = api and tpcb = pcb] by metis
    have "\<exists>w'. dispatch api pcb a st' (w\<lparr>stack := do_recved api pcb (of_nat (length (pdata h xs))) (stack w)\<rparr>) = Some w' \<and> http_inv w'"
      by (rule dispatch_keeps) (use assms(1) a(1) st' ok in \<open>simp_all add: inv_stack live_def\<close>)
    with st'(3) Some a(1) show ?thesis by auto
  qed
qed

lemma poll_keeps:
  assumes "http_inv w" "poll_cb (pcbs w pcb)"
  shows "\<exists>e w'. onPoll api (callback_arg (pcbs w pcb)) pcb w = Some (e, w') \<and> http_inv w'"
proof -
  have "\<not> idle (pcbs w pcb)" using assms(2) by (simp add: idle_def)
  then obtain a st where a: "callback_arg (pcbs w pcb) = Conn a" "conns w a = Some st" by (rule inv_serving [OF assms(1)])
  obtain w' where "closeConn api pcb (Some a) w = Some w'" "http_inv w'" by (rule closeConn_frees [OF assms(1) a(1)])
  then show ?thesis using a assms(1) by (simp add: onPoll_def)
qed

lemma err_keeps:
  assumes "http_inv w" "err_cb (pcbs w pcb)" "idle c"
  shows "\<exists>w'. onError (callback_arg (pcbs w pcb)) e (w\<lparr>pcbs := (pcbs w)(pcb := c)\<rparr>) = Some w' \<and> http_inv w'"
proof -
  have "\<not> idle (pcbs w pcb)" using assms(2) by (simp add: idle_def)
  then obtain a st where a: "callback_arg (pcbs w pcb) = Conn a" "conns w a = Some st" by (rule inv_serving [OF assms(1)])
  have "listen_pcb w \<noteq> Some pcb" using assms(1) a(1) by (auto simp: http_inv_def)
  then show ?thesis
    using a assms(1,3) owned_delete [of "pcbs w" "conns w" pcb a c] by (auto simp: onError_def http_inv_def server_ok_def)
qed

lemma accept_keeps:
  assumes "http_inv w" "listen_pcb w = Some l" "pcb \<noteq> l" "idle (pcbs w pcb)" "alloc_ok alloc"
  shows "http_inv (snd (onAccept api alloc (callback_arg (pcbs w l)) (Some pcb) ERR_OK w))"
proof (cases "alloc (conns w)")
  case None
  then show ?thesis using assms(1) by (simp add: onAccept_def inv_stack)
next
  case (Some a)
  define c where "c = (pcbs w pcb)\<lparr>prio := 1, callback_arg := Conn a, recv_cb := True, sent_cb := True, err_cb := True, poll_cb := True, pollinterval := 24\<rparr>"
  have lst: "callback_arg (pcbs w l) = This" using assms(1,2) by (simp add: http_inv_def)
  have "live (ConnState_zero\<lparr>cserver := This\<rparr>)" by (simp add: live_def conn_ok_zero)
  then have "owned ((pcbs w)(pcb := c)) ((conns w)(a \<mapsto> ConnState_zero\<lparr>cserver := This\<rparr>))"
    using owned_new [of "pcbs w" "conns w" pcb a] assms(1,4,5) Some by (simp add: http_inv_def serving_def c_def alloc_ok_def)
  moreover have "snd (onAccept api alloc (callback_arg (pcbs w l)) (Some pcb) ERR_OK w) =
      w\<lparr>pcbs := (pcbs w)(pcb := c), conns := (conns w)(a \<mapsto> ConnState_zero\<lparr>cserver := This\<rparr>)\<rparr>"
    using Some lst by (simp add: onAccept_def tcp_setprio_def tcp_arg_def tcp_recv_def tcp_sent_def tcp_err_def tcp_poll_def c_def)
  ultimately show ?thesis using assms(1-3) by (simp add: http_inv_def server_ok_def)
qed

lemma idle_of_listener: "http_inv w \<Longrightarrow> listen_pcb w = Some l \<Longrightarrow> idle (pcbs w l)"
  using inv_serving [of w l] by (fastforce simp: http_inv_def)

lemma stop_keeps:
  assumes "http_inv w"
  shows "http_inv (http_stop api w)" "idle (pcbs w x) \<Longrightarrow> idle (pcbs (http_stop api w) x)" "listen_pcb (http_stop api w) = None"
proof -
  show "listen_pcb (http_stop api w) = None" by (simp add: http_stop_def split: option.split)
  show "http_inv (http_stop api w)"
  proof (cases "listen_pcb w")
    case (Some l)
    have i: "idle (pcbs w l)" by (rule idle_of_listener [OF assms Some])
    then have "idle ((pcbs w l)\<lparr>callback_arg := Null, accept_cb := False\<rparr>)" by (simp add: idle_def)
    with owned_idle [of "pcbs w" "conns w" l] i assms Some show ?thesis
      by (simp add: http_stop_def tcp_arg_def tcp_accept_def http_inv_def server_ok_def)
  qed (use assms in \<open>simp add: http_stop_def\<close>)
  show "idle (pcbs (http_stop api w) x)" if "idle (pcbs w x)"
    using that by (auto simp: http_stop_def tcp_arg_def tcp_accept_def idle_def split: option.split)
qed

lemma listen_pcb_set: "listen_pcb (tcp_accept l b w) = listen_pcb w" "listen_pcb (tcp_arg l arg w) = listen_pcb w"
  by (simp_all add: tcp_accept_def tcp_arg_def)

lemma begin_keeps:
  assumes "http_inv w" "\<And>l. listen_pcb (snd (http_begin api w)) = Some l \<Longrightarrow> idle (pcbs w l)"
  shows "http_inv (snd (http_begin api w))"
proof -
  define w0 where "w0 = (if listen_pcb w \<noteq> None then http_stop api w else w)"
  have w0: "http_inv w0" "listen_pcb w0 = None" "\<And>x. idle (pcbs w x) \<Longrightarrow> idle (pcbs w0 x)"
    using assms(1) stop_keeps [OF assms(1)] by (auto simp: w0_def)
  have listen: "http_inv (tcp_accept l True (tcp_arg l This (w0\<lparr>stack := s, listen_pcb := Some l\<rparr>)))" if "idle (pcbs w l)" for l s
  proof -
    have "idle ((pcbs w0 l)\<lparr>callback_arg := This, accept_cb := True\<rparr>)" using w0(3) [OF that] by (simp add: idle_def)
    with owned_idle [of "pcbs w0" "conns w0" l] w0(3) [OF that] w0(1) show ?thesis
      by (simp add: tcp_arg_def tcp_accept_def http_inv_def server_ok_def)
  qed
  have "http_begin api w = (case do_new api (stack w0) of (None, s) \<Rightarrow> (False, w0\<lparr>stack := s\<rparr>)
    | (Some pcb, s) \<Rightarrow> (case do_bind api pcb (hport w0) (do_reuse api pcb s) of (err, s) \<Rightarrow>
        if err \<noteq> ERR_OK then (False, w0\<lparr>stack := do_close api pcb s\<rparr>)
        else (case do_listen api pcb s of (None, s) \<Rightarrow> (False, w0\<lparr>stack := do_close api pcb s\<rparr>)
          | (Some l, s) \<Rightarrow> (True, tcp_accept l True (tcp_arg l This (w0\<lparr>stack := s, listen_pcb := Some l\<rparr>))))))"
    unfolding http_begin_def Let_def w0_def [symmetric] by (simp split: prod.split option.split)
  then show ?thesis
    using assms(2) w0(1) listen
    by (auto simp: inv_stack listen_pcb_set split: prod.splits option.splits if_splits)
qed

lemma on_keeps: "http_inv w \<Longrightarrow> pred_option handler_ok f \<Longrightarrow> http_inv (snd (http_on path f w))"
  by (auto simp: http_on_def http_inv_def server_ok_def unat_u8_add dest!: set_update_subset_insert [THEN subsetD])

lemma not_found_keeps: "http_inv w \<Longrightarrow> pred_option handler_ok f \<Longrightarrow> http_inv (setNotFoundHandler f w)"
  by (simp add: setNotFoundHandler_def http_inv_def server_ok_def)

lemma http_reach_inv:
  assumes "alloc_ok alloc" "http_reach api alloc w"
  shows "http_inv w"
  using assms(2)
proof (induction rule: http_reach.induct)
  case (construct cbs port s)
  then have "owned cbs Map.empty" by (intro ownedI) (auto simp: idle_def)
  then show ?case by (simp add: http_construct_def http_inv_def server_ok_def)
next
  case (recv w pcb p h e h' w')
  then show ?case using recv_keeps [of w pcb p h api] by fastforce
next
  case (poll w pcb e w')
  then show ?case using poll_keeps [of w pcb api] by fastforce
next
  case (err w pcb c e w')
  then show ?case using err_keeps [of w pcb c e] by fastforce
next
  case (lwip w pcb c s)
  then show ?case using owned_idle [of "pcbs w" "conns w" pcb c] by (auto simp: http_inv_def server_ok_def)
qed (auto intro: on_keeps stop_keeps(1) accept_keeps assms(1) begin_keeps not_found_keeps simp: onSent_def)

section \<open>Properties\<close>

text \<open>
  C28. The connection states are owned: in every reachable state of the server, a state is on the heap exactly if one connection, and only one, has it as its
  argument, so none is leaked, none deleted twice and none used after it was deleted; and every callback that lwIP can make, whatever data a peer sends, accesses
  its arrays within their bounds and leads to a reachable state again.
\<close>

theorem http_memory_owned:
  assumes "alloc_ok alloc" "http_reach api alloc w"
  shows "(conns w a \<noteq> None \<longleftrightarrow> (\<exists>!pcb. callback_arg (pcbs w pcb) = Conn a)) \<and>
    (recv_cb (pcbs w pcb) \<longrightarrow> (\<forall>h p. (\<forall>x. p = Some x \<longrightarrow> (\<exists>bs. segment (h, x) bs)) \<longrightarrow>
      (\<exists>e h' w'. onRecv api (callback_arg (pcbs w pcb)) pcb p ERR_OK h w = Some (e, h', w') \<and> http_reach api alloc w'))) \<and>
    (poll_cb (pcbs w pcb) \<longrightarrow> (\<exists>e w'. onPoll api (callback_arg (pcbs w pcb)) pcb w = Some (e, w') \<and> http_reach api alloc w')) \<and>
    (err_cb (pcbs w pcb) \<longrightarrow> (\<forall>c e. idle c \<longrightarrow>
      (\<exists>w'. onError (callback_arg (pcbs w pcb)) e (w\<lparr>pcbs := (pcbs w)(pcb := c)\<rparr>) = Some w' \<and> http_reach api alloc w')))"
proof (intro conjI impI allI)
  have inv: "http_inv w" by (rule http_reach_inv [OF assms])
  then have own: "owned (pcbs w) (conns w)" by (simp add: http_inv_def)
  show "conns w a \<noteq> None \<longleftrightarrow> (\<exists>!pcb. callback_arg (pcbs w pcb) = Conn a)"
    using ownedD1 [OF own] ownedD2 [OF own] ownedD3 [OF own] by (metis not_None_eq)
  show "\<exists>e h' w'. onRecv api (callback_arg (pcbs w pcb)) pcb p ERR_OK h w = Some (e, h', w') \<and> http_reach api alloc w'"
    if "recv_cb (pcbs w pcb)" "\<forall>x. p = Some x \<longrightarrow> (\<exists>bs. segment (h, x) bs)" for h p
    using recv_keeps [OF inv that(1), of p h api] that http_reach.recv [OF assms(2) that(1)] by blast
  show "\<exists>e w'. onPoll api (callback_arg (pcbs w pcb)) pcb w = Some (e, w') \<and> http_reach api alloc w'" if "poll_cb (pcbs w pcb)"
    using poll_keeps [OF inv that, of api] http_reach.poll [OF assms(2) that] by blast
  show "\<exists>w'. onError (callback_arg (pcbs w pcb)) e (w\<lparr>pcbs := (pcbs w)(pcb := c)\<rparr>) = Some w' \<and> http_reach api alloc w'"
    if "err_cb (pcbs w pcb)" "idle c" for c e
    using err_keeps [OF inv that, of e] http_reach.err [OF assms(2) that] by blast
qed

lemma find_sub_more: "find_sub pat xs \<noteq> None \<Longrightarrow> find_sub pat (xs @ ys) \<noteq> None"
proof (induction xs)
  case (Cons x xs)
  show ?case
  proof (cases "take (length pat) (x # xs) = pat")
    case True
    then have "length pat \<le> length (x # xs)" by (metis length_take min.cobounded1)
    with True have "take (length pat) ((x # xs) @ ys) = pat" by (simp only: take_append) simp
    then show ?thesis by simp
  qed (use Cons in auto)
next
  case Nil
  then show ?case by (cases ys) (auto split: if_splits)
qed

lemma complete_more: "complete xs \<Longrightarrow> complete (xs @ ys)"
  unfolding complete_def using find_sub_more by blast

lemma receive_wait:
  assumes "list_all2 segment segs ds" "conns w a = Some st" "conn_ok st" "\<not> headers_done st" "received st = take 511 pre"
    and "\<not> complete (take 511 (pre @ concat ds))"
  shows "\<exists>st'. live st' = live st \<and> \<not> headers_done st' \<and>
    http_receive api a tpcb segs w = Some (w\<lparr>conns := (conns w)(a \<mapsto> st'), stack := fold (recved api tpcb) ds (stack w)\<rparr>)"
  using assms
proof (induction segs arbitrary: ds w st pre)
  case Nil
  then have "(conns w)(a \<mapsto> st) = conns w" by (simp add: fun_upd_idem)
  with Nil show ?case by (intro exI [of _ st]) simp
next
  case (Cons hp segs)
  obtain h i d ds' where *: "hp = (h, i)" "ds = d # ds'" "segment (h, i) d" "list_all2 segment segs ds'"
    using Cons.prems(1) by (cases hp) (auto simp: list_all2_Cons1)
  obtain st1 where st1: "conn_ok st1" "received st1 = take 511 (received st @ d)" "headers_done st1 = headers_done st" "cserver st1 = cserver st"
    "http_receive api a tpcb ((h, i) # segs) w =
       Option.bind (dispatch api tpcb a st1 (w\<lparr>stack := recved api tpcb d (stack w)\<rparr>)) (http_receive api a tpcb segs)"
    using segment_dispatch [OF Cons.prems(2,3) *(3)] by metis
  have r1: "received st1 = take 511 (pre @ d)" using st1(2) Cons.prems(5) by (simp add: min_def)
  have "take 511 (pre @ concat ds) = received st1 @ take (511 - length (pre @ d)) (concat ds')"
    unfolding r1 *(2) using take_append [of 511 "pre @ d" "concat ds'"] by simp
  then have "\<not> complete (received st1)" using Cons.prems(6) complete_more by metis
  define w1 where "w1 = w\<lparr>stack := recved api tpcb d (stack w), conns := (conns w)(a \<mapsto> st1)\<rparr>"
  have "conns w1 a = Some st1" "\<not> headers_done st1" "\<not> complete (take 511 ((pre @ d) @ concat ds'))"
    using st1(3) Cons.prems(4,6) *(2) by (simp_all add: w1_def)
  from Cons.IH [OF *(4) this(1) st1(1) this(2) r1 this(3)] obtain st' where st': "live st' = live st1" "\<not> headers_done st'"
    "http_receive api a tpcb segs w1 = Some (w1\<lparr>conns := (conns w1)(a \<mapsto> st'), stack := fold (recved api tpcb) ds' (stack w1)\<rparr>)" by blast
  have "dispatch api tpcb a st1 (w\<lparr>stack := recved api tpcb d (stack w)\<rparr>) = Some w1"
    using \<open>\<not> complete (received st1)\<close> by (simp add: dispatch_def w1_def)
  moreover have "live st1 = live st" using st1(1,4) Cons.prems(3) by (simp add: live_def)
  ultimately show ?case
    using st1(5) st' *(1,2) by (intro exI [of _ st']) (simp add: w1_def del: fun_upd_apply http_receive.simps)
qed

text \<open>
  C38. A request without an empty line in its first 511 bytes is never answered: whatever else the peer sends is acknowledged and thrown away, nothing is written, and
  the connection stays until the next poll, which closes it and frees its state.
\<close>

theorem http_long_request_unanswered:
  assumes "alloc_ok alloc" "http_reach api alloc w" "callback_arg (pcbs w tpcb) = Conn a" "conns w a = Some (ConnState_zero\<lparr>cserver := This\<rparr>)"
    and "list_all2 segment segs ds" "\<not> complete (take 511 (concat ds))"
  shows "\<exists>w' w''. http_receive api a tpcb segs w = Some w' \<and> stack w' = fold (recved api tpcb) ds (stack w) \<and>
    onPoll api (Conn a) tpcb w' = Some (ERR_OK, w'') \<and> conns w'' a = None \<and> idle (pcbs w'' tpcb) \<and> stack w'' = do_close api tpcb (stack w')"
proof -
  have inv: "http_inv w" by (rule http_reach_inv [OF assms(1,2)])
  let ?st = "ConnState_zero\<lparr>cserver := This\<rparr>"
  have st: "\<not> headers_done ?st" "live ?st" by (simp_all add: ConnState_zero_def live_def conn_ok_zero [of This, unfolded ConnState_zero_def, simplified])
  obtain st' where st': "live st'" "\<not> headers_done st'"
    "http_receive api a tpcb segs w = Some (w\<lparr>conns := (conns w)(a \<mapsto> st'), stack := fold (recved api tpcb) ds (stack w)\<rparr>)"
    using receive_wait [OF assms(5,4) conn_ok_zero(1) st(1), of "[]" api tpcb] assms(6) st(2) conn_ok_zero(2) by auto
  define w' where "w' = w\<lparr>conns := (conns w)(a \<mapsto> st'), stack := fold (recved api tpcb) ds (stack w)\<rparr>"
  have "length (resp_body w) = 512" "length (header_buf w) = 192" using inv by (simp_all add: http_inv_def server_ok_def)
  then have "http_inv w'"
    using inv_state [OF inv assms(4) st'(1), of "resp_body w" "header_buf w" "stack w'"] by (simp add: w'_def)
  moreover have "callback_arg (pcbs w' tpcb) = Conn a" using assms(3) by (simp add: w'_def)
  ultimately obtain w'' where "closeConn api tpcb (Some a) w' = Some w''" "conns w'' = (conns w')(a := None)" "stack w'' = do_close api tpcb (stack w')"
    "idle (pcbs w'' tpcb)" by (rule closeConn_frees)
  then show ?thesis
    using st'(2,3) by (intro exI [of _ w'] exI [of _ w'']) (simp add: onPoll_def w'_def)
qed

section \<open>Examples\<close>

lemma one_conn_ok: "alloc_ok one_conn"
  by (auto simp: alloc_ok_def one_conn_def split: if_splits)

lemma hello_reach: "http_reach tcp_recorder one_conn hello_accepted"
proof -
  have "http_reach tcp_recorder one_conn (snd (http_on (Some (str ''/'')) (Some hello) (http_construct 80 (\<lambda>_. no_callbacks) [])))"
    by (intro http_reach.on http_reach.construct) (simp_all add: idle_def no_callbacks_def hello_ok)
  then have "http_reach tcp_recorder one_conn hello_server" unfolding hello_server_def
    by (rule http_reach.listen) (simp add: http_on_def http_construct_def idle_def no_callbacks_def)
  then show ?thesis unfolding hello_accepted_def
    by (rule http_reach.accept) (simp_all add: hello_server http_construct_def idle_def no_callbacks_def)
qed

text \<open>The peer of the connection just accepted resets it: its state is freed.\<close>

theorem http_memory_owned_witness:
  "conns hello_accepted 3 \<noteq> None \<and>
   (\<exists>w'. onError (Conn 3) ERR_RST (hello_accepted\<lparr>pcbs := (pcbs hello_accepted)(5 := no_callbacks)\<rparr>) = Some w' \<and> http_reach tcp_recorder one_conn w')"
proof -
  have 1: "err_cb (pcbs hello_accepted 5)"
    by (simp add: hello_accepted_def onAccept_def one_conn_def hello_server http_construct_def tcp_err_def tcp_poll_def)
  have 2: "idle no_callbacks" by (simp add: idle_def no_callbacks_def)
  show ?thesis
    using http_memory_owned [OF one_conn_ok hello_reach, of 3 5] 1 2 hello_accepted(1) unfolding hello_accepted(5) by simp
qed

text \<open>A request line without end.\<close>

theorem http_long_request_unanswered_witness:
  "\<exists>w' w''. http_receive tcp_recorder 3 5 (replicate 6 (one_segment (replicate 100 65))) hello_accepted = Some w' \<and> stack w' = [] \<and>
    onPoll tcp_recorder (Conn 3) 5 w' = Some (ERR_OK, w'') \<and> conns w'' 3 = None"
proof -
  let ?ds = "replicate 6 (replicate 100 65) :: bytes list"
  have segs: "list_all2 segment (replicate 6 (one_segment (replicate 100 65))) ?ds" by (simp add: list_all2_conv_all_nth one_segment)
  have no: "\<not> complete (take 511 (concat ?ds))" using complete_has_newline [of "take 511 (concat ?ds)"] by (auto dest!: in_set_takeD)
  have f: "fold (recved tcp_recorder 5) ds s = s" for ds s by (induction ds) (simp_all add: tcp_recorder_def)
  from http_long_request_unanswered [OF one_conn_ok hello_reach hello_accepted(5,1) segs no] show ?thesis
    by (elim exE conjE) (intro exI conjI, assumption, simp_all add: f hello_accepted(3) del: http_receive.simps fold_replicate)
qed

end
