(* ===== verification/Lwip_Pbuf_Alloc.thy ===== *)
theory Lwip_Pbuf_Alloc
  imports Lwip_Pbuf_Chain
begin

text \<open>
  What \<open>pbuf_alloc\<close> returns: well-formed chains of new buffers, or nothing. The loop that builds a chain from the pool is followed with
  an invariant for the chain under construction.
\<close>

section \<open>Allocation from the pool\<close>

text \<open>
  A chain under construction: \<open>n\<close> bytes are still to come, which the total lengths count already. The heap outside of the chain is \<open>h0\<close>.
\<close>

fun ptotals :: "heap \<Rightarrow> nat list \<Rightarrow> nat \<Rightarrow> bool" where
  "ptotals h [] n \<longleftrightarrow> True"
| "ptotals h (x # xs) n \<longleftrightarrow> (case h x of None \<Rightarrow> False
     | Some b \<Rightarrow> poff b + unat (plen b) \<le> length (pmem b) \<and> unat (tot_len b) = unat (plen b) + length (pdata h xs) + n) \<and> ptotals h xs n"

lemma ptotals_pwf: "ptotals h xs 0 = pwf h xs"
  by (induction xs) (auto split: option.splits)

definition fresh :: "heap \<Rightarrow> heap \<Rightarrow> nat list \<Rightarrow> bool" where
  "fresh h0 h xs \<longleftrightarrow> (\<forall>x. if x \<in> set xs then h0 x = None \<and> single h x \<and> freeable h x else h x = h0 x)"

lemma fresh_freed:
  assumes "fresh h0 h xs" "plink h p xs"
  shows "freed h xs = h0"
proof -
  have "list_all (single h) xs" using assms(1) by (auto simp: fresh_def list_all_iff split: if_splits)
  then show ?thesis
    using freed_single [OF plink_distinct [OF assms(2)]] assms(1) by (auto simp: fresh_def fun_eq_iff split: if_splits)
qed

text \<open>A new pbuf at the end.\<close>

definition linked :: "heap \<Rightarrow> nat list \<Rightarrow> nat \<Rightarrow> pbuf \<Rightarrow> heap" where
  "linked h xs q b = (let h = h(q \<mapsto> b) in if xs = [] then h else h(last xs := map_option (\<lambda>b. b\<lparr>pnext := Some q\<rparr>) (h (last xs))))"

lemma linked_simps: "linked h [] q b = h(q \<mapsto> b)" "xs \<noteq> [] \<Longrightarrow> q \<notin> set xs \<Longrightarrow> linked h xs q b =
   h(q \<mapsto> b, last xs := map_option (\<lambda>b. b\<lparr>pnext := Some q\<rparr>) (h (last xs)))"
  by (auto simp: linked_def Let_def dest: last_in_set)

lemma linked_at:
  assumes "q \<notin> set xs"
  shows "linked h xs q b q = Some b" "x \<in> set xs \<Longrightarrow> x \<noteq> last xs \<Longrightarrow> linked h xs q b x = h x"
    "xs \<noteq> [] \<Longrightarrow> linked h xs q b (last xs) = map_option (\<lambda>b. b\<lparr>pnext := Some q\<rparr>) (h (last xs))"
    "x \<notin> set xs \<Longrightarrow> x \<noteq> q \<Longrightarrow> linked h xs q b x = h x"
  using assms by (auto simp: linked_def Let_def dest: last_in_set)

lemma linked_fresh:
  assumes "fresh h0 h xs" "h q = None" "q \<notin> set xs" "ref b = 1" "pflags b AND 2 = 0" "type_internal b AND 0x0F \<le> 2"
  shows "fresh h0 (linked h xs q b) (xs @ [q])"
  unfolding fresh_def
proof
  fix x
  have old: "if x \<in> set xs then h0 x = None \<and> single h x \<and> freeable h x else h x = h0 x" using assms(1) by (simp add: fresh_def)
  show "if x \<in> set (xs @ [q]) then h0 x = None \<and> single (linked h xs q b) x \<and> freeable (linked h xs q b) x else linked h xs q b x = h0 x"
  proof (cases "x = q")
    case True
    then show ?thesis using assms(2-6) old linked_at(1) [OF assms(3)] by (simp add: single_def freeable_def)
  next
    case False
    show ?thesis
    proof (cases "x \<in> set xs \<and> x = last xs")
      case True
      then have "xs \<noteq> []" by auto
      then show ?thesis using old True False linked_at(3) [OF assms(3)] by (auto simp: single_def freeable_def split: option.splits)
    next
      case last: False
      then have "linked h xs q b x = h x" using linked_at(2,4) [OF assms(3)] False by blast
      then show ?thesis using old False by (auto simp: single_def freeable_def split: if_splits)
    qed
  qed
qed

lemma linked_data:
  assumes "q \<notin> set xs" "set ys \<subseteq> set xs"
  shows "pdata (linked h xs q b) ys = pdata h ys" "ptotals (linked h xs q b) ys n = ptotals h ys n"
proof -
  have x: "(case linked h xs q b x of None \<Rightarrow> [] | Some b \<Rightarrow> bdata b) = (case h x of None \<Rightarrow> [] | Some b \<Rightarrow> bdata b) \<and>
      map_option (\<lambda>b. (poff b, plen b, pmem b, tot_len b)) (linked h xs q b x) = map_option (\<lambda>b. (poff b, plen b, pmem b, tot_len b)) (h x)"
    if "x \<in> set xs" for x
    using linked_at(2) [OF assms(1) that, of h b] linked_at(3) [OF assms(1), of h b] that
    by (cases "x = last xs"; cases "h x"; force simp: bdata_def)
  have d: "pdata (linked h xs q b) ys = pdata h ys" if "set ys \<subseteq> set xs" for ys
    using that x by (induction ys) auto
  show "pdata (linked h xs q b) ys = pdata h ys" by (rule d [OF assms(2)])
  show "ptotals (linked h xs q b) ys n = ptotals h ys n"
    using assms(2)
  proof (induction ys)
    case (Cons y ys)
    then have "map_option (\<lambda>b. (poff b, plen b, pmem b, tot_len b)) (linked h xs q b y) = map_option (\<lambda>b. (poff b, plen b, pmem b, tot_len b)) (h y)"
      using x by simp
    then show ?case using Cons d [of ys] by (auto split: option.splits)
  qed simp
qed

lemma linked_plink:
  "plink h p xs \<Longrightarrow> q \<notin> set xs \<Longrightarrow> pnext b = None \<Longrightarrow> plink (linked h xs q b) (if xs = [] then Some q else p) (xs @ [q])"
proof (induction xs arbitrary: p)
  case Nil
  then show ?case by (simp add: linked_simps)
next
  case (Cons x xs)
  then obtain c where c: "p = Some x" "h x = Some c" "plink h (pnext c) xs" "x \<notin> set xs" by (auto split: option.splits)
  show ?case
  proof (cases "xs = []")
    case True
    then show ?thesis using Cons.prems c by (auto simp: linked_simps)
  next
    case False
    then have "linked h (x # xs) q b = linked h xs q b" by (simp add: linked_def)
    moreover have "linked h xs q b x = h x" using linked_at(4) [of q xs x h b] Cons.prems(2) c(4) by simp
    ultimately show ?thesis using Cons.IH [OF c(3)] Cons.prems c False by simp
  qed
qed

lemma ptotals_snoc:
  assumes "h q = Some b" "poff b + unat (plen b) \<le> length (pmem b)" "unat (tot_len b) = unat (plen b) + n" "ptotals h xs (unat (tot_len b))"
  shows "ptotals h (xs @ [q]) n"
  using assms(4) by (induction xs) (auto simp: assms(1-3) length_bdata split: option.splits)

lemma pbuf_alloc_pool_chain:
  assumes "malloc_ok malloc" "plink h p xs" "fresh h0 h xs" "ptotals h xs (unat rem_len)" "unat offset \<le> 54"
    and "lst = (if xs = [] then None else Some (last xs))"
  shows "\<exists>p' h'. pbuf_alloc_pool malloc h p lst rem_len offset = Some (p', h') \<and>
    (case p' of None \<Rightarrow> h' = h0
     | Some _ \<Rightarrow> \<exists>ys. ys \<noteq> [] \<and> pchain h' p' ys \<and> fresh h0 h' ys \<and> length (pdata h' ys) = length (pdata h xs) + unat rem_len)"
  using assms(2-)
proof (induction "unat rem_len" arbitrary: h p xs lst rem_len offset rule: less_induct)
  case less
  let ?o = "LWIP_MEM_ALIGN_SIZE (ucast offset)"
  have p: "p = None \<longleftrightarrow> xs = []" using less.prems(1) by (cases xs) auto
  have o: "unat ?o \<le> 57" using align_size(2) [of "ucast offset"] less.prems(4) by (simp add: unsigned_ucast_eq take_bit_eq_mod)
  show ?case
  proof (cases "malloc h (unat PBUF_POOL_BUFSIZE_ALIGNED)")
    case None
    have "pbuf_free h p = Some (of_nat (length (takeWhile (single h) xs)), h0)" if "xs \<noteq> []"
      using pbuf_free_loop_freed [OF less.prems(1), of 0] fresh_freed [OF less.prems(2,1)] less.prems(2) p that
      by (auto simp: pbuf_free_def fresh_def list_all_iff split: if_splits)
    moreover have "h = h0" if "xs = []" using less.prems(2) that by (auto simp: fresh_def)
    ultimately show ?thesis using None p by (subst pbuf_alloc_pool.simps) auto
  next
    case (Some qm)
    then obtain q m where q: "malloc h (unat PBUF_POOL_BUFSIZE_ALIGNED) = Some (q, m)" by (cases qm) auto
    then have m: "h q = None" "length m = 592" using assms(1) by (auto simp: malloc_ok_def)
    have qx: "q \<notin> set xs" using m(1) plink_alloc [OF less.prems(1)] by (auto simp: list_all_iff)
    define qlen where "qlen = min rem_len (ucast (PBUF_POOL_BUFSIZE_ALIGNED - ?o))"
    define b where "b = pbuf_init_alloced_pbuf m (unat ?o) rem_len qlen PBUF_POOL 0"
    define h1 where "h1 = linked h xs q b"
    have room: "unat (ucast (PBUF_POOL_BUFSIZE_ALIGNED - ?o) :: u16) = 592 - unat ?o"
      using o by (simp add: unsigned_ucast_eq take_bit_eq_mod unat_sub_if' word_le_nat_alt)
    have ql: "unat qlen = min (unat rem_len) (592 - unat ?o)"
      using room by (simp add: qlen_def min_def word_le_nat_alt)
    have b: "ref b = 1" "pflags b = 0" "type_internal b AND 0x0F \<le> 2" "pnext b = None" "plen b = qlen" "tot_len b = rem_len"
      "poff b + unat (plen b) \<le> length (pmem b)"
      using ql o m(2) by (simp_all add: b_def pbuf_init_alloced_pbuf_def)
    let ?p = "if p = None then Some q else p"
    have 1: "plink h1 ?p (xs @ [q])" using linked_plink [OF less.prems(1) qx b(4)] p by (simp add: h1_def)
    have 2: "fresh h0 h1 (xs @ [q])" unfolding h1_def by (rule linked_fresh) (use less.prems(2) m qx b in auto)
    have rest: "unat (rem_len - qlen) = unat rem_len - unat qlen" using ql by (simp add: unat_sub_if' word_le_nat_alt)
    have 3: "ptotals h1 (xs @ [q]) (unat (rem_len - qlen))"
      by (rule ptotals_snoc [of _ _ b]) (use linked_at(1) [OF qx] b rest ql less.prems(3) linked_data(2) [OF qx order_refl] in \<open>simp_all add: h1_def\<close>)
    have d: "length (pdata h1 (xs @ [q])) = length (pdata h xs) + unat qlen"
      using linked_data(1) [OF qx order_refl, of h b] linked_at(1) [OF qx, of h b] b(5,7) by (simp add: h1_def length_bdata)
    have lk: "Option.bind (case lst of None \<Rightarrow> Some (h(q \<mapsto> b)) | Some l \<Rightarrow> map_option (\<lambda>c. (h(q \<mapsto> b))(l \<mapsto> c\<lparr>pnext := Some q\<rparr>)) ((h(q \<mapsto> b)) l)) f = f h1" for f :: "heap \<Rightarrow> (nat option \<times> heap) option"
    proof (cases "xs = []")
      case False
      then have "last xs \<in> set xs" by simp
      then obtain c where "h (last xs) = Some c" using plink_alloc [OF less.prems(1)] by (auto simp: list_all_iff)
      moreover have "last xs \<noteq> q" using \<open>last xs \<in> set xs\<close> qx by auto
      ultimately show ?thesis using False less.prems(5) by (simp add: h1_def linked_def Let_def)
    qed (use less.prems(5) in \<open>simp add: h1_def linked_simps\<close>)
    have run: "pbuf_alloc_pool malloc h p lst rem_len offset =
        (if rem_len - qlen > 0 then pbuf_alloc_pool malloc h1 ?p (Some q) (rem_len - qlen) 0 else Some (?p, h1))"
      by (subst pbuf_alloc_pool.simps) (simp only: q option.case prod.case Let_def qlen_def [symmetric] b_def [symmetric] lk)
    show ?thesis
    proof (cases "rem_len - qlen > 0")
      case True
      then have "0 < unat (rem_len - qlen)" by (simp add: word_gt_0 unat_gt_0)
      then have "unat (rem_len - qlen) < unat rem_len" using rest ql o by linarith
      note IH = less.hyps [OF this 1 2 3, of 0 "Some q"]
      have sum: "length (pdata h1 (xs @ [q])) + unat (rem_len - qlen) = length (pdata h xs) + unat rem_len"
        using d rest ql by linarith
      show ?thesis using IH unfolding run if_P [OF True] sum by simp
    next
      case False
      then have "unat (rem_len - qlen) = 0" by (simp only: word_gt_0 unat_eq_0 not_not)
      then have "pwf h1 (xs @ [q])" "length (pdata h1 (xs @ [q])) = length (pdata h xs) + unat rem_len"
        using 3 d rest ql by (simp_all add: ptotals_pwf del: pdata_append)
      moreover obtain a where "?p = Some a" by (cases p) simp_all
      ultimately show ?thesis using 1 2 unfolding run if_not_P [OF False]
        by (intro exI [of _ ?p] exI [of _ h1]) (auto simp del: pdata_append)
    qed
  qed
qed


text \<open>A pool of two buffers, given out in turn: enough for 600 bytes, not for 1200.\<close>

definition two_malloc :: malloc where
  "two_malloc h n = (if h 3 = None then Some (3, replicate n 0) else if h 5 = None then Some (5, replicate n 0) else None)"


end
