(* ===== verification/Arduino_Settings.thy ===== *)
theory Arduino_Settings
  imports C_String
begin

text \<open>
  The settings that an application passes to the interface (\<open>MacAddress\<close>, \<open>T1SPlcaSettings\<close>, \<open>T1SMacSettings\<close>), with the texts they print, and the functions that
  the port of lwIP provides (\<open>lwip_sys_now.cpp\<close>). What is printed is what goes to \<open>Print::write\<close>. The unique number of the chip is a parameter.
\<close>

section \<open>MAC address\<close>

definition MAC_ADDRESS_NUM_BYTES :: nat where
  "MAC_ADDRESS_NUM_BYTES = 6"

definition MacAddress :: "bytes option \<Rightarrow> bytes option" where
  "MacAddress mac = (case mac of
     Some m \<Rightarrow> memcpy (replicate MAC_ADDRESS_NUM_BYTES 0) 0 m 0 MAC_ADDRESS_NUM_BYTES
   | None \<Rightarrow> Some (replicate MAC_ADDRESS_NUM_BYTES 0))"

definition get_unique_chip_id_3 :: "u32 \<Rightarrow> bytes" where
  "get_unique_chip_id_3 samd_uid = [ucast samd_uid, ucast (drop_bit 8 samd_uid), ucast (drop_bit 16 samd_uid)]"

definition create_from_uid :: "u32 \<Rightarrow> bytes option" where
  "create_from_uid samd_uid = do {
     mac_addr \<leftarrow> memcpy [0xA8, 0x61, 0x0A, 0, 0, 0] 3 (get_unique_chip_id_3 samd_uid) 0 3;
     MacAddress (Some mac_addr)
   }"

text \<open>The conversion \<open>%02X\<close>.\<close>

definition hex_digit :: "nat \<Rightarrow> u8" where
  "hex_digit n = (if n < 10 then 48 + of_nat n else 55 + of_nat n)"

definition hex2 :: "u8 \<Rightarrow> bytes" where
  "hex2 b = [hex_digit (unat b div 16), hex_digit (unat b mod 16)]"

definition mac_text :: "bytes \<Rightarrow> bytes" where
  "mac_text mac = str ''MAC'' @ 9 # hex2 (mac ! 0) @ 58 # hex2 (mac ! 1) @ 58 # hex2 (mac ! 2) @ 58 # hex2 (mac ! 3) @ 58 # hex2 (mac ! 4) @ 58 # hex2 (mac ! 5)"

definition mac_printTo :: "bytes \<Rightarrow> bytes option" where
  "mac_printTo mac = do { msg \<leftarrow> snprintf (replicate 32 0) 32 (mac_text mac); cstr msg }"

section \<open>PLCA and MAC settings\<close>

record T1SPlcaSettings =
  node_id :: u8
  node_count :: u8
  burst_count :: u8
  burst_timer :: u8

definition plca_default :: "u8 \<Rightarrow> T1SPlcaSettings" where
  "plca_default nid = \<lparr>node_id = nid, node_count = 8, burst_count = 0, burst_timer = 128\<rparr>"

definition plca_text :: "T1SPlcaSettings \<Rightarrow> bytes" where
  "plca_text s =
    str ''PLCA'' @ 10 #
    9 # str ''node id     : '' @ dec (unat (node_id s)) @ (if node_id s = 0 then str '' (PLCA Coordinator)'' else []) @ 10 #
    9 # str ''node count  : '' @ dec (unat (node_count s)) @ 10 #
    9 # str ''burst count : '' @ dec (unat (burst_count s)) @ 10 #
    9 # str ''burst timer : '' @ dec (unat (burst_timer s))"

definition plca_printTo :: "T1SPlcaSettings \<Rightarrow> bytes option" where
  "plca_printTo s = do { msg \<leftarrow> snprintf (replicate 128 0) 128 (plca_text s); cstr msg }"

record T1SMacSettings =
  mac_promiscuous_mode :: bool
  mac_tx_cut_through :: bool
  mac_rx_cut_through :: bool

definition mac_settings_default :: T1SMacSettings where
  "mac_settings_default = \<lparr>mac_promiscuous_mode = False, mac_tx_cut_through = False, mac_rx_cut_through = False\<rparr>"

definition mac_settings_text :: "T1SMacSettings \<Rightarrow> bytes" where
  "mac_settings_text s =
    str ''MAC'' @ 10 #
    9 # str ''promisc. mode : '' @ dec (of_bool (mac_promiscuous_mode s)) @ 10 #
    9 # str ''tx cut through: '' @ dec (of_bool (mac_tx_cut_through s)) @ 10 #
    9 # str ''rx cut through: '' @ dec (of_bool (mac_rx_cut_through s))"

definition mac_settings_printTo :: "T1SMacSettings \<Rightarrow> bytes option" where
  "mac_settings_printTo s = do { msg \<leftarrow> snprintf (replicate 128 0) 128 (mac_settings_text s); cstr msg }"

section \<open>Port of lwIP\<close>

definition t1s_lwip_itoa :: "bytes option \<Rightarrow> nat \<Rightarrow> int \<Rightarrow> bytes option option" where
  "t1s_lwip_itoa result bufsize number = (case result of
     None \<Rightarrow> Some None
   | Some r \<Rightarrow> if bufsize = 0 then Some (Some r)
       else map_option Some (snprintf r bufsize (if number < 0 then 45 # dec (nat (- number)) else dec (nat number))))"

definition t1s_lwip_htons :: "u16 \<Rightarrow> u16" where
  "t1s_lwip_htons x = push_bit 8 x OR drop_bit 8 x"

definition t1s_lwip_htonl :: "u32 \<Rightarrow> u32" where
  "t1s_lwip_htonl x = push_bit 24 (x AND 0x000000FF) OR push_bit 8 (x AND 0x0000FF00) OR drop_bit 8 (x AND 0x00FF0000) OR drop_bit 24 (x AND 0xFF000000)"

section \<open>What is printed\<close>

lemma snprintf_fits:
  assumes "length t < n" "0 \<notin> set t"
  shows "Option.bind (snprintf (replicate n 0) n t) cstr = Some t"
proof -
  have "put_at 0 (t @ [0]) (replicate n 0) = t @ 0 # replicate (n - Suc (length t)) 0" using assms(1) by (simp add: put_at_def)
  then show ?thesis using assms by (simp add: snprintf_def cstr_upto upto_nul_append)
qed

lemma dec_digits: "set (dec n) \<subseteq> {48..57}"
proof (induction n rule: dec.induct)
  case (1 n)
  have d: "48 + of_nat k \<in> {48..57 :: u8}" if "k < 10" for k
    using that by (simp add: word_le_nat_alt unat_u8_add unat_u8_of_nat)
  show ?case using 1 d [of n] d [of "n mod 10"] by (subst dec.simps) auto
qed

lemma dec_no_nul: "0 \<notin> set (dec n)"
  using dec_digits [of n] by auto

lemma length_dec_u8: "length (dec (unat (x :: u8))) \<le> 3"
  using length_dec [of "unat x" 2] unat_u8_less [of x] by simp

text \<open>The arrays are large enough for every setting: nothing that is printed is cut off.\<close>

lemma plca_printed_whole: "plca_printTo s = Some (plca_text s)"
proof -
  have "length (dec (unat (0 :: u8))) = 1" by (simp add: dec.simps)
  then have "length (plca_text s) < 128"
    using length_dec_u8 [of "node_id s"] length_dec_u8 [of "node_count s"] length_dec_u8 [of "burst_count s"] length_dec_u8 [of "burst_timer s"]
    by (auto simp: plca_text_def)
  moreover have "0 \<notin> set (plca_text s)" by (auto simp: plca_text_def dec_no_nul str_def)
  ultimately show ?thesis unfolding plca_printTo_def by (rule snprintf_fits)
qed

lemma mac_settings_printed_whole: "mac_settings_printTo s = Some (mac_settings_text s)"
proof -
  have "length (dec (of_bool b)) = 1" for b by (simp add: dec.simps)
  then have "length (mac_settings_text s) < 128" by (simp add: mac_settings_text_def)
  moreover have "0 \<notin> set (mac_settings_text s)" by (auto simp: mac_settings_text_def dec_no_nul str_def)
  ultimately show ?thesis unfolding mac_settings_printTo_def by (rule snprintf_fits)
qed

lemma hex_digit_values: "n < 16 \<Longrightarrow> unat (hex_digit n) = (if n < 10 then 48 + n else 55 + n)"
  by (auto simp: hex_digit_def unat_u8_add unat_u8_of_nat)

lemma hex_digit_not_nul: "n < 16 \<Longrightarrow> hex_digit n \<noteq> 0"
  using hex_digit_values [of n] by (auto split: if_splits)

lemma hex2_inj: "hex2 a = hex2 b \<longleftrightarrow> a = b"
proof
  assume "hex2 a = hex2 b"
  then have "unat (hex_digit (unat a div 16)) = unat (hex_digit (unat b div 16))" "unat (hex_digit (unat a mod 16)) = unat (hex_digit (unat b mod 16))"
    by (simp_all add: hex2_def)
  moreover have "unat a div 16 < 16" "unat b div 16 < 16" using unat_u8_less [of a] unat_u8_less [of b] by linarith+
  ultimately have "unat a div 16 = unat b div 16" "unat a mod 16 = unat b mod 16" by (auto simp: hex_digit_values split: if_splits)
  then have "unat a = unat b" by (metis div_mult_mod_eq)
  then show "a = b" by (simp add: word_unat_eq_iff)
qed simp

lemma mac_printed_whole: "mac_printTo mac = Some (mac_text mac)"
proof -
  have "unat (b :: u8) div 16 < 16" for b using unat_u8_less [of b] by linarith
  then have "0 \<notin> set (hex2 b)" for b using hex_digit_not_nul [of "unat b div 16"] hex_digit_not_nul [of "unat b mod 16"] by (auto simp: hex2_def)
  then have "0 \<notin> set (mac_text mac)" by (auto simp: mac_text_def str_def)
  moreover have "length (mac_text mac) < 32" by (simp add: mac_text_def hex2_def)
  ultimately show ?thesis unfolding mac_printTo_def by (intro snprintf_fits)
qed

text \<open>Different addresses are printed differently.\<close>

lemma mac_printed_inj:
  assumes "length a = 6" "length b = 6" "mac_printTo a = mac_printTo b"
  shows "a = b"
proof -
  have "mac_text a = mac_text b" using assms(3) by (simp add: mac_printed_whole)
  then have "hex2 (a ! i) = hex2 (b ! i)" if "i \<in> {0, 1, 2, 3, 4, 5}" for i using that by (auto simp: mac_text_def hex2_def)
  then have "a ! i = b ! i" if "i < 6" for i using that hex2_inj by (simp add: numeral_eq_Suc less_Suc_eq)
  then show ?thesis using assms(1,2) by (simp add: nth_equalityI)
qed

text \<open>The address made from the chip's number has the vendor's prefix and the number's low 24 bits.\<close>

lemma create_from_uid_data: "create_from_uid uid = Some ([0xA8, 0x61, 0x0A] @ get_unique_chip_id_3 uid)"
  by (simp add: create_from_uid_def MacAddress_def memcpy_def get_unique_chip_id_3_def put_at_def sub_at_def MAC_ADDRESS_NUM_BYTES_def)

section \<open>Byte order\<close>

lemma htons_bytes: "unat (t1s_lwip_htons x) = (unat x mod 256) * 256 + unat x div 256"
proof -
  have "push_bit 8 x OR drop_bit 8 x = push_bit 8 x + drop_bit 8 x"
    by (rule disjunctive_add [symmetric]) (auto simp: bit_simps dest: bit_imp_le_length)
  moreover have "unat (push_bit 8 x) = (unat x mod 256) * 256" using mod_mult_mult2 [of "unat x" 256 256] by (simp add: push_bit_eq_mult unat_word_ariths)
  moreover have "unat (drop_bit 8 x) = unat x div 256" by (simp add: drop_bit_eq_div unat_div)
  moreover have "unat x div 256 < 256" using unat_u16_less [of x] by linarith
  moreover have "(unat x mod 256) * 256 + unat x div 256 < 65536" using calculation(4) mod_less_divisor [of 256 "unat x"] by linarith
  ultimately show ?thesis by (simp add: t1s_lwip_htons_def unat_u16_add)
qed

lemma htons_twice: "t1s_lwip_htons (t1s_lwip_htons x) = x"
proof -
  have "unat x div 256 < 256" using unat_u16_less [of x] by linarith
  then have "unat (t1s_lwip_htons (t1s_lwip_htons x)) = unat x" by (simp add: htons_bytes)
  then show ?thesis by (simp add: word_unat_eq_iff)
qed

end
