(* ===== verification/Lwip_Checksum.thy ===== *)
theory Lwip_Checksum
  imports Arduino_Settings Lwip_Pbuf_Chain
begin

text \<open>
  The Internet checksum of lwIP (\<open>core/inet_chksum.c\<close>), which the IPv4, ICMP, UDP and TCP layers compute over packet buffers on a little-endian processor. The sum is
  taken over 16-bit words; a buffer may start at an odd address and have an odd length, and then the bytes of the sum are swapped. The result is
  compared with the checksum of RFC 1071 over the bytes in a row.
\<close>

section \<open>Definitions\<close>

definition FOLD_U32T :: "u32 \<Rightarrow> u32" where
  "FOLD_U32T u = drop_bit 16 u + (u AND 0x0000FFFF)"

definition SWAP_BYTES_IN_WORD :: "u32 \<Rightarrow> u32" where
  "SWAP_BYTES_IN_WORD w = push_bit 8 (w AND 0xFF) OR drop_bit 8 (w AND 0xFF00)"

text \<open>The loop over the words: the sum, and the byte that is left.\<close>

fun chksum_words :: "u32 \<Rightarrow> bytes \<Rightarrow> u32 \<times> bytes" where
  "chksum_words acc (a # b # bs) = chksum_words (acc + (ucast a + 256 * ucast b)) bs"
| "chksum_words acc bs = (acc, bs)"

text \<open>\<open>odd_addr\<close>: the data starts at an odd address. The variable \<open>t\<close> is kept as its two bytes.\<close>

definition lwip_standard_chksum :: "bool \<Rightarrow> bytes \<Rightarrow> u16" where
  "lwip_standard_chksum odd_addr data =
    (let (t1, data) = (if odd_addr \<and> data \<noteq> [] then (hd data, tl data) else (0, data));
         (sum, left) = chksum_words 0 data;
         t0 = (case left of [] \<Rightarrow> 0 | x # _ \<Rightarrow> x);
         sum = sum + (ucast t0 + 256 * ucast t1);
         sum = FOLD_U32T (FOLD_U32T sum);
         sum = (if odd_addr then SWAP_BYTES_IN_WORD sum else sum)
     in ucast sum)"

definition inet_chksum :: "bool \<Rightarrow> bytes \<Rightarrow> u16" where
  "inet_chksum odd_addr data = NOT (lwip_standard_chksum odd_addr data)"

text \<open>The loop over a chain. \<open>base\<close> gives the address that the memory of a pbuf starts at.\<close>

partial_function (option) chksum_chain :: "(nat \<Rightarrow> nat) \<Rightarrow> heap \<Rightarrow> nat option \<Rightarrow> u32 \<Rightarrow> bool \<Rightarrow> (u32 \<times> bool) option" where
  "chksum_chain base h q acc swapped =
    (case q of None \<Rightarrow> Some (acc, swapped)
     | Some a \<Rightarrow> Option.bind (h a) (\<lambda>b. Option.bind (pread b 0 (unat (plen b))) (\<lambda>bs.
         let acc = FOLD_U32T (acc + ucast (lwip_standard_chksum (odd (base a + poff b)) bs))
         in if unat (plen b) mod 2 \<noteq> 0 then chksum_chain base h (pnext b) (SWAP_BYTES_IN_WORD acc) (\<not> swapped)
            else chksum_chain base h (pnext b) acc swapped)))"

definition inet_chksum_pbuf :: "(nat \<Rightarrow> nat) \<Rightarrow> heap \<Rightarrow> nat option \<Rightarrow> u16 option" where
  "inet_chksum_pbuf base h p = do {
     (acc, swapped) \<leftarrow> chksum_chain base h p 0 False;
     let acc = (if swapped then SWAP_BYTES_IN_WORD acc else acc);
     Some (ucast (NOT (acc AND 0xFFFF)))
   }"

definition inet_cksum_pseudo_base :: "(nat \<Rightarrow> nat) \<Rightarrow> heap \<Rightarrow> nat option \<Rightarrow> u8 \<Rightarrow> u16 \<Rightarrow> u32 \<Rightarrow> u16 option" where
  "inet_cksum_pseudo_base base h p proto proto_len acc = do {
     (acc, swapped) \<leftarrow> chksum_chain base h p acc False;
     let acc = (if swapped then SWAP_BYTES_IN_WORD acc else acc);
     let acc = acc + ucast (t1s_lwip_htons (ucast proto));
     let acc = acc + ucast (t1s_lwip_htons proto_len);
     let acc = FOLD_U32T (FOLD_U32T acc);
     Some (ucast (NOT (acc AND 0xFFFF)))
   }"

text \<open>Addresses are in network byte order.\<close>

definition inet_chksum_pseudo :: "(nat \<Rightarrow> nat) \<Rightarrow> heap \<Rightarrow> nat option \<Rightarrow> u8 \<Rightarrow> u16 \<Rightarrow> u32 \<Rightarrow> u32 \<Rightarrow> u16 option" where
  "inet_chksum_pseudo base h p proto proto_len src dest =
    (let acc = src AND 0xFFFF;
         acc = acc + (drop_bit 16 src AND 0xFFFF);
         acc = acc + (dest AND 0xFFFF);
         acc = acc + (drop_bit 16 dest AND 0xFFFF);
         acc = FOLD_U32T (FOLD_U32T acc)
     in inet_cksum_pseudo_base base h p proto proto_len acc)"

section \<open>One's complement sums\<close>

text \<open>The sum of the 16-bit words of a message, the last byte filled up with 0; on the processor and in network byte order.\<close>

fun lesum :: "bytes \<Rightarrow> nat" where
  "lesum (a # b # bs) = unat a + 256 * unat b + lesum bs"
| "lesum [a] = unat a"
| "lesum [] = 0"

fun besum :: "bytes \<Rightarrow> nat" where
  "besum (a # b # bs) = 256 * unat a + unat b + besum bs"
| "besum [a] = 256 * unat a"
| "besum [] = 0"

text \<open>The sum with end-around carry: 0 stays 0, other multiples of 65535 become 65535.\<close>

definition oc :: "nat \<Rightarrow> nat" where
  "oc n = (if n = 0 then 0 else (n - 1) mod 65535 + 1)"

text \<open>Sums that have the same end-around carry.\<close>

definition oc_eq :: "nat \<Rightarrow> nat \<Rightarrow> bool" where
  "oc_eq n m \<longleftrightarrow> n mod 65535 = m mod 65535 \<and> (n = 0 \<longleftrightarrow> m = 0)"

lemma oc_eq_refl [simp]: "oc_eq n n"
  by (simp add: oc_eq_def)

lemma oc_eq_sym: "oc_eq n m \<Longrightarrow> oc_eq m n"
  by (auto simp: oc_eq_def)

lemma oc_eq_trans [trans]: "oc_eq n m \<Longrightarrow> oc_eq m k \<Longrightarrow> oc_eq n k"
  by (auto simp: oc_eq_def)

lemma oc_eq_add: "oc_eq n n' \<Longrightarrow> oc_eq m m' \<Longrightarrow> oc_eq (n + m) (n' + m')"
  by (auto simp: oc_eq_def intro: mod_add_cong)

lemma oc_eq_mult: "oc_eq n m \<Longrightarrow> 0 < k \<Longrightarrow> oc_eq (k * n) (k * m)"
  by (auto simp: oc_eq_def intro: mod_mult_cong)

lemma oc_eq_shift: "oc_eq (65536 * n) n"
proof -
  have "65536 * n = n + 65535 * n" by simp
  then have "65536 * n mod 65535 = n mod 65535" by (simp only: mod_mult_self2)
  then show ?thesis by (simp add: oc_eq_def)
qed

lemma oc_eq_oc: "oc_eq (oc n) n"
proof (cases n)
  case (Suc m)
  then show ?thesis by (simp add: oc_eq_def oc_def mod_Suc_eq)
qed (simp add: oc_def)

lemma oc_unique:
  assumes "oc_eq x n" "x \<le> 65535"
  shows "x = oc n"
proof (cases "x = 0")
  case False
  then have "n \<noteq> 0" "x mod 65535 = n mod 65535" using assms(1) by (auto simp: oc_eq_def)
  then have "(x - 1) mod 65535 = (n - 1) mod 65535" using False
    by (cases x; cases n) (auto simp: mod_Suc split: if_splits)
  with False \<open>n \<noteq> 0\<close> assms(2) show ?thesis by (simp add: oc_def)
qed (use assms in \<open>simp add: oc_eq_def oc_def\<close>)

section \<open>Sums of messages\<close>

lemma lesum_bound: "lesum bs \<le> 65535 * ((length bs + 1) div 2)"
proof (induction bs rule: lesum.induct)
  case (1 a b bs)
  have "unat a + 256 * unat b \<le> 65535" using unat_u8_less [of a] unat_u8_less [of b] by linarith
  with 1 show ?case by simp
next
  case (2 a)
  then show ?case using unat_u8_less [of a] by (simp del: unat_u8_less)
qed simp

lemma lesum_Cons: "oc_eq (256 * lesum (x # bs)) (256 * unat x + lesum bs)"
proof (induction bs arbitrary: x rule: lesum.induct)
  case (1 b c bs)
  have "oc_eq (256 * lesum (x # b # c # bs)) (256 * unat x + (65536 * unat b + 256 * lesum (c # bs)))" by (simp add: oc_eq_def algebra_simps)
  also have "oc_eq (256 * unat x + (65536 * unat b + 256 * lesum (c # bs))) (256 * unat x + (unat b + (256 * unat c + lesum bs)))"
    by (intro oc_eq_add oc_eq_refl oc_eq_shift 1)
  finally show ?case by (simp add: algebra_simps)
next
  case (2 b)
  have "oc_eq (256 * unat x + 65536 * unat b) (256 * unat x + unat b)" by (intro oc_eq_add oc_eq_refl oc_eq_shift)
  then show ?case by (simp add: algebra_simps)
qed simp

lemma lesum_Cons': "oc_eq (lesum (x # bs)) (unat x + 256 * lesum bs)"
proof -
  have "oc_eq (65536 * lesum (x # bs)) (65536 * unat x + 256 * lesum bs)"
    using oc_eq_mult [OF lesum_Cons [of x bs], of 256] by (simp add: algebra_simps)
  moreover have "oc_eq (65536 * unat x + 256 * lesum bs) (unat x + 256 * lesum bs)" by (intro oc_eq_add oc_eq_refl oc_eq_shift)
  ultimately show ?thesis using oc_eq_shift oc_eq_sym oc_eq_trans by blast
qed

lemma lesum_append: "oc_eq (lesum (xs @ ys)) (lesum xs + (if odd (length xs) then 256 * lesum ys else lesum ys))"
proof (induction xs rule: lesum.induct)
  case (1 a b xs)
  from oc_eq_add [OF oc_eq_refl [of "unat a + 256 * unat b"] this] show ?case by (simp add: algebra_simps)
qed (simp_all add: lesum_Cons')

lemma lesum_besum: "oc_eq (256 * lesum bs) (besum bs)"
proof (induction bs rule: lesum.induct)
  case (1 a b bs)
  have "oc_eq (256 * unat a + (65536 * unat b + 256 * lesum bs)) (256 * unat a + (unat b + besum bs))"
    by (intro oc_eq_add oc_eq_refl oc_eq_shift 1)
  then show ?case by (simp add: algebra_simps)
qed simp_all

section \<open>The parts of the algorithm\<close>

lemma unat_u32_less: "unat (x :: u32) < 4294967296"
  using unsigned_less [of x, where 'a = nat] by simp

lemma unat_u32_add: "unat (x :: u32) + unat y < 4294967296 \<Longrightarrow> unat (x + y) = unat x + unat y"
  by (simp add: unat_word_ariths)

lemma unat_fold: "unat (FOLD_U32T u) = unat u div 65536 + unat u mod 65536"
proof -
  have "unat (drop_bit 16 u) = unat u div 65536" by (simp add: drop_bit_eq_div unat_div)
  moreover have "unat (u AND 0x0000FFFF) = unat u mod 65536" using word_and_mask_mod [of u 16] by simp
  moreover have "unat u div 65536 + unat u mod 65536 < 4294967296" using unat_u32_less [of u] by linarith
  ultimately show ?thesis unfolding FOLD_U32T_def by (simp add: unat_u32_add)
qed

lemma fold_oc: "oc_eq (unat (FOLD_U32T u)) (unat u)"
proof -
  have "oc_eq (unat u div 65536 + unat u mod 65536) (65536 * (unat u div 65536) + unat u mod 65536)"
    by (intro oc_eq_add oc_eq_refl oc_eq_sym [OF oc_eq_shift])
  then show ?thesis by (simp add: unat_fold)
qed

lemma fold_small:
  assumes "unat u \<le> 131070"
  shows "unat (FOLD_U32T u) \<le> 65535"
proof (cases "unat u div 65536 = 0")
  case True
  then show ?thesis unfolding unat_fold using mod_less_divisor [of 65536 "unat u"] by linarith
next
  case False
  then show ?thesis unfolding unat_fold using assms div_mult_mod_eq [of "unat u" 65536] by linarith
qed

lemma fold_twice: "unat (FOLD_U32T (FOLD_U32T u)) = oc (unat u)"
proof -
  have "unat (FOLD_U32T u) \<le> 131070" unfolding unat_fold using unat_u32_less [of u] by linarith
  then have "unat (FOLD_U32T (FOLD_U32T u)) \<le> 65535" by (rule fold_small)
  then show ?thesis using oc_unique oc_eq_trans [OF fold_oc fold_oc] by blast
qed

lemma swap_htons: "SWAP_BYTES_IN_WORD w = ucast (t1s_lwip_htons (ucast w))"
proof -
  have m: "(0xFF :: u32) = mask 8" by (simp add: mask_numeral)
  have "drop_bit 8 (w AND 0xFF00) = drop_bit 8 w AND 0xFF" by simp
  then show ?thesis
    unfolding SWAP_BYTES_IN_WORD_def t1s_lwip_htons_def m
    by (intro bit_word_eqI) (auto simp: bit_simps dest: bit_imp_le_length)
qed

lemma unat_ucast_u16_u32: "unat (ucast (x :: u16) :: u32) = unat x"
proof -
  have "unat x mod 4294967296 = unat x" by (rule mod_less, rule less_trans [OF unat_u16_less]) simp
  then show ?thesis by (simp add: unsigned_ucast_eq take_bit_eq_mod)
qed

lemma unat_ucast_u32_u16: "unat (ucast (w :: u32) :: u16) = unat w mod 65536"
  by (simp add: unsigned_ucast_eq take_bit_eq_mod)

lemma swap_oc:
  assumes "unat w \<le> 65535"
  shows "oc_eq (unat (SWAP_BYTES_IN_WORD w)) (256 * unat w)" "unat (SWAP_BYTES_IN_WORD w) \<le> 65535"
proof -
  have s: "unat (SWAP_BYTES_IN_WORD w) = 256 * (unat w mod 256) + unat w div 256"
    using assms by (simp add: swap_htons unat_ucast_u16_u32 htons_bytes unat_ucast_u32_u16)
  have "oc_eq (256 * (unat w mod 256) + unat w div 256) (256 * (unat w mod 256) + 65536 * (unat w div 256))"
    by (intro oc_eq_add oc_eq_refl oc_eq_sym [OF oc_eq_shift])
  moreover have "256 * (unat w mod 256) + 65536 * (unat w div 256) = 256 * unat w" using div_mult_mod_eq [of "unat w" 256] by linarith
  ultimately show "oc_eq (unat (SWAP_BYTES_IN_WORD w)) (256 * unat w)" by (simp add: s)
  show "unat (SWAP_BYTES_IN_WORD w) \<le> 65535" unfolding swap_htons unat_ucast_u16_u32 using unat_u16_less [of "t1s_lwip_htons (ucast w)"] by linarith
qed

lemma unat_word_of_bytes: "unat (ucast (a :: u8) + 256 * ucast (b :: u8) :: u32) = unat a + 256 * unat b"
proof -
  have "unat x mod 4294967296 = unat x" for x :: u8 by (rule mod_less, rule less_trans [OF unat_u8_less]) simp
  then have u: "unat (ucast x :: u32) = unat x" for x :: u8 by (simp add: unsigned_ucast_eq take_bit_eq_mod)
  have "unat a + 256 * unat b < 4294967296" using unat_u8_less [of a] unat_u8_less [of b] by linarith
  then show ?thesis by (simp add: unat_word_ariths u)
qed

lemma chksum_words_sum:
  assumes "unat acc + lesum bs < 4294967296" "chksum_words acc bs = (s, left)"
  shows "unat s + lesum left = unat acc + lesum bs \<and> length left \<le> 1"
  using assms
proof (induction acc bs rule: chksum_words.induct)
  case (1 acc a b bs)
  have "unat (acc + (ucast a + 256 * ucast b)) = unat acc + (unat a + 256 * unat b)"
    using 1(2) by (subst unat_u32_add) (simp_all add: unat_word_of_bytes)
  with 1 show ?case by simp
qed auto

lemma oc_le: "oc n \<le> 65535"
  using mod_less_divisor [of 65535 "n - 1"] by (simp add: oc_def Suc_le_eq)

lemma oc_cong: "oc_eq n m \<Longrightarrow> oc n = oc m"
  using oc_unique [of "oc n" m] oc_le [of n] oc_eq_trans [OF oc_eq_oc] by blast

lemma standard_chksum:
  assumes "length bs \<le> 0x20000"
  shows "unat (lwip_standard_chksum odd_addr bs) = oc (lesum bs)"
proof -
  define t1 where "t1 = (if odd_addr \<and> bs \<noteq> [] then hd bs else 0)"
  define ds where "ds = (if odd_addr \<and> bs \<noteq> [] then tl bs else bs)"
  obtain s left where w: "chksum_words 0 ds = (s, left)" by (cases "chksum_words 0 ds")
  define t0 where "t0 = (case left of [] \<Rightarrow> 0 | x # _ \<Rightarrow> x)"
  define sm where "sm = FOLD_U32T (FOLD_U32T (s + (ucast t0 + 256 * ucast t1)))"
  have "length ds \<le> 0x20000" using assms by (auto simp: ds_def)
  then have "(length ds + 1) div 2 \<le> 65536" by linarith
  then have "lesum ds \<le> 65535 * 65536" using lesum_bound [of ds] by (meson le_trans mult_le_mono2)
  then have small: "lesum ds + 256 * unat t1 < 4294967296" using unat_u8_less [of t1] by linarith
  have words: "unat s + lesum left = lesum ds" "length left \<le> 1" using chksum_words_sum [OF _ w] small by auto
  then have t0: "unat s + unat t0 = lesum ds" by (cases left) (auto simp: t0_def)
  then have "unat (s + (ucast t0 + 256 * ucast t1)) = lesum ds + 256 * unat t1"
    using small by (subst unat_u32_add) (simp_all add: unat_word_of_bytes)
  then have sm: "unat sm = oc (lesum ds + 256 * unat t1)" by (simp add: sm_def fold_twice)
  have chk: "lwip_standard_chksum odd_addr bs = ucast (if odd_addr then SWAP_BYTES_IN_WORD sm else sm)"
  proof -
    have "(if odd_addr \<and> bs \<noteq> [] then (hd bs, tl bs) else (0, bs)) = (t1, ds)" by (simp add: t1_def ds_def)
    then show ?thesis unfolding lwip_standard_chksum_def Let_def by (simp only: prod.case w t0_def [symmetric] sm_def)
  qed
  show ?thesis
  proof (cases odd_addr)
    case False
    then show ?thesis using chk sm oc_le [of "lesum bs"] by (simp add: unat_ucast_u32_u16 t1_def ds_def)
  next
    case True
    have eq: "oc_eq (lesum ds + 256 * unat t1) (256 * lesum bs)"
      using oc_eq_sym [OF lesum_Cons [of "hd bs" "tl bs"]] True by (cases bs) (simp_all add: ds_def t1_def add.commute)
    have "oc_eq (unat (SWAP_BYTES_IN_WORD sm)) (256 * unat sm)" "unat (SWAP_BYTES_IN_WORD sm) \<le> 65535"
      using swap_oc [of sm] sm oc_le by simp_all
    moreover have "oc_eq (256 * unat sm) (256 * (256 * lesum bs))"
      unfolding sm by (intro oc_eq_mult oc_eq_trans [OF oc_eq_oc eq]) simp
    moreover have "oc_eq (256 * (256 * lesum bs)) (lesum bs)" using oc_eq_shift [of "lesum bs"] by simp
    ultimately have "unat (SWAP_BYTES_IN_WORD sm) = oc (lesum bs)" using oc_unique oc_eq_trans by blast
    then show ?thesis using chk True oc_le [of "lesum bs"] by (simp add: unat_ucast_u32_u16)
  qed
qed

section \<open>Chains\<close>

text \<open>
  After the data \<open>ds\<close> the accumulator holds the sum of \<open>n\<close> and the data, with its bytes swapped when the length is odd.
\<close>

definition chain_acc :: "nat \<Rightarrow> bytes \<Rightarrow> u32 \<Rightarrow> bool \<Rightarrow> bool" where
  "chain_acc n ds acc swapped \<longleftrightarrow> unat acc \<le> 65535 \<and> swapped = odd (length ds) \<and>
     oc_eq (unat acc) (if odd (length ds) then 256 * (n + lesum ds) else n + lesum ds)"

lemma chain_sum_append:
  assumes "oc_eq a (if odd (length ds) then 256 * (n + lesum ds) else n + lesum ds)"
  shows "oc_eq (a + lesum bs) (if odd (length ds) then 256 * (n + lesum (ds @ bs)) else n + lesum (ds @ bs))"
proof (cases "odd (length ds)")
  case True
  then have "oc_eq (lesum (ds @ bs)) (lesum ds + 256 * lesum bs)" using lesum_append [of ds bs] by simp
  then have "oc_eq (256 * (n + lesum (ds @ bs))) (256 * (n + (lesum ds + 256 * lesum bs)))" by (intro oc_eq_mult oc_eq_add oc_eq_refl) simp_all
  also have "256 * (n + (lesum ds + 256 * lesum bs)) = 256 * (n + lesum ds) + 65536 * lesum bs" by simp
  also have "oc_eq (256 * (n + lesum ds) + 65536 * lesum bs) (a + lesum bs)"
    using True assms oc_eq_sym [of a] by (intro oc_eq_add oc_eq_shift) simp
  finally show ?thesis using True oc_eq_sym by simp
next
  case False
  then have "oc_eq (lesum (ds @ bs)) (lesum ds + lesum bs)" using lesum_append [of ds bs] by simp
  then have "oc_eq (n + lesum (ds @ bs)) (n + (lesum ds + lesum bs))" by (intro oc_eq_add oc_eq_refl)
  also have "n + (lesum ds + lesum bs) = (n + lesum ds) + lesum bs" by simp
  also have "oc_eq ((n + lesum ds) + lesum bs) (a + lesum bs)" using False assms oc_eq_sym [of a] by (intro oc_eq_add oc_eq_refl) simp
  finally show ?thesis using False oc_eq_sym by simp
qed

lemma chain_acc_step:
  fixes odd_addr
  assumes "chain_acc n ds acc swapped" "length bs \<le> 0x20000"
  defines "acc1 \<equiv> FOLD_U32T (acc + ucast (lwip_standard_chksum odd_addr bs))"
  shows "chain_acc n (ds @ bs) (if odd (length bs) then SWAP_BYTES_IN_WORD acc1 else acc1) (if odd (length bs) then \<not> swapped else swapped)"
proof -
  have acc: "unat acc \<le> 65535" "swapped = odd (length ds)" "oc_eq (unat acc) (if odd (length ds) then 256 * (n + lesum ds) else n + lesum ds)"
    using assms(1) unfolding chain_acc_def by blast+
  have c: "unat (ucast (lwip_standard_chksum odd_addr bs) :: u32) = oc (lesum bs)" by (simp add: unat_ucast_u16_u32 standard_chksum [OF assms(2)])
  have "unat acc + oc (lesum bs) \<le> 131070" using acc(1) oc_le [of "lesum bs"] by linarith
  then have add: "unat (acc + ucast (lwip_standard_chksum odd_addr bs)) = unat acc + oc (lesum bs)" "unat acc1 \<le> 65535"
    using fold_small [of "acc + ucast (lwip_standard_chksum odd_addr bs)"] by (simp_all add: unat_u32_add c acc1_def)
  have "oc_eq (unat acc1) (unat acc + oc (lesum bs))" using fold_oc [of "acc + ucast (lwip_standard_chksum odd_addr bs)"] by (simp add: acc1_def add)
  also have "oc_eq (unat acc + oc (lesum bs)) (unat acc + lesum bs)" by (intro oc_eq_add oc_eq_oc oc_eq_refl)
  also note chain_sum_append [OF acc(3), of bs]
  finally have a1: "oc_eq (unat acc1) (if odd (length ds) then 256 * (n + lesum (ds @ bs)) else n + lesum (ds @ bs))" .
  show ?thesis
  proof (cases "odd (length bs)")
    case False
    then show ?thesis using a1 add(2) acc(2) unfolding chain_acc_def by simp
  next
    case True
    have sw: "oc_eq (unat (SWAP_BYTES_IN_WORD acc1)) (256 * unat acc1)" "unat (SWAP_BYTES_IN_WORD acc1) \<le> 65535" using swap_oc [OF add(2)] by blast+
    have "oc_eq (256 * unat acc1) (if odd (length ds) then n + lesum (ds @ bs) else 256 * (n + lesum (ds @ bs)))"
      using oc_eq_mult [OF a1, of 256] oc_eq_trans [OF _ oc_eq_shift [of "n + lesum (ds @ bs)"], of "256 * unat acc1"] by (simp split: if_splits)
    from oc_eq_trans [OF sw(1) this] show ?thesis using True sw(2) acc(2) unfolding chain_acc_def by (simp split: if_splits)
  qed
qed

lemma chksum_chain_data:
  assumes "pchain h q xs" "chain_acc n ds acc swapped"
  shows "\<exists>acc' swapped'. chksum_chain base h q acc swapped = Some (acc', swapped') \<and> chain_acc n (ds @ pdata h xs) acc' swapped'"
  using assms
proof (induction xs arbitrary: q acc swapped ds)
  case Nil
  then show ?case by (subst chksum_chain.simps) simp
next
  case (Cons x xs)
  obtain b where b: "q = Some x" "h x = Some b" "pchain h (pnext b) xs" "poff b + unat (plen b) \<le> length (pmem b)" "length (bdata b) = unat (plen b)"
    using Cons.prems(1) by (rule pchain_Cons_E)
  have "pread b 0 (unat (plen b)) = Some (bdata b)" using b(4) by (simp add: pread_def bdata_def)
  moreover have "length (bdata b) \<le> 0x20000" using b(5) unat_u16_less [of "plen b"] by linarith
  note step = chain_acc_step [OF Cons.prems(2) this, of "odd (base x + poff b)"]
  ultimately show ?case
    using b(1,2,5) Cons.IH [OF b(3) step] by (subst chksum_chain.simps) (auto simp: Let_def odd_iff_mod_2_eq_one split: if_splits)
qed

section \<open>The checksum of RFC 1071\<close>

text \<open>The complement of the one's complement sum of the 16-bit words in network byte order.\<close>

definition rfc1071 :: "bytes \<Rightarrow> u16" where
  "rfc1071 bs = NOT (of_nat (oc (besum bs)))"

definition addr_bytes :: "u32 \<Rightarrow> bytes" where
  "addr_bytes a = [ucast a, ucast (drop_bit 8 a), ucast (drop_bit 16 a), ucast (drop_bit 24 a)]"

text \<open>The pseudo header of UDP and TCP.\<close>

definition pseudo_header :: "u32 \<Rightarrow> u32 \<Rightarrow> u8 \<Rightarrow> u16 \<Rightarrow> bytes" where
  "pseudo_header src dest proto proto_len = addr_bytes src @ addr_bytes dest @ [0, proto, ucast (drop_bit 8 proto_len), ucast proto_len]"

lemma unat_not: "unat (NOT x) = 65535 - unat x" for x :: u16
proof -
  have "unat (- 1 :: u16) = 65535" by (simp add: unsigned_minus_1_eq_mask mask_eq_exp_minus_1)
  moreover have "unat x \<le> 65535" using unat_u16_less [of x] by linarith
  moreover have "NOT x = - 1 - x" by (simp add: not_eq_complement)
  ultimately show ?thesis by (simp only: unat_u16_sub if_True)
qed

lemma htons_not: "t1s_lwip_htons (NOT x) = NOT (t1s_lwip_htons x)"
  unfolding t1s_lwip_htons_def by (rule bit_word_eqI) (auto simp: bit_simps dest: bit_imp_le_length)

lemma rfc1071_lesum: "t1s_lwip_htons (rfc1071 bs) = NOT (of_nat (oc (lesum bs)))"
proof -
  define x where "x = (of_nat (oc (besum bs)) :: u16)"
  have ux: "unat x = oc (besum bs)" using oc_le [of "besum bs"] by (simp add: x_def unat_u16_of_nat)
  have "oc_eq (256 * (unat x mod 256) + unat x div 256) (256 * (unat x mod 256) + 65536 * (unat x div 256))"
    by (intro oc_eq_add oc_eq_refl oc_eq_sym [OF oc_eq_shift])
  moreover have "256 * (unat x mod 256) + 65536 * (unat x div 256) = 256 * unat x" using div_mult_mod_eq [of "unat x" 256] by linarith
  ultimately have "oc_eq (unat (t1s_lwip_htons x)) (256 * unat x)" by (simp add: htons_bytes mult.commute)
  also have "oc_eq (256 * unat x) (256 * (256 * lesum bs))"
    unfolding ux by (intro oc_eq_mult oc_eq_trans [OF oc_eq_oc oc_eq_sym [OF lesum_besum]]) simp
  also have "256 * (256 * lesum bs) = 65536 * lesum bs" by simp
  also note oc_eq_shift
  finally have "oc_eq (unat (t1s_lwip_htons x)) (lesum bs)" .
  moreover have "unat (t1s_lwip_htons x) \<le> 65535" using unat_u16_less [of "t1s_lwip_htons x"] by linarith
  ultimately have "unat (t1s_lwip_htons x) = oc (lesum bs)" by (rule oc_unique)
  then have "t1s_lwip_htons x = of_nat (oc (lesum bs))" using oc_le [of "lesum bs"] by (simp add: word_unat_eq_iff unat_u16_of_nat)
  then show ?thesis by (simp add: rfc1071_def htons_not flip: x_def)
qed

lemma ucast_not_mask: "ucast (NOT (acc AND 0xFFFF) :: u32) = NOT (ucast acc :: u16)"
proof -
  have m: "(0xFFFF :: u32) = mask 16" by (simp add: mask_numeral)
  show ?thesis unfolding m by (rule bit_word_eqI) (auto simp: bit_simps)
qed

lemma complement_of_sum:
  assumes "oc_eq (unat acc) (lesum bs)" "unat acc \<le> 65535"
  shows "ucast (NOT (acc AND 0xFFFF) :: u32) = t1s_lwip_htons (rfc1071 bs)"
proof -
  have "unat acc = oc (lesum bs)" using oc_unique [OF assms] .
  then have "(ucast acc :: u16) = of_nat (oc (lesum bs))" using oc_le [of "lesum bs"] by (simp add: word_unat_eq_iff unat_ucast_u32_u16 unat_u16_of_nat)
  then show ?thesis by (simp only: ucast_not_mask rfc1071_lesum)
qed

lemma chain_end:
  assumes "chain_acc n ds acc swapped"
  defines "acc1 \<equiv> if swapped then SWAP_BYTES_IN_WORD acc else acc"
  shows "oc_eq (unat acc1) (n + lesum ds)" "unat acc1 \<le> 65535"
proof -
  have acc: "unat acc \<le> 65535" "swapped = odd (length ds)" "oc_eq (unat acc) (if odd (length ds) then 256 * (n + lesum ds) else n + lesum ds)"
    using assms(1) unfolding chain_acc_def by blast+
  show "unat acc1 \<le> 65535" using acc(1) swap_oc(2) [OF acc(1)] by (simp add: acc1_def)
  have "oc_eq (256 * unat acc) (n + lesum ds)" if "odd (length ds)"
    using oc_eq_mult [OF acc(3), of 256] oc_eq_trans [OF _ oc_eq_shift [of "n + lesum ds"], of "256 * unat acc"] that by simp
  then show "oc_eq (unat acc1) (n + lesum ds)"
    using acc(2,3) oc_eq_trans [OF swap_oc(1) [OF acc(1)]] by (auto simp: acc1_def split: if_splits)
qed

lemma lesum_addr: "lesum (addr_bytes a) = unat (a AND 0xFFFF) + unat (drop_bit 16 a AND 0xFFFF)"
proof -
  have m: "unat (x AND 0xFFFF) = unat x mod 65536" for x :: u32 using word_and_mask_mod [of x 16] by simp
  have "take_bit 32 (unat x) = unat x" for x :: u32 using unat_u32_less [of x] by (simp add: take_bit_nat_eq_self)
  then have d: "unat (drop_bit k x) = unat x div 2 ^ k" for x :: u32 and k by (subst unsigned_drop_bit_eq) (simp add: drop_bit_eq_div)
  have u: "unat (ucast x :: u8) = unat x mod 256" for x :: u32 by (simp add: unsigned_ucast_eq take_bit_eq_mod)
  have w: "k mod 256 + 256 * (k div 256 mod 256) = k mod 65536" for k :: nat using mod_mult2_eq [of k 256 256] by simp
  show ?thesis
    using w [of "unat a"] w [of "unat a div 65536"] by (simp add: addr_bytes_def u d m div_mult2_eq [of _ 65536 256, simplified])
qed

lemma lesum_pseudo_header:
  "lesum (pseudo_header src dest proto proto_len) =
     unat (src AND 0xFFFF) + unat (drop_bit 16 src AND 0xFFFF) + unat (dest AND 0xFFFF) + unat (drop_bit 16 dest AND 0xFFFF) +
     unat (t1s_lwip_htons (ucast proto)) + unat (t1s_lwip_htons proto_len)"
proof -
  have "lesum (pseudo_header src dest proto proto_len) =
      lesum (addr_bytes src) + (lesum (addr_bytes dest) + (256 * unat proto + (unat (ucast (drop_bit 8 proto_len) :: u8) + 256 * unat (ucast proto_len :: u8))))"
    by (simp add: pseudo_header_def addr_bytes_def)
  moreover have "unat (t1s_lwip_htons (ucast proto)) = 256 * unat proto" using unat_u8_less [of proto] by (simp add: htons_bytes)
  moreover have "unat (ucast (drop_bit 8 proto_len) :: u8) = unat proto_len div 256"
  proof -
    have "unat proto_len div 256 < 256" using unat_u16_less [of proto_len] by linarith
    then show ?thesis by (simp add: unsigned_ucast_eq take_bit_eq_mod drop_bit_eq_div unat_div)
  qed
  moreover have "unat (ucast proto_len :: u8) = unat proto_len mod 256" by (simp add: unsigned_ucast_eq take_bit_eq_mod)
  ultimately show ?thesis by (simp add: lesum_addr htons_bytes)
qed

text \<open>The sum of the parts of a message in which the checksum field, at an even position, has been filled in.\<close>

lemma besum_append: "even (length xs) \<Longrightarrow> besum (xs @ ys) = besum xs + besum ys"
  by (induction xs rule: besum.induct) auto

lemma rfc1071_filled:
  assumes "even (length us)" "c = rfc1071 (us @ [0, 0] @ vs)"
  shows "rfc1071 (us @ [ucast (drop_bit 8 c), ucast c] @ vs) = 0"
proof -
  define n where "n = besum (us @ [0, 0] @ vs)"
  have c: "unat c = 65535 - oc n" using oc_le [of n] by (simp add: assms(2) rfc1071_def unat_not unat_u16_of_nat n_def)
  have bytes: "256 * unat (ucast (drop_bit 8 c) :: u8) + unat (ucast c :: u8) = unat c"
  proof -
    have "unat c div 256 < 256" using unat_u16_less [of c] by linarith
    then show ?thesis by (simp add: unsigned_ucast_eq take_bit_eq_mod drop_bit_eq_div unat_div)
  qed
  have "besum (us @ [ucast (drop_bit 8 c), ucast c] @ vs) = n + unat c" using assms(1) bytes by (simp add: besum_append n_def)
  moreover have "oc_eq (n + unat c) (oc n + unat c)" by (intro oc_eq_add oc_eq_refl oc_eq_sym [OF oc_eq_oc])
  moreover have "oc n + unat c = 65535" using c oc_le [of n] by simp
  moreover have "oc 65535 = 65535" by (simp add: oc_def)
  ultimately have "oc (besum (us @ [ucast (drop_bit 8 c), ucast c] @ vs)) = 65535" using oc_cong by metis
  then show ?thesis by (simp add: rfc1071_def word_unat_eq_iff unat_not unat_u16_of_nat)
qed

lemma pseudo_base_sum:
  assumes "pchain h p xs" "oc_eq (unat acc) n" "unat acc \<le> 65535"
    and "oc_eq (n + lesum (pdata h xs) + unat (t1s_lwip_htons (ucast proto)) + unat (t1s_lwip_htons proto_len)) (lesum bs)"
  shows "inet_cksum_pseudo_base base h p proto proto_len acc = Some (t1s_lwip_htons (rfc1071 bs))"
proof -
  have "chain_acc n [] acc False" using assms(2,3) by (simp add: chain_acc_def)
  then obtain acc0 sw where c: "chksum_chain base h p acc False = Some (acc0, sw)" "chain_acc n (pdata h xs) acc0 sw"
    using chksum_chain_data [OF assms(1)] by fastforce
  define acc1 where "acc1 = (if sw then SWAP_BYTES_IN_WORD acc0 else acc0)"
  have acc1: "oc_eq (unat acc1) (n + lesum (pdata h xs))" "unat acc1 \<le> 65535" using chain_end [OF c(2)] by (simp_all add: acc1_def)
  let ?p = "t1s_lwip_htons (ucast proto)" and ?l = "t1s_lwip_htons proto_len"
  have "unat acc1 + unat ?p + unat ?l < 4294967296" using acc1(2) unat_u16_less [of ?p] unat_u16_less [of ?l] by linarith
  then have "unat (acc1 + ucast ?p + ucast ?l) = unat acc1 + unat ?p + unat ?l" by (simp add: unat_u32_add unat_ucast_u16_u32)
  then have f: "unat (FOLD_U32T (FOLD_U32T (acc1 + ucast ?p + ucast ?l))) = oc (unat acc1 + unat ?p + unat ?l)" by (simp only: fold_twice)
  have "oc_eq (oc (unat acc1 + unat ?p + unat ?l)) (unat acc1 + unat ?p + unat ?l)" by (rule oc_eq_oc)
  also have "oc_eq (unat acc1 + unat ?p + unat ?l) (n + lesum (pdata h xs) + unat ?p + unat ?l)" by (intro oc_eq_add acc1(1) oc_eq_refl)
  also note assms(4)
  finally have "oc_eq (unat (FOLD_U32T (FOLD_U32T (acc1 + ucast ?p + ucast ?l)))) (lesum bs)" unfolding f .
  from complement_of_sum [OF this] show ?thesis
    using c(1) oc_le by (simp add: inet_cksum_pseudo_base_def Let_def f flip: acc1_def)
qed

section \<open>Properties\<close>

text \<open>
  C30. The checksums over packet buffers are those of RFC 1071: for a chain of pbufs of any lengths, at even or odd addresses, \<open>inet_chksum_pbuf\<close> returns the checksum of
  the packet's bytes in a row, and \<open>inet_chksum_pseudo\<close> that of the pseudo header followed by them, in network byte order. A packet whose checksum field holds its
  checksum has checksum 0, as the receiver expects.
\<close>

theorem inet_chksum_rfc1071:
  assumes "pchain h p xs"
  shows "inet_chksum_pbuf base h p = Some (t1s_lwip_htons (rfc1071 (pdata h xs))) \<and>
    inet_chksum_pseudo base h p proto proto_len src dest = Some (t1s_lwip_htons (rfc1071 (pseudo_header src dest proto proto_len @ pdata h xs))) \<and>
    (\<forall>us c vs. pdata h xs = us @ [ucast (drop_bit 8 c), ucast c] @ vs \<and> even (length us) \<and> c = rfc1071 (us @ [0, 0] @ vs) \<longrightarrow>
      inet_chksum_pbuf base h p = Some 0)"
proof -
  have "chain_acc 0 [] 0 False" by (simp add: chain_acc_def)
  then obtain acc sw where c: "chksum_chain base h p 0 False = Some (acc, sw)" "chain_acc 0 (pdata h xs) acc sw"
    using chksum_chain_data [OF assms] by fastforce
  have 1: "inet_chksum_pbuf base h p = Some (t1s_lwip_htons (rfc1071 (pdata h xs)))"
    using complement_of_sum [OF _ chain_end(2) [OF c(2)], of "pdata h xs"] chain_end(1) [OF c(2)] c(1) by (simp add: inet_chksum_pbuf_def Let_def)
  define a where "a = (src AND 0xFFFF) + (drop_bit 16 src AND 0xFFFF) + (dest AND 0xFFFF) + (drop_bit 16 dest AND 0xFFFF)"
  define n where "n = unat (src AND 0xFFFF) + unat (drop_bit 16 src AND 0xFFFF) + unat (dest AND 0xFFFF) + unat (drop_bit 16 dest AND 0xFFFF)"
  have "unat (x AND 0xFFFF) \<le> 65535" for x :: u32 using word_and_mask_bound [of x "0xFFFF"] by simp
  note this [of src] this [of "drop_bit 16 src"] this [of dest] this [of "drop_bit 16 dest"]
  then have "unat a = n" unfolding a_def n_def by (simp add: unat_u32_add)
  then have acc: "unat (FOLD_U32T (FOLD_U32T a)) = oc n" by (simp add: fold_twice)
  let ?ph = "pseudo_header src dest proto proto_len"
  have "oc_eq (lesum ?ph + lesum (pdata h xs)) (lesum (?ph @ pdata h xs))"
    using oc_eq_sym [OF lesum_append [of ?ph "pdata h xs"]] by (simp add: pseudo_header_def addr_bytes_def)
  then have "oc_eq (n + lesum (pdata h xs) + unat (t1s_lwip_htons (ucast proto)) + unat (t1s_lwip_htons proto_len)) (lesum (?ph @ pdata h xs))"
    unfolding lesum_pseudo_header n_def by (simp add: ac_simps)
  from pseudo_base_sum [OF assms _ _ this] have 2: "inet_chksum_pseudo base h p proto proto_len src dest = Some (t1s_lwip_htons (rfc1071 (?ph @ pdata h xs)))"
    using acc oc_eq_oc oc_le by (simp add: inet_chksum_pseudo_def Let_def a_def)
  have 3: "inet_chksum_pbuf base h p = Some 0"
    if "pdata h xs = us @ [ucast (drop_bit 8 c), ucast c] @ vs \<and> even (length us) \<and> c = rfc1071 (us @ [0, 0] @ vs)" for us c vs
    using 1 rfc1071_filled [of us c vs] that by (simp add: t1s_lwip_htons_def)
  show ?thesis using 1 2 3 by blast
qed

text \<open>Seven bytes in a pbuf of four and one of three, both at odd addresses.\<close>

theorem inet_chksum_rfc1071_witness:
  "inet_chksum_pbuf (\<lambda>a. a) two_pbufs (Some 3) = Some 0xF3EF \<and> rfc1071 [1, 2, 3, 4, 5, 6, 7] = 0xEFF3"
proof -
  have r: "rfc1071 [1, 2, 3, 4, 5, 6, 7] = 0xEFF3" by (simp add: rfc1071_def oc_def)
  moreover have "t1s_lwip_htons 0xEFF3 = 0xF3EF" by (simp add: t1s_lwip_htons_def)
  ultimately show ?thesis using inet_chksum_rfc1071 [OF two_pbufs(1), of "\<lambda>a. a"] two_pbufs(3) by simp
qed

end
