(* ===== verification/Lwip_Timeouts.thy ===== *)
theory Lwip_Timeouts
  imports Prelude
begin

text \<open>
  The timers of lwIP (\<open>core/timeouts.c\<close>), which \<open>service\<close> of the network interface runs: a list of timeouts in the order in which they are due, on a 32-bit clock of
  milliseconds that wraps around after 49 days. The linked list is a list; an element is taken from a pool of \<open>MEMP_NUM_SYS_TIMEOUT\<close> elements. \<open>None\<close> is a failed
  \<open>LWIP_ASSERT\<close> or a loop that does not end. The clock and the timer functions of the protocols and of the application are a parameter (\<open>timer_env\<close>); they
  change the state of the rest of the program, and set no timers of their own.
\<close>

section \<open>Definitions\<close>

abbreviation LWIP_MAX_TIMEOUT :: u32 where "LWIP_MAX_TIMEOUT \<equiv> 0x7FFFFFFF"
abbreviation TCP_TMR_INTERVAL :: u32 where "TCP_TMR_INTERVAL \<equiv> 250"
abbreviation MEMP_NUM_SYS_TIMEOUT :: nat where "MEMP_NUM_SYS_TIMEOUT \<equiv> 6"

definition TIME_LESS_THAN :: "u32 \<Rightarrow> u32 \<Rightarrow> bool" where
  "TIME_LESS_THAN t compare_to \<longleftrightarrow> t - compare_to > LWIP_MAX_TIMEOUT"

text \<open>
  A handler with its argument: \<open>lwip_cyclic_timer\<close> with an entry of the table, \<open>tcpip_tcp_timer\<close>, a function of the application, or null.
\<close>

datatype timeout_handler = Cyclic nat | TcpTimer | Other nat | NullHandler

record sys_timeo =
  time :: u32
  th :: timeout_handler

text \<open>The intervals of the table: TCP, ARP, DHCP (coarse and fine), IGMP.\<close>

definition lwip_cyclic_timers :: "u32 list" where
  "lwip_cyclic_timers = [250, 1000, 60000, 500, 100]"

text \<open>The clock, the functions of the table, \<open>tcp_tmr\<close>, whether there are TCP connections, and the functions of the application, on a state \<open>'s\<close>.\<close>

record 's timer_env =
  sys_now :: "'s \<Rightarrow> u32"
  cyclic_handler :: "nat \<Rightarrow> 's \<Rightarrow> 's"
  tcp_tmr :: "'s \<Rightarrow> 's"
  tcp_pcbs :: "'s \<Rightarrow> bool"
  other_handler :: "nat \<Rightarrow> 's \<Rightarrow> 's"

record 's timers =
  next_timeout :: "sys_timeo list"
  current_timeout_due_time :: u32
  tcpip_tcp_timer_active :: bool
  world :: 's

fun timeo_insert :: "sys_timeo \<Rightarrow> sys_timeo list \<Rightarrow> sys_timeo list" where
  "timeo_insert t [] = [t]"
| "timeo_insert t [x] = [x, t]"
| "timeo_insert t (x # y # ys) = (if TIME_LESS_THAN (time t) (time y) then x # t # y # ys else x # timeo_insert t (y # ys))"

definition sys_timeout_abs :: "u32 \<Rightarrow> timeout_handler \<Rightarrow> 's timers \<Rightarrow> 's timers option" where
  "sys_timeout_abs abs_time h s =
    (if length (next_timeout s) \<ge> MEMP_NUM_SYS_TIMEOUT then None
     else let t = \<lparr>time = abs_time, th = h\<rparr>
          in Some (s\<lparr>next_timeout := (case next_timeout s of
               [] \<Rightarrow> [t]
             | x # xs \<Rightarrow> if TIME_LESS_THAN abs_time (time x) then t # x # xs else timeo_insert t (x # xs))\<rparr>))"

definition sys_timeout :: "'s timer_env \<Rightarrow> u32 \<Rightarrow> timeout_handler \<Rightarrow> 's timers \<Rightarrow> 's timers option" where
  "sys_timeout e msecs h s = (if msecs \<le> 0x3FFFFFFF then sys_timeout_abs (sys_now e (world s) + msecs) h s else None)"

definition lwip_cyclic_timer :: "'s timer_env \<Rightarrow> nat \<Rightarrow> 's timers \<Rightarrow> 's timers option" where
  "lwip_cyclic_timer e i s =
    (if i < length lwip_cyclic_timers then
       let interval_ms = lwip_cyclic_timers ! i;
           s = s\<lparr>world := cyclic_handler e i (world s)\<rparr>;
           now = sys_now e (world s);
           next_timeout_time = current_timeout_due_time s + interval_ms
       in if TIME_LESS_THAN next_timeout_time now then sys_timeout_abs (now + interval_ms) (Cyclic i) s
          else sys_timeout_abs next_timeout_time (Cyclic i) s
     else None)"

definition tcpip_tcp_timer :: "'s timer_env \<Rightarrow> 's timers \<Rightarrow> 's timers option" where
  "tcpip_tcp_timer e s =
    (let s = s\<lparr>world := tcp_tmr e (world s)\<rparr>
     in if tcp_pcbs e (world s) then sys_timeout e TCP_TMR_INTERVAL TcpTimer s
        else Some (s\<lparr>tcpip_tcp_timer_active := False\<rparr>))"

definition tcp_timer_needed :: "'s timer_env \<Rightarrow> 's timers \<Rightarrow> 's timers option" where
  "tcp_timer_needed e s =
    (if \<not> tcpip_tcp_timer_active s \<and> tcp_pcbs e (world s) then sys_timeout e TCP_TMR_INTERVAL TcpTimer (s\<lparr>tcpip_tcp_timer_active := True\<rparr>)
     else Some s)"

text \<open>The timer of TCP, the first of the table, is started on demand.\<close>

fun sys_timeouts_init_loop :: "'s timer_env \<Rightarrow> nat list \<Rightarrow> 's timers \<Rightarrow> 's timers option" where
  "sys_timeouts_init_loop e [] s = Some s"
| "sys_timeouts_init_loop e (i # is) s = Option.bind (sys_timeout e (lwip_cyclic_timers ! i) (Cyclic i) s) (sys_timeouts_init_loop e is)"

definition sys_timeouts_init :: "'s timer_env \<Rightarrow> 's timers \<Rightarrow> 's timers option" where
  "sys_timeouts_init e s = sys_timeouts_init_loop e [1..<length lwip_cyclic_timers] s"

fun untimeout_loop :: "timeout_handler \<Rightarrow> sys_timeo list \<Rightarrow> sys_timeo list" where
  "untimeout_loop h [] = []"
| "untimeout_loop h (t # ts) = (if th t = h then ts else t # untimeout_loop h ts)"

definition sys_untimeout :: "timeout_handler \<Rightarrow> 's timers \<Rightarrow> 's timers" where
  "sys_untimeout h s = s\<lparr>next_timeout := untimeout_loop h (next_timeout s)\<rparr>"

definition call_handler :: "'s timer_env \<Rightarrow> timeout_handler \<Rightarrow> 's timers \<Rightarrow> 's timers option" where
  "call_handler e h s = (case h of
     NullHandler \<Rightarrow> Some s
   | Cyclic i \<Rightarrow> lwip_cyclic_timer e i s
   | TcpTimer \<Rightarrow> tcpip_tcp_timer e s
   | Other n \<Rightarrow> Some (s\<lparr>world := other_handler e n (world s)\<rparr>))"

partial_function (option) check_timeouts_loop :: "'s timer_env \<Rightarrow> u32 \<Rightarrow> 's timers \<Rightarrow> 's timers option" where
  "check_timeouts_loop e now s =
    (case next_timeout s of
       [] \<Rightarrow> Some s
     | t # ts \<Rightarrow>
         if TIME_LESS_THAN now (time t) then Some s
         else Option.bind (call_handler e (th t) (s\<lparr>next_timeout := ts, current_timeout_due_time := time t\<rparr>)) (check_timeouts_loop e now))"

definition sys_check_timeouts :: "'s timer_env \<Rightarrow> 's timers \<Rightarrow> 's timers option" where
  "sys_check_timeouts e s = check_timeouts_loop e (sys_now e (world s)) s"

definition sys_restart_timeouts :: "'s timer_env \<Rightarrow> 's timers \<Rightarrow> 's timers" where
  "sys_restart_timeouts e s = (case next_timeout s of
     [] \<Rightarrow> s
   | x # xs \<Rightarrow> s\<lparr>next_timeout := map (\<lambda>t. t\<lparr>time := (time t - time x) + sys_now e (world s)\<rparr>) (x # xs)\<rparr>)"

definition sys_timeouts_sleeptime :: "'s timer_env \<Rightarrow> 's timers \<Rightarrow> u32 option" where
  "sys_timeouts_sleeptime e s = (case next_timeout s of
     [] \<Rightarrow> Some 0xFFFFFFFF
   | x # _ \<Rightarrow>
       if TIME_LESS_THAN (time x) (sys_now e (world s)) then Some 0
       else let ret = time x - sys_now e (world s) in if ret \<le> LWIP_MAX_TIMEOUT then Some ret else None)"

section \<open>Timers without wrap-around\<close>

text \<open>
  The same timers on a clock that never wraps around: an agenda of due times and handlers, sorted by due time; timers with the same due time
  in the order in which they were set.
\<close>

type_synonym agenda = "(int \<times> timeout_handler) list"

definition agenda_add :: "int \<Rightarrow> timeout_handler \<Rightarrow> agenda \<Rightarrow> agenda" where
  "agenda_add d h ag = takeWhile (\<lambda>x. fst x \<le> d) ag @ (d, h) # dropWhile (\<lambda>x. fst x \<le> d) ag"

text \<open>
  One timer that is due at \<open>d\<close> is run: a cyclic timer is set again for \<open>d\<close> plus its interval, so that it does not drift, or, if this is already over, for the
  interval from now on; the timer of TCP as long as there are connections. \<open>clk\<close> is the clock.
\<close>

definition agenda_run :: "'s timer_env \<Rightarrow> ('s \<Rightarrow> int) \<Rightarrow> int \<Rightarrow> timeout_handler \<Rightarrow> agenda \<times> 's \<Rightarrow> agenda \<times> 's" where
  "agenda_run e clk d h = (\<lambda>(ag, w). case h of
     NullHandler \<Rightarrow> (ag, w)
   | Cyclic i \<Rightarrow>
       (let w = cyclic_handler e i w; ivl = uint (lwip_cyclic_timers ! i)
        in (agenda_add (if d + ivl < clk w then clk w + ivl else d + ivl) (Cyclic i) ag, w))
   | TcpTimer \<Rightarrow> (let w = tcp_tmr e w in (if tcp_pcbs e w then agenda_add (clk w + 250) TcpTimer ag else ag, w))
   | Other n \<Rightarrow> (ag, other_handler e n w))"

partial_function (option) agenda_check :: "'s timer_env \<Rightarrow> ('s \<Rightarrow> int) \<Rightarrow> int \<Rightarrow> agenda \<times> 's \<Rightarrow> (agenda \<times> 's) option" where
  "agenda_check e clk now aw =
    (case fst aw of
       [] \<Rightarrow> Some aw
     | (d, h) # ag \<Rightarrow> if now < d then Some aw else agenda_check e clk now (agenda_run e clk d h (ag, snd aw)))"

section \<open>Wrap-around\<close>

lemma time_less_than:
  assumes "- 2147483648 \<le> a - b" "a - b < 2147483648"
  shows "TIME_LESS_THAN (word_of_int a) (word_of_int b) \<longleftrightarrow> a < b"
proof -
  have "uint (word_of_int a - word_of_int b :: u32) = (a - b) mod 4294967296" by (simp add: uint_word_ariths mod_diff_eq uint_word_of_int)
  moreover have "(a - b) mod 4294967296 = (if a < b then a - b + 4294967296 else a - b)"
    using assms mod_pos_pos_trivial [of "a - b + 4294967296" 4294967296] by auto
  ultimately show ?thesis using assms by (simp add: TIME_LESS_THAN_def word_less_alt)
qed

text \<open>
  An agenda around the time \<open>B\<close>: nothing is more than six days late or more than twelve days ahead, so that all differences have less than 32 bits. \<open>concrete\<close> is the
  list of timeouts that stands for it.
\<close>

definition near :: "int \<Rightarrow> int \<Rightarrow> bool" where
  "near B d \<longleftrightarrow> B - 536870912 \<le> d \<and> d \<le> B + 1073741824"

definition agenda_ok :: "int \<Rightarrow> agenda \<Rightarrow> bool" where
  "agenda_ok B ag \<longleftrightarrow> sorted (map fst ag) \<and> (\<forall>x \<in> set ag. near B (fst x) \<and> (\<forall>i. snd x = Cyclic i \<longrightarrow> i < length lwip_cyclic_timers))"

definition concrete :: "agenda \<Rightarrow> sys_timeo list" where
  "concrete ag = map (\<lambda>(d, h). \<lparr>time = word_of_int d, th = h\<rparr>) ag"

lemma near_less: "near B a \<Longrightarrow> near B b \<Longrightarrow> TIME_LESS_THAN (word_of_int a) (word_of_int b) \<longleftrightarrow> a < b"
  by (rule time_less_than) (auto simp: near_def)

lemma agenda_add_simps [simp]:
  "agenda_add d h [] = [(d, h)]" "agenda_add d h (x # ag) = (if fst x \<le> d then x # agenda_add d h ag else (d, h) # x # ag)"
  by (simp_all add: agenda_add_def)

lemma set_agenda_add [simp]: "set (agenda_add d h ag) = insert (d, h) (set ag)"
  by (induction ag) auto

lemma length_agenda_add [simp]: "length (agenda_add d h ag) = Suc (length ag)"
  by (induction ag) auto

lemma sorted_agenda_add: "sorted (map fst ag) \<Longrightarrow> sorted (map fst (agenda_add d h ag))"
  by (induction ag) auto

lemma agenda_ok_Cons: "agenda_ok B (x # ag) \<Longrightarrow> agenda_ok B ag"
  by (simp add: agenda_ok_def)

lemma agenda_ok_add:
  "agenda_ok B ag \<Longrightarrow> near B d \<Longrightarrow> (\<And>i. h = Cyclic i \<Longrightarrow> i < length lwip_cyclic_timers) \<Longrightarrow> agenda_ok B (agenda_add d h ag)"
  by (auto simp: agenda_ok_def sorted_agenda_add)

lemma concrete_simps [simp]: "concrete [] = []" "concrete ((d, h) # ag) = \<lparr>time = word_of_int d, th = h\<rparr> # concrete ag"
  by (simp_all add: concrete_def)

lemma timeo_insert_agenda:
  assumes "near B d" "agenda_ok B ((c, k) # ag)"
  shows "timeo_insert \<lparr>time = word_of_int d, th = h\<rparr> (concrete ((c, k) # ag)) = concrete ((c, k) # agenda_add d h ag)"
  using assms
proof (induction ag arbitrary: c k)
  case (Cons x ag)
  obtain d' h' where x: "x = (d', h')" by (cases x)
  have "near B d'" using Cons.prems(2) x by (simp add: agenda_ok_def)
  then have "TIME_LESS_THAN (word_of_int d) (word_of_int d') \<longleftrightarrow> d < d'" using Cons.prems(1) by (intro near_less)
  moreover have "agenda_ok B ((d', h') # ag)" using agenda_ok_Cons [OF Cons.prems(2)] x by simp
  ultimately show ?case using Cons.IH [OF Cons.prems(1)] x by simp
qed simp

lemma sys_timeout_abs_adds:
  assumes "next_timeout s = concrete ag" "agenda_ok B ag" "near B d" "length ag < MEMP_NUM_SYS_TIMEOUT"
  shows "sys_timeout_abs (word_of_int d) h s = Some (s\<lparr>next_timeout := concrete (agenda_add d h ag)\<rparr>)"
proof (cases ag)
  case Nil
  then show ?thesis using assms(1,4) by (simp add: sys_timeout_abs_def)
next
  case (Cons x ag')
  obtain c k where x: "x = (c, k)" by (cases x)
  have "near B c" using assms(2) Cons x by (simp add: agenda_ok_def)
  then have lt: "TIME_LESS_THAN (word_of_int d) (word_of_int c) \<longleftrightarrow> d < c" using assms(3) by (intro near_less)
  have "length (concrete ag) < MEMP_NUM_SYS_TIMEOUT" using assms(4) by (simp add: concrete_def)
  then show ?thesis
    using lt assms(1) timeo_insert_agenda [OF assms(3), of c k ag' h] assms(2) Cons x by (simp add: sys_timeout_abs_def)
qed

section \<open>Running the timers\<close>

text \<open>The clock is that of the environment, and no handler takes longer than 17 minutes.\<close>

definition env_ok :: "'s timer_env \<Rightarrow> ('s \<Rightarrow> int) \<Rightarrow> bool" where
  "env_ok e clk \<longleftrightarrow> (\<forall>w. sys_now e w = word_of_int (clk w)) \<and>
     (\<forall>i w. clk w \<le> clk (cyclic_handler e i w) \<and> clk (cyclic_handler e i w) \<le> clk w + 1048576) \<and>
     (\<forall>w. clk w \<le> clk (tcp_tmr e w) \<and> clk (tcp_tmr e w) \<le> clk w + 1048576) \<and>
     (\<forall>n w. clk w \<le> clk (other_handler e n w) \<and> clk (other_handler e n w) \<le> clk w + 1048576)"

lemma interval_bounds:
  assumes "i < length lwip_cyclic_timers"
  shows "0 < uint (lwip_cyclic_timers ! i)" "uint (lwip_cyclic_timers ! i) \<le> 60000"
proof -
  have "list_all (\<lambda>x. 0 < uint x \<and> uint x \<le> 60000) lwip_cyclic_timers" by (simp add: lwip_cyclic_timers_def)
  then show "0 < uint (lwip_cyclic_timers ! i)" "uint (lwip_cyclic_timers ! i) \<le> 60000" using assms by (simp_all add: list_all_length)
qed

lemma call_handler_runs:
  assumes "env_ok e clk" "agenda_ok B ag" "length ag < MEMP_NUM_SYS_TIMEOUT" "near B d" "d \<le> B" "\<And>i. h = Cyclic i \<Longrightarrow> i < length lwip_cyclic_timers"
    and "next_timeout s = concrete ag" "current_timeout_due_time s = word_of_int d" "B \<le> clk (world s)" "clk (world s) \<le> B + 16777216"
    and "agenda_run e clk d h (ag, world s) = (ag', w')"
  shows "\<exists>s'. call_handler e h s = Some s' \<and> next_timeout s' = concrete ag' \<and> world s' = w' \<and> agenda_ok B ag'"
proof (cases h)
  case (Cyclic i)
  define ivl where "ivl = lwip_cyclic_timers ! i"
  define w1 where "w1 = cyclic_handler e i (world s)"
  have ivl: "0 < uint ivl" "uint ivl \<le> 60000" and i: "i < length lwip_cyclic_timers" using interval_bounds assms(6) [OF Cyclic] by (simp_all add: ivl_def)
  have now: "sys_now e w1 = word_of_int (clk w1)" "clk (world s) \<le> clk w1" "clk w1 \<le> clk (world s) + 1048576" using assms(1) by (simp_all add: env_ok_def w1_def)
  have n: "near B (d + uint ivl)" "near B (clk w1)" "near B (clk w1 + uint ivl)" using assms(4,5,9,10) now(2,3) ivl by (simp_all add: near_def)
  define d' where "d' = (if d + uint ivl < clk w1 then clk w1 + uint ivl else d + uint ivl)"
  have d': "near B d'" using n by (simp add: d'_def)
  have "call_handler e h s = sys_timeout_abs (word_of_int d') (Cyclic i) (s\<lparr>world := w1\<rparr>)"
    using i near_less [OF n(1,2)] assms(8) now(1)
    by (simp add: Cyclic call_handler_def lwip_cyclic_timer_def Let_def d'_def flip: w1_def ivl_def)
  also have "\<dots> = Some (s\<lparr>world := w1, next_timeout := concrete (agenda_add d' (Cyclic i) ag)\<rparr>)"
    using sys_timeout_abs_adds [of "s\<lparr>world := w1\<rparr>" ag B d' "Cyclic i"] assms(2,3,7) d' by simp
  moreover have "ag' = agenda_add d' (Cyclic i) ag" "w' = w1" 
    using assms(11) unfolding Cyclic agenda_run_def prod.case timeout_handler.case Let_def ivl_def [symmetric] w1_def [symmetric] d'_def [symmetric] by simp_all
  ultimately show ?thesis using agenda_ok_add [OF assms(2) d', of "Cyclic i"] i by simp
next
  case TcpTimer
  define w1 where "w1 = tcp_tmr e (world s)"
  have now: "sys_now e w1 = word_of_int (clk w1)" "clk (world s) \<le> clk w1" "clk w1 \<le> clk (world s) + 1048576" using assms(1) by (simp_all add: env_ok_def w1_def)
  have n: "near B (clk w1 + 250)" using assms(9,10) now(2,3) by (simp add: near_def)
  have "sys_timeout e 250 TcpTimer (s\<lparr>world := w1\<rparr>) = Some (s\<lparr>world := w1, next_timeout := concrete (agenda_add (clk w1 + 250) TcpTimer ag)\<rparr>)"
    using sys_timeout_abs_adds [of "s\<lparr>world := w1\<rparr>" ag B "clk w1 + 250" TcpTimer] assms(2,3,7) n now(1) by (simp add: sys_timeout_def)
  then show ?thesis
    using assms(2,7,11) agenda_ok_add [OF assms(2) n, of TcpTimer]
    by (auto simp: TcpTimer call_handler_def tcpip_tcp_timer_def agenda_run_def Let_def split: if_splits simp flip: w1_def)
qed (use assms(2,7,11) in \<open>auto simp: call_handler_def agenda_run_def\<close>)

text \<open>
  How often timers can still run before the time \<open>B\<close> is passed: twice if one is late, since a cyclic timer may be due again right at \<open>B\<close>.
\<close>

definition runs_left :: "int \<Rightarrow> agenda \<Rightarrow> nat" where
  "runs_left B ag = sum_list (map (\<lambda>x. if fst x < B then 2 else if fst x = B then 1 else 0) ag)"

lemma runs_left_add: "runs_left B (agenda_add d h ag) = (if d < B then 2 else if d = B then 1 else 0) + runs_left B ag"
  by (induction ag) (auto simp: runs_left_def)

lemma runs_left_bound: "runs_left B ag \<le> 2 * length ag"
  by (induction ag) (auto simp: runs_left_def)

lemma agenda_run_step:
  assumes "env_ok e clk" "d \<le> B" "B \<le> clk w" "\<And>i. h = Cyclic i \<Longrightarrow> i < length lwip_cyclic_timers" "agenda_run e clk d h (ag, w) = (ag', w')"
  shows "runs_left B ag' < runs_left B ((d, h) # ag)" "clk w \<le> clk w'" "clk w' \<le> clk w + 1048576" "length ag' \<le> Suc (length ag)"
proof -
  have env: "\<And>i w. clk w \<le> clk (cyclic_handler e i w) \<and> clk (cyclic_handler e i w) \<le> clk w + 1048576"
    "\<And>w. clk w \<le> clk (tcp_tmr e w) \<and> clk (tcp_tmr e w) \<le> clk w + 1048576"
    "\<And>n w. clk w \<le> clk (other_handler e n w) \<and> clk (other_handler e n w) \<le> clk w + 1048576"
    using assms(1) by (simp_all add: env_ok_def)
  have l: "runs_left B ((d, h) # ag) = (if d < B then 2 else 1) + runs_left B ag" using assms(2) by (simp add: runs_left_def)
  show "clk w \<le> clk w'" "clk w' \<le> clk w + 1048576"
    using assms(5) env by (auto simp: agenda_run_def Let_def split: timeout_handler.splits if_splits)
  show "length ag' \<le> Suc (length ag)" using assms(5) by (auto simp: agenda_run_def Let_def split: timeout_handler.splits if_splits)
  show "runs_left B ag' < runs_left B ((d, h) # ag)"
  proof (cases h)
    case (Cyclic i)
    have "B \<le> clk (cyclic_handler e i w)" using env(1) [of w i] assms(3) by simp
    then show ?thesis
      using assms(2,5) interval_bounds(1) [OF assms(4) [OF Cyclic]] unfolding l by (auto simp: Cyclic agenda_run_def Let_def runs_left_add split: if_splits)
  next
    case TcpTimer
    then show ?thesis using assms(2,3,5) env(2) [of w] unfolding l by (auto simp: agenda_run_def Let_def runs_left_add split: if_splits)
  qed (use assms(5) l in \<open>auto simp: agenda_run_def\<close>)
qed

lemma check_timeouts_agenda:
  assumes "env_ok e clk" "agenda_ok B ag" "length ag \<le> MEMP_NUM_SYS_TIMEOUT" "next_timeout s = concrete ag"
    and "B \<le> clk (world s)" "clk (world s) + 1048576 * int (runs_left B ag) \<le> B + 16777216"
  shows "\<exists>s' ag'. check_timeouts_loop e (word_of_int B) s = Some s' \<and> agenda_check e clk B (ag, world s) = Some (ag', world s') \<and>
    next_timeout s' = concrete ag' \<and> agenda_ok B ag' \<and> (\<forall>x \<in> set ag'. B < fst x) \<and> length ag' \<le> length ag \<and> B \<le> clk (world s') \<and> clk (world s') \<le> B + 16777216"
  using assms
proof (induction "runs_left B ag" arbitrary: ag s rule: less_induct)
  case less
  show ?case
  proof (cases ag)
    case Nil
    then show ?thesis using less.prems by (subst check_timeouts_loop.simps, subst agenda_check.simps) simp
  next
    case (Cons x ag1)
    obtain d h where x: "x = (d, h)" by (cases x)
    have d: "near B d" "\<And>i. h = Cyclic i \<Longrightarrow> i < length lwip_cyclic_timers" "near B B" using less.prems(2) Cons x by (auto simp: agenda_ok_def near_def)
    have lt: "TIME_LESS_THAN (word_of_int B) (word_of_int d) \<longleftrightarrow> B < d" by (rule near_less [OF d(3,1)])
    show ?thesis
    proof (cases "B < d")
      case True
      then have "\<forall>y \<in> set ag. B < fst y" using less.prems(2) Cons x by (fastforce simp: agenda_ok_def)
      then show ?thesis using True less.prems lt Cons x by (subst check_timeouts_loop.simps, subst agenda_check.simps) simp
    next
      case False
      define s1 where "s1 = s\<lparr>next_timeout := concrete ag1, current_timeout_due_time := word_of_int d\<rparr>"
      obtain ag2 w2 where run: "agenda_run e clk d h (ag1, world s) = (ag2, w2)" by (cases "agenda_run e clk d h (ag1, world s)")
      have step: "runs_left B ag2 < runs_left B ag" "clk (world s) \<le> clk w2" "clk w2 \<le> clk (world s) + 1048576" "length ag2 \<le> length ag"
        using agenda_run_step [OF less.prems(1) _ less.prems(5) d(2) run] False Cons x by simp_all
      have "clk (world s) \<le> B + 16777216" using less.prems(6) by simp
      then obtain s2 where s2: "call_handler e h s1 = Some s2" "next_timeout s2 = concrete ag2" "world s2 = w2" "agenda_ok B ag2"
        using call_handler_runs [OF less.prems(1), of B ag1 d h s1 ag2 w2] agenda_ok_Cons [of B x ag1] less.prems(2,3,5) d False run Cons
        by (auto simp: s1_def)
      have "clk (world s2) + 1048576 * int (runs_left B ag2) \<le> B + 16777216" using step(1,3) less.prems(6) s2(3) by simp
      from less.hyps [OF step(1) less.prems(1) s2(4) _ s2(2) _ this] obtain s' ag' where
        "check_timeouts_loop e (word_of_int B) s2 = Some s'" "agenda_check e clk B (ag2, w2) = Some (ag', world s')" "next_timeout s' = concrete ag'"
        "agenda_ok B ag'" "\<forall>x \<in> set ag'. B < fst x" "length ag' \<le> length ag2" "B \<le> clk (world s')" "clk (world s') \<le> B + 16777216"
        using step(2,4) less.prems(3,5) s2(3) by auto
      moreover have "check_timeouts_loop e (word_of_int B) s = check_timeouts_loop e (word_of_int B) s2"
        using less.prems(4) False lt s2(1) Cons x by (subst check_timeouts_loop.simps) (simp add: s1_def)
      moreover have "agenda_check e clk B (ag, world s) = agenda_check e clk B (ag2, w2)"
        using False run Cons x by (subst agenda_check.simps) simp
      ultimately show ?thesis using step(4) by (intro exI [of _ s'] exI [of _ ag']) simp
    qed
  qed
qed

section \<open>The other operations\<close>

lemma sleeptime_agenda:
  assumes "env_ok e clk" "agenda_ok B ag" "next_timeout s = concrete ag" "near B (clk (world s))"
  shows "sys_timeouts_sleeptime e s = Some (case ag of [] \<Rightarrow> 0xFFFFFFFF | x # _ \<Rightarrow> word_of_int (max 0 (fst x - clk (world s))))"
proof (cases ag)
  case Nil
  then show ?thesis using assms(3) by (simp add: sys_timeouts_sleeptime_def)
next
  case (Cons x ag1)
  obtain d h where x: "x = (d, h)" by (cases x)
  have now: "sys_now e (world s) = word_of_int (clk (world s))" using assms(1) by (simp add: env_ok_def)
  have d: "near B d" using assms(2) Cons x by (simp add: agenda_ok_def)
  note lt = near_less [OF d assms(4)]
  have "uint (word_of_int d - word_of_int (clk (world s)) :: u32) = d - clk (world s)" if "clk (world s) \<le> d"
    using that d assms(4) by (simp add: near_def uint_word_ariths mod_diff_eq uint_word_of_int)
  then have "(word_of_int d - word_of_int (clk (world s)) :: u32) \<le> LWIP_MAX_TIMEOUT" if "clk (world s) \<le> d"
    using that d assms(4) by (simp add: near_def word_le_def)
  then show ?thesis using lt Cons x assms(3) now by (simp add: sys_timeouts_sleeptime_def Let_def max_def)
qed

lemma restart_agenda:
  assumes "env_ok e clk" "next_timeout s = concrete ((c, k) # ag)"
  shows "next_timeout (sys_restart_timeouts e s) = concrete (map (\<lambda>(d, h). (d - c + clk (world s), h)) ((c, k) # ag))"
  using assms by (simp add: sys_restart_timeouts_def env_ok_def concrete_def case_prod_beta)

lemma untimeout_agenda:
  assumes "next_timeout s = concrete ag"
  shows "next_timeout (sys_untimeout h s) = concrete (takeWhile (\<lambda>x. snd x \<noteq> h) ag @ tl (dropWhile (\<lambda>x. snd x \<noteq> h) ag))"
proof -
  have "untimeout_loop h (concrete ag) = concrete (takeWhile (\<lambda>x. snd x \<noteq> h) ag @ tl (dropWhile (\<lambda>x. snd x \<noteq> h) ag))"
    by (induction ag) (auto simp: concrete_def)
  then show ?thesis using assms by (simp add: sys_untimeout_def)
qed

text \<open>The agenda that the initialisation sets up: the timers of IGMP, DHCP, ARP and DHCP's leases.\<close>

lemma init_agenda:
  assumes "env_ok e clk" "next_timeout s = []"
  defines "t \<equiv> clk (world s)"
  defines "ag \<equiv> [(t + 100, Cyclic 4), (t + 500, Cyclic 3), (t + 1000, Cyclic 1), (t + 60000, Cyclic 2)]"
  shows "sys_timeouts_init e s = Some (s\<lparr>next_timeout := concrete ag\<rparr>) \<and> agenda_ok t ag"
proof -
  have step: "sys_timeout e (lwip_cyclic_timers ! i) (Cyclic i) (s\<lparr>next_timeout := concrete ag'\<rparr>) =
      Some (s\<lparr>next_timeout := concrete (agenda_add (t + uint (lwip_cyclic_timers ! i)) (Cyclic i) ag')\<rparr>)"
    if "agenda_ok t ag'" "length ag' < MEMP_NUM_SYS_TIMEOUT" "i < length lwip_cyclic_timers" for i ag'
  proof -
    have "near t (t + uint (lwip_cyclic_timers ! i))" "lwip_cyclic_timers ! i \<le> 0x3FFFFFFF"
      using interval_bounds [OF that(3)] by (simp_all add: near_def word_le_def)
    then show ?thesis
      using sys_timeout_abs_adds [of "s\<lparr>next_timeout := concrete ag'\<rparr>" ag' t "t + uint (lwip_cyclic_timers ! i)" "Cyclic i"] that(1,2) assms(1)
      by (simp add: sys_timeout_def env_ok_def t_def)
  qed
  have ivl: "lwip_cyclic_timers ! Suc 0 = 1000" "lwip_cyclic_timers ! 2 = 60000" "lwip_cyclic_timers ! 3 = 500" "lwip_cyclic_timers ! 4 = 100"
    and len: "length lwip_cyclic_timers = 5" by (simp_all add: lwip_cyclic_timers_def)
  have ok: "agenda_ok t []" "agenda_ok t [(t + 1000, Cyclic 1)]" "agenda_ok t [(t + 1000, Cyclic 1), (t + 60000, Cyclic 2)]"
    "agenda_ok t [(t + 500, Cyclic 3), (t + 1000, Cyclic 1), (t + 60000, Cyclic 2)]" "agenda_ok t ag"
    by (simp_all add: agenda_ok_def near_def len ag_def)
  have s: "s = s\<lparr>next_timeout := concrete []\<rparr>" using assms(2) by simp
  have "[1..<length lwip_cyclic_timers] = [1, 2, 3, 4]" by (simp add: len upt_rec)
  then have "sys_timeouts_init e s = sys_timeouts_init_loop e [1, 2, 3, 4] (s\<lparr>next_timeout := concrete []\<rparr>)" using s by (simp add: sys_timeouts_init_def)
  also have "\<dots> = Some (s\<lparr>next_timeout := concrete ag\<rparr>)"
    using step [OF ok(1), of 1] step [OF ok(2), of 2] step [OF ok(3), of 3] step [OF ok(4), of 4] by (simp add: ivl len ag_def)
  finally show ?thesis using ok(5) by simp
qed

section \<open>Properties\<close>

text \<open>
  C29. The timers work across the wrap-around of the clock: if no timer is more than six days late and no handler takes longer than 17 minutes, \<open>sys_check_timeouts\<close>
  returns and does what it would do on a clock that never wraps around. It runs the timers that are due, in the order of their due times and those with the same due time
  in the order in which they were set, and sets the cyclic ones again without drift; afterwards no timer is left that was due, and \<open>sys_timeouts_sleeptime\<close> returns
  the exact time to the next one.
\<close>

theorem sys_check_timeouts_refines:
  assumes "env_ok e clk" "agenda_ok (clk (world s)) ag" "length ag \<le> MEMP_NUM_SYS_TIMEOUT" "next_timeout s = concrete ag"
  shows "\<exists>s' ag'. sys_check_timeouts e s = Some s' \<and> agenda_check e clk (clk (world s)) (ag, world s) = Some (ag', world s') \<and>
    next_timeout s' = concrete ag' \<and> sorted (map fst ag') \<and> (\<forall>x \<in> set ag'. clk (world s) < fst x) \<and>
    sys_timeouts_sleeptime e s' = Some (case ag' of [] \<Rightarrow> 0xFFFFFFFF | x # _ \<Rightarrow> word_of_int (max 0 (fst x - clk (world s'))))"
proof -
  define B where "B = clk (world s)"
  have "int (runs_left B ag) \<le> 12" using runs_left_bound [of B ag] assms(3) by simp
  then have "clk (world s) + 1048576 * int (runs_left B ag) \<le> B + 16777216" by (simp add: B_def)
  from check_timeouts_agenda [OF assms(1) assms(2) [folded B_def] assms(3,4) _ this] obtain s' ag' where
    r: "check_timeouts_loop e (word_of_int B) s = Some s'" "agenda_check e clk B (ag, world s) = Some (ag', world s')" "next_timeout s' = concrete ag'"
      "agenda_ok B ag'" "\<forall>x \<in> set ag'. B < fst x" "B \<le> clk (world s')" "clk (world s') \<le> B + 16777216"
    by (auto simp: B_def)
  have "near B (clk (world s'))" using r(6,7) by (simp add: near_def)
  from sleeptime_agenda [OF assms(1) r(4,3) this] r show ?thesis
    using assms(1) by (intro exI [of _ s'] exI [of _ ag']) (simp add: sys_check_timeouts_def env_ok_def agenda_ok_def flip: B_def)
qed

text \<open>
  The clock passes \<open>2 ^ 32\<close> while two timers are set: the cyclic one, 90 milliseconds late, is run and set again for its due time plus its interval, behind the timer of the application
  that is due at the same time.
\<close>

definition wrap_env :: "int timer_env" where
  "wrap_env = \<lparr>sys_now = word_of_int, cyclic_handler = (\<lambda>i w. w + 1), tcp_tmr = (\<lambda>w. w), tcp_pcbs = (\<lambda>w. False), other_handler = (\<lambda>n w. w)\<rparr>"

definition wrap_agenda :: agenda where
  "wrap_agenda = [(4294967200, Cyclic 4), (4294967300, Other 7)]"

definition wrap_timers :: "int timers" where
  "wrap_timers = \<lparr>next_timeout = concrete wrap_agenda, current_timeout_due_time = 0, tcpip_tcp_timer_active = False, world = 4294967290\<rparr>"

theorem sys_check_timeouts_refines_witness:
  "\<exists>s'. sys_check_timeouts wrap_env wrap_timers = Some s' \<and> next_timeout s' = [\<lparr>time = 4, th = Other 7\<rparr>, \<lparr>time = 4, th = Cyclic 4\<rparr>] \<and>
    sys_timeouts_sleeptime wrap_env s' = Some 9"
proof -
  have "env_ok wrap_env (\<lambda>w. w)" by (simp add: env_ok_def wrap_env_def)
  moreover have "agenda_ok 4294967290 wrap_agenda" by (simp add: agenda_ok_def wrap_agenda_def near_def lwip_cyclic_timers_def)
  moreover have "agenda_check wrap_env (\<lambda>w. w) 4294967290 (wrap_agenda, 4294967290) = Some ([(4294967300, Other 7), (4294967300, Cyclic 4)], 4294967291)"
    by (subst agenda_check.simps, simp add: wrap_agenda_def agenda_run_def wrap_env_def lwip_cyclic_timers_def, subst agenda_check.simps, simp)
  moreover have "length wrap_agenda \<le> MEMP_NUM_SYS_TIMEOUT" by (simp add: wrap_agenda_def)
  ultimately obtain s' where "sys_check_timeouts wrap_env wrap_timers = Some s'" "world s' = 4294967291"
    "next_timeout s' = concrete [(4294967300, Other 7), (4294967300, Cyclic 4)]" "sys_timeouts_sleeptime wrap_env s' = Some (word_of_int (max 0 (4294967300 - world s')))"
    using sys_check_timeouts_refines [of wrap_env "\<lambda>w. w" wrap_timers wrap_agenda] by (auto simp: wrap_timers_def)
  moreover have "(4294967300 :: u32) = 4" by simp
  ultimately show ?thesis by (intro exI [of _ s']) simp
qed

end
