(* ===== verification/Lwip_Etharp.thy ===== *)
theory Lwip_Etharp
  imports Arduino_Settings Lwip_Pbuf_Chain
begin

text \<open>
  Ethernet and ARP of lwIP (\<open>netif/ethernet.c\<close>, \<open>core/ipv4/etharp.c\<close>), which stand between the network interface and IP: \<open>ethernet_input\<close> is the
  function that received frames are passed to, \<open>etharp_output\<close> the one that the interface gives to IP for sending, and \<open>linkoutput\<close> is \<open>lwIpOut\<close>.
  The options are those of \<open>lwipopts.h\<close>: a table of ten entries that belong to an interface (\<open>ETHARP_TABLE_MATCH_NETIF\<close>), one waiting packet per entry
  (no \<open>ARP_QUEUEING\<close>), no static entries, no VLAN, no padding.

  The state \<open>arp\<close> holds the table, the packet buffers, the network interfaces by address, and the state \<open>low\<close> of the driver below. Functions run in the option
  monad as those of \<open>Lwip_Pbuf\<close>; \<open>None\<close> is an access outside of an array or through a null pointer, or a failed \<open>LWIP_ASSERT\<close>. An IP address is the word
  that a little-endian processor sees in memory. The driver (\<open>linkoutput\<close>), the allocator, IP (\<open>ip4_input\<close>) and DHCP (\<open>dhcp_arp_reply\<close>) are a parameter.
\<close>

section \<open>Data\<close>

datatype etharp_state =
  ETHARP_STATE_EMPTY | ETHARP_STATE_PENDING | ETHARP_STATE_STABLE | ETHARP_STATE_STABLE_REREQUESTING_1 | ETHARP_STATE_STABLE_REREQUESTING_2

record arp_entry =
  aq :: "nat option"
  aip :: u32
  anetif :: "nat option"
  ethaddr :: bytes
  ctime :: u16
  astate :: etharp_state

record netif =
  nip :: u32
  nmask :: u32
  ngw :: u32
  hwaddr :: bytes
  hwaddr_len :: u8
  nflags :: u8
  num :: u8

record 'w arp =
  arp_table :: "arp_entry list"
  etharp_cached_entry :: u8
  aheap :: heap
  nifs :: "nat \<Rightarrow> netif option"
  low :: 'w

record 'w arp_env =
  linkoutput :: "nat \<Rightarrow> 'w \<Rightarrow> heap \<Rightarrow> nat \<Rightarrow> (err_t \<times> 'w \<times> heap) option"
  amalloc :: malloc
  ip4_input :: "nat \<Rightarrow> nat \<Rightarrow> 'w arp \<Rightarrow> 'w arp option"
  dhcp_arp_reply :: "nat \<Rightarrow> u32 \<Rightarrow> 'w arp \<Rightarrow> 'w arp option"

abbreviation ARP_TABLE_SIZE :: nat where "ARP_TABLE_SIZE \<equiv> 10"
abbreviation ARP_MAXAGE :: u16 where "ARP_MAXAGE \<equiv> 300"
abbreviation ARP_MAXPENDING :: u16 where "ARP_MAXPENDING \<equiv> 5"
abbreviation ARP_AGE_REREQUEST_USED_UNICAST :: u16 where "ARP_AGE_REREQUEST_USED_UNICAST \<equiv> ARP_MAXAGE - 30"
abbreviation ARP_AGE_REREQUEST_USED_BROADCAST :: u16 where "ARP_AGE_REREQUEST_USED_BROADCAST \<equiv> ARP_MAXAGE - 15"
abbreviation ETHARP_FLAG_TRY_HARD :: u8 where "ETHARP_FLAG_TRY_HARD \<equiv> 1"
abbreviation ETHARP_FLAG_FIND_ONLY :: u8 where "ETHARP_FLAG_FIND_ONLY \<equiv> 2"
abbreviation SIZEOF_ETH_HDR :: nat where "SIZEOF_ETH_HDR \<equiv> 14"
abbreviation SIZEOF_ETHARP_HDR :: nat where "SIZEOF_ETHARP_HDR \<equiv> 28"
abbreviation ETH_HWADDR_LEN :: u8 where "ETH_HWADDR_LEN \<equiv> 6"
abbreviation ETHTYPE_IP :: u16 where "ETHTYPE_IP \<equiv> 0x0800"
abbreviation ETHTYPE_ARP :: u16 where "ETHTYPE_ARP \<equiv> 0x0806"
abbreviation ARP_REQUEST :: u16 where "ARP_REQUEST \<equiv> 1"
abbreviation ARP_REPLY :: u16 where "ARP_REPLY \<equiv> 2"
abbreviation NETIF_FLAG_BROADCAST :: u8 where "NETIF_FLAG_BROADCAST \<equiv> 0x02"
abbreviation NETIF_FLAG_ETHARP :: u8 where "NETIF_FLAG_ETHARP \<equiv> 0x08"
abbreviation PBUF_FLAG_LLBCAST :: u8 where "PBUF_FLAG_LLBCAST \<equiv> 0x08"
abbreviation PBUF_FLAG_LLMCAST :: u8 where "PBUF_FLAG_LLMCAST \<equiv> 0x10"

definition ethbroadcast :: bytes where "ethbroadcast = replicate 6 0xFF"
definition ethzero :: bytes where "ethzero = replicate 6 0"

definition is_stable :: "arp_entry \<Rightarrow> bool" where
  "is_stable en \<longleftrightarrow> astate en \<in> {ETHARP_STATE_STABLE, ETHARP_STATE_STABLE_REREQUESTING_1, ETHARP_STATE_STABLE_REREQUESTING_2}"

text \<open>Words in memory, lowest byte first, and the constants in network order.\<close>

definition PP_HTONS :: "u16 \<Rightarrow> u16" where
  "PP_HTONS x = push_bit 8 (x AND 0x00FF) OR drop_bit 8 (x AND 0xFF00)"

definition PP_HTONL :: "u32 \<Rightarrow> u32" where
  "PP_HTONL x = push_bit 24 (x AND 0x000000FF) OR push_bit 8 (x AND 0x0000FF00) OR drop_bit 8 (x AND 0x00FF0000) OR drop_bit 24 (x AND 0xFF000000)"

definition mem16 :: "u16 \<Rightarrow> bytes" where
  "mem16 x = [ucast x, ucast (drop_bit 8 x)]"

definition mem32 :: "u32 \<Rightarrow> bytes" where
  "mem32 x = [ucast x, ucast (drop_bit 8 x), ucast (drop_bit 16 x), ucast (drop_bit 24 x)]"

definition load16 :: "bytes \<Rightarrow> u16" where
  "load16 bs = ucast (bs ! 0) OR push_bit 8 (ucast (bs ! 1))"

definition load32 :: "bytes \<Rightarrow> u32" where
  "load32 bs = ucast (bs ! 0) OR push_bit 8 (ucast (bs ! 1)) OR push_bit 16 (ucast (bs ! 2)) OR push_bit 24 (ucast (bs ! 3))"

section \<open>IP addresses\<close>

abbreviation IPADDR_ANY :: u32 where "IPADDR_ANY \<equiv> 0"
abbreviation IPADDR_BROADCAST :: u32 where "IPADDR_BROADCAST \<equiv> 0xFFFFFFFF"

definition ip4_addr_netcmp :: "u32 \<Rightarrow> u32 \<Rightarrow> u32 \<Rightarrow> bool" where
  "ip4_addr_netcmp addr1 addr2 netmask \<longleftrightarrow> addr1 AND netmask = addr2 AND netmask"

definition ip4_addr_ismulticast :: "u32 \<Rightarrow> bool" where
  "ip4_addr_ismulticast addr \<longleftrightarrow> addr AND PP_HTONL 0xF0000000 = PP_HTONL 0xE0000000"

definition ip4_addr_islinklocal :: "u32 \<Rightarrow> bool" where
  "ip4_addr_islinklocal addr \<longleftrightarrow> addr AND PP_HTONL 0xFFFF0000 = PP_HTONL 0xA9FE0000"

definition ip4_addr_get_byte :: "u32 \<Rightarrow> nat \<Rightarrow> u8" where
  "ip4_addr_get_byte addr idx = mem32 addr ! idx"

definition ip4_addr_isbroadcast :: "u32 \<Rightarrow> netif \<Rightarrow> bool" where
  "ip4_addr_isbroadcast addr n =
    (if NOT addr = IPADDR_ANY \<or> addr = IPADDR_ANY then True
     else if nflags n AND NETIF_FLAG_BROADCAST = 0 then False
     else if addr = nip n then False
     else ip4_addr_netcmp addr (nip n) (nmask n) \<and> addr AND NOT (nmask n) = IPADDR_BROADCAST AND NOT (nmask n))"

section \<open>Sending frames\<close>

definition ethernet_output :: "'w arp_env \<Rightarrow> nat \<Rightarrow> nat \<Rightarrow> bytes \<Rightarrow> bytes \<Rightarrow> u16 \<Rightarrow> 'w arp \<Rightarrow> (err_t \<times> 'w arp) option" where
  "ethernet_output e netif p src dst eth_type s = do {
     let eth_type_be = t1s_lwip_htons eth_type;
     (r, h) \<leftarrow> pbuf_add_header (aheap s) (Some p) (of_nat SIZEOF_ETH_HDR);
     if r \<noteq> 0 then Some (ERR_BUF, s\<lparr>aheap := h\<rparr>)
     else do {
       b \<leftarrow> h p;
       b \<leftarrow> pwrite b 12 (mem16 eth_type_be);
       b \<leftarrow> pwrite b 0 dst;
       b \<leftarrow> pwrite b 6 src;
       n \<leftarrow> nifs s netif;
       if hwaddr_len n \<noteq> ETH_HWADDR_LEN then None
       else do {
         (err, w, h) \<leftarrow> linkoutput e netif (low s) (h(p \<mapsto> b)) p;
         Some (err, s\<lparr>aheap := h, low := w\<rparr>)
       }
     }
   }"

definition etharp_raw ::
  "'w arp_env \<Rightarrow> nat \<Rightarrow> bytes \<Rightarrow> bytes \<Rightarrow> bytes \<Rightarrow> u32 \<Rightarrow> bytes \<Rightarrow> u32 \<Rightarrow> u16 \<Rightarrow> 'w arp \<Rightarrow> (err_t \<times> 'w arp) option" where
  "etharp_raw e netif ethsrc_addr ethdst_addr hwsrc_addr ipsrc_addr hwdst_addr ipdst_addr opcode s = do {
     (p, h) \<leftarrow> pbuf_alloc (amalloc e) (aheap s) PBUF_LINK (of_nat SIZEOF_ETHARP_HDR) PBUF_RAM;
     case p of
       None \<Rightarrow> Some (ERR_MEM, s\<lparr>aheap := h\<rparr>)
     | Some a \<Rightarrow> do {
         b \<leftarrow> h a;
         n \<leftarrow> nifs s netif;
         if \<not> unat (plen b) \<ge> SIZEOF_ETHARP_HDR \<or> hwaddr_len n \<noteq> ETH_HWADDR_LEN then None
         else do {
           b \<leftarrow> pwrite b 6 (mem16 (t1s_lwip_htons opcode));
           b \<leftarrow> pwrite b 8 hwsrc_addr;
           b \<leftarrow> pwrite b 18 hwdst_addr;
           b \<leftarrow> pwrite b 14 (mem32 ipsrc_addr);
           b \<leftarrow> pwrite b 24 (mem32 ipdst_addr);
           b \<leftarrow> pwrite b 0 (mem16 (PP_HTONS 1));
           b \<leftarrow> pwrite b 2 (mem16 (PP_HTONS ETHTYPE_IP));
           b \<leftarrow> pwrite b 4 [ETH_HWADDR_LEN];
           b \<leftarrow> pwrite b 5 [4];
           (_, s) \<leftarrow> ethernet_output e netif a ethsrc_addr ethdst_addr ETHTYPE_ARP (s\<lparr>aheap := h(a \<mapsto> b)\<rparr>);
           (_, h) \<leftarrow> pbuf_free (aheap s) (Some a);
           Some (ERR_OK, s\<lparr>aheap := h\<rparr>)
         }
       }
   }"

definition etharp_request_dst :: "'w arp_env \<Rightarrow> nat \<Rightarrow> u32 \<Rightarrow> bytes \<Rightarrow> 'w arp \<Rightarrow> (err_t \<times> 'w arp) option" where
  "etharp_request_dst e netif ipaddr hw_dst_addr s = do {
     n \<leftarrow> nifs s netif;
     etharp_raw e netif (hwaddr n) hw_dst_addr (hwaddr n) (nip n) ethzero ipaddr ARP_REQUEST s
   }"

definition etharp_request :: "'w arp_env \<Rightarrow> nat \<Rightarrow> u32 \<Rightarrow> 'w arp \<Rightarrow> (err_t \<times> 'w arp) option" where
  "etharp_request e netif ipaddr s = etharp_request_dst e netif ipaddr ethbroadcast s"

section \<open>The table\<close>

definition entry :: "nat \<Rightarrow> 'w arp \<Rightarrow> arp_entry option" where
  "entry i s = (if i < length (arp_table s) then Some (arp_table s ! i) else None)"

definition set_entry :: "nat \<Rightarrow> arp_entry \<Rightarrow> 'w arp \<Rightarrow> 'w arp" where
  "set_entry i en s = s\<lparr>arp_table := (arp_table s)[i := en]\<rparr>"

definition etharp_free_entry :: "nat \<Rightarrow> 'w arp \<Rightarrow> 'w arp option" where
  "etharp_free_entry i s = do {
     en \<leftarrow> entry i s;
     h \<leftarrow> (case aq en of None \<Rightarrow> Some (aheap s) | Some p \<Rightarrow> map_option snd (pbuf_free (aheap s) (Some p)));
     Some (set_entry i (en\<lparr>aq := None, astate := ETHARP_STATE_EMPTY\<rparr>) (s\<lparr>aheap := h\<rparr>))
   }"

definition etharp_tmr_entry :: "'w arp_env \<Rightarrow> nat \<Rightarrow> 'w arp \<Rightarrow> 'w arp option" where
  "etharp_tmr_entry e i s = do {
     en \<leftarrow> entry i s;
     if astate en = ETHARP_STATE_EMPTY then Some s
     else do {
       let en = en\<lparr>ctime := ctime en + 1\<rparr>;
       let s = set_entry i en s;
       if ctime en \<ge> ARP_MAXAGE \<or> astate en = ETHARP_STATE_PENDING \<and> ctime en \<ge> ARP_MAXPENDING then etharp_free_entry i s
       else if astate en = ETHARP_STATE_STABLE_REREQUESTING_1 then Some (set_entry i (en\<lparr>astate := ETHARP_STATE_STABLE_REREQUESTING_2\<rparr>) s)
       else if astate en = ETHARP_STATE_STABLE_REREQUESTING_2 then Some (set_entry i (en\<lparr>astate := ETHARP_STATE_STABLE\<rparr>) s)
       else if astate en = ETHARP_STATE_PENDING then Option.bind (anetif en) (\<lambda>netif. map_option snd (etharp_request e netif (aip en) s))
       else Some s
     }
   }"

fun etharp_tmr_loop :: "'w arp_env \<Rightarrow> nat list \<Rightarrow> 'w arp \<Rightarrow> 'w arp option" where
  "etharp_tmr_loop e [] s = Some s"
| "etharp_tmr_loop e (i # is) s = Option.bind (etharp_tmr_entry e i s) (etharp_tmr_loop e is)"

definition etharp_tmr :: "'w arp_env \<Rightarrow> 'w arp \<Rightarrow> 'w arp option" where
  "etharp_tmr e s = etharp_tmr_loop e [0..<ARP_TABLE_SIZE] s"

text \<open>The local variables of \<open>etharp_find_entry\<close>, and its loop over the table: the index of a match, or the variables at its end.\<close>

record find_vars =
  old_pending :: nat
  old_stable :: nat
  empty :: nat
  old_queue :: nat
  age_queue :: u16
  age_pending :: u16
  age_stable :: u16

definition find_entry_step :: "nat \<Rightarrow> arp_entry \<Rightarrow> find_vars \<Rightarrow> find_vars" where
  "find_entry_step i en v =
    (if astate en = ETHARP_STATE_PENDING then
       (if aq en \<noteq> None then (if ctime en \<ge> age_queue v then v\<lparr>old_queue := i, age_queue := ctime en\<rparr> else v)
        else (if ctime en \<ge> age_pending v then v\<lparr>old_pending := i, age_pending := ctime en\<rparr> else v))
     else (if ctime en \<ge> age_stable v then v\<lparr>old_stable := i, age_stable := ctime en\<rparr> else v))"

definition matches :: "u32 option \<Rightarrow> nat option \<Rightarrow> arp_entry \<Rightarrow> bool" where
  "matches ipaddr netif en \<longleftrightarrow> ipaddr = Some (aip en) \<and> (netif = None \<or> netif = anetif en)"

fun find_entry_loop :: "u32 option \<Rightarrow> nat option \<Rightarrow> nat \<Rightarrow> arp_entry list \<Rightarrow> find_vars \<Rightarrow> nat + find_vars" where
  "find_entry_loop ipaddr netif i [] v = Inr v"
| "find_entry_loop ipaddr netif i (en # ens) v =
    (if empty v = ARP_TABLE_SIZE \<and> astate en = ETHARP_STATE_EMPTY then find_entry_loop ipaddr netif (i + 1) ens (v\<lparr>empty := i\<rparr>)
     else if astate en \<noteq> ETHARP_STATE_EMPTY then
       (if matches ipaddr netif en then Inl i else find_entry_loop ipaddr netif (i + 1) ens (find_entry_step i en v))
     else find_entry_loop ipaddr netif (i + 1) ens v)"

definition find_vars_init :: find_vars where
  "find_vars_init = \<lparr>old_pending = ARP_TABLE_SIZE, old_stable = ARP_TABLE_SIZE, empty = ARP_TABLE_SIZE, old_queue = ARP_TABLE_SIZE,
     age_queue = 0, age_pending = 0, age_stable = 0\<rparr>"

text \<open>What is done with the chosen entry: the address is set, its age, and the interface.\<close>

definition find_entry_new :: "u32 option \<Rightarrow> nat option \<Rightarrow> nat \<Rightarrow> 'w arp \<Rightarrow> 'w arp option" where
  "find_entry_new ipaddr netif i s = do {
     en \<leftarrow> entry i s;
     if astate en \<noteq> ETHARP_STATE_EMPTY then None
     else do {
       let en = (case ipaddr of None \<Rightarrow> en | Some a \<Rightarrow> en\<lparr>aip := a\<rparr>);
       Some (set_entry i (en\<lparr>ctime := 0, anetif := netif\<rparr>) s)
     }
   }"

definition etharp_find_entry :: "u32 option \<Rightarrow> u8 \<Rightarrow> nat option \<Rightarrow> 'w arp \<Rightarrow> ((err_t + nat) \<times> 'w arp) option" where
  "etharp_find_entry ipaddr flags netif s =
    (case find_entry_loop ipaddr netif 0 (arp_table s) find_vars_init of
       Inl i \<Rightarrow> Some (Inr i, s)
     | Inr v \<Rightarrow>
         if flags AND ETHARP_FLAG_FIND_ONLY \<noteq> 0 \<or> empty v = ARP_TABLE_SIZE \<and> flags AND ETHARP_FLAG_TRY_HARD = 0 then Some (Inl ERR_MEM, s)
         else if empty v < ARP_TABLE_SIZE then map_option (\<lambda>s. (Inr (empty v), s)) (find_entry_new ipaddr netif (empty v) s)
         else do {
           let recycle = (\<lambda>i. do { s \<leftarrow> etharp_free_entry i s; s \<leftarrow> find_entry_new ipaddr netif i s; Some (Inr i, s) });
           if old_stable v < ARP_TABLE_SIZE then do {
             en \<leftarrow> entry (old_stable v) s;
             if aq en \<noteq> None then None else recycle (old_stable v)
           }
           else if old_pending v < ARP_TABLE_SIZE then recycle (old_pending v)
           else if old_queue v < ARP_TABLE_SIZE then recycle (old_queue v)
           else Some (Inl ERR_MEM, s)
         })"

definition etharp_update_arp_entry :: "'w arp_env \<Rightarrow> nat \<Rightarrow> u32 \<Rightarrow> bytes \<Rightarrow> u8 \<Rightarrow> 'w arp \<Rightarrow> (err_t \<times> 'w arp) option" where
  "etharp_update_arp_entry e netif ipaddr mac flags s = do {
     n \<leftarrow> nifs s netif;
     if hwaddr_len n \<noteq> ETH_HWADDR_LEN then None
     else if ipaddr = IPADDR_ANY \<or> ip4_addr_isbroadcast ipaddr n \<or> ip4_addr_ismulticast ipaddr then Some (ERR_ARG, s)
     else do {
       (r, s) \<leftarrow> etharp_find_entry (Some ipaddr) flags (Some netif) s;
       case r of
         Inl err \<Rightarrow> Some (err, s)
       | Inr i \<Rightarrow> do {
           en \<leftarrow> entry i s;
           let s = set_entry i (en\<lparr>astate := ETHARP_STATE_STABLE, anetif := Some netif, ethaddr := mac, ctime := 0\<rparr>) s;
           case aq en of
             None \<Rightarrow> Some (ERR_OK, s)
           | Some p \<Rightarrow> do {
               en \<leftarrow> entry i s;
               let s = set_entry i (en\<lparr>aq := None\<rparr>) s;
               (_, s) \<leftarrow> ethernet_output e netif p (hwaddr n) mac ETHTYPE_IP s;
               (_, h) \<leftarrow> pbuf_free (aheap s) (Some p);
               Some (ERR_OK, s\<lparr>aheap := h\<rparr>)
             }
         }
     }
   }"

fun etharp_cleanup_loop :: "nat \<Rightarrow> nat list \<Rightarrow> 'w arp \<Rightarrow> 'w arp option" where
  "etharp_cleanup_loop netif [] s = Some s"
| "etharp_cleanup_loop netif (i # is) s = do {
     en \<leftarrow> entry i s;
     s \<leftarrow> (if astate en \<noteq> ETHARP_STATE_EMPTY \<and> anetif en = Some netif then etharp_free_entry i s else Some s);
     etharp_cleanup_loop netif is s
   }"

definition etharp_cleanup_netif :: "nat \<Rightarrow> 'w arp \<Rightarrow> 'w arp option" where
  "etharp_cleanup_netif netif s = etharp_cleanup_loop netif [0..<ARP_TABLE_SIZE] s"

definition etharp_find_addr :: "nat option \<Rightarrow> u32 \<Rightarrow> 'w arp \<Rightarrow> ((nat \<times> bytes \<times> u32) option \<times> 'w arp) option" where
  "etharp_find_addr netif ipaddr s = do {
     (r, s) \<leftarrow> etharp_find_entry (Some ipaddr) ETHARP_FLAG_FIND_ONLY netif s;
     case r of
       Inl _ \<Rightarrow> Some (None, s)
     | Inr i \<Rightarrow> do {
         en \<leftarrow> entry i s;
         Some (if is_stable en then Some (i, ethaddr en, aip en) else None, s)
       }
   }"

definition etharp_get_entry :: "nat \<Rightarrow> 'w arp \<Rightarrow> (u32 \<times> nat option \<times> bytes) option option" where
  "etharp_get_entry i s =
    (if i < ARP_TABLE_SIZE then map_option (\<lambda>en. if is_stable en then Some (aip en, anetif en, ethaddr en) else None) (entry i s) else Some None)"

section \<open>Receiving\<close>

definition etharp_input :: "'w arp_env \<Rightarrow> nat \<Rightarrow> nat \<Rightarrow> 'w arp \<Rightarrow> 'w arp option" where
  "etharp_input e p netif s = do {
     b \<leftarrow> aheap s p;
     n \<leftarrow> nifs s netif;
     hwtype \<leftarrow> map_option load16 (pread b 0 2);
     hwlen \<leftarrow> map_option hd (pread b 4 1);
     protolen \<leftarrow> map_option hd (pread b 5 1);
     proto \<leftarrow> map_option load16 (pread b 2 2);
     if hwtype \<noteq> PP_HTONS 1 \<or> hwlen \<noteq> ETH_HWADDR_LEN \<or> protolen \<noteq> 4 \<or> proto \<noteq> PP_HTONS ETHTYPE_IP
     then map_option (\<lambda>(_, h). s\<lparr>aheap := h\<rparr>) (pbuf_free (aheap s) (Some p))
     else do {
       sipaddr \<leftarrow> map_option load32 (pread b 14 4);
       dipaddr \<leftarrow> map_option load32 (pread b 24 4);
       let for_us = (if nip n = IPADDR_ANY then False else dipaddr = nip n);
       shwaddr \<leftarrow> pread b 8 6;
       (_, s) \<leftarrow> etharp_update_arp_entry e netif sipaddr shwaddr (if for_us then ETHARP_FLAG_TRY_HARD else ETHARP_FLAG_FIND_ONLY) s;
       opcode \<leftarrow> map_option load16 (pread b 6 2);
       s \<leftarrow>
         (if opcode = PP_HTONS ARP_REQUEST then
            (if for_us then map_option snd (etharp_raw e netif (hwaddr n) shwaddr (hwaddr n) (nip n) shwaddr sipaddr ARP_REPLY s) else Some s)
          else if opcode = PP_HTONS ARP_REPLY then dhcp_arp_reply e netif sipaddr s
          else Some s);
       map_option (\<lambda>(_, h). s\<lparr>aheap := h\<rparr>) (pbuf_free (aheap s) (Some p))
     }
   }"

text \<open>The flags that mark a frame as sent to a group of stations.\<close>

definition link_flags :: "bytes \<Rightarrow> u8 \<Rightarrow> u8" where
  "link_flags dest fl =
    (if dest ! 0 AND 1 \<noteq> 0 then
       (if dest ! 0 = 0x01 then (if dest ! 1 = 0x00 \<and> dest ! 2 = 0x5E then fl OR PBUF_FLAG_LLMCAST else fl)
        else if dest = ethbroadcast then fl OR PBUF_FLAG_LLBCAST else fl)
     else fl)"

definition ethernet_input :: "'w arp_env \<Rightarrow> nat \<Rightarrow> nat \<Rightarrow> 'w arp \<Rightarrow> (err_t \<times> 'w arp) option" where
  "ethernet_input e p netif s = do {
     b \<leftarrow> aheap s p;
     n \<leftarrow> nifs s netif;
     let free_and_return = (\<lambda>s. map_option (\<lambda>(_, h). (ERR_OK, s\<lparr>aheap := h\<rparr>)) (pbuf_free (aheap s) (Some p)));
     if unat (plen b) \<le> SIZEOF_ETH_HDR then free_and_return s
     else do {
       let b = (if if_idx b = 0 then b\<lparr>if_idx := num n + 1\<rparr> else b);
       type \<leftarrow> map_option load16 (pread b 12 2);
       dest \<leftarrow> pread b 0 6;
       let b = b\<lparr>pflags := link_flags dest (pflags b)\<rparr>;
       let s = s\<lparr>aheap := (aheap s)(p \<mapsto> b)\<rparr>;
       if type = PP_HTONS ETHTYPE_IP then
         (if nflags n AND NETIF_FLAG_ETHARP = 0 then free_and_return s
          else do {
            (r, h) \<leftarrow> pbuf_remove_header (aheap s) (Some p) (of_nat SIZEOF_ETH_HDR);
            if r \<noteq> 0 then free_and_return (s\<lparr>aheap := h\<rparr>) else map_option (\<lambda>s. (ERR_OK, s)) (ip4_input e p netif (s\<lparr>aheap := h\<rparr>))
          })
       else if type = PP_HTONS ETHTYPE_ARP then
         (if nflags n AND NETIF_FLAG_ETHARP = 0 then free_and_return s
          else do {
            (r, h) \<leftarrow> pbuf_remove_header (aheap s) (Some p) (of_nat SIZEOF_ETH_HDR);
            if r \<noteq> 0 then free_and_return (s\<lparr>aheap := h\<rparr>) else map_option (\<lambda>s. (ERR_OK, s)) (etharp_input e p netif (s\<lparr>aheap := h\<rparr>))
          })
       else free_and_return s
     }
   }"

section \<open>Sending IP packets\<close>

definition etharp_output_to_arp_index :: "'w arp_env \<Rightarrow> nat \<Rightarrow> nat \<Rightarrow> nat \<Rightarrow> 'w arp \<Rightarrow> (err_t \<times> 'w arp) option" where
  "etharp_output_to_arp_index e netif q arp_idx s = do {
     en \<leftarrow> entry arp_idx s;
     n \<leftarrow> nifs s netif;
     if \<not> is_stable en then None
     else do {
       s \<leftarrow>
         (if astate en = ETHARP_STATE_STABLE \<and> ctime en \<ge> ARP_AGE_REREQUEST_USED_UNICAST then do {
            (err, s) \<leftarrow> (if ctime en \<ge> ARP_AGE_REREQUEST_USED_BROADCAST then etharp_request e netif (aip en) s
                         else etharp_request_dst e netif (aip en) (ethaddr en) s);
            if err = ERR_OK then map_option (\<lambda>en. set_entry arp_idx (en\<lparr>astate := ETHARP_STATE_STABLE_REREQUESTING_1\<rparr>) s) (entry arp_idx s)
            else Some s
          }
          else Some s);
       en \<leftarrow> entry arp_idx s;
       ethernet_output e netif q (hwaddr n) (ethaddr en) ETHTYPE_IP s
     }
   }"

text \<open>The loop in \<open>etharp_query\<close> that looks for buffers whose data may change after the call.\<close>

partial_function (option) copy_needed_loop :: "heap \<Rightarrow> nat option \<Rightarrow> bool option" where
  "copy_needed_loop h p = (case p of None \<Rightarrow> Some False
     | Some a \<Rightarrow> Option.bind (h a) (\<lambda>b.
         if \<not> (plen b \<noteq> tot_len b \<or> pnext b = None) then None
         else if type_internal b AND 0x40 \<noteq> 0 then Some True
         else copy_needed_loop h (pnext b)))"

text \<open>The packet is put on a pending entry: it, or a copy of it, replaces the one that waits there.\<close>

definition etharp_queue :: "'w arp_env \<Rightarrow> nat \<Rightarrow> nat \<Rightarrow> 'w arp \<Rightarrow> (err_t \<times> 'w arp) option" where
  "etharp_queue e i q s = do {
     copy_needed \<leftarrow> copy_needed_loop (aheap s) (Some q);
     (p, h) \<leftarrow> (if copy_needed then pbuf_clone (amalloc e) (aheap s) PBUF_LINK PBUF_RAM (Some q)
                else map_option (\<lambda>h. (Some q, h)) (pbuf_ref (aheap s) (Some q)));
     let s = s\<lparr>aheap := h\<rparr>;
     if p \<noteq> None then do {
       en \<leftarrow> entry i s;
       h \<leftarrow> (case aq en of None \<Rightarrow> Some (aheap s) | Some old \<Rightarrow> map_option snd (pbuf_free (aheap s) (Some old)));
       Some (ERR_OK, set_entry i (en\<lparr>aq := p\<rparr>) (s\<lparr>aheap := h\<rparr>))
     }
     else Some (ERR_MEM, s)
   }"

definition etharp_query :: "'w arp_env \<Rightarrow> nat \<Rightarrow> u32 \<Rightarrow> nat option \<Rightarrow> 'w arp \<Rightarrow> (err_t \<times> 'w arp) option" where
  "etharp_query e netif ipaddr q s = do {
     n \<leftarrow> nifs s netif;
     if ip4_addr_isbroadcast ipaddr n \<or> ip4_addr_ismulticast ipaddr \<or> ipaddr = IPADDR_ANY then Some (ERR_ARG, s)
     else do {
       (r, s) \<leftarrow> etharp_find_entry (Some ipaddr) ETHARP_FLAG_TRY_HARD (Some netif) s;
       case r of
         Inl err \<Rightarrow> Some (err, s)
       | Inr i \<Rightarrow> do {
           en \<leftarrow> entry i s;
           let is_new_entry = (astate en = ETHARP_STATE_EMPTY);
           let s = (if is_new_entry then set_entry i (en\<lparr>astate := ETHARP_STATE_PENDING, anetif := Some netif\<rparr>) s else s);
           (result, s) \<leftarrow>
             (if is_new_entry \<or> q = None then do {
                (result, s) \<leftarrow> etharp_request e netif ipaddr s;
                en \<leftarrow> entry i s;
                Some (result, if result = ERR_OK \<and> astate en = ETHARP_STATE_PENDING \<and> \<not> is_new_entry then set_entry i (en\<lparr>ctime := 0\<rparr>) s else s)
              }
              else Some (ERR_MEM, s));
           case q of
             None \<Rightarrow> Some (result, s)
           | Some q \<Rightarrow> do {
               en \<leftarrow> entry i s;
               if is_stable en then ethernet_output e netif q (hwaddr n) (ethaddr en) ETHTYPE_IP (s\<lparr>etharp_cached_entry := of_nat i\<rparr>)
               else if astate en = ETHARP_STATE_PENDING then etharp_queue e i q s
               else Some (result, s)
             }
         }
     }
   }"

fun find_stable_loop :: "u32 \<Rightarrow> nat \<Rightarrow> nat \<Rightarrow> arp_entry list \<Rightarrow> nat option" where
  "find_stable_loop dst_addr netif i [] = None"
| "find_stable_loop dst_addr netif i (en # ens) =
    (if is_stable en \<and> anetif en = Some netif \<and> dst_addr = aip en then Some i else find_stable_loop dst_addr netif (i + 1) ens)"

definition etharp_output_unicast :: "'w arp_env \<Rightarrow> nat \<Rightarrow> nat \<Rightarrow> u32 \<Rightarrow> 'w arp \<Rightarrow> (err_t \<times> 'w arp) option" where
  "etharp_output_unicast e netif q dst_addr s = do {
     en \<leftarrow> entry (unat (etharp_cached_entry s)) s;
     if is_stable en \<and> anetif en = Some netif \<and> dst_addr = aip en then etharp_output_to_arp_index e netif q (unat (etharp_cached_entry s)) s
     else case find_stable_loop dst_addr netif 0 (arp_table s) of
         Some i \<Rightarrow> etharp_output_to_arp_index e netif q i (s\<lparr>etharp_cached_entry := of_nat i\<rparr>)
       | None \<Rightarrow> etharp_query e netif dst_addr (Some q) s
   }"

definition etharp_output :: "'w arp_env \<Rightarrow> nat \<Rightarrow> nat \<Rightarrow> u32 \<Rightarrow> 'w arp \<Rightarrow> (err_t \<times> 'w arp) option" where
  "etharp_output e netif q ipaddr s = do {
     n \<leftarrow> nifs s netif;
     if ip4_addr_isbroadcast ipaddr n then ethernet_output e netif q (hwaddr n) ethbroadcast ETHTYPE_IP s
     else if ip4_addr_ismulticast ipaddr then
       ethernet_output e netif q (hwaddr n)
         [0x01, 0x00, 0x5E, ip4_addr_get_byte ipaddr 1 AND 0x7F, ip4_addr_get_byte ipaddr 2, ip4_addr_get_byte ipaddr 3] ETHTYPE_IP s
     else if \<not> ip4_addr_netcmp ipaddr (nip n) (nmask n) \<and> \<not> ip4_addr_islinklocal ipaddr then
       (if ngw n \<noteq> IPADDR_ANY then etharp_output_unicast e netif q (ngw n) s else Some (ERR_RTE, s))
     else etharp_output_unicast e netif q ipaddr s
   }"

text \<open>The Arduino integration sets its interface up like this (\<open>lwIpInit\<close>); \<open>netif_set_up\<close> adds the flag \<open>NETIF_FLAG_UP\<close>.\<close>

definition lwIpInit :: "bytes \<Rightarrow> netif \<Rightarrow> netif" where
  "lwIpInit mac n = n\<lparr>nflags := NETIF_FLAG_BROADCAST OR NETIF_FLAG_ETHARP OR 0x10 OR 0x20 OR 0x01, hwaddr_len := ETH_HWADDR_LEN, hwaddr := mac\<rparr>"

declare copy_needed_loop.simps [code]

end
