(* ===== verification/Lwip_Etharp_Table.thy ===== *)
theory Lwip_Etharp_Table
  imports Lwip_Etharp
begin

text \<open>
  The ARP table as a map from interfaces and IP addresses to hardware addresses: what \<open>etharp_find_entry\<close> finds or which entry it gives up.
\<close>

section \<open>Entries\<close>

abbreviation live :: "arp_entry \<Rightarrow> bool" where "live en \<equiv> astate en \<noteq> ETHARP_STATE_EMPTY"

abbreviation pending :: "arp_entry \<Rightarrow> bool" where "pending en \<equiv> astate en = ETHARP_STATE_PENDING"

lemma live_iff: "live en \<longleftrightarrow> pending en \<or> is_stable en"
  by (cases "astate en") (auto simp: is_stable_def)

lemma stable_not_pending: "is_stable en \<Longrightarrow> \<not> pending en" "is_stable en \<Longrightarrow> live en"
  by (auto simp: is_stable_def)

text \<open>
  The invariant of the table: ten entries, packets wait only on pending entries, no entry has reached its greatest age, and no two
  entries in use have the same interface and address.
\<close>

definition entry_ok :: "arp_entry \<Rightarrow> bool" where
  "entry_ok en \<longleftrightarrow> length (ethaddr en) = 6 \<and> (aq en \<noteq> None \<longrightarrow> pending en) \<and> (live en \<longrightarrow> anetif en \<noteq> None \<and> ctime en < ARP_MAXAGE) \<and>
     (pending en \<longrightarrow> ctime en < ARP_MAXPENDING)"

definition same_key :: "arp_entry \<Rightarrow> arp_entry \<Rightarrow> bool" where
  "same_key x y \<longleftrightarrow> live x \<and> live y \<and> anetif x = anetif y \<and> aip x = aip y"

definition table_ok :: "arp_entry list \<Rightarrow> bool" where
  "table_ok tbl \<longleftrightarrow> length tbl = ARP_TABLE_SIZE \<and> list_all entry_ok tbl \<and> (\<forall>i<length tbl. \<forall>j<i. \<not> same_key (tbl ! i) (tbl ! j))"

lemma table_okD:
  assumes "table_ok tbl"
  shows "length tbl = ARP_TABLE_SIZE" "i < ARP_TABLE_SIZE \<Longrightarrow> entry_ok (tbl ! i)"
    "i < ARP_TABLE_SIZE \<Longrightarrow> j < ARP_TABLE_SIZE \<Longrightarrow> i \<noteq> j \<Longrightarrow> \<not> same_key (tbl ! i) (tbl ! j)"
proof -
  show l: "length tbl = ARP_TABLE_SIZE" and "i < ARP_TABLE_SIZE \<Longrightarrow> entry_ok (tbl ! i)" using assms by (auto simp: table_ok_def list_all_length)
  assume "i < ARP_TABLE_SIZE" "j < ARP_TABLE_SIZE" "i \<noteq> j"
  moreover have "same_key (tbl ! i) (tbl ! j) = same_key (tbl ! j) (tbl ! i)" by (auto simp: same_key_def)
  ultimately show "\<not> same_key (tbl ! i) (tbl ! j)" using assms l unfolding table_ok_def by (metis linorder_neqE_nat)
qed

lemma table_ok_upd:
  assumes "table_ok tbl" "entry_ok en" "\<And>j. j < ARP_TABLE_SIZE \<Longrightarrow> j \<noteq> i \<Longrightarrow> \<not> same_key en (tbl ! j)"
  shows "table_ok (tbl[i := en])"
proof -
  have sym: "same_key x y = same_key y x" for x y by (auto simp: same_key_def)
  have "\<not> same_key (tbl[i := en] ! k) (tbl[i := en] ! j)" if "k < ARP_TABLE_SIZE" "j < k" for k j
    using that assms(3) [of k] assms(3) [of j] table_okD(1) [OF assms(1)] table_okD(3) [OF assms(1), of k j] sym [of "tbl ! k" en]
    by (cases "k = i"; cases "j = i") simp_all
  then show ?thesis
    using assms(1,2) set_update_subset_insert [of tbl i en] by (auto simp: table_ok_def list_all_iff)
qed

lemma table_ok_keep:
  assumes "table_ok tbl" "i < ARP_TABLE_SIZE" "entry_ok en" "live en \<Longrightarrow> same_key en (tbl ! i)"
  shows "table_ok (tbl[i := en])"
proof (rule table_ok_upd [OF assms(1,3)])
  fix j
  assume "j < ARP_TABLE_SIZE" "j \<noteq> i"
  then have "\<not> same_key (tbl ! i) (tbl ! j)" using table_okD(3) [OF assms(1,2)] by blast
  then show "\<not> same_key en (tbl ! j)" using assms(4) by (auto simp: same_key_def)
qed

section \<open>Search\<close>

text \<open>Candidates for recycling: the last of the oldest entries with a property among the first \<open>i\<close>.\<close>

definition oldest :: "(arp_entry \<Rightarrow> bool) \<Rightarrow> arp_entry list \<Rightarrow> nat \<Rightarrow> nat \<Rightarrow> u16 \<Rightarrow> bool" where
  "oldest P tbl i k age \<longleftrightarrow>
    (if \<exists>j<i. P (tbl ! j) then k < i \<and> P (tbl ! k) \<and> age = ctime (tbl ! k) \<and> (\<forall>j<i. P (tbl ! j) \<longrightarrow> ctime (tbl ! j) \<le> age)
     else k = ARP_TABLE_SIZE \<and> age = 0)"

lemma oldest_Suc:
  assumes "oldest P tbl i k age"
  shows "\<not> P (tbl ! i) \<Longrightarrow> oldest P tbl (Suc i) k age"
    "P (tbl ! i) \<Longrightarrow> age \<le> ctime (tbl ! i) \<Longrightarrow> oldest P tbl (Suc i) i (ctime (tbl ! i))"
    "P (tbl ! i) \<Longrightarrow> \<not> age \<le> ctime (tbl ! i) \<Longrightarrow> oldest P tbl (Suc i) k age"
  using assms by (auto simp: oldest_def less_Suc_eq split: if_splits)

definition vars_ok :: "arp_entry list \<Rightarrow> nat \<Rightarrow> find_vars \<Rightarrow> bool" where
  "vars_ok tbl i v \<longleftrightarrow>
    (if \<exists>j<i. \<not> live (tbl ! j) then empty v < i \<and> \<not> live (tbl ! empty v) else empty v = ARP_TABLE_SIZE) \<and>
    oldest is_stable tbl i (old_stable v) (age_stable v) \<and>
    oldest (\<lambda>en. pending en \<and> aq en = None) tbl i (old_pending v) (age_pending v) \<and>
    oldest (\<lambda>en. pending en \<and> aq en \<noteq> None) tbl i (old_queue v) (age_queue v)"

lemma vars_ok_step:
  assumes "vars_ok tbl i v" "live (tbl ! i)"
  shows "vars_ok tbl (Suc i) (find_entry_step i (tbl ! i) v)"
proof -
  have e: "(\<exists>j<Suc i. astate (tbl ! j) = ETHARP_STATE_EMPTY) = (\<exists>j<i. astate (tbl ! j) = ETHARP_STATE_EMPTY)" using assms(2) less_Suc_eq by auto
  have v: "oldest is_stable tbl i (old_stable v) (age_stable v)"
    "oldest (\<lambda>en. pending en \<and> aq en = None) tbl i (old_pending v) (age_pending v)"
    "oldest (\<lambda>en. pending en \<and> aq en \<noteq> None) tbl i (old_queue v) (age_queue v)"
    "(if \<exists>j<i. \<not> live (tbl ! j) then empty v < Suc i \<and> \<not> live (tbl ! empty v) else empty v = ARP_TABLE_SIZE)"
    using assms(1) by (simp_all add: vars_ok_def less_Suc_eq split: if_splits)
  note suc = oldest_Suc [OF v(1)] oldest_Suc [OF v(2)] oldest_Suc [OF v(3)]
  consider "is_stable (tbl ! i)" "\<not> pending (tbl ! i)" | "pending (tbl ! i)" "\<not> is_stable (tbl ! i)"
    using assms(2) live_iff stable_not_pending by blast
  then show ?thesis
  proof cases
    case 1
    then show ?thesis using suc v(4) by (cases "age_stable v \<le> ctime (tbl ! i)") (simp_all add: vars_ok_def find_entry_step_def e)
  next
    case 2
    then show ?thesis
      using suc v(4) by (cases "aq (tbl ! i)"; cases "age_pending v \<le> ctime (tbl ! i)"; cases "age_queue v \<le> ctime (tbl ! i)")
        (simp_all add: vars_ok_def find_entry_step_def e)
  qed
qed

lemma vars_ok_empty:
  assumes "vars_ok tbl i v" "\<not> live (tbl ! i)" "i < ARP_TABLE_SIZE"
  shows "vars_ok tbl (Suc i) (if empty v = ARP_TABLE_SIZE then v\<lparr>empty := i\<rparr> else v)"
proof -
  have "\<not> is_stable (tbl ! i)" "\<not> pending (tbl ! i)" using assms(2) by (auto simp: is_stable_def)
  then show ?thesis using assms by (auto simp: vars_ok_def less_Suc_eq intro: oldest_Suc(1) split: if_splits)
qed

lemma find_entry_loop_result:
  assumes "vars_ok tbl i v" "i \<le> length tbl" "length tbl \<le> ARP_TABLE_SIZE"
  shows "case find_entry_loop ip n i (drop i tbl) v of
      Inl j \<Rightarrow> j < length tbl \<and> live (tbl ! j) \<and> matches ip n (tbl ! j)
    | Inr v' \<Rightarrow> vars_ok tbl (length tbl) v' \<and> (\<forall>j. i \<le> j \<and> j < length tbl \<longrightarrow> \<not> (live (tbl ! j) \<and> matches ip n (tbl ! j)))"
  using assms
proof (induction "length tbl - i" arbitrary: i v)
  case 0
  then show ?case by (auto split: sum.splits)
next
  case (Suc k)
  then have i: "i < length tbl" "drop i tbl = tbl ! i # drop (Suc i) tbl" by (simp_all add: Cons_nth_drop_Suc)
  have k: "k = length tbl - Suc i" using Suc.hyps(2) by simp
  have split: "(\<forall>j. i \<le> j \<and> j < length tbl \<longrightarrow> P j) \<longleftrightarrow> P i \<and> (\<forall>j. Suc i \<le> j \<and> j < length tbl \<longrightarrow> P j)" for P
    using i(1) by (metis Suc_leD Suc_leI le_neq_implies_less order_refl)
  show ?case
  proof (cases "live (tbl ! i)")
    case True
    then show ?thesis
      using Suc.hyps(1) [of "Suc i" "find_entry_step i (tbl ! i) v"] vars_ok_step [OF Suc.prems(1) True] i k Suc.prems(3)
      by (auto simp: split split: sum.splits)
  next
    case False
    then show ?thesis
      using Suc.hyps(1) [of "Suc i" "if empty v = ARP_TABLE_SIZE then v\<lparr>empty := i\<rparr> else v"] vars_ok_empty [OF Suc.prems(1) False] i k Suc.prems(3)
      by (auto simp: split split: sum.splits if_splits)
  qed
qed

text \<open>
  The entry that is given up for a new one: an unused one; if there is none, the oldest of those that are resolved; if there is none, the oldest on
  which no packet waits; if there is none, the oldest.
\<close>

definition expendable :: "arp_entry list \<Rightarrow> arp_entry \<Rightarrow> bool" where
  "expendable tbl = (if list_ex is_stable tbl then is_stable else if list_ex (\<lambda>en. aq en = None) tbl then (\<lambda>en. aq en = None) else (\<lambda>en. True))"

definition victim :: "arp_entry list \<Rightarrow> nat \<Rightarrow> bool" where
  "victim tbl i \<longleftrightarrow> i < length tbl \<and>
    (if list_all live tbl then expendable tbl (tbl ! i) \<and> (\<forall>en \<in> set tbl. expendable tbl en \<longrightarrow> ctime en \<le> ctime (tbl ! i))
     else \<not> live (tbl ! i))"

definition has_key :: "nat \<Rightarrow> u32 \<Rightarrow> arp_entry \<Rightarrow> bool" where
  "has_key n ip en \<longleftrightarrow> live en \<and> anetif en = Some n \<and> aip en = ip"

definition renewed :: "nat \<Rightarrow> u32 \<Rightarrow> arp_entry \<Rightarrow> arp_entry" where
  "renewed n ip en = en\<lparr>aq := None, astate := ETHARP_STATE_EMPTY, aip := ip, ctime := 0, anetif := Some n\<rparr>"

definition unqueued :: "heap \<Rightarrow> nat option \<Rightarrow> heap" where
  "unqueued h q = (case q of None \<Rightarrow> h | Some p \<Rightarrow> snd (the (pbuf_free h (Some p))))"

definition queues_free :: "heap \<Rightarrow> arp_entry list \<Rightarrow> bool" where
  "queues_free h tbl \<longleftrightarrow> (\<forall>en \<in> set tbl. \<forall>p. aq en = Some p \<longrightarrow> pbuf_free h (Some p) \<noteq> None)"

lemma queues_freeD: "queues_free h tbl \<Longrightarrow> i < length tbl \<Longrightarrow> aq (tbl ! i) = Some p \<Longrightarrow> \<exists>r. pbuf_free h (Some p) = Some r"
  by (auto simp: queues_free_def dest: bspec [OF _ nth_mem])

lemma vars_ok_init: "vars_ok tbl 0 find_vars_init"
  by (simp add: vars_ok_def oldest_def find_vars_init_def)

lemma oldest_end:
  assumes "oldest P tbl (length tbl) k age" "length tbl = ARP_TABLE_SIZE"
  shows "if list_ex P tbl then k < ARP_TABLE_SIZE \<and> P (tbl ! k) \<and> (\<forall>en \<in> set tbl. P en \<longrightarrow> ctime en \<le> ctime (tbl ! k)) else k = ARP_TABLE_SIZE"
  using assms by (auto simp: oldest_def list_ex_length all_set_conv_all_nth split: if_splits)

lemma free_entry_eq:
  assumes "i < length (arp_table s)" "queues_free (aheap s) (arp_table s)"
  shows "etharp_free_entry i s = Some (s\<lparr>arp_table := (arp_table s)[i := (arp_table s ! i)\<lparr>aq := None, astate := ETHARP_STATE_EMPTY\<rparr>],
     aheap := unqueued (aheap s) (aq (arp_table s ! i))\<rparr>)"
  using assms(1) queues_freeD [OF assms(2,1)] by (cases "aq (arp_table s ! i)") (auto simp: etharp_free_entry_def entry_def set_entry_def unqueued_def)

lemma find_entry_found:
  assumes "table_ok (arp_table s)" "i < ARP_TABLE_SIZE" "has_key n ip (arp_table s ! i)"
  shows "etharp_find_entry (Some ip) fl (Some n) s = Some (Inr i, s)"
proof -
  let ?tbl = "arp_table s"
  have l: "length ?tbl = ARP_TABLE_SIZE" by (rule table_okD [OF assms(1)])
  have m: "live en \<and> matches (Some ip) (Some n) en \<longleftrightarrow> has_key n ip en" for en by (auto simp: matches_def has_key_def)
  note r = find_entry_loop_result [OF vars_ok_init [of ?tbl], of "Some ip" "Some n"]
  have "find_entry_loop (Some ip) (Some n) 0 ?tbl find_vars_init = Inl i"
  proof (cases "find_entry_loop (Some ip) (Some n) 0 ?tbl find_vars_init")
    case (Inl j)
    then have "j < ARP_TABLE_SIZE" "has_key n ip (?tbl ! j)" using r l m by auto
    then have "same_key (?tbl ! i) (?tbl ! j)" using assms(3) by (auto simp: has_key_def same_key_def)
    then show ?thesis using table_okD(3) [OF assms(1,2) \<open>j < ARP_TABLE_SIZE\<close>] Inl by auto
  next
    case (Inr v)
    then show ?thesis using r l m assms(2,3) by auto
  qed
  then show ?thesis by (simp add: etharp_find_entry_def)
qed

lemma find_entry_missing:
  assumes "table_ok (arp_table s)" "list_all (\<lambda>en. \<not> has_key n ip en) (arp_table s)"
  obtains v where "find_entry_loop (Some ip) (Some n) 0 (arp_table s) find_vars_init = Inr v" "vars_ok (arp_table s) ARP_TABLE_SIZE v"
proof -
  let ?tbl = "arp_table s"
  have l: "length ?tbl = ARP_TABLE_SIZE" by (rule table_okD [OF assms(1)])
  have m: "live en \<and> matches (Some ip) (Some n) en \<longleftrightarrow> has_key n ip en" for en by (auto simp: matches_def has_key_def)
  have "case find_entry_loop (Some ip) (Some n) 0 ?tbl find_vars_init of Inl j \<Rightarrow> j < ARP_TABLE_SIZE \<and> has_key n ip (?tbl ! j) | Inr v \<Rightarrow> vars_ok ?tbl ARP_TABLE_SIZE v"
    using find_entry_loop_result [OF vars_ok_init [of ?tbl], of "Some ip" "Some n"] l m by (auto split: sum.splits)
  then show thesis using that assms(2) l by (auto simp: list_all_length split: sum.splits)
qed

lemma find_entry_only:
  assumes "table_ok (arp_table s)" "list_all (\<lambda>en. \<not> has_key n ip en) (arp_table s)"
  shows "etharp_find_entry (Some ip) ETHARP_FLAG_FIND_ONLY (Some n) s = Some (Inl ERR_MEM, s)"
  by (rule find_entry_missing [OF assms]) (simp add: etharp_find_entry_def)

lemma find_entry_new:
  assumes "table_ok (arp_table s)" "list_all (\<lambda>en. \<not> has_key n ip en) (arp_table s)" "queues_free (aheap s) (arp_table s)"
  obtains i where "victim (arp_table s) i"
    "etharp_find_entry (Some ip) ETHARP_FLAG_TRY_HARD (Some n) s =
      Some (Inr i, s\<lparr>arp_table := (arp_table s)[i := renewed n ip (arp_table s ! i)], aheap := unqueued (aheap s) (aq (arp_table s ! i))\<rparr>)"
proof -
  let ?tbl = "arp_table s"
  have l: "length ?tbl = ARP_TABLE_SIZE" by (rule table_okD [OF assms(1)])
  obtain v where f: "find_entry_loop (Some ip) (Some n) 0 ?tbl find_vars_init = Inr v" and v: "vars_ok ?tbl (length ?tbl) v"
    using find_entry_missing [OF assms(1,2)] l by metis
  show thesis
  proof (cases "list_all live ?tbl")
    case False
    then have e: "empty v < ARP_TABLE_SIZE" "\<not> live (?tbl ! empty v)" using v l by (auto simp: vars_ok_def list_all_length split: if_splits)
    then have "aq (?tbl ! empty v) = None" using table_okD(2) [OF assms(1) e(1)] by (auto simp: entry_ok_def)
    then have "renewed n ip (?tbl ! empty v) = (?tbl ! empty v)\<lparr>aip := ip, ctime := 0, anetif := Some n\<rparr>" "unqueued (aheap s) (aq (?tbl ! empty v)) = aheap s"
      using e(2) by (cases "?tbl ! empty v"; simp add: renewed_def unqueued_def)+
    then show thesis
      using that [of "empty v"] f e l False by (simp add: etharp_find_entry_def find_entry_new_def entry_def set_entry_def victim_def)
  next
    case True
    then have e: "empty v = ARP_TABLE_SIZE" using v l by (auto simp: vars_ok_def list_all_length split: if_splits)
    define r where "r = (\<lambda>i. do { s \<leftarrow> etharp_free_entry i s; s \<leftarrow> find_entry_new (Some ip) (Some n) i s; Some (Inr i :: err_t + nat, s) })"
    have r: "r i = Some (Inr i, s\<lparr>arp_table := ?tbl[i := renewed n ip (?tbl ! i)], aheap := unqueued (aheap s) (aq (?tbl ! i))\<rparr>)" if "i < ARP_TABLE_SIZE" for i
      using that l free_entry_eq [OF _ assms(3), of i] by (simp add: r_def find_entry_new_def entry_def set_entry_def renewed_def)
    have find: "etharp_find_entry (Some ip) ETHARP_FLAG_TRY_HARD (Some n) s =
        (if old_stable v < ARP_TABLE_SIZE then Option.bind (entry (old_stable v) s) (\<lambda>en. if aq en \<noteq> None then None else r (old_stable v))
         else if old_pending v < ARP_TABLE_SIZE then r (old_pending v)
         else if old_queue v < ARP_TABLE_SIZE then r (old_queue v) else Some (Inl ERR_MEM, s))"
      unfolding r_def using f e by (simp add: etharp_find_entry_def)
    note o = v [unfolded vars_ok_def]
    have os: "if list_ex is_stable ?tbl then old_stable v < ARP_TABLE_SIZE \<and> is_stable (?tbl ! old_stable v) \<and>
        (\<forall>en \<in> set ?tbl. is_stable en \<longrightarrow> ctime en \<le> ctime (?tbl ! old_stable v)) else old_stable v = ARP_TABLE_SIZE"
      using o oldest_end [OF _ l] by blast
    have op: "if list_ex (\<lambda>en. pending en \<and> aq en = None) ?tbl then old_pending v < ARP_TABLE_SIZE \<and> pending (?tbl ! old_pending v) \<and> aq (?tbl ! old_pending v) = None \<and>
        (\<forall>en \<in> set ?tbl. pending en \<and> aq en = None \<longrightarrow> ctime en \<le> ctime (?tbl ! old_pending v)) else old_pending v = ARP_TABLE_SIZE"
      using oldest_end [OF conjunct1 [OF conjunct2 [OF conjunct2 [OF o]]] l] by (simp split: if_splits)
    have oq: "if list_ex (\<lambda>en. pending en \<and> aq en \<noteq> None) ?tbl then old_queue v < ARP_TABLE_SIZE \<and> pending (?tbl ! old_queue v) \<and>
        (\<forall>en \<in> set ?tbl. pending en \<and> aq en \<noteq> None \<longrightarrow> ctime en \<le> ctime (?tbl ! old_queue v)) else old_queue v = ARP_TABLE_SIZE"
      using oldest_end [OF conjunct2 [OF conjunct2 [OF conjunct2 [OF o]]] l] by (simp split: if_splits)
    have pend: "\<not> list_ex is_stable ?tbl \<Longrightarrow> en \<in> set ?tbl \<Longrightarrow> pending en" for en
      using True live_iff by (auto simp: list_all_iff list_ex_iff)
    consider (stable) "list_ex is_stable ?tbl"
      | (plain) "\<not> list_ex is_stable ?tbl" "list_ex (\<lambda>en. aq en = None) ?tbl"
      | (queue) "\<not> list_ex is_stable ?tbl" "\<not> list_ex (\<lambda>en. aq en = None) ?tbl" by blast
    then show thesis
    proof cases
      case stable
      with os have i: "old_stable v < ARP_TABLE_SIZE" "is_stable (?tbl ! old_stable v)" by auto
      then have "aq (?tbl ! old_stable v) = None" using table_okD(2) [OF assms(1) i(1)] stable_not_pending by (auto simp: entry_ok_def)
      then show thesis using that [of "old_stable v"] stable os find r [OF i(1)] i l True by (simp add: victim_def expendable_def entry_def)
    next
      case plain
      then have "list_ex (\<lambda>en. pending en \<and> aq en = None) ?tbl" using pend by (auto simp: list_ex_iff)
      then show thesis
        using that [of "old_pending v"] plain os op find r [of "old_pending v"] pend l True by (simp add: victim_def expendable_def)
    next
      case queue
      then have "\<not> list_ex (\<lambda>en. pending en \<and> aq en = None) ?tbl" by (auto simp: list_ex_iff)
      moreover have "list_ex (\<lambda>en. pending en \<and> aq en \<noteq> None) ?tbl"
        using queue pend [of "?tbl ! 0"] l by (auto simp: list_ex_iff intro!: bexI [of _ "?tbl ! 0"])
      moreover have "expendable ?tbl = (\<lambda>en. True)" using queue by (simp add: expendable_def)
      moreover have "aq en \<noteq> None" if "en \<in> set ?tbl" for en using queue(2) that by (auto simp: list_ex_iff)
      ultimately show thesis
        using that [of "old_queue v"] queue(1) os op oq find r [of "old_queue v"] pend l True by (simp add: victim_def)
    qed
  qed
qed

end
