(* ===== verification/Lwip_Etharp_Link.thy ===== *)
theory Lwip_Etharp_Link
  imports Lwip_Etharp_Table
begin

text \<open>
  The frames that Ethernet and ARP build, and the contract between them and the driver: the locale \<open>link_layer\<close> says what \<open>linkoutput\<close> has to do with a
  chain of packet buffers.
\<close>

section \<open>Bytes and words\<close>

lemma load16_mem16 [simp]: "load16 (mem16 x) = x"
  unfolding load16_def mem16_def by (rule bit_word_eqI) (auto simp: bit_simps)

lemma mem16_load16: "length bs = 2 \<Longrightarrow> mem16 (load16 bs) = bs"
proof -
  assume "length bs = 2"
  then obtain a b where "bs = [a, b]" by (auto simp: length_Suc_conv numeral_2_eq_2)
  moreover have "ucast (ucast a OR push_bit 8 (ucast b) :: u16) = a" "ucast (drop_bit 8 (ucast a OR push_bit 8 (ucast b) :: u16)) = b" for a b :: u8
    by (rule bit_word_eqI, auto simp: bit_simps dest: bit_imp_le_length)+
  ultimately show ?thesis by (simp add: load16_def mem16_def)
qed

lemma load32_mem32 [simp]: "load32 (mem32 x) = x"
proof (rule bit_word_eqI)
  fix n
  assume n: "n < LENGTH(32)"
  consider "n < 8" | "8 \<le> n" "n < 16" | "16 \<le> n" "n < 24" | "24 \<le> n" by linarith
  then show "bit (load32 (mem32 x)) n \<longleftrightarrow> bit x n" using n by cases (auto simp: load32_def mem32_def bit_simps)
qed

lemma length_mem [simp]: "length (mem16 x) = 2" "length (mem32 y) = 4" "length ethbroadcast = 6" "length ethzero = 6"
  by (simp_all add: mem16_def mem32_def ethbroadcast_def ethzero_def)

lemma htons_consts:
  "mem16 (t1s_lwip_htons ETHTYPE_IP) = [8, 0]" "mem16 (t1s_lwip_htons ETHTYPE_ARP) = [8, 6]" "mem16 (PP_HTONS ETHTYPE_IP) = [8, 0]" "mem16 (PP_HTONS 1) = [0, 1]"
  "mem16 (t1s_lwip_htons ARP_REQUEST) = [0, 1]" "mem16 (t1s_lwip_htons ARP_REPLY) = [0, 2]"
  by (simp_all add: mem16_def t1s_lwip_htons_def PP_HTONS_def push_bit_eq_mult drop_bit_eq_div)

lemma sub_put_other:
  "k + n \<le> off \<or> off + length ys \<le> k \<Longrightarrow> off + length ys \<le> length xs \<Longrightarrow> sub_at k n (put_at off ys xs) = sub_at k n xs"
proof (rule nth_equalityI, simp)
  fix i
  assume r: "k + n \<le> off \<or> off + length ys \<le> k" "off + length ys \<le> length xs" and "i < length (sub_at k n (put_at off ys xs))"
  then have i: "i < n" "k + i < length xs" by auto
  then have "sub_at k n (put_at off ys xs) ! i = put_at off ys xs ! (k + i)" "sub_at k n xs ! i = xs ! (k + i)" using r(2) by (simp_all add: sub_at_def)
  then show "sub_at k n (put_at off ys xs) ! i = sub_at k n xs ! i" using nth_put_at_out [OF r(2), of "k + i"] r(1) i by auto
qed

lemma sub_put_eq: "off + length ys \<le> length xs \<Longrightarrow> n = length ys \<Longrightarrow> sub_at off n (put_at off ys xs) = ys"
  by (simp add: sub_put_same)

section \<open>The contract of the driver\<close>

definition sendable :: "heap \<Rightarrow> nat \<Rightarrow> nat list \<Rightarrow> bool" where
  "sendable h p xs \<longleftrightarrow> pchain h (Some p) xs \<and> length xs \<le> 8 \<and> (\<forall>x \<in> set xs. \<forall>b. h x = Some b \<longrightarrow> plen b \<noteq> 0) \<and>
     (\<forall>b. h p = Some b \<longrightarrow> ref b \<noteq> 0 \<and> ref b \<noteq> 255)"

text \<open>A frame is offered to the driver: it takes it, or has no room for it.\<close>

definition offered :: "('w \<Rightarrow> bool) \<Rightarrow> ('w \<Rightarrow> bytes \<Rightarrow> 'w \<Rightarrow> bool) \<Rightarrow> 'w \<Rightarrow> bytes \<Rightarrow> 'w \<Rightarrow> bool" where
  "offered full accepts w f w' \<longleftrightarrow> (if full w then w' = w else accepts w f w')"

fun offers :: "('w \<Rightarrow> bool) \<Rightarrow> ('w \<Rightarrow> bytes \<Rightarrow> 'w \<Rightarrow> bool) \<Rightarrow> 'w \<Rightarrow> bytes list \<Rightarrow> 'w \<Rightarrow> bool" where
  "offers full accepts w [] w' \<longleftrightarrow> w' = w"
| "offers full accepts w (f # fs) w' \<longleftrightarrow> (\<exists>w1. offered full accepts w f w1 \<and> offers full accepts w1 fs w')"

lemma offers_append: "offers full accepts w (fs @ gs) w' \<longleftrightarrow> (\<exists>w1. offers full accepts w fs w1 \<and> offers full accepts w1 gs w')"
  by (induction fs arbitrary: w) auto

locale link_layer =
  fixes e :: "'w arp_env"
    and low_ok :: "'w \<Rightarrow> bool"
    and full :: "'w \<Rightarrow> bool"
    and accepts :: "'w \<Rightarrow> bytes \<Rightarrow> 'w \<Rightarrow> bool"
  assumes refused: "low_ok w \<Longrightarrow> full w \<Longrightarrow> sendable h p xs \<Longrightarrow> linkoutput e n w h p = Some (ERR_WOULDBLOCK, w, h)"
    and accepted: "low_ok w \<Longrightarrow> \<not> full w \<Longrightarrow> sendable h p xs \<Longrightarrow> h p = Some b \<Longrightarrow>
      \<exists>w'. linkoutput e n w h p = Some (ERR_OK, w', h(p \<mapsto> b\<lparr>ref := ref b + 1\<rparr>)) \<and> accepts w (pdata h xs) w' \<and> low_ok w'"
    and malloc: "malloc_ok (amalloc e)"

section \<open>Ethernet frames\<close>

text \<open>A packet that can be sent on: a chain of at most eight buffers, of which only the first may be empty, with room for references.\<close>

definition packet :: "heap \<Rightarrow> nat \<Rightarrow> nat list \<Rightarrow> bool" where
  "packet h p xs \<longleftrightarrow> pchain h (Some p) xs \<and> list_all (freeable h) xs \<and> length xs \<le> 8 \<and> (\<forall>x \<in> set (tl xs). \<forall>b. h x = Some b \<longrightarrow> plen b \<noteq> 0) \<and>
     (\<forall>b. h p = Some b \<longrightarrow> ref b \<noteq> 255)"

definition headroom :: "heap \<Rightarrow> nat \<Rightarrow> bool" where
  "headroom h p \<longleftrightarrow> (case h p of None \<Rightarrow> False | Some b \<Rightarrow> type_internal b AND 0x80 \<noteq> 0 \<and> 14 \<le> poff b \<and> unat (tot_len b) + 14 < 65536)"

definition netif_ok :: "netif \<Rightarrow> bool" where
  "netif_ok n \<longleftrightarrow> hwaddr_len n = ETH_HWADDR_LEN \<and> length (hwaddr n) = 6"

text \<open>The header in front of the data of the first buffer.\<close>

definition eth_write :: "bytes \<Rightarrow> bytes \<Rightarrow> u16 \<Rightarrow> pbuf \<Rightarrow> pbuf" where
  "eth_write dst src ty b = b\<lparr>poff := poff b - 14, plen := plen b + 14, tot_len := tot_len b + 14,
     pmem := put_at (poff b - 14 + 6) src (put_at (poff b - 14) dst (put_at (poff b - 14 + 12) (mem16 (t1s_lwip_htons ty)) (pmem b)))\<rparr>"

lemma eth_write_fields [simp]:
  "pnext (eth_write dst src ty b) = pnext b" "ref (eth_write dst src ty b) = ref b" "pflags (eth_write dst src ty b) = pflags b"
  "type_internal (eth_write dst src ty b) = type_internal b" "(eth_write dst src ty b)\<lparr>ref := ref b\<rparr> = eth_write dst src ty b"
  by (simp_all add: eth_write_def)

lemma packetE:
  assumes "packet h p xs"
  obtains b xs' where "xs = p # xs'" "h p = Some b" "p \<notin> set xs'" "plink h (pnext b) xs'" "pwf h xs'" "poff b + unat (plen b) \<le> length (pmem b)"
    "unat (tot_len b) = unat (plen b) + length (pdata h xs')" "ref b \<noteq> 0" "ref b \<noteq> 255" "list_all (freeable h) xs'"
    "pflags b AND 2 = 0" "type_internal b AND 0x0F \<le> 2"
  using assms by (cases xs) (auto simp: packet_def freeable_def split: option.splits)

lemma add_header_eq:
  assumes "h p = Some b"
  shows "pbuf_add_header h (Some p) (of_nat SIZEOF_ETH_HDR) =
    (if headroom h p then Some (0, h(p \<mapsto> b\<lparr>poff := poff b - 14, plen := plen b + 14, tot_len := tot_len b + 14\<rparr>)) else Some (1, h))"
proof -
  have "(14 :: u16) + tot_len b < 14 \<longleftrightarrow> \<not> unat (tot_len b) + 14 < 65536"
    using unat_u16_less [of "tot_len b"] by (simp add: u16_less_nat unat_u16_add del: unat_u16_less) linarith
  then show ?thesis using assms by (auto simp: pbuf_add_header_def pbuf_add_header_impl_def headroom_def)
qed

lemma eth_write_data:
  assumes "14 \<le> poff b" "poff b + unat (plen b) \<le> length (pmem b)" "unat (plen b) + 14 < 65536" "length dst = 6" "length src = 6"
  shows "bdata (eth_write dst src ty b) = dst @ src @ mem16 (t1s_lwip_htons ty) @ bdata b" "plen (eth_write dst src ty b) \<noteq> 0"
    "unat (plen (eth_write dst src ty b)) = unat (plen b) + 14"
    "poff (eth_write dst src ty b) + unat (plen (eth_write dst src ty b)) \<le> length (pmem (eth_write dst src ty b))"
proof -
  show l: "unat (plen (eth_write dst src ty b)) = unat (plen b) + 14" using assms(3) by (simp add: eth_write_def unat_u16_add)
  then show "plen (eth_write dst src ty b) \<noteq> 0" by auto
  let ?m = "pmem (eth_write dst src ty b)"
  obtain i where i: "poff b = i + 14" using assms(1) le_Suc_ex by (metis add.commute)
  have m: "?m = put_at (i + 6) src (put_at i dst (put_at (i + 12) (mem16 (t1s_lwip_htons ty)) (pmem b)))" by (simp add: eth_write_def i)
  show "poff (eth_write dst src ty b) + unat (plen (eth_write dst src ty b)) \<le> length ?m" unfolding l using assms by (simp add: eth_write_def)
  have "bdata (eth_write dst src ty b) = sub_at i (6 + (6 + (2 + unat (plen b)))) ?m" using l by (simp add: bdata_def eth_write_def i add.commute)
  also have "\<dots> = sub_at i 6 ?m @ sub_at (i + 6) 6 ?m @ sub_at (i + 12) 2 ?m @ sub_at (i + 14) (unat (plen b)) ?m"
    by (simp only: sub_at_add add.assoc) simp
  also have "\<dots> = dst @ src @ mem16 (t1s_lwip_htons ty) @ bdata b"
    using assms by (simp add: m i sub_put_other sub_put_eq bdata_def)
  finally show "bdata (eth_write dst src ty b) = dst @ src @ mem16 (t1s_lwip_htons ty) @ bdata b" .
qed

lemma eth_write_chain:
  fixes ty
  assumes "packet h p xs" "h p = Some b" "headroom h p" "length dst = 6" "length src = 6"
  defines "h1 \<equiv> h(p \<mapsto> eth_write dst src ty b)"
  shows "sendable h1 p xs" "pdata h1 xs = dst @ src @ mem16 (t1s_lwip_htons ty) @ pdata h xs" "packet h1 p xs"
proof -
  obtain xs' where x: "xs = p # xs'" "p \<notin> set xs'" "plink h (pnext b) xs'" "pwf h xs'" "poff b + unat (plen b) \<le> length (pmem b)"
    "unat (tot_len b) = unat (plen b) + length (pdata h xs')" "ref b \<noteq> 0" "ref b \<noteq> 255" "list_all (freeable h) xs'"
    "pflags b AND 2 = 0" "type_internal b AND 0x0F \<le> 2"
    by (rule packetE [OF assms(1)]) (use assms(2) in simp)
  have hr: "14 \<le> poff b" "unat (tot_len b) + 14 < 65536" using assms(2,3) by (simp_all add: headroom_def)
  then have "unat (plen b) + 14 < 65536" using x(6) by simp
  note w = eth_write_data [OF hr(1) x(5) this assms(4,5), of ty]
  have out: "pdata h1 xs' = pdata h xs'" "plink h1 q xs' = plink h q xs'" "pwf h1 xs' = pwf h xs'" for q
    using chain_upd_out [OF x(2)] by (simp_all add: h1_def)
  have p: "h1 p = Some (eth_write dst src ty b)" by (simp add: h1_def)
  show d: "pdata h1 xs = dst @ src @ mem16 (t1s_lwip_htons ty) @ pdata h xs" using w(1) out p x(1) assms(2) by simp
  have "unat (tot_len (eth_write dst src ty b)) = unat (plen b) + 14 + length (pdata h xs')"
    using hr(2) x(6) by (simp add: eth_write_def unat_u16_add)
  then have c: "pchain h1 (Some p) xs" using x(1-4) p out w(3,4) by simp
  have tl: "\<forall>y \<in> set xs'. h1 y = h y" using x(2) by (auto simp: h1_def)
  have len: "length xs \<le> 8" and ne: "\<forall>y \<in> set xs'. \<forall>c. h y = Some c \<longrightarrow> plen c \<noteq> 0" using assms(1) x(1) by (simp_all add: packet_def)
  show "sendable h1 p xs" using c len ne tl p w(2) x(1,7,8) by (simp add: sendable_def)
  have "list_all (freeable h1) xs" using x p tl by (auto simp: list_all_iff freeable_def)
  then show "packet h1 p xs" using c len ne tl p x(1,8) by (simp add: packet_def)
qed

section \<open>ARP packets\<close>

definition arp_packet :: "u16 \<Rightarrow> bytes \<Rightarrow> u32 \<Rightarrow> bytes \<Rightarrow> u32 \<Rightarrow> bytes" where
  "arp_packet opcode hwsrc ipsrc hwdst ipdst = [0, 1, 8, 0, 6, 4] @ mem16 (t1s_lwip_htons opcode) @ hwsrc @ mem32 ipsrc @ hwdst @ mem32 ipdst"

definition arp_frame :: "bytes \<Rightarrow> bytes \<Rightarrow> u16 \<Rightarrow> bytes \<Rightarrow> u32 \<Rightarrow> bytes \<Rightarrow> u32 \<Rightarrow> bytes" where
  "arp_frame src dst opcode hwsrc ipsrc hwdst ipdst = dst @ src @ [8, 6] @ arp_packet opcode hwsrc ipsrc hwdst ipdst"

text \<open>The writes of \<open>etharp_raw\<close> into the new packet buffer, in its order.\<close>

definition arp_write :: "u16 \<Rightarrow> bytes \<Rightarrow> u32 \<Rightarrow> bytes \<Rightarrow> u32 \<Rightarrow> bytes \<Rightarrow> bytes" where
  "arp_write opcode hwsrc ipsrc hwdst ipdst m =
    put_at 21 [4] (put_at 20 [6] (put_at 18 [8, 0] (put_at 16 [0, 1] (put_at 40 (mem32 ipdst) (put_at 30 (mem32 ipsrc)
      (put_at 34 hwdst (put_at 24 hwsrc (put_at 22 (mem16 (t1s_lwip_htons opcode)) m))))))))"

lemma arp_write_packet:
  assumes "length m = 44" "length hwsrc = 6" "length hwdst = 6"
  shows "length (arp_write opcode hwsrc ipsrc hwdst ipdst m) = 44" "sub_at 16 28 (arp_write opcode hwsrc ipsrc hwdst ipdst m) = arp_packet opcode hwsrc ipsrc hwdst ipdst"
proof -
  let ?m = "arp_write opcode hwsrc ipsrc hwdst ipdst m"
  show "length ?m = 44" using assms by (simp add: arp_write_def)
  have "sub_at 16 28 ?m = sub_at 16 (2 + (2 + (1 + (1 + (2 + (6 + (4 + (6 + 4)))))))) ?m" by simp
  also have "\<dots> = sub_at 16 2 ?m @ sub_at 18 2 ?m @ sub_at 20 1 ?m @ sub_at 21 1 ?m @ sub_at 22 2 ?m @ sub_at 24 6 ?m @ sub_at 30 4 ?m @ sub_at 34 6 ?m @ sub_at 40 4 ?m"
    unfolding sub_at_add by simp
  also have "\<dots> = arp_packet opcode hwsrc ipsrc hwdst ipdst" using assms by (simp add: arp_write_def sub_put_other sub_put_eq arp_packet_def)
  finally show "sub_at 16 28 ?m = arp_packet opcode hwsrc ipsrc hwdst ipdst" .
qed

lemma alloc_link: "pbuf_alloc malloc h PBUF_LINK (of_nat SIZEOF_ETHARP_HDR) PBUF_RAM =
  (case malloc h 44 of None \<Rightarrow> Some (None, h) | Some (a, m) \<Rightarrow> Some (Some a, h(a \<mapsto> pbuf_init_alloced_pbuf m 16 28 28 PBUF_RAM 0)))"
  by (cases "malloc h 44") (auto simp: pbuf_alloc_def LWIP_MEM_ALIGN_SIZE_def)

text \<open>What later calls may rely on: buffers that are in use stay as they are.\<close>

definition heap_ext :: "heap \<Rightarrow> heap \<Rightarrow> bool" where
  "heap_ext h h' \<longleftrightarrow> (\<forall>x. h x \<noteq> None \<longrightarrow> h' x = h x)"

lemma heap_ext_refl [simp]: "heap_ext h h"
  by (simp add: heap_ext_def)

lemma heap_ext_new: "h a = None \<Longrightarrow> heap_ext h (h(a := v))"
  by (auto simp: heap_ext_def)

lemma heap_ext_chain:
  assumes "heap_ext h h'" "plink h p xs"
  shows "plink h' p xs" "pdata h' xs = pdata h xs" "pwf h' xs = pwf h xs" "list_all (freeable h') xs = list_all (freeable h) xs"
proof -
  have eq: "x \<in> set xs \<Longrightarrow> h' x = h x" for x using assms(1) plink_alloc [OF assms(2)] by (auto simp: heap_ext_def list_all_iff)
  show "plink h' p xs" "pdata h' xs = pdata h xs" "pwf h' xs = pwf h xs" using chain_cong [of xs h' h, OF eq] assms(2) by auto
  show "list_all (freeable h') xs = list_all (freeable h) xs" using eq by (auto simp: list_all_iff freeable_def)
qed

text \<open>Memory for an ARP packet can be had, whatever buffers are freed before.\<close>

definition room :: "malloc \<Rightarrow> heap \<Rightarrow> bool" where
  "room malloc h \<longleftrightarrow> (\<forall>h'. (\<forall>x. h x = None \<longrightarrow> h' x = None) \<longrightarrow> malloc h' 44 \<noteq> None)"

lemma room_less: "room malloc h \<Longrightarrow> (\<And>x. h x = None \<Longrightarrow> h' x = None) \<Longrightarrow> room malloc h'"
  unfolding room_def by blast

lemma room_now: "room malloc h \<Longrightarrow> malloc h 44 \<noteq> None"
  unfolding room_def by blast

lemma pbuf_free_one:
  assumes "h a = Some b" "pnext b = None" "ref b \<noteq> 0" "pflags b AND 2 = 0" "type_internal b AND 0x0F \<le> 2"
  shows "\<exists>c. pbuf_free h (Some a) = Some (c, h(a := if ref b = 1 then None else Some (b\<lparr>ref := ref b - 1\<rparr>)))"
proof -
  have "plink h (Some a) [a]" "list_all (freeable h) [a]" using assms by (simp_all add: freeable_def)
  from pbuf_free_loop_freed [OF this, of 0] show ?thesis using assms(1) by (auto simp: pbuf_free_def single_def)
qed

context link_layer
begin

text \<open>
  \<open>ethernet_output\<close> puts the header in front of a packet and offers the frame to the driver, which then holds a reference on the packet. A packet without room for the header
  is refused.
\<close>

lemma ethernet_output_sends:
  assumes "nifs s n = Some nf" "netif_ok nf" "packet (aheap s) p xs" "aheap s p = Some b" "low_ok (low s)" "length dst = 6" "length src = 6"
  shows "if headroom (aheap s) p
    then \<exists>w' r. ethernet_output e n p src dst ty s = Some (if full (low s) then ERR_WOULDBLOCK else ERR_OK,
        s\<lparr>aheap := (aheap s)(p \<mapsto> (eth_write dst src ty b)\<lparr>ref := r\<rparr>), low := w'\<rparr>) \<and> r = (if full (low s) then ref b else ref b + 1) \<and>
      offered full accepts (low s) (dst @ src @ mem16 (t1s_lwip_htons ty) @ pdata (aheap s) xs) w' \<and> low_ok w'
    else ethernet_output e n p src dst ty s = Some (ERR_BUF, s)"
proof (cases "headroom (aheap s) p")
  case True
  note c = eth_write_chain [OF assms(3,4) True assms(6,7), of ty]
  have x: "poff b + unat (plen b) \<le> length (pmem b)" by (rule packetE [OF assms(3)]) (use assms(4) in simp)
  then have hr: "14 \<le> poff b" "poff b \<le> length (pmem b)" using True assms(4) by (auto simp: headroom_def)
  then obtain i where i: "poff b = i + 14" "i + 14 \<le> length (pmem b)" using le_Suc_ex by (metis add.commute)
  define h1 where "h1 = (aheap s)(p \<mapsto> eth_write dst src ty b)"
  have "ethernet_output e n p src dst ty s = do {
      (err, w, h) \<leftarrow> linkoutput e n (low s) h1 p; Some (err, s\<lparr>aheap := h, low := w\<rparr>) }"
    unfolding ethernet_output_def add_header_eq [where h = "aheap s" and p = p, OF assms(4)]
    using True i assms(1,2,6,7) by (simp add: Let_def pwrite_def netif_ok_def eth_write_def h1_def)
  moreover have "h1 p = Some (eth_write dst src ty b)" by (simp add: h1_def)
  ultimately show ?thesis
    using True refused [OF assms(5) _ c(1), of n] accepted [OF assms(5) _ c(1), of "eth_write dst src ty b" n] c(2) assms(5)
    by (cases "full (low s)") (auto simp: offered_def h1_def)
next
  case False
  then show ?thesis
    using add_header_eq [where h = "aheap s" and p = p, OF assms(4)] by (simp add: ethernet_output_def)
qed

text \<open>An ARP packet is built, offered to the driver and given up; only the driver keeps it.\<close>

lemma etharp_raw_sends:
  assumes nf: "nifs s n = Some nf" "netif_ok nf" and "low_ok (low s)" and len: "length src = 6" "length dst = 6" "length hwsrc = 6" "length hwdst = 6"
  shows "if amalloc e (aheap s) 44 = None then etharp_raw e n src dst hwsrc ipsrc hwdst ipdst opcode s = Some (ERR_MEM, s)
    else \<exists>h' w'. etharp_raw e n src dst hwsrc ipsrc hwdst ipdst opcode s = Some (ERR_OK, s\<lparr>aheap := h', low := w'\<rparr>) \<and>
      offered full accepts (low s) (arp_frame src dst opcode hwsrc ipsrc hwdst ipdst) w' \<and> low_ok w' \<and> heap_ext (aheap s) h'"
proof (cases "amalloc e (aheap s) 44")
  case None
  then show ?thesis using nf by (simp add: etharp_raw_def alloc_link del: of_nat_numeral)
next
  case (Some am)
  obtain a m where am: "am = (a, m)" by (cases am)
  with Some malloc have m: "aheap s a = None" "length m = 44" by (auto simp: malloc_ok_def)
  define b0 where "b0 = pbuf_init_alloced_pbuf m 16 28 28 PBUF_RAM 0"
  define b where "b = b0\<lparr>pmem := arp_write opcode hwsrc ipsrc hwdst ipdst m\<rparr>"
  define h where "h = (aheap s)(a \<mapsto> b)"
  note aw = arp_write_packet [OF m(2) len(3,4), of opcode ipsrc ipdst]
  have b: "h a = Some b" "poff b = 16" "plen b = 28" "tot_len b = 28" "pnext b = None" "ref b = 1" "pflags b = 0" "type_internal b = 0x80"
    "bdata b = arp_packet opcode hwsrc ipsrc hwdst ipdst" "length (pmem b) = 44"
    using aw by (simp_all add: h_def b_def b0_def pbuf_init_alloced_pbuf_def bdata_def)
  have pk: "packet h a [a]" "headroom h a" "pdata h [a] = arp_packet opcode hwsrc ipsrc hwdst ipdst"
    using b(2-8,10) b(9) by (simp_all add: packet_def headroom_def freeable_def b(1))
  obtain w' r where out: "ethernet_output e n a src dst ETHTYPE_ARP (s\<lparr>aheap := h\<rparr>) = Some (if full (low s) then ERR_WOULDBLOCK else ERR_OK,
      s\<lparr>aheap := h(a \<mapsto> (eth_write dst src ETHTYPE_ARP b)\<lparr>ref := r\<rparr>), low := w'\<rparr>)" "r = (if full (low s) then 1 else 2)"
    "offered full accepts (low s) (dst @ src @ mem16 (t1s_lwip_htons ETHTYPE_ARP) @ pdata h [a]) w'" "low_ok w'"
    using ethernet_output_sends [of "s\<lparr>aheap := h\<rparr>" n nf a "[a]" b dst src ETHTYPE_ARP] nf assms(3) len pk b(1,6)
    by (cases "full (low s)") auto
  let ?b = "(eth_write dst src ETHTYPE_ARP b)\<lparr>ref := r\<rparr>"
  have r0: "r \<noteq> 0" using out(2) by (simp split: if_splits)
  obtain c where free: "pbuf_free (h(a \<mapsto> ?b)) (Some a) = Some (c, h(a := if r = 1 then None else Some (?b\<lparr>ref := r - 1\<rparr>)))"
    using pbuf_free_one [of "h(a \<mapsto> ?b)" a ?b] b(5,7,8) r0 by auto
  have "etharp_raw e n src dst hwsrc ipsrc hwdst ipdst opcode s = Some (ERR_OK, s\<lparr>aheap := h(a := if r = 1 then None else Some (?b\<lparr>ref := r - 1\<rparr>)), low := w'\<rparr>)"
    using Some am nf len m(2) out(1) free
    by (simp add: etharp_raw_def alloc_link pwrite_def b0_def b_def h_def pbuf_init_alloced_pbuf_def netif_ok_def htons_consts arp_write_def del: of_nat_numeral)
  moreover have "heap_ext (aheap s) (h(a := v))" for v using heap_ext_new [of "aheap s" a v] m(1) by (simp add: h_def)
  moreover have "offered full accepts (low s) (arp_frame src dst opcode hwsrc ipsrc hwdst ipdst) w'"
    using out(3) pk(3) by (simp add: arp_frame_def htons_consts)
  ultimately show ?thesis using Some out(4) by auto
qed

end

end
