(* ===== verification/Lwip_Etharp_Update.thy ===== *)
theory Lwip_Etharp_Update
  imports Lwip_Etharp_Link
begin

text \<open>
  The packets that wait in the ARP table, the invariant of table and packets, and what \<open>etharp_update_arp_entry\<close> and \<open>etharp_free_entry\<close> do under it.
\<close>

section \<open>Waiting packets\<close>

lemma plink_unique: "plink h p xs \<Longrightarrow> plink h p ys \<Longrightarrow> xs = ys"
proof (induction xs arbitrary: p ys)
  case (Cons x xs)
  then show ?case by (cases ys) (auto split: option.splits)
qed (metis list.exhaust option.discI plink.simps)

text \<open>The data of the packet at \<open>p\<close>.\<close>

definition packet_data :: "heap \<Rightarrow> nat \<Rightarrow> bytes" where
  "packet_data h p = (case Option.bind (h p) (\<lambda>b. pbuf_copy_partial h (Some p) (tot_len b) 0) of None \<Rightarrow> [] | Some (_, ys) \<Rightarrow> ys)"

lemma packet_data_eq:
  assumes "pchain h (Some p) xs"
  shows "packet_data h p = pdata h xs"
proof -
  obtain b xs' where x: "xs = p # xs'" "h p = Some b" "unat (tot_len b) = unat (plen b) + length (pdata h xs')" "poff b + unat (plen b) \<le> length (pmem b)"
    using assms by (cases xs) (auto split: option.splits)
  then have "length (pdata h xs) = unat (tot_len b)" by (simp add: length_bdata)
  then show ?thesis
    using pbuf_copy_loop_data [OF assms, of "tot_len b" 0 "[]"] x(2) by (simp add: packet_data_def pbuf_copy_partial_def)
qed

text \<open>The buffers that packets at the addresses \<open>qs\<close> consist of; the packets are well-formed and share no buffer.\<close>

definition queue_at :: "nat option list \<Rightarrow> nat \<Rightarrow> nat \<Rightarrow> bool" where
  "queue_at qs i p \<longleftrightarrow> i < length qs \<and> qs ! i = Some p"

definition held :: "heap \<Rightarrow> nat option list \<Rightarrow> nat set" where
  "held h qs = {x. \<exists>i p xs. queue_at qs i p \<and> plink h (Some p) xs \<and> x \<in> set xs}"

definition waits :: "heap \<Rightarrow> nat option list \<Rightarrow> bool" where
  "waits h qs \<longleftrightarrow> (\<forall>i p. queue_at qs i p \<longrightarrow> (\<exists>xs. packet h p xs)) \<and>
     (\<forall>i j p q xs ys. i \<noteq> j \<longrightarrow> queue_at qs i p \<longrightarrow> queue_at qs j q \<longrightarrow> plink h (Some p) xs \<longrightarrow> plink h (Some q) ys \<longrightarrow> set xs \<inter> set ys = {})"

lemma queue_at_upd [simp]:
  "queue_at (qs[i := None]) j p \<longleftrightarrow> j \<noteq> i \<and> queue_at qs j p"
  "queue_at (qs[i := Some q]) j p \<longleftrightarrow> (if j = i then i < length qs \<and> p = q else queue_at qs j p)"
  by (cases "j = i"; auto simp: queue_at_def)+

lemma waitsI:
  assumes "\<And>i p. queue_at qs i p \<Longrightarrow> \<exists>xs. packet h p xs"
    and "\<And>i j p q xs ys. i \<noteq> j \<Longrightarrow> queue_at qs i p \<Longrightarrow> queue_at qs j q \<Longrightarrow> plink h (Some p) xs \<Longrightarrow> plink h (Some q) ys \<Longrightarrow> set xs \<inter> set ys = {}"
  shows "waits h qs"
  unfolding waits_def using assms by meson

lemma waitsD: "waits h qs \<Longrightarrow> queue_at qs i p \<Longrightarrow> \<exists>xs. packet h p xs"
  unfolding waits_def by meson

lemma waits_disjoint:
  "waits h qs \<Longrightarrow> i \<noteq> j \<Longrightarrow> queue_at qs i p \<Longrightarrow> queue_at qs j q \<Longrightarrow> plink h (Some p) xs \<Longrightarrow> plink h (Some q) ys \<Longrightarrow> set xs \<inter> set ys = {}"
  unfolding waits_def by meson

lemma heldI: "queue_at qs i p \<Longrightarrow> plink h (Some p) xs \<Longrightarrow> x \<in> set xs \<Longrightarrow> x \<in> held h qs"
  unfolding held_def by blast

lemma held_mono: "held h (qs[i := None]) \<subseteq> held h qs"
  unfolding held_def by auto

lemma packet_cong:
  assumes "\<And>x. x \<in> set xs \<Longrightarrow> h' x = h x"
  shows "packet h' p xs = packet h p xs"
proof (cases "xs = []")
  case False
  have "x \<in> set (tl xs) \<Longrightarrow> h' x = h x" for x using assms False by (meson list.set_sel(2))
  moreover have "plink h' (Some p) xs \<Longrightarrow> h' p = h p" "plink h (Some p) xs \<Longrightarrow> h' p = h p" using assms False by (cases xs; auto)+
  moreover have "plink h' (Some p) xs = plink h (Some p) xs" "pwf h' xs = pwf h xs" using chain_cong [of xs h' h] assms by blast+
  moreover have "list_all (freeable h') xs = list_all (freeable h) xs" using assms by (simp add: list_all_iff freeable_def)
  ultimately show ?thesis by (auto simp: packet_def)
qed (simp add: packet_def)

lemma waits_cong:
  assumes "waits h qs" "\<And>x. x \<in> held h qs \<Longrightarrow> h' x = h x"
  shows "waits h' qs" "held h' qs = held h qs"
proof -
  have link: "plink h' (Some p) xs \<longleftrightarrow> plink h (Some p) xs" if q: "queue_at qs i p" for i p xs
  proof -
    obtain ys where y: "plink h (Some p) ys" using waitsD [OF assms(1) q] by (auto simp: packet_def)
    then have "plink h' (Some p) ys" using chain_cong(2) [of ys h' h "Some p"] assms(2) heldI [OF q y] by blast
    then show ?thesis using y plink_unique by metis
  qed
  then show "held h' qs = held h qs" unfolding held_def by blast
  show "waits h' qs"
  proof (rule waitsI)
    fix i p
    assume i: "queue_at qs i p"
    then obtain xs where xs: "packet h p xs" using waitsD [OF assms(1)] by blast
    then have "plink h (Some p) xs" by (simp add: packet_def)
    then have "packet h' p xs = packet h p xs" using packet_cong [of xs h' h p] assms(2) heldI [OF i] by blast
    then show "\<exists>xs. packet h' p xs" using xs by blast
  next
    fix i j p q xs ys
    assume "i \<noteq> j" "queue_at qs i p" "queue_at qs j q" "plink h' (Some p) xs" "plink h' (Some q) ys"
    then show "set xs \<inter> set ys = {}" using waits_disjoint [OF assms(1)] link by blast
  qed
qed

lemma waits_remove:
  assumes "waits h qs"
  shows "waits h (qs[i := None])" "queue_at qs i p \<Longrightarrow> plink h (Some p) xs \<Longrightarrow> set xs \<inter> held h (qs[i := None]) = {}"
proof -
  show "waits h (qs[i := None])"
  proof (rule waitsI)
    fix j p
    assume "queue_at (qs[i := None]) j p"
    then show "\<exists>xs. packet h p xs" using waitsD [OF assms, of j p] by simp
  next
    fix j k p q xs ys
    assume "j \<noteq> k" "queue_at (qs[i := None]) j p" "queue_at (qs[i := None]) k q" "plink h (Some p) xs" "plink h (Some q) ys"
    then show "set xs \<inter> set ys = {}" using waits_disjoint [OF assms, of j k p q xs ys] by simp
  qed
  assume i: "queue_at qs i p" "plink h (Some p) xs"
  then have "set xs \<inter> set ys = {}" if "j \<noteq> i" "queue_at qs j q" "plink h (Some q) ys" for j q ys
    using waits_disjoint [OF assms] that by metis
  then show "set xs \<inter> held h (qs[i := None]) = {}" unfolding held_def by auto
qed

lemma waits_add:
  assumes "waits h (qs[i := None])" "packet h p xs" "set xs \<inter> held h (qs[i := None]) = {}"
  shows "waits h (qs[i := Some p])"
proof (rule waitsI)
  fix j q
  assume "queue_at (qs[i := Some p]) j q"
  then show "\<exists>xs. packet h q xs" using assms(2) waitsD [OF assms(1), of j q] by (auto split: if_splits)
next
  fix j k q r ys zs
  assume *: "j \<noteq> k" "queue_at (qs[i := Some p]) j q" "queue_at (qs[i := Some p]) k r" "plink h (Some q) ys" "plink h (Some r) zs"
  have link: "ys = xs" if "plink h (Some p) ys" for ys using that assms(2) plink_unique by (auto simp: packet_def)
  have other: "set xs \<inter> set ys = {}" if "j \<noteq> i" "queue_at qs j q" "plink h (Some q) ys" for j q ys
    using assms(3) heldI [of "qs[i := None]" j q h ys] that by auto
  consider "j = i" "k \<noteq> i" | "k = i" "j \<noteq> i" | "j \<noteq> i" "k \<noteq> i" using *(1) by blast
  then show "set ys \<inter> set zs = {}"
  proof cases
    case 1
    then show ?thesis using link [of ys] other [of k r zs] * by simp
  next
    case 2
    then show ?thesis using link [of zs] other [of j q ys] * by auto
  next
    case 3
    then show ?thesis using waits_disjoint [OF assms(1), of j k q r ys zs] * by simp
  qed
qed

section \<open>The invariant\<close>

definition arp_ok :: "('w \<Rightarrow> bool) \<Rightarrow> 'w arp \<Rightarrow> bool" where
  "arp_ok low_ok s \<longleftrightarrow> table_ok (arp_table s) \<and> waits (aheap s) (map aq (arp_table s)) \<and> unat (etharp_cached_entry s) < ARP_TABLE_SIZE \<and> low_ok (low s) \<and>
     (\<forall>en \<in> set (arp_table s). live en \<longrightarrow> (\<exists>n nf. anetif en = Some n \<and> nifs s n = Some nf \<and> netif_ok nf))"

lemma arp_okD:
  assumes "arp_ok low_ok s"
  shows "table_ok (arp_table s)" "length (arp_table s) = ARP_TABLE_SIZE" "waits (aheap s) (map aq (arp_table s))" "low_ok (low s)"
    "unat (etharp_cached_entry s) < ARP_TABLE_SIZE"
  using assms table_okD(1) by (auto simp: arp_ok_def)

lemma arp_ok_netif: "arp_ok low_ok s \<Longrightarrow> i < ARP_TABLE_SIZE \<Longrightarrow> live (arp_table s ! i) \<Longrightarrow> \<exists>n nf. anetif (arp_table s ! i) = Some n \<and> nifs s n = Some nf \<and> netif_ok nf"
  using arp_okD(2) [of low_ok s] by (auto simp: arp_ok_def dest!: bspec [OF _ nth_mem])

lemma free_packet:
  assumes "packet h p xs"
  shows "\<exists>c. pbuf_free h (Some p) = Some (c, freed h xs)"
  using pbuf_free_loop_freed [of h "Some p" xs 0] assms by (simp add: pbuf_free_def packet_def)

lemma unqueued_eq: "packet h p xs \<Longrightarrow> unqueued h (Some p) = freed h xs"
  using free_packet by (fastforce simp: unqueued_def)

lemma arp_ok_queues:
  assumes "arp_ok low_ok s"
  shows "queues_free (aheap s) (arp_table s)" "i < ARP_TABLE_SIZE \<Longrightarrow> aq (arp_table s ! i) = Some p \<Longrightarrow> \<exists>xs. packet (aheap s) p xs"
proof -
  show *: "\<exists>xs. packet (aheap s) p xs" if "i < ARP_TABLE_SIZE" "aq (arp_table s ! i) = Some p" for i p
    using waitsD [OF arp_okD(3) [OF assms], of i p] that arp_okD(2) [OF assms] by (simp add: queue_at_def)
  show "queues_free (aheap s) (arp_table s)"
    unfolding queues_free_def
  proof (intro ballI allI impI)
    fix en p
    assume "en \<in> set (arp_table s)" "aq en = Some p"
    then obtain xs where "packet (aheap s) p xs" using * arp_okD(2) [OF assms] by (metis in_set_conv_nth)
    from free_packet [OF this] show "pbuf_free (aheap s) (Some p) \<noteq> None" by auto
  qed
qed

text \<open>One entry changes, and no longer has a packet: what is left in the table stays as it is if the buffers of the other waiting packets do.\<close>

lemma arp_ok_change:
  assumes "arp_ok low_ok s" "i < ARP_TABLE_SIZE" "aq en = None" "table_ok ((arp_table s)[i := en])"
    and "live en \<Longrightarrow> \<exists>n nf. anetif en = Some n \<and> nifs s n = Some nf \<and> netif_ok nf"
    and "\<And>x. x \<in> held (aheap s) ((map aq (arp_table s))[i := None]) \<Longrightarrow> h' x = aheap s x" "low_ok w'"
  shows "arp_ok low_ok (s\<lparr>arp_table := (arp_table s)[i := en], aheap := h', low := w'\<rparr>)"
proof -
  have "map aq ((arp_table s)[i := en]) = (map aq (arp_table s))[i := None]" using assms(3) by (simp add: map_update)
  moreover have "waits h' ((map aq (arp_table s))[i := None])"
    using waits_cong(1) [OF waits_remove(1) [OF arp_okD(3) [OF assms(1)]] assms(6)] by blast
  moreover have "\<exists>n nf. anetif x = Some n \<and> nifs s n = Some nf \<and> netif_ok nf" if "x \<in> set ((arp_table s)[i := en])" "live x" for x
    using that assms(1,5) set_update_subset_insert [of "arp_table s" i en] by (auto simp: arp_ok_def)
  ultimately show ?thesis using assms(1,4,7) by (auto simp: arp_ok_def)
qed

lemma held_removed:
  assumes "arp_ok low_ok s" "i < ARP_TABLE_SIZE" "aq (arp_table s ! i) = Some p" "packet (aheap s) p xs"
  shows "x \<in> held (aheap s) ((map aq (arp_table s))[i := None]) \<Longrightarrow> x \<notin> set xs"
  using waits_remove(2) [OF arp_okD(3) [OF assms(1)], of i p xs] assms(2-4) arp_okD(2) [OF assms(1)] by (auto simp: queue_at_def packet_def)

lemma unqueued_held:
  assumes "arp_ok low_ok s" "i < ARP_TABLE_SIZE" "x \<in> held (aheap s) ((map aq (arp_table s))[i := None])"
  shows "unqueued (aheap s) (aq (arp_table s ! i)) x = aheap s x"
proof (cases "aq (arp_table s ! i)")
  case (Some p)
  then obtain xs where xs: "packet (aheap s) p xs" using arp_ok_queues(2) [OF assms(1,2)] by blast
  then show ?thesis using held_removed [OF assms(1,2) Some xs assms(3)] Some unqueued_eq [OF xs] freed_other by auto
qed (simp add: unqueued_def)

lemma free_entry_ok:
  assumes "arp_ok low_ok s" "i < ARP_TABLE_SIZE"
  shows "\<exists>s'. etharp_free_entry i s = Some s' \<and> arp_ok low_ok s' \<and>
    s' = s\<lparr>arp_table := (arp_table s)[i := (arp_table s ! i)\<lparr>aq := None, astate := ETHARP_STATE_EMPTY\<rparr>], aheap := unqueued (aheap s) (aq (arp_table s ! i))\<rparr>"
proof -
  let ?en = "(arp_table s ! i)\<lparr>aq := None, astate := ETHARP_STATE_EMPTY\<rparr>"
  have "entry_ok ?en" using table_okD(2) [OF arp_okD(1) [OF assms(1)] assms(2)] by (simp add: entry_ok_def)
  then have "table_ok ((arp_table s)[i := ?en])" by (intro table_ok_keep [OF arp_okD(1) [OF assms(1)] assms(2)]) simp_all
  then have "arp_ok low_ok (s\<lparr>arp_table := (arp_table s)[i := ?en], aheap := unqueued (aheap s) (aq (arp_table s ! i)), low := low s\<rparr>)"
    using unqueued_held [OF assms] arp_okD(4) [OF assms(1)] by (intro arp_ok_change [OF assms]) simp_all
  then show ?thesis using free_entry_eq [of i s] arp_ok_queues(1) [OF assms(1)] arp_okD(2) [OF assms(1)] assms(2) by simp
qed

section \<open>Updates\<close>

lemma u8_Suc_zero: "(x :: u8) + 1 = 0 \<longleftrightarrow> x = 255"
  by (simp add: word_unat_eq_iff unat_u8_add)

definition resolved :: "nat \<Rightarrow> u32 \<Rightarrow> bytes \<Rightarrow> arp_entry \<Rightarrow> arp_entry" where
  "resolved n ip mac en = en\<lparr>aq := None, aip := ip, anetif := Some n, ethaddr := mac, ctime := 0, astate := ETHARP_STATE_STABLE\<rparr>"

definition unicast :: "netif \<Rightarrow> u32 \<Rightarrow> bool" where
  "unicast nf ip \<longleftrightarrow> ip \<noteq> IPADDR_ANY \<and> \<not> ip4_addr_isbroadcast ip nf \<and> \<not> ip4_addr_ismulticast ip"

text \<open>The packet that waits on an entry, as the frame in which it goes to a hardware address.\<close>

definition waiting_frame :: "heap \<Rightarrow> netif \<Rightarrow> bytes \<Rightarrow> arp_entry \<Rightarrow> bytes list" where
  "waiting_frame h nf mac en = (case aq en of
     None \<Rightarrow> []
   | Some p \<Rightarrow> if headroom h p then [mac @ hwaddr nf @ [8, 0] @ packet_data h p] else [])"

text \<open>The entry for an address: the one that has it, or the one that is given up for it.\<close>

definition slot :: "arp_entry list \<Rightarrow> nat \<Rightarrow> u32 \<Rightarrow> nat \<Rightarrow> bool" where
  "slot tbl n ip i \<longleftrightarrow> i < length tbl \<and> (if list_ex (has_key n ip) tbl then has_key n ip (tbl ! i) else victim tbl i)"

lemma entry_ok_resolved: "length mac = 6 \<Longrightarrow> entry_ok (resolved n ip mac en)" "is_stable (resolved n ip mac en)"
  by (simp_all add: entry_ok_def resolved_def is_stable_def)

lemma slot_other_keys:
  assumes "table_ok tbl" "slot tbl n ip i" "j < ARP_TABLE_SIZE" "j \<noteq> i"
  shows "\<not> has_key n ip (tbl ! j)"
proof
  assume k: "has_key n ip (tbl ! j)"
  have l: "length tbl = ARP_TABLE_SIZE" by (rule table_okD [OF assms(1)])
  then have "list_ex (has_key n ip) tbl" using k assms(3) by (auto simp: list_ex_length)
  then have i: "i < ARP_TABLE_SIZE" "has_key n ip (tbl ! i)" using assms(2) l by (simp_all add: slot_def)
  then have "same_key (tbl ! i) (tbl ! j)" using k by (auto simp: same_key_def has_key_def)
  then show False using table_okD(3) [OF assms(1) i(1) assms(3)] assms(4) by blast
qed

lemma table_ok_resolved:
  assumes "table_ok tbl" "slot tbl n ip i" "length mac = 6"
  shows "table_ok (tbl[i := resolved n ip mac (tbl ! i)])"
proof (rule table_ok_upd [OF assms(1) entry_ok_resolved(1) [OF assms(3)]])
  fix j
  assume "j < ARP_TABLE_SIZE" "j \<noteq> i"
  from slot_other_keys [OF assms(1,2) this] show "\<not> same_key (resolved n ip mac (tbl ! i)) (tbl ! j)"
    by (auto simp: same_key_def has_key_def resolved_def)
qed

context link_layer
begin

text \<open>A waiting packet is sent and given up; only its own buffers change.\<close>

lemma send_waiting:
  assumes "nifs s n = Some nf" "netif_ok nf" "packet (aheap s) p xs" "low_ok (low s)" "length mac = 6"
  shows "\<exists>r c h1 h2 w'. ethernet_output e n p (hwaddr nf) mac ETHTYPE_IP s = Some (r, s\<lparr>aheap := h1, low := w'\<rparr>) \<and>
    pbuf_free h1 (Some p) = Some (c, h2) \<and> (\<forall>x. x \<notin> set xs \<longrightarrow> h2 x = aheap s x) \<and> low_ok w' \<and>
    offers full accepts (low s) (if headroom (aheap s) p then [mac @ hwaddr nf @ [8, 0] @ packet_data (aheap s) p] else []) w'"
proof -
  obtain b xs' where b: "aheap s p = Some b" "xs = p # xs'" by (rule packetE [OF assms(3)])
  have len: "length (hwaddr nf) = 6" using assms(2) by (simp add: netif_ok_def)
  have d: "packet_data (aheap s) p = pdata (aheap s) xs" using packet_data_eq assms(3) by (simp add: packet_def)
  note out = ethernet_output_sends [OF assms(1,2,3) b(1) assms(4,5) len, of ETHTYPE_IP]
  show ?thesis
  proof (cases "headroom (aheap s) p")
    case True
    define b' where "b' = eth_write mac (hwaddr nf) ETHTYPE_IP b"
    obtain w' r where o: "ethernet_output e n p (hwaddr nf) mac ETHTYPE_IP s = Some (if full (low s) then ERR_WOULDBLOCK else ERR_OK,
        s\<lparr>aheap := (aheap s)(p \<mapsto> b'\<lparr>ref := r\<rparr>), low := w'\<rparr>)" "r = (if full (low s) then ref b else ref b + 1)"
      "offered full accepts (low s) (mac @ hwaddr nf @ [8, 0] @ pdata (aheap s) xs) w'" "low_ok w'"
      using out True by (auto simp: htons_consts b'_def)
    have pk: "packet ((aheap s)(p \<mapsto> b')) p xs" using eth_write_chain(3) [OF assms(3) b(1) True assms(5) len] by (simp add: b'_def)
    have "ref b \<noteq> 0" "ref b \<noteq> 255" by (rule packetE [OF assms(3)], use b(1) in simp)+
    then have r: "r \<noteq> 0" using o(2) u8_Suc_zero by (simp split: if_splits)
    have "plink ((aheap s)(p \<mapsto> b'\<lparr>ref := r\<rparr>)) (Some p) xs" "list_all (freeable ((aheap s)(p \<mapsto> b'\<lparr>ref := r\<rparr>))) xs"
      using pk r b(2) chain_upd_out(2) [of p xs' "aheap s"] by (auto simp: packet_def list_all_iff freeable_def split: if_splits)
    from pbuf_free_loop_freed [OF this, of 0] have "\<exists>c. pbuf_free ((aheap s)(p \<mapsto> b'\<lparr>ref := r\<rparr>)) (Some p) = Some (c, freed ((aheap s)(p \<mapsto> b'\<lparr>ref := r\<rparr>)) xs)"
      by (simp add: pbuf_free_def)
    moreover have "freed ((aheap s)(p \<mapsto> b'\<lparr>ref := r\<rparr>)) xs x = aheap s x" if "x \<notin> set xs" for x using that freed_other b(2) by auto
    ultimately show ?thesis
      using o True d by (elim exE, intro exI conjI) (assumption | simp)+
  next
    case False
    obtain c where "pbuf_free (aheap s) (Some p) = Some (c, freed (aheap s) xs)" using free_packet [OF assms(3)] by blast
    then show ?thesis
      using False out freed_other [of _ xs "aheap s"] assms(4)
      by (intro exI [of _ ERR_BUF] exI [of _ c] exI [of _ "aheap s"] exI [of _ "freed (aheap s) xs"] exI [of _ "low s"]) simp
  qed
qed

lemma update_found:
  assumes ok: "arp_ok low_ok s" and nf: "nifs s n = Some nf" "netif_ok nf" "unicast nf ip" and mac: "length mac = 6"
    and i: "i < ARP_TABLE_SIZE" "has_key n ip (arp_table s ! i)"
  shows "\<exists>h' w'. etharp_update_arp_entry e n ip mac fl s =
      Some (ERR_OK, s\<lparr>arp_table := (arp_table s)[i := resolved n ip mac (arp_table s ! i)], aheap := h', low := w'\<rparr>) \<and>
    (\<forall>x. (\<forall>p xs. aq (arp_table s ! i) = Some p \<longrightarrow> plink (aheap s) (Some p) xs \<longrightarrow> x \<notin> set xs) \<longrightarrow> h' x = aheap s x) \<and>
    offers full accepts (low s) (waiting_frame (aheap s) nf mac (arp_table s ! i)) w' \<and> low_ok w'"
proof -
  let ?en = "arp_table s ! i"
  have f: "etharp_find_entry (Some ip) fl (Some n) s = Some (Inr i, s)" by (rule find_entry_found [OF arp_okD(1) [OF ok] i])
  have l: "i < length (arp_table s)" using i(1) arp_okD(2) [OF ok] by simp
  have res: "?en\<lparr>astate := ETHARP_STATE_STABLE, anetif := Some n, ethaddr := mac, ctime := 0, aq := None\<rparr> = resolved n ip mac ?en"
    using i(2) by (cases ?en) (simp add: resolved_def has_key_def)
  show ?thesis
  proof (cases "aq ?en")
    case None
    then have "?en\<lparr>astate := ETHARP_STATE_STABLE, anetif := Some n, ethaddr := mac, ctime := 0\<rparr> = resolved n ip mac ?en" using res by (cases ?en) simp
    then show ?thesis
      using f l nf None arp_okD(4) [OF ok]
      by (intro exI [of _ "aheap s"] exI [of _ "low s"]) (simp add: etharp_update_arp_entry_def unicast_def netif_ok_def entry_def set_entry_def waiting_frame_def)
  next
    case (Some p)
    then obtain xs where xs: "packet (aheap s) p xs" using arp_ok_queues(2) [OF ok i(1)] by blast
    define s1 where "s1 = s\<lparr>arp_table := (arp_table s)[i := resolved n ip mac ?en]\<rparr>"
    have s1: "aheap s1 = aheap s" "low s1 = low s" "nifs s1 = nifs s" by (simp_all add: s1_def)
    obtain r c h1 h2 w' where o: "ethernet_output e n p (hwaddr nf) mac ETHTYPE_IP s1 = Some (r, s1\<lparr>aheap := h1, low := w'\<rparr>)"
      "pbuf_free h1 (Some p) = Some (c, h2)" "\<forall>x. x \<notin> set xs \<longrightarrow> h2 x = aheap s x" "low_ok w'"
      "offers full accepts (low s) (if headroom (aheap s) p then [mac @ hwaddr nf @ [8, 0] @ packet_data (aheap s) p] else []) w'"
      using send_waiting [of s1 n nf p xs mac, unfolded s1, OF nf(1,2) xs arp_okD(4) [OF ok] mac] by blast
    have "etharp_update_arp_entry e n ip mac fl s = Some (ERR_OK, s1\<lparr>aheap := h2, low := w'\<rparr>)"
      using f l nf Some o(1,2) res by (simp add: etharp_update_arp_entry_def unicast_def netif_ok_def entry_def set_entry_def s1_def)
    then show ?thesis using o(3-5) Some xs by (intro exI [of _ h2] exI [of _ w']) (auto simp: s1_def waiting_frame_def packet_def)
  qed
qed

lemma update_new:
  assumes ok: "arp_ok low_ok s" and nf: "nifs s n = Some nf" "netif_ok nf" "unicast nf ip" and new: "\<not> list_ex (has_key n ip) (arp_table s)"
  shows "\<exists>i. victim (arp_table s) i \<and> etharp_update_arp_entry e n ip mac ETHARP_FLAG_TRY_HARD s =
    Some (ERR_OK, s\<lparr>arp_table := (arp_table s)[i := resolved n ip mac (arp_table s ! i)], aheap := unqueued (aheap s) (aq (arp_table s ! i))\<rparr>)"
proof -
  have "list_all (\<lambda>en. \<not> has_key n ip en) (arp_table s)" using new by (auto simp: list_all_iff list_ex_iff)
  from find_entry_new [OF arp_okD(1) [OF ok] this arp_ok_queues(1) [OF ok]] obtain i where i: "victim (arp_table s) i"
    "etharp_find_entry (Some ip) ETHARP_FLAG_TRY_HARD (Some n) s =
      Some (Inr i, s\<lparr>arp_table := (arp_table s)[i := renewed n ip (arp_table s ! i)], aheap := unqueued (aheap s) (aq (arp_table s ! i))\<rparr>)" .
  then have "i < length (arp_table s)" by (simp add: victim_def)
  moreover have "(renewed n ip en)\<lparr>astate := ETHARP_STATE_STABLE, anetif := Some n, ethaddr := mac, ctime := 0\<rparr> = resolved n ip mac en" for en
    by (simp add: renewed_def resolved_def)
  moreover have "aq (renewed n ip en) = None" for en by (simp add: renewed_def)
  ultimately show ?thesis
    using i nf by (auto simp: etharp_update_arp_entry_def unicast_def netif_ok_def entry_def set_entry_def)
qed

text \<open>
  Both together: the entry of the address, or one given up for it, is resolved; the packet that waits on it is sent. Only buffers of waiting packets change.
\<close>

lemma update_slot:
  assumes ok: "arp_ok low_ok s" and nf: "nifs s n = Some nf" "netif_ok nf" "unicast nf ip" and mac: "length mac = 6"
    and fl: "list_ex (has_key n ip) (arp_table s) \<or> fl = ETHARP_FLAG_TRY_HARD"
  shows "\<exists>i h' w' s'. slot (arp_table s) n ip i \<and> etharp_update_arp_entry e n ip mac fl s = Some (ERR_OK, s') \<and> arp_ok low_ok s' \<and>
    s' = s\<lparr>arp_table := (arp_table s)[i := resolved n ip mac (arp_table s ! i)], aheap := h', low := w'\<rparr> \<and>
    (\<forall>x. x \<notin> held (aheap s) (map aq (arp_table s)) \<longrightarrow> h' x = aheap s x) \<and>
    (\<forall>x \<in> held (aheap s) ((map aq (arp_table s))[i := None]). h' x = aheap s x) \<and>
    offers full accepts (low s) (if list_ex (has_key n ip) (arp_table s) then waiting_frame (aheap s) nf mac (arp_table s ! i) else []) w'"
proof -
  let ?tbl = "arp_table s" and ?qs = "map aq (arp_table s)"
  have l: "length ?tbl = ARP_TABLE_SIZE" by (rule arp_okD [OF ok])
  have inv: "arp_ok low_ok (s\<lparr>arp_table := ?tbl[i := resolved n ip mac (?tbl ! i)], aheap := h', low := w'\<rparr>)"
    if "slot ?tbl n ip i" "low_ok w'" "\<And>x. x \<in> held (aheap s) (?qs[i := None]) \<Longrightarrow> h' x = aheap s x" for i h' w'
    using arp_ok_change [OF ok _ _ table_ok_resolved [OF arp_okD(1) [OF ok] that(1) mac], of h' w'] that nf l by (auto simp: slot_def resolved_def)
  show ?thesis
  proof (cases "list_ex (has_key n ip) ?tbl")
    case True
    then obtain i where i: "i < ARP_TABLE_SIZE" "has_key n ip (?tbl ! i)" using l by (auto simp: list_ex_length)
    from update_found [OF ok nf mac i, of fl] obtain h' w' where u: "etharp_update_arp_entry e n ip mac fl s =
        Some (ERR_OK, s\<lparr>arp_table := ?tbl[i := resolved n ip mac (?tbl ! i)], aheap := h', low := w'\<rparr>)"
      "\<forall>x. (\<forall>p xs. aq (?tbl ! i) = Some p \<longrightarrow> plink (aheap s) (Some p) xs \<longrightarrow> x \<notin> set xs) \<longrightarrow> h' x = aheap s x"
      "offers full accepts (low s) (waiting_frame (aheap s) nf mac (?tbl ! i)) w'" "low_ok w'" by blast
    have s: "slot ?tbl n ip i" using i True l by (simp add: slot_def)
    have "h' x = aheap s x" if "x \<in> held (aheap s) (?qs[i := None])" for x
    proof (rule u(2) [rule_format])
      fix p xs
      assume p: "aq (?tbl ! i) = Some p" "plink (aheap s) (Some p) xs"
      then have "queue_at ?qs i p" using i(1) l by (simp add: queue_at_def)
      then show "x \<notin> set xs" using waits_remove(2) [OF arp_okD(3) [OF ok], of i p xs] p(2) that by blast
    qed
    moreover have "h' x = aheap s x" if "x \<notin> held (aheap s) ?qs" for x
    proof (rule u(2) [rule_format])
      fix p xs
      assume p: "aq (?tbl ! i) = Some p" "plink (aheap s) (Some p) xs"
      then have "queue_at ?qs i p" using i(1) l by (simp add: queue_at_def)
      then show "x \<notin> set xs" using heldI [OF _ p(2)] that by blast
    qed
    ultimately show ?thesis
      using u(1,3,4) s True inv [OF s u(4)] by (intro exI [of _ i] exI [of _ h'] exI [of _ w'] exI conjI) (assumption | rule refl | simp)+
  next
    case False
    with fl have f: "fl = ETHARP_FLAG_TRY_HARD" by blast
    from update_new [OF ok nf False, of mac] obtain i where u: "victim ?tbl i" "etharp_update_arp_entry e n ip mac fl s =
        Some (ERR_OK, s\<lparr>arp_table := ?tbl[i := resolved n ip mac (?tbl ! i)], aheap := unqueued (aheap s) (aq (?tbl ! i)), low := low s\<rparr>)" using f by auto
    have s: "slot ?tbl n ip i" and i: "i < ARP_TABLE_SIZE" using u(1) False l by (simp_all add: slot_def victim_def)
    have "unqueued (aheap s) (aq (?tbl ! i)) x = aheap s x" if "x \<notin> held (aheap s) ?qs" for x
    proof (cases "aq (?tbl ! i)")
      case (Some p)
      then obtain xs where xs: "packet (aheap s) p xs" using arp_ok_queues(2) [OF ok i] by blast
      then have "x \<notin> set xs" using heldI [of ?qs i p "aheap s" xs x] that Some i l by (auto simp: queue_at_def packet_def)
      then show ?thesis using unqueued_eq [OF xs] freed_other Some by simp
    qed (simp add: unqueued_def)
    then show ?thesis
      using u(2) s False inv [OF s arp_okD(4) [OF ok] unqueued_held [OF ok i]] unqueued_held [OF ok i]
      by (intro exI [of _ i] exI [of _ "unqueued (aheap s) (aq (?tbl ! i))"] exI [of _ "low s"] exI conjI) (assumption | rule refl | simp)+
  qed
qed

lemma update_ignored:
  assumes ok: "arp_ok low_ok s" and nf: "nifs s n = Some nf" "netif_ok nf"
  shows "\<not> unicast nf ip \<Longrightarrow> etharp_update_arp_entry e n ip mac fl s = Some (ERR_ARG, s)"
    "unicast nf ip \<Longrightarrow> \<not> list_ex (has_key n ip) (arp_table s) \<Longrightarrow> etharp_update_arp_entry e n ip mac ETHARP_FLAG_FIND_ONLY s = Some (ERR_MEM, s)"
proof -
  show "\<not> unicast nf ip \<Longrightarrow> etharp_update_arp_entry e n ip mac fl s = Some (ERR_ARG, s)"
    using nf by (auto simp: etharp_update_arp_entry_def unicast_def netif_ok_def)
  assume "unicast nf ip" "\<not> list_ex (has_key n ip) (arp_table s)"
  moreover have "list_all (\<lambda>en. \<not> has_key n ip en) (arp_table s)" using calculation(2) by (auto simp: list_all_iff list_ex_iff)
  ultimately show "etharp_update_arp_entry e n ip mac ETHARP_FLAG_FIND_ONLY s = Some (ERR_MEM, s)"
    using find_entry_only [OF arp_okD(1) [OF ok], of n ip] nf by (simp add: etharp_update_arp_entry_def unicast_def netif_ok_def)
qed

end

end
