(* ===== verification/Lwip_Etharp_Ops.thy ===== *)
theory Lwip_Etharp_Ops
  imports Lwip_Etharp_Update
begin

text \<open>
  The operations of the ARP module under the invariant: the timer, sending a packet to an IP address, received ARP packets and Ethernet frames.
\<close>

section \<open>Requests\<close>

lemma held_alloc: "waits h qs \<Longrightarrow> x \<in> held h qs \<Longrightarrow> h x \<noteq> None"
  using plink_alloc by (fastforce simp: held_def list_all_iff)

lemma arp_ok_ext:
  assumes "arp_ok low_ok s" "heap_ext (aheap s) h'" "low_ok w'"
  shows "arp_ok low_ok (s\<lparr>aheap := h', low := w'\<rparr>)"
proof -
  note w = arp_okD(3) [OF assms(1)]
  have "h' x = aheap s x" if "x \<in> held (aheap s) (map aq (arp_table s))" for x
    using held_alloc [OF w that] assms(2) by (simp add: heap_ext_def)
  from waits_cong(1) [OF w this] show ?thesis using assms(1,3) by (simp add: arp_ok_def)
qed

definition request_frame :: "netif \<Rightarrow> bytes \<Rightarrow> u32 \<Rightarrow> bytes" where
  "request_frame nf dst ip = arp_frame (hwaddr nf) dst ARP_REQUEST (hwaddr nf) (nip nf) ethzero ip"

context link_layer
begin

lemma request_sends:
  assumes "nifs s n = Some nf" "netif_ok nf" "low_ok (low s)" "length dst = 6"
  shows "\<exists>r h' w'. etharp_request_dst e n ip dst s = Some (r, s\<lparr>aheap := h', low := w'\<rparr>) \<and> heap_ext (aheap s) h' \<and> low_ok w' \<and>
    offers full accepts (low s) (if r = ERR_OK then [request_frame nf dst ip] else []) w' \<and> (r = ERR_OK \<or> r = ERR_MEM) \<and>
    (amalloc e (aheap s) 44 \<noteq> None \<longrightarrow> r = ERR_OK)"
proof -
  have len: "length (hwaddr nf) = 6" using assms(2) by (simp add: netif_ok_def)
  note raw = etharp_raw_sends [OF assms(1-3) len assms(4) len, of ethzero "nip nf" ip ARP_REQUEST]
  show ?thesis
  proof (cases "amalloc e (aheap s) 44 = None")
    case True
    then show ?thesis
      using raw assms(1,3) by (intro exI [of _ ERR_MEM] exI [of _ "aheap s"] exI [of _ "low s"]) (simp add: etharp_request_dst_def)
  next
    case False
    then obtain h' w' where "etharp_raw e n (hwaddr nf) dst (hwaddr nf) (nip nf) ethzero ip ARP_REQUEST s = Some (ERR_OK, s\<lparr>aheap := h', low := w'\<rparr>)"
      "offered full accepts (low s) (request_frame nf dst ip) w'" "low_ok w'" "heap_ext (aheap s) h'"
      using raw by (auto simp: request_frame_def)
    then show ?thesis
      using assms(1) by (intro exI [of _ ERR_OK] exI [of _ h'] exI [of _ w']) (simp add: etharp_request_dst_def)
  qed
qed

end

section \<open>The timer\<close>

definition aged :: "arp_entry \<Rightarrow> arp_entry" where
  "aged en =
    (if \<not> live en then en
     else if ctime en + 1 \<ge> ARP_MAXAGE \<or> pending en \<and> ctime en + 1 \<ge> ARP_MAXPENDING
     then en\<lparr>ctime := ctime en + 1, aq := None, astate := ETHARP_STATE_EMPTY\<rparr>
     else en\<lparr>ctime := ctime en + 1, astate := (case astate en of ETHARP_STATE_STABLE_REREQUESTING_1 \<Rightarrow> ETHARP_STATE_STABLE_REREQUESTING_2
       | ETHARP_STATE_STABLE_REREQUESTING_2 \<Rightarrow> ETHARP_STATE_STABLE | st \<Rightarrow> st)\<rparr>)"

lemma aged_live:
  assumes "entry_ok en"
  shows "live (aged en) \<longleftrightarrow> live en \<and> unat (ctime en) + 1 < (if pending en then 5 else 300)" "live (aged en) \<Longrightarrow> same_key (aged en) en"
    "live (aged en) \<Longrightarrow> unat (ctime (aged en)) = unat (ctime en) + 1" "live (aged en) \<Longrightarrow> pending (aged en) = pending en"
    "entry_ok (aged en)" "aged en = en \<or> aq (aged en) = None \<or> aq (aged en) = aq en" "live (aged en) \<Longrightarrow> aq (aged en) = aq en"
proof -
  have c: "live en \<Longrightarrow> unat (ctime en) < 300" using assms by (auto simp: entry_ok_def u16_less_nat)
  then have c1: "live en \<Longrightarrow> unat (ctime en + 1) = unat (ctime en) + 1" by (auto simp: unat_u16_add)
  then have a: "live en \<Longrightarrow> ctime en + 1 \<ge> ARP_MAXAGE \<longleftrightarrow> 300 \<le> unat (ctime en) + 1" "live en \<Longrightarrow> ctime en + 1 \<ge> ARP_MAXPENDING \<longleftrightarrow> 5 \<le> unat (ctime en) + 1"
    by (simp_all add: u16_le_nat)
  have st: "(case astate en of ETHARP_STATE_STABLE_REREQUESTING_1 \<Rightarrow> ETHARP_STATE_STABLE_REREQUESTING_2
       | ETHARP_STATE_STABLE_REREQUESTING_2 \<Rightarrow> ETHARP_STATE_STABLE | st \<Rightarrow> st) = ETHARP_STATE_EMPTY \<longleftrightarrow> \<not> live en"
    "(case astate en of ETHARP_STATE_STABLE_REREQUESTING_1 \<Rightarrow> ETHARP_STATE_STABLE_REREQUESTING_2
       | ETHARP_STATE_STABLE_REREQUESTING_2 \<Rightarrow> ETHARP_STATE_STABLE | st \<Rightarrow> st) = ETHARP_STATE_PENDING \<longleftrightarrow> pending en"
    by (cases "astate en"; simp)+
  show "live (aged en) \<longleftrightarrow> live en \<and> unat (ctime en) + 1 < (if pending en then 5 else 300)"
    using a c by (auto simp: aged_def st)
  show "live (aged en) \<Longrightarrow> same_key (aged en) en" by (auto simp: aged_def st same_key_def split: if_splits)
  show "live (aged en) \<Longrightarrow> unat (ctime (aged en)) = unat (ctime en) + 1" using c1 by (auto simp: aged_def split: if_splits)
  show "live (aged en) \<Longrightarrow> pending (aged en) = pending en" by (auto simp: aged_def st split: if_splits)
  show "entry_ok (aged en)" using assms a by (auto simp: aged_def entry_ok_def st not_le)
  show "aged en = en \<or> aq (aged en) = None \<or> aq (aged en) = aq en" by (auto simp: aged_def)
  show "live (aged en) \<Longrightarrow> aq (aged en) = aq en" by (auto simp: aged_def split: if_splits)
qed

text \<open>An entry keeps its packet.\<close>

lemma map_aq_keep: "i < length tbl \<Longrightarrow> aq en = aq (tbl ! i) \<Longrightarrow> map aq (tbl[i := en]) = map aq tbl"
  by (simp add: map_update list_update_same_conv)

lemma queues_free_keep: "queues_free h tbl \<Longrightarrow> map aq tbl' = map aq tbl \<Longrightarrow> queues_free h tbl'"
  unfolding queues_free_def by (metis (no_types, lifting) image_eqI image_iff list.set_map)

lemma arp_ok_keep:
  assumes "arp_ok low_ok s" "i < ARP_TABLE_SIZE" "aq en = aq (arp_table s ! i)" "table_ok ((arp_table s)[i := en])"
    and "live en \<Longrightarrow> \<exists>n nf. anetif en = Some n \<and> nifs s n = Some nf \<and> netif_ok nf"
  shows "arp_ok low_ok (s\<lparr>arp_table := (arp_table s)[i := en]\<rparr>)"
proof -
  have "map aq ((arp_table s)[i := en]) = map aq (arp_table s)" using assms(2,3) arp_okD(2) [OF assms(1)] by (intro map_aq_keep) simp_all
  moreover have "\<exists>n nf. anetif x = Some n \<and> nifs s n = Some nf \<and> netif_ok nf" if "x \<in> set ((arp_table s)[i := en])" "live x" for x
    using that assms(1,5) set_update_subset_insert [of "arp_table s" i en] by (auto simp: arp_ok_def)
  ultimately show ?thesis using assms(1,4) by (auto simp: arp_ok_def)
qed

context link_layer
begin

lemma tmr_entry_ages:
  assumes ok: "arp_ok low_ok s" and i: "i < ARP_TABLE_SIZE"
  shows "\<exists>s'. etharp_tmr_entry e i s = Some s' \<and> arp_ok low_ok s' \<and> arp_table s' = (arp_table s)[i := aged (arp_table s ! i)] \<and> nifs s' = nifs s"
proof -
  define en where "en = arp_table s ! i"
  have l: "length (arp_table s) = ARP_TABLE_SIZE" by (rule arp_okD [OF ok])
  have eok: "entry_ok en" using table_okD(2) [OF arp_okD(1) [OF ok] i] by (simp add: en_def)
  show ?thesis
  proof (cases "live en")
    case False
    then have "aged en = en" by (simp add: aged_def)
    then show ?thesis using False ok i l by (auto simp: etharp_tmr_entry_def entry_def en_def)
  next
    case live: True
    define en1 where "en1 = en\<lparr>ctime := ctime en + 1\<rparr>"
    obtain n nf where nf: "anetif en = Some n" "nifs s n = Some nf" "netif_ok nf" using arp_ok_netif [OF ok i] live by (auto simp: en_def)
    show ?thesis
    proof (cases "ctime en + 1 \<ge> ARP_MAXAGE \<or> pending en \<and> ctime en + 1 \<ge> ARP_MAXPENDING")
      case True
      define s1 where "s1 = s\<lparr>arp_table := (arp_table s)[i := en1]\<rparr>"
      have ag: "aged en = en1\<lparr>aq := None, astate := ETHARP_STATE_EMPTY\<rparr>" using live True by (auto simp: aged_def en1_def)
      have q: "queues_free (aheap s1) (arp_table s1)"
        using queues_free_keep [OF arp_ok_queues(1) [OF ok] map_aq_keep [of i "arp_table s" en1]] i l by (simp add: s1_def en1_def en_def)
      have "etharp_free_entry i s1 = Some (s\<lparr>arp_table := (arp_table s)[i := aged en], aheap := unqueued (aheap s) (aq en)\<rparr>)"
        using free_entry_eq [OF _ q, of i] i l ag by (simp add: s1_def en1_def)
      moreover have "table_ok ((arp_table s)[i := aged en])"
        using aged_live(5) [OF eok] ag by (intro table_ok_keep [OF arp_okD(1) [OF ok] i]) simp_all
      then have "arp_ok low_ok (s\<lparr>arp_table := (arp_table s)[i := aged en], aheap := unqueued (aheap s) (aq en), low := low s\<rparr>)"
        using ag unqueued_held [OF ok i] arp_okD(4) [OF ok] by (intro arp_ok_change [OF ok i]) (simp_all add: en_def)
      moreover have "etharp_tmr_entry e i s = etharp_free_entry i s1"
        using live True i l by (simp add: etharp_tmr_entry_def entry_def set_entry_def en1_def s1_def flip: en_def)
      ultimately show ?thesis by (simp add: en_def)
    next
      case False
      then have lv: "live (aged en)" using live by (cases "astate en") (auto simp: aged_def)
      define s1 where "s1 = s\<lparr>arp_table := (arp_table s)[i := aged en]\<rparr>"
      have "table_ok ((arp_table s)[i := aged en])"
        using aged_live(2,5) [OF eok] by (intro table_ok_keep [OF arp_okD(1) [OF ok] i]) (simp_all add: en_def)
      then have ok1: "arp_ok low_ok s1"
        unfolding s1_def using aged_live(2,7) [OF eok] lv nf by (intro arp_ok_keep [OF ok i]) (auto simp: en_def same_key_def)
      consider (pending) "pending en" | (rest) "\<not> pending en" by blast
      then show ?thesis
      proof cases
        case rest
        have same: "astate en = ETHARP_STATE_STABLE \<Longrightarrow> en\<lparr>ctime := c, astate := ETHARP_STATE_STABLE\<rparr> = en\<lparr>ctime := c\<rparr>" for c by (cases en) simp
        from rest have "etharp_tmr_entry e i s = Some s1"
          using False live i l
          by (cases "astate en") (auto simp: etharp_tmr_entry_def entry_def set_entry_def aged_def Let_def s1_def same simp flip: en_def)
        then show ?thesis using ok1 by (auto simp: s1_def en_def)
      next
        case pending
        then have ag: "aged en = en1" using False live by (auto simp: aged_def en1_def)
        obtain r h' w' where rq: "etharp_request_dst e n (aip en) ethbroadcast s1 = Some (r, s1\<lparr>aheap := h', low := w'\<rparr>)" "heap_ext (aheap s1) h'" "low_ok w'"
          using request_sends [of s1 n nf ethbroadcast "aip en"] nf arp_okD(4) [OF ok1] by (auto simp: s1_def)
        have "arp_ok low_ok (s1\<lparr>aheap := h', low := w'\<rparr>)" using arp_ok_ext [OF ok1] rq by blast
        moreover have "etharp_tmr_entry e i s = Some (s1\<lparr>aheap := h', low := w'\<rparr>)"
          using False live pending i l nf(1) rq(1) ag
          by (simp add: etharp_tmr_entry_def entry_def set_entry_def etharp_request_def en1_def s1_def flip: en_def)
        ultimately show ?thesis by (auto simp: s1_def en_def)
      qed
    qed
  qed
qed

lemma tmr_loop_ages:
  assumes "arp_ok low_ok s" "k \<le> ARP_TABLE_SIZE"
  shows "\<exists>s'. etharp_tmr_loop e [k..<ARP_TABLE_SIZE] s = Some s' \<and> arp_ok low_ok s' \<and>
    arp_table s' = take k (arp_table s) @ map aged (drop k (arp_table s)) \<and> nifs s' = nifs s"
  using assms
proof (induction "ARP_TABLE_SIZE - k" arbitrary: k s)
  case 0
  then show ?case using arp_okD(2) [OF 0(2)] by simp
next
  case (Suc m)
  then have k: "k < ARP_TABLE_SIZE" "m = ARP_TABLE_SIZE - Suc k" by simp_all
  obtain s1 where s1: "etharp_tmr_entry e k s = Some s1" "arp_ok low_ok s1" "arp_table s1 = (arp_table s)[k := aged (arp_table s ! k)]" "nifs s1 = nifs s"
    using tmr_entry_ages [OF Suc.prems(1) k(1)] by blast
  have l: "k < length (arp_table s)" using arp_okD(2) [OF Suc.prems(1)] k(1) by simp
  have "[k..<ARP_TABLE_SIZE] = k # [Suc k..<ARP_TABLE_SIZE]" using k(1) by (rule upt_conv_Cons)
  moreover have "take (Suc k) (arp_table s1) @ map aged (drop (Suc k) (arp_table s1)) = take k (arp_table s) @ map aged (drop k (arp_table s))"
    using l by (simp add: s1(3) take_Suc_conv_app_nth Cons_nth_drop_Suc [symmetric])
  ultimately show ?case using Suc.hyps(1) [OF k(2) s1(2)] k(1) s1(1,4) by auto
qed

lemma tmr_ages:
  assumes "arp_ok low_ok s"
  shows "\<exists>s'. etharp_tmr e s = Some s' \<and> arp_ok low_ok s' \<and> arp_table s' = map aged (arp_table s) \<and> nifs s' = nifs s"
  using tmr_loop_ages [OF assms, of 0] by (simp add: etharp_tmr_def)

end

end
