(* ===== verification/Lwip_Etharp_Output.thy ===== *)
theory Lwip_Etharp_Output
  imports Lwip_Etharp_Ops
begin

text \<open>Sending packets to IP addresses: \<open>etharp_output\<close> and \<open>etharp_query\<close> under the invariant.\<close>

section \<open>Packets handed over for sending\<close>

text \<open>
  A packet that IP hands over: it does not wait in the table already, its data does not change after the call (no \<open>PBUF_REF\<close>), and it has room for two more references.
\<close>

definition handed :: "'w arp \<Rightarrow> nat \<Rightarrow> nat list \<Rightarrow> bool" where
  "handed s q xs \<longleftrightarrow> packet (aheap s) q xs \<and> set xs \<inter> held (aheap s) (map aq (arp_table s)) = {} \<and>
     (\<forall>x \<in> set xs. \<forall>b. aheap s x = Some b \<longrightarrow> type_internal b AND 0x40 = 0) \<and> (\<forall>b. aheap s q = Some b \<longrightarrow> ref b \<noteq> 254)"

lemma packet_alloc: "packet h q xs \<Longrightarrow> x \<in> set xs \<Longrightarrow> h x \<noteq> None"
  using plink_alloc by (auto simp: packet_def list_all_iff)

lemma packet_head: "packet h q xs \<Longrightarrow> q \<in> set xs"
  by (erule packetE) simp

lemma handed_keep:
  assumes "arp_ok low_ok s" "handed s q xs" "heap_ext (aheap s) (aheap s')" "map aq (arp_table s') = map aq (arp_table s)"
  shows "handed s' q xs" "packet_data (aheap s') q = packet_data (aheap s) q" "headroom (aheap s') q = headroom (aheap s) q" "aheap s' q = aheap s q"
proof -
  have pk: "packet (aheap s) q xs" using assms(2) by (simp add: handed_def)
  have eq: "x \<in> set xs \<Longrightarrow> aheap s' x = aheap s x" for x using packet_alloc [OF pk] assms(3) by (simp add: heap_ext_def)
  then show q: "aheap s' q = aheap s q" using packet_head [OF pk] by blast
  have pk': "packet (aheap s') q xs" using packet_cong [of xs "aheap s'" "aheap s" q] eq pk by blast
  have "aheap s' x = aheap s x" if "x \<in> held (aheap s) (map aq (arp_table s))" for x
    using held_alloc [OF arp_okD(3) [OF assms(1)] that] assms(3) by (simp add: heap_ext_def)
  from waits_cong(2) [OF arp_okD(3) [OF assms(1)] this]
  have "held (aheap s') (map aq (arp_table s')) = held (aheap s) (map aq (arp_table s))" using assms(4) by simp
  moreover have "\<forall>x \<in> set xs. \<forall>b. aheap s' x = Some b \<longrightarrow> type_internal b AND 0x40 = 0" using assms(2) eq by (simp add: handed_def)
  ultimately show "handed s' q xs" using assms(2) pk' q by (simp add: handed_def)
  have "pdata (aheap s') xs = pdata (aheap s) xs" using chain_cong(1) [of xs "aheap s'" "aheap s"] eq by blast
  moreover have "packet_data (aheap s') q = pdata (aheap s') xs" "packet_data (aheap s) q = pdata (aheap s) xs"
    using packet_data_eq pk pk' by (simp_all add: packet_def)
  ultimately show "packet_data (aheap s') q = packet_data (aheap s) q" by simp
  show "headroom (aheap s') q = headroom (aheap s) q" using q by (simp add: headroom_def)
qed

lemma copy_needed_none:
  assumes "pchain h p xs" "\<forall>x \<in> set (tl xs). \<forall>b. h x = Some b \<longrightarrow> plen b \<noteq> 0" "\<forall>x \<in> set xs. \<forall>b. h x = Some b \<longrightarrow> type_internal b AND 0x40 = 0"
  shows "copy_needed_loop h p = Some False"
  using assms
proof (induction xs arbitrary: p)
  case Nil
  then show ?case by (subst copy_needed_loop.simps) simp
next
  case (Cons x xs)
  then obtain b where b: "p = Some x" "h x = Some b" "plink h (pnext b) xs" "pwf h xs" "unat (tot_len b) = unat (plen b) + length (pdata h xs)"
    by (auto split: option.splits)
  have "pnext b = None" if "plen b = tot_len b"
  proof (cases xs)
    case Nil
    then show ?thesis using b(3) by simp
  next
    case (Cons y ys)
    then obtain c where c: "h y = Some c" "poff c + unat (plen c) \<le> length (pmem c)" using b(4) by (auto split: option.splits)
    then have "plen c \<noteq> 0" using Cons.prems(2) Cons by simp
    then have "0 < length (pdata h xs)" using Cons c by (simp add: length_bdata unat_gt_0)
    then show ?thesis using b(5) that by simp
  qed
  moreover have "copy_needed_loop h (pnext b) = Some False"
    using Cons.IH [of "pnext b"] b Cons.prems by (cases xs) auto
  ultimately show ?case using b(1,2) Cons.prems(3) by (subst copy_needed_loop.simps) auto
qed

context link_layer
begin

lemma output_ok:
  assumes ok: "arp_ok low_ok s" and nf: "nifs s n = Some nf" "netif_ok nf" and q: "packet (aheap s) q xs" "set xs \<inter> held (aheap s) (map aq (arp_table s)) = {}"
    and len: "length dst = 6" "length src = 6"
  shows "\<exists>r h' w' s'. ethernet_output e n q src dst ty s = Some (r, s') \<and> s' = s\<lparr>aheap := h', low := w'\<rparr> \<and> arp_ok low_ok s' \<and>
    offers full accepts (low s) (if headroom (aheap s) q then [dst @ src @ mem16 (t1s_lwip_htons ty) @ packet_data (aheap s) q] else []) w' \<and>
    (\<forall>x. x \<noteq> q \<longrightarrow> h' x = aheap s x) \<and> h' q \<noteq> None"
proof -
  obtain b where b: "aheap s q = Some b" by (rule packetE [OF q(1)])
  have d: "packet_data (aheap s) q = pdata (aheap s) xs" using packet_data_eq q(1) by (simp add: packet_def)
  note out = ethernet_output_sends [OF nf q(1) b arp_okD(4) [OF ok] len, of ty]
  show ?thesis
  proof (cases "headroom (aheap s) q")
    case True
    then obtain w' r where o: "ethernet_output e n q src dst ty s = Some (if full (low s) then ERR_WOULDBLOCK else ERR_OK,
        s\<lparr>aheap := (aheap s)(q \<mapsto> (eth_write dst src ty b)\<lparr>ref := r\<rparr>), low := w'\<rparr>)"
      "offered full accepts (low s) (dst @ src @ mem16 (t1s_lwip_htons ty) @ pdata (aheap s) xs) w'" "low_ok w'"
      using out by auto
    define h' where "h' = (aheap s)(q \<mapsto> (eth_write dst src ty b)\<lparr>ref := r\<rparr>)"
    have "waits h' (map aq (arp_table s))"
      using q(2) packet_head [OF q(1)] by (intro waits_cong(1) [OF arp_okD(3) [OF ok]]) (auto simp: h'_def)
    then have "arp_ok low_ok (s\<lparr>aheap := h', low := w'\<rparr>)" using ok o(3) by (simp add: arp_ok_def)
    then show ?thesis
      using o True d by (intro exI [of _ "if full (low s) then ERR_WOULDBLOCK else ERR_OK"] exI [of _ h'] exI [of _ w'] exI [of _ "s\<lparr>aheap := h', low := w'\<rparr>"]) (simp add: h'_def)
  next
    case False
    then show ?thesis
      using out ok b by (intro exI [of _ ERR_BUF] exI [of _ "aheap s"] exI [of _ "low s"] exI [of _ s]) simp
  qed
qed

text \<open>A packet is put on a pending entry, in place of the one that waits there.\<close>

lemma queue_ok:
  assumes ok: "arp_ok low_ok s" and i: "i < ARP_TABLE_SIZE" "pending (arp_table s ! i)" and q: "handed s q xs" and b: "aheap s q = Some b"
  shows "\<exists>h' s'. etharp_queue e i q s = Some (ERR_OK, s') \<and> arp_ok low_ok s' \<and>
    s' = s\<lparr>arp_table := (arp_table s)[i := (arp_table s ! i)\<lparr>aq := Some q\<rparr>], aheap := h'\<rparr> \<and> h' q = Some (b\<lparr>ref := ref b + 1\<rparr>) \<and>
    packet_data h' q = packet_data (aheap s) q \<and> headroom h' q = headroom (aheap s) q"
proof -
  let ?tbl = "arp_table s" and ?qs = "map aq (arp_table s)" and ?h = "aheap s" and ?en = "arp_table s ! i"
  have l: "length ?tbl = ARP_TABLE_SIZE" by (rule arp_okD [OF ok])
  have pk: "packet ?h q xs" and dis: "set xs \<inter> held ?h ?qs = {}" and "ref b \<noteq> 254" using q b by (simp_all add: handed_def)
  moreover have "ref b \<noteq> 0" "ref b \<noteq> 255" by (rule packetE [OF pk], use b in simp)+
  ultimately have refs: "ref b \<noteq> 254" "ref b \<noteq> 0" "ref b \<noteq> 255" by simp_all
  define h1 where "h1 = ?h(q \<mapsto> b\<lparr>ref := ref b + 1\<rparr>)"
  have cp: "copy_needed_loop ?h (Some q) = Some False" using copy_needed_none [of ?h "Some q" xs] q by (simp add: handed_def packet_def)
  have r: "ref b + 1 \<noteq> 0" "ref b + 1 \<noteq> 255"
  proof -
    show "ref b + 1 \<noteq> 0" using refs u8_Suc_zero by blast
    show "ref b + 1 \<noteq> 255"
    proof
      assume "ref b + 1 = 255"
      then have "ref b = 255 - 1" by (simp add: eq_diff_eq)
      then show False using refs(1) by simp
    qed
  qed
  obtain xs' where x: "xs = q # xs'" "q \<notin> set xs'" by (rule packetE [OF pk])
  have h1: "h1 q = Some (b\<lparr>ref := ref b + 1\<rparr>)" "y \<noteq> q \<Longrightarrow> h1 y = ?h y" for y by (simp_all add: h1_def)
  have "pdata h1 xs' = pdata ?h xs'" "plink h1 p xs' = plink ?h p xs'" "pwf h1 xs' = pwf ?h xs'" for p using chain_upd_out [OF x(2), of ?h] by (simp_all add: h1_def)
  then have chain1: "plink h1 (Some q) xs" "pwf h1 xs" "pdata h1 xs = pdata ?h xs"
    using pk x b h1(1) by (simp_all add: packet_def bdata_def)
  have "freeable h1 y" if "y \<in> set xs" for y using that pk h1(1) h1(2) [of y] b r(1) by (cases "y = q") (auto simp: packet_def list_all_iff freeable_def)
  moreover have "\<forall>y \<in> set (tl xs). \<forall>b. h1 y = Some b \<longrightarrow> plen b \<noteq> 0"
  proof (intro ballI)
    fix y
    assume "y \<in> set (tl xs)"
    moreover from this have "h1 y = ?h y" using x h1(2) [of y] by auto
    ultimately show "\<forall>b. h1 y = Some b \<longrightarrow> plen b \<noteq> 0" using pk by (simp add: packet_def)
  qed
  ultimately have pk1: "packet h1 q xs" using pk chain1 r(2) h1(1) by (simp add: packet_def list_all_iff)
  have same: "x \<in> held ?h ?qs \<Longrightarrow> h1 x = ?h x" for x using dis x(1) by (auto simp: h1_def)
  note w1 = waits_cong [OF arp_okD(3) [OF ok] same]
  define h' where "h' = unqueued h1 (aq ?en)"
  have keep: "x \<in> set xs \<union> held h1 (?qs[i := None]) \<Longrightarrow> h' x = h1 x" for x
  proof (cases "aq ?en")
    case (Some p)
    assume x: "x \<in> set xs \<union> held h1 (?qs[i := None])"
    have at: "queue_at ?qs i p" using Some i(1) l by (simp add: queue_at_def)
    then obtain ys where ys: "packet h1 p ys" using waitsD [OF w1(1)] by blast
    then have "plink h1 (Some p) ys" by (simp add: packet_def)
    then have "set ys \<inter> held h1 (?qs[i := None]) = {}" "set ys \<subseteq> held h1 ?qs" using waits_remove(2) [OF w1(1) at] heldI [OF at] by blast+
    then have "x \<notin> set ys" using x dis w1(2) by blast
    then show ?thesis using unqueued_eq [OF ys] freed_other Some by (simp add: h'_def)
  qed (simp add: h'_def unqueued_def)
  have w2: "waits h' (?qs[i := None])" "held h' (?qs[i := None]) = held h1 (?qs[i := None])"
    using waits_cong [OF waits_remove(1) [OF w1(1)], of i h'] keep by blast+
  have pk2: "packet h' q xs" using packet_cong [of xs h' h1 q] keep pk1 by blast
  have "set xs \<inter> held h' (?qs[i := None]) = {}" using w2(2) w1(2) held_mono [of h1 ?qs i] dis by blast
  from waits_add [OF w2(1) pk2 this] have w3: "waits h' (?qs[i := Some q])" .
  have t: "table_ok (?tbl[i := ?en\<lparr>aq := Some q\<rparr>])"
    using table_okD(2) [OF arp_okD(1) [OF ok] i(1)] i(2) by (intro table_ok_keep [OF arp_okD(1) [OF ok] i(1)]) (auto simp: entry_ok_def same_key_def)
  have "\<exists>n nf. anetif y = Some n \<and> nifs s n = Some nf \<and> netif_ok nf" if "y \<in> set (?tbl[i := ?en\<lparr>aq := Some q\<rparr>])" "live y" for y
    using that arp_ok_netif [OF ok i(1)] ok set_update_subset_insert [of ?tbl i "?en\<lparr>aq := Some q\<rparr>"] by (auto simp: arp_ok_def)
  then have "arp_ok low_ok (s\<lparr>arp_table := ?tbl[i := ?en\<lparr>aq := Some q\<rparr>], aheap := h'\<rparr>)"
    using ok t w3 by (auto simp: arp_ok_def map_update)
  moreover have "etharp_queue e i q s = Some (ERR_OK, s\<lparr>arp_table := ?tbl[i := ?en\<lparr>aq := Some q\<rparr>], aheap := h'\<rparr>)"
  proof (cases "aq ?en")
    case None
    then show ?thesis using cp b r(1) i(1) l by (simp add: etharp_queue_def pbuf_ref_def entry_def set_entry_def h1_def h'_def unqueued_def)
  next
    case (Some p)
    have at: "queue_at ?qs i p" using Some i(1) l by (simp add: queue_at_def)
    obtain c where "pbuf_free h1 (Some p) = Some (c, h')" using waitsD [OF w1(1) at] free_packet unqueued_eq Some unfolding h'_def by metis
    then show ?thesis using cp b r(1) i(1) l Some by (simp add: etharp_queue_def pbuf_ref_def entry_def set_entry_def flip: h1_def)
  qed
  moreover have hq: "h' q = Some (b\<lparr>ref := ref b + 1\<rparr>)" using keep [of q] x(1) by (simp add: h1_def)
  moreover have "pdata h' xs = pdata h1 xs" using chain_cong(1) [of xs h' h1] keep by blast
  then have "packet_data h' q = packet_data ?h q"
    using packet_data_eq [of h' q xs] packet_data_eq [of ?h q xs] pk2 pk chain1(3) by (simp add: packet_def)
  moreover have "headroom h' q = headroom ?h q" using hq b by (simp add: headroom_def)
  ultimately show ?thesis by (intro exI [of _ h'] exI [of _ "s\<lparr>arp_table := ?tbl[i := ?en\<lparr>aq := Some q\<rparr>], aheap := h'\<rparr>"]) simp
qed

end

section \<open>Queries\<close>

definition fresh_entry :: "nat \<Rightarrow> u32 \<Rightarrow> arp_entry \<Rightarrow> arp_entry" where
  "fresh_entry n ip en = (renewed n ip en)\<lparr>astate := ETHARP_STATE_PENDING\<rparr>"

lemma fresh_entry_simps [simp]:
  "aq (fresh_entry n ip en) = None" "aip (fresh_entry n ip en) = ip" "anetif (fresh_entry n ip en) = Some n" "pending (fresh_entry n ip en)"
  "ethaddr (fresh_entry n ip en) = ethaddr en" "ctime (fresh_entry n ip en) = 0"
  by (simp_all add: fresh_entry_def renewed_def)

lemma table_ok_fresh:
  assumes "table_ok tbl" "slot tbl n ip i"
  shows "table_ok (tbl[i := fresh_entry n ip (tbl ! i)])"
proof (rule table_ok_upd [OF assms(1)])
  have "i < ARP_TABLE_SIZE" using assms table_okD(1) by (simp add: slot_def)
  from table_okD(2) [OF assms(1) this] show "entry_ok (fresh_entry n ip (tbl ! i))" by (simp add: entry_ok_def)
  fix j
  assume "j < ARP_TABLE_SIZE" "j \<noteq> i"
  from slot_other_keys [OF assms this] show "\<not> same_key (fresh_entry n ip (tbl ! i)) (tbl ! j)" by (auto simp: same_key_def has_key_def)
qed

text \<open>A packet given up for a new entry does not touch a packet that is handed over.\<close>

lemma handed_fresh:
  assumes ok: "arp_ok low_ok s" and i: "i < ARP_TABLE_SIZE" and q: "handed s q xs" and "aq en = None"
  defines "s2 \<equiv> s\<lparr>arp_table := (arp_table s)[i := en], aheap := unqueued (aheap s) (aq (arp_table s ! i))\<rparr>"
  shows "handed s2 q xs" "packet_data (aheap s2) q = packet_data (aheap s) q" "headroom (aheap s2) q = headroom (aheap s) q" "aheap s2 q = aheap s q"
proof -
  let ?qs = "map aq (arp_table s)" and ?h = "aheap s"
  have pk: "packet ?h q xs" and dis: "set xs \<inter> held ?h ?qs = {}" using q by (simp_all add: handed_def)
  have l: "length (arp_table s) = ARP_TABLE_SIZE" by (rule arp_okD [OF ok])
  have out: "aheap s2 x = ?h x" if "x \<notin> held ?h ?qs" for x
  proof (cases "aq (arp_table s ! i)")
    case (Some p)
    then obtain ys where ys: "packet ?h p ys" using arp_ok_queues(2) [OF ok i] by blast
    then have "x \<notin> set ys" using heldI [of ?qs i p ?h ys x] that Some i l by (auto simp: queue_at_def packet_def)
    then show ?thesis using unqueued_eq [OF ys] freed_other Some by (simp add: s2_def)
  qed (simp add: unqueued_def s2_def)
  then have eq: "x \<in> set xs \<Longrightarrow> aheap s2 x = ?h x" for x using dis by blast
  then show hq: "aheap s2 q = ?h q" using packet_head [OF pk] by blast
  have pk': "packet (aheap s2) q xs" using packet_cong [of xs "aheap s2" ?h q] eq pk by blast
  have "held (aheap s2) (?qs[i := None]) = held ?h (?qs[i := None])"
    using unqueued_held [OF ok i] by (intro waits_cong(2) [OF waits_remove(1) [OF arp_okD(3) [OF ok]]]) (simp add: s2_def)
  moreover have "map aq (arp_table s2) = ?qs[i := None]" using assms(4) by (simp add: s2_def map_update)
  ultimately have "set xs \<inter> held (aheap s2) (map aq (arp_table s2)) = {}" using dis held_mono [of ?h ?qs i] by auto
  moreover have "\<forall>x \<in> set xs. \<forall>b. aheap s2 x = Some b \<longrightarrow> type_internal b AND 0x40 = 0" using q eq by (simp add: handed_def)
  ultimately show "handed s2 q xs" using q pk' hq by (simp add: handed_def)
  have "pdata (aheap s2) xs = pdata ?h xs" using chain_cong(1) [of xs "aheap s2" ?h] eq by blast
  moreover have "packet_data (aheap s2) q = pdata (aheap s2) xs" "packet_data ?h q = pdata ?h xs" using packet_data_eq pk pk' by (simp_all add: packet_def)
  ultimately show "packet_data (aheap s2) q = packet_data ?h q" by simp
  show "headroom (aheap s2) q = headroom ?h q" using hq by (simp add: headroom_def)
qed

lemma arp_ok_fresh:
  assumes "arp_ok low_ok s" "slot (arp_table s) n ip i" "nifs s n = Some nf" "netif_ok nf"
  shows "arp_ok low_ok (s\<lparr>arp_table := (arp_table s)[i := fresh_entry n ip (arp_table s ! i)], aheap := unqueued (aheap s) (aq (arp_table s ! i))\<rparr>)"
proof -
  have i: "i < ARP_TABLE_SIZE" using assms(2) arp_okD(2) [OF assms(1)] by (simp add: slot_def)
  show ?thesis
    using arp_ok_change [OF assms(1) i, of "fresh_entry n ip (arp_table s ! i)" "unqueued (aheap s) (aq (arp_table s ! i))" "low s"]
      table_ok_fresh [OF arp_okD(1) [OF assms(1)] assms(2)] assms(3,4) unqueued_held [OF assms(1) i] arp_okD(4) [OF assms(1)] by simp
qed

lemma unqueued_none:
  assumes "arp_ok low_ok s" "i < ARP_TABLE_SIZE" "aheap s x = None"
  shows "unqueued (aheap s) (aq (arp_table s ! i)) x = None"
proof (cases "aq (arp_table s ! i)")
  case (Some p)
  then obtain xs where xs: "packet (aheap s) p xs" using arp_ok_queues(2) [OF assms(1,2)] by blast
  then have "x \<notin> set xs" using packet_alloc assms(3) by blast
  then show ?thesis using unqueued_eq [OF xs] freed_other Some assms(3) by simp
qed (simp add: unqueued_def assms(3))

context link_layer
begin

lemma query_new:
  assumes ok: "arp_ok low_ok s" and nf: "nifs s n = Some nf" "netif_ok nf" "unicast nf ip" and new: "\<not> list_ex (has_key n ip) (arp_table s)"
    and q: "handed s q xs"
  shows "\<exists>i h' w' s' fs. victim (arp_table s) i \<and> etharp_query e n ip (Some q) s = Some (ERR_OK, s') \<and> arp_ok low_ok s' \<and>
    s' = s\<lparr>arp_table := (arp_table s)[i := (fresh_entry n ip (arp_table s ! i))\<lparr>aq := Some q\<rparr>], aheap := h', low := w'\<rparr> \<and>
    offers full accepts (low s) fs w' \<and> (fs = [] \<or> fs = [request_frame nf ethbroadcast ip]) \<and> (room (amalloc e) (aheap s) \<longrightarrow> fs \<noteq> []) \<and>
    packet_data h' q = packet_data (aheap s) q \<and> headroom h' q = headroom (aheap s) q"
proof -
  let ?tbl = "arp_table s"
  have l: "length ?tbl = ARP_TABLE_SIZE" by (rule arp_okD [OF ok])
  have "list_all (\<lambda>en. \<not> has_key n ip en) ?tbl" using new by (auto simp: list_all_iff list_ex_iff)
  from find_entry_new [OF arp_okD(1) [OF ok] this arp_ok_queues(1) [OF ok]] obtain i where i: "victim ?tbl i"
    "etharp_find_entry (Some ip) ETHARP_FLAG_TRY_HARD (Some n) s =
      Some (Inr i, s\<lparr>arp_table := ?tbl[i := renewed n ip (?tbl ! i)], aheap := unqueued (aheap s) (aq (?tbl ! i))\<rparr>)" .
  then have i10: "i < ARP_TABLE_SIZE" and sl: "slot ?tbl n ip i" using l new by (simp_all add: victim_def slot_def)
  let ?en = "fresh_entry n ip (?tbl ! i)"
  define s2 where "s2 = s\<lparr>arp_table := ?tbl[i := ?en], aheap := unqueued (aheap s) (aq (?tbl ! i))\<rparr>"
  have ok2: "arp_ok low_ok s2" unfolding s2_def by (rule arp_ok_fresh [OF ok sl nf(1,2)])
  note h2 = handed_fresh [OF ok i10 q fresh_entry_simps(1), of n ip "?tbl ! i", folded s2_def]
  obtain r h' w' where rq: "etharp_request_dst e n ip ethbroadcast s2 = Some (r, s2\<lparr>aheap := h', low := w'\<rparr>)" "heap_ext (aheap s2) h'" "low_ok w'"
    "offers full accepts (low s2) (if r = ERR_OK then [request_frame nf ethbroadcast ip] else []) w'" "amalloc e (aheap s2) 44 \<noteq> None \<longrightarrow> r = ERR_OK"
    using request_sends [of s2 n nf ethbroadcast ip] nf arp_okD(4) [OF ok2] by (auto simp: s2_def)
  define s3 where "s3 = s2\<lparr>aheap := h', low := w'\<rparr>"
  have ok3: "arp_ok low_ok s3" using arp_ok_ext [OF ok2 rq(2,3)] by (simp add: s3_def)
  have e3: "heap_ext (aheap s2) (aheap s3)" "map aq (arp_table s3) = map aq (arp_table s2)" using rq(2) by (simp_all add: s3_def)
  note h3 = handed_keep [OF ok2 h2(1) e3]
  have t3: "arp_table s3 ! i = ?en" "pending (arp_table s3 ! i)" using i10 l by (simp_all add: s3_def s2_def)
  obtain b where b: "aheap s3 q = Some b" using packet_alloc [OF _ packet_head] h3(1) unfolding handed_def by blast
  obtain h4 s4 where s4: "etharp_queue e i q s3 = Some (ERR_OK, s4)" "arp_ok low_ok s4" "s4 = s3\<lparr>arp_table := (arp_table s3)[i := (arp_table s3 ! i)\<lparr>aq := Some q\<rparr>], aheap := h4\<rparr>"
    "packet_data h4 q = packet_data (aheap s3) q" "headroom h4 q = headroom (aheap s3) q"
    using queue_ok [OF ok3 i10 t3(2) h3(1) b] by blast
  have s4': "s4 = s\<lparr>arp_table := ?tbl[i := ?en\<lparr>aq := Some q\<rparr>], aheap := h4, low := w'\<rparr>" using s4(3) t3(1) by (simp add: s3_def s2_def)
  have "s\<lparr>aheap := unqueued (aheap s) (aq (?tbl ! i)), arp_table := ?tbl[i := ?en]\<rparr> = s2" by (simp add: s2_def)
  then have rq': "etharp_request e n ip (s\<lparr>aheap := unqueued (aheap s) (aq (?tbl ! i)), arp_table := ?tbl[i := ?en]\<rparr>) = Some (r, s3)"
    using rq(1) by (simp add: etharp_request_def s3_def)
  have "astate ?en = ETHARP_STATE_PENDING" "\<not> is_stable ?en" "(renewed n ip (?tbl ! i))\<lparr>astate := ETHARP_STATE_PENDING, anetif := Some n\<rparr> = ?en"
    "astate (renewed n ip (?tbl ! i)) = ETHARP_STATE_EMPTY" "length (arp_table s3) = ARP_TABLE_SIZE"
    using l by (simp_all add: fresh_entry_def renewed_def is_stable_def s3_def s2_def)
  then have "etharp_query e n ip (Some q) s = Some (ERR_OK, s4)"
    using nf i(2) i10 l rq' s4(1) t3(1) by (simp add: etharp_query_def unicast_def entry_def set_entry_def)
  moreover have "room (amalloc e) (aheap s) \<longrightarrow> r = ERR_OK"
    using rq(5) room_now room_less [of "amalloc e" "aheap s" "aheap s2"] unqueued_none [OF ok i10] by (auto simp: s2_def)
  ultimately show ?thesis
    using i(1) s4(2,4,5) s4' rq(4) h3(2,3) h2(2,3)
    by (intro exI [of _ i] exI [of _ h4] exI [of _ w'] exI [of _ s4] exI [of _ "if r = ERR_OK then [request_frame nf ethbroadcast ip] else []"]) (auto simp: s2_def)
qed

text \<open>A query without a packet, with which DHCP checks an address.\<close>

lemma query_plain:
  assumes ok: "arp_ok low_ok s" and nf: "nifs s n = Some nf" "netif_ok nf"
  shows "\<exists>r s'. etharp_query e n ip None s = Some (r, s') \<and> arp_ok low_ok s' \<and> nifs s' = nifs s"
proof -
  let ?tbl = "arp_table s"
  have l: "length ?tbl = ARP_TABLE_SIZE" by (rule arp_okD [OF ok])
  consider (no) "\<not> unicast nf ip" | (old) i where "unicast nf ip" "i < ARP_TABLE_SIZE" "has_key n ip (?tbl ! i)" | (new) "unicast nf ip" "\<not> list_ex (has_key n ip) ?tbl"
    using l by (auto simp: list_ex_length)
  then show ?thesis
  proof cases
    case no
    then show ?thesis using nf ok by (auto simp: etharp_query_def unicast_def)
  next
    case old
    obtain r h' w' where rq: "etharp_request_dst e n ip ethbroadcast s = Some (r, s\<lparr>aheap := h', low := w'\<rparr>)" "heap_ext (aheap s) h'" "low_ok w'"
      using request_sends [OF nf arp_okD(4) [OF ok], of ethbroadcast ip] by auto
    define s1 where "s1 = s\<lparr>aheap := h', low := w'\<rparr>"
    have ok1: "arp_ok low_ok s1" using arp_ok_ext [OF ok rq(2,3)] by (simp add: s1_def)
    let ?en = "(?tbl ! i)\<lparr>ctime := 0\<rparr>"
    have "entry_ok ?en" using table_okD(2) [OF arp_okD(1) [OF ok] old(2)] by (simp add: entry_ok_def)
    moreover have "same_key ?en (?tbl ! i)" using old(3) by (simp add: same_key_def has_key_def)
    ultimately have "table_ok (?tbl[i := ?en])" using table_ok_keep [OF arp_okD(1) [OF ok] old(2)] by blast
    then have ok2: "arp_ok low_ok (s1\<lparr>arp_table := (arp_table s1)[i := ?en]\<rparr>)"
      using old(2,3) nf by (intro arp_ok_keep [OF ok1]) (auto simp: s1_def has_key_def)
    have "etharp_query e n ip None s = Some (r, if r = ERR_OK \<and> pending (?tbl ! i) then s1\<lparr>arp_table := (arp_table s1)[i := ?en]\<rparr> else s1)"
      using nf(1) old find_entry_found [OF arp_okD(1) [OF ok] old(2,3), of ETHARP_FLAG_TRY_HARD] rq(1) l
      by (auto simp: etharp_query_def unicast_def entry_def set_entry_def etharp_request_def has_key_def s1_def)
    then show ?thesis using ok1 ok2 by (auto simp: s1_def)
  next
    case new
    have "list_all (\<lambda>en. \<not> has_key n ip en) ?tbl" using new(2) by (auto simp: list_all_iff list_ex_iff)
    from find_entry_new [OF arp_okD(1) [OF ok] this arp_ok_queues(1) [OF ok]] obtain i where i: "victim ?tbl i"
      "etharp_find_entry (Some ip) ETHARP_FLAG_TRY_HARD (Some n) s =
        Some (Inr i, s\<lparr>arp_table := ?tbl[i := renewed n ip (?tbl ! i)], aheap := unqueued (aheap s) (aq (?tbl ! i))\<rparr>)" .
    then have i10: "i < ARP_TABLE_SIZE" and sl: "slot ?tbl n ip i" using l new by (simp_all add: victim_def slot_def)
    let ?en = "fresh_entry n ip (?tbl ! i)"
    define s2 where "s2 = s\<lparr>arp_table := ?tbl[i := ?en], aheap := unqueued (aheap s) (aq (?tbl ! i))\<rparr>"
    have ok2: "arp_ok low_ok s2" unfolding s2_def by (rule arp_ok_fresh [OF ok sl nf(1,2)])
    obtain r h' w' where rq: "etharp_request_dst e n ip ethbroadcast s2 = Some (r, s2\<lparr>aheap := h', low := w'\<rparr>)" "heap_ext (aheap s2) h'" "low_ok w'"
      using request_sends [of s2 n nf ethbroadcast ip] nf arp_okD(4) [OF ok2] by (auto simp: s2_def)
    have "s\<lparr>aheap := unqueued (aheap s) (aq (?tbl ! i)), arp_table := ?tbl[i := ?en]\<rparr> = s2" by (simp add: s2_def)
    then have rq': "etharp_request e n ip (s\<lparr>aheap := unqueued (aheap s) (aq (?tbl ! i)), arp_table := ?tbl[i := ?en]\<rparr>) = Some (r, s2\<lparr>aheap := h', low := w'\<rparr>)"
      using rq(1) by (simp add: etharp_request_def)
    have "(renewed n ip (?tbl ! i))\<lparr>astate := ETHARP_STATE_PENDING, anetif := Some n\<rparr> = ?en" "astate (renewed n ip (?tbl ! i)) = ETHARP_STATE_EMPTY"
      "length (arp_table s2) = ARP_TABLE_SIZE" using l by (simp_all add: fresh_entry_def renewed_def s2_def)
    then have "etharp_query e n ip None s = Some (r, s2\<lparr>aheap := h', low := w'\<rparr>)"
      using nf i(2) i10 l rq' new(1) by (simp add: etharp_query_def unicast_def entry_def set_entry_def)
    then show ?thesis using arp_ok_ext [OF ok2 rq(2,3)] by (simp add: s2_def)
  qed
qed

lemma query_pending:
  assumes ok: "arp_ok low_ok s" and nf: "nifs s n = Some nf" "unicast nf ip" and i: "i < ARP_TABLE_SIZE" "has_key n ip (arp_table s ! i)" "pending (arp_table s ! i)"
    and q: "handed s q xs"
  shows "etharp_query e n ip (Some q) s = etharp_queue e i q s"
proof -
  have "etharp_find_entry (Some ip) ETHARP_FLAG_TRY_HARD (Some n) s = Some (Inr i, s)" by (rule find_entry_found [OF arp_okD(1) [OF ok] i(1,2)])
  moreover have "\<not> is_stable (arp_table s ! i)" using i(3) by (simp add: is_stable_def)
  ultimately show ?thesis using nf i(1,3) arp_okD(2) [OF ok] by (simp add: etharp_query_def unicast_def entry_def)
qed

lemma query_stable:
  assumes ok: "arp_ok low_ok s" and nf: "nifs s n = Some nf" "unicast nf ip" and i: "i < ARP_TABLE_SIZE" "has_key n ip (arp_table s ! i)" "is_stable (arp_table s ! i)"
  shows "etharp_query e n ip (Some q) s = ethernet_output e n q (hwaddr nf) (ethaddr (arp_table s ! i)) ETHTYPE_IP (s\<lparr>etharp_cached_entry := of_nat i\<rparr>)"
proof -
  have "etharp_find_entry (Some ip) ETHARP_FLAG_TRY_HARD (Some n) s = Some (Inr i, s)" by (rule find_entry_found [OF arp_okD(1) [OF ok] i(1,2)])
  moreover have "live (arp_table s ! i)" using i(3) stable_not_pending by blast
  ultimately show ?thesis using nf i(1,3) arp_okD(2) [OF ok] by (simp add: etharp_query_def unicast_def entry_def)
qed

end

section \<open>Output\<close>

definition ip_frame :: "heap \<Rightarrow> netif \<Rightarrow> bytes \<Rightarrow> nat \<Rightarrow> bytes list" where
  "ip_frame h nf mac q = (if headroom h q then [mac @ hwaddr nf @ [8, 0] @ packet_data h q] else [])"

lemma find_stable_loop_Some:
  assumes "find_stable_loop dst n k tbl = Some i"
  shows "k \<le> i \<and> i - k < length tbl \<and> is_stable (tbl ! (i - k)) \<and> has_key n dst (tbl ! (i - k))"
  using assms
proof (induction tbl arbitrary: k)
  case (Cons en tbl)
  show ?case
  proof (cases "is_stable en \<and> anetif en = Some n \<and> dst = aip en")
    case True
    then show ?thesis using Cons.prems stable_not_pending(2) by (auto simp: has_key_def)
  next
    case False
    then have "find_stable_loop dst n (k + 1) tbl = Some i" using Cons.prems by auto
    from Cons.IH [OF this] show ?thesis by (auto simp: nth_Cons' less_diff_conv2)
  qed
qed simp

lemma find_stable_loop_None: "find_stable_loop dst n k tbl = None \<Longrightarrow> en \<in> set tbl \<Longrightarrow> is_stable en \<Longrightarrow> \<not> has_key n dst en"
  by (induction tbl arbitrary: k) (auto simp: has_key_def split: if_splits)

context link_layer
begin

lemma output_to_index_ok:
  assumes ok: "arp_ok low_ok s" and nf: "nifs s n = Some nf" "netif_ok nf" and i: "i < ARP_TABLE_SIZE" "is_stable (arp_table s ! i)" and q: "handed s q xs"
  shows "\<exists>r s' fs. etharp_output_to_arp_index e n q i s = Some (r, s') \<and> arp_ok low_ok s' \<and> nifs s' = nifs s \<and>
    offers full accepts (low s) (fs @ ip_frame (aheap s) nf (ethaddr (arp_table s ! i)) q) (low s') \<and>
    (fs = [] \<or> (\<exists>dst. fs = [request_frame nf dst (aip (arp_table s ! i))]) \<and> ctime (arp_table s ! i) \<ge> ARP_AGE_REREQUEST_USED_UNICAST)"
proof -
  let ?en = "arp_table s ! i"
  have l: "length (arp_table s) = ARP_TABLE_SIZE" by (rule arp_okD [OF ok])
  have mac: "length (ethaddr ?en) = 6" "length (hwaddr nf) = 6" using table_okD(2) [OF arp_okD(1) [OF ok] i(1)] nf(2) by (simp_all add: entry_ok_def netif_ok_def)
  have out: "\<exists>r s'. ethernet_output e n q (hwaddr nf) (ethaddr ?en) ETHTYPE_IP s1 = Some (r, s') \<and> arp_ok low_ok s' \<and> nifs s' = nifs s \<and>
      offers full accepts (low s1) (ip_frame (aheap s) nf (ethaddr ?en) q) (low s')"
    if "arp_ok low_ok s1" "heap_ext (aheap s) (aheap s1)" "map aq (arp_table s1) = map aq (arp_table s)" "nifs s1 = nifs s" for s1
  proof -
    note h = handed_keep [OF ok q that(2,3)]
    then have "packet (aheap s1) q xs" "set xs \<inter> held (aheap s1) (map aq (arp_table s1)) = {}" by (simp_all add: handed_def)
    from output_ok [OF that(1) _ nf(2) this mac, of n ETHTYPE_IP] show ?thesis using nf(1) that(4) h(2,3) by (auto simp: ip_frame_def htons_consts)
  qed
  show ?thesis
  proof (cases "astate ?en = ETHARP_STATE_STABLE \<and> ctime ?en \<ge> ARP_AGE_REREQUEST_USED_UNICAST")
    case False
    then have "etharp_output_to_arp_index e n q i s = ethernet_output e n q (hwaddr nf) (ethaddr ?en) ETHTYPE_IP s"
      using i l nf(1) by (auto simp: etharp_output_to_arp_index_def entry_def)
    then show ?thesis using out [OF ok] by (metis append_Nil heap_ext_refl)
  next
    case True
    define dst where "dst = (if ctime ?en \<ge> ARP_AGE_REREQUEST_USED_BROADCAST then ethbroadcast else ethaddr ?en)"
    have "length dst = 6" using mac(1) by (simp add: dst_def)
    from request_sends [OF nf arp_okD(4) [OF ok] this, of "aip ?en"] obtain r h' w' where
      rq: "etharp_request_dst e n (aip ?en) dst s = Some (r, s\<lparr>aheap := h', low := w'\<rparr>)" "heap_ext (aheap s) h'" "low_ok w'"
        "offers full accepts (low s) (if r = ERR_OK then [request_frame nf dst (aip ?en)] else []) w'" "r = ERR_OK \<or> r = ERR_MEM" by blast
    define en1 where "en1 = (if r = ERR_OK then ?en\<lparr>astate := ETHARP_STATE_STABLE_REREQUESTING_1\<rparr> else ?en)"
    define s1 where "s1 = s\<lparr>arp_table := (arp_table s)[i := en1], aheap := h', low := w'\<rparr>"
    have "table_ok ((arp_table s)[i := en1])"
      using table_okD(2) [OF arp_okD(1) [OF ok] i(1)] True by (intro table_ok_keep [OF arp_okD(1) [OF ok] i(1)]) (auto simp: en1_def entry_ok_def same_key_def)
    then have "arp_ok low_ok (s\<lparr>arp_table := (arp_table s)[i := en1]\<rparr>)"
      using arp_ok_netif [OF ok i(1)] True by (intro arp_ok_keep [OF ok i(1)]) (auto simp: en1_def)
    from arp_ok_ext [OF this, of h' w'] rq(2,3) have ok1: "arp_ok low_ok s1" by (simp add: s1_def)
    have aq1: "map aq (arp_table s1) = map aq (arp_table s)" using map_aq_keep [of i "arp_table s" en1] i(1) l by (simp add: s1_def en1_def)
    have e1: "arp_table s1 ! i = en1" "ethaddr en1 = ethaddr ?en" "length (arp_table s1) = ARP_TABLE_SIZE" using i(1) l by (simp_all add: s1_def en1_def)
    have "(if ctime ?en \<ge> ARP_AGE_REREQUEST_USED_BROADCAST then etharp_request e n (aip ?en) s else etharp_request_dst e n (aip ?en) (ethaddr ?en) s) =
        Some (r, s\<lparr>aheap := h', low := w'\<rparr>)" using rq(1) by (auto simp: dst_def etharp_request_def)
    moreover have "s\<lparr>aheap := h', low := w', arp_table := (arp_table s)[i := ?en\<lparr>astate := ETHARP_STATE_STABLE_REREQUESTING_1\<rparr>]\<rparr> = s1" if "r = ERR_OK"
      using that by (simp add: s1_def en1_def)
    moreover have "s\<lparr>aheap := h', low := w'\<rparr> = s1" if "r \<noteq> ERR_OK" using that by (simp add: s1_def en1_def)
    ultimately have "etharp_output_to_arp_index e n q i s = ethernet_output e n q (hwaddr nf) (ethaddr ?en) ETHTYPE_IP s1"
      using True i l nf(1) e1 by (cases "r = ERR_OK") (simp_all add: etharp_output_to_arp_index_def entry_def set_entry_def)
    moreover have "heap_ext (aheap s) (aheap s1)" "nifs s1 = nifs s" using rq(2) by (simp_all add: s1_def)
    ultimately obtain r' s' where "etharp_output_to_arp_index e n q i s = Some (r', s')" "arp_ok low_ok s'" "nifs s' = nifs s"
      "offers full accepts (low s1) (ip_frame (aheap s) nf (ethaddr ?en) q) (low s')" using out [OF ok1 _ aq1] by metis
    moreover have "low s1 = w'" by (simp add: s1_def)
    ultimately show ?thesis
      using rq(4) True by (intro exI [of _ r'] exI [of _ s'] exI [of _ "if r = ERR_OK then [request_frame nf dst (aip ?en)] else []"]) (auto simp: offers_append)
  qed
qed

end

text \<open>The address that a packet is sent to on the link: the destination itself or the gateway.\<close>

definition next_hop :: "netif \<Rightarrow> u32 \<Rightarrow> u32 option" where
  "next_hop nf ip =
    (if \<not> ip4_addr_netcmp ip (nip nf) (nmask nf) \<and> \<not> ip4_addr_islinklocal ip then (if ngw nf \<noteq> IPADDR_ANY then Some (ngw nf) else None) else Some ip)"

definition multicast_mac :: "u32 \<Rightarrow> bytes" where
  "multicast_mac ip = [0x01, 0x00, 0x5E, mem32 ip ! 1 AND 0x7F, mem32 ip ! 2, mem32 ip ! 3]"

lemma etharp_output_eq:
  assumes "nifs s n = Some nf"
  shows "etharp_output e n q ip s =
    (if ip4_addr_isbroadcast ip nf then ethernet_output e n q (hwaddr nf) ethbroadcast ETHTYPE_IP s
     else if ip4_addr_ismulticast ip then ethernet_output e n q (hwaddr nf) (multicast_mac ip) ETHTYPE_IP s
     else case next_hop nf ip of None \<Rightarrow> Some (ERR_RTE, s) | Some dst \<Rightarrow> etharp_output_unicast e n q dst s)"
  using assms by (simp add: etharp_output_def next_hop_def multicast_mac_def ip4_addr_get_byte_def)

lemma key_unique:
  assumes "table_ok tbl" "i < ARP_TABLE_SIZE" "has_key n ip (tbl ! i)" "j < ARP_TABLE_SIZE" "has_key n ip (tbl ! j)"
  shows "i = j"
  using table_okD(3) [OF assms(1,2,4)] assms(3,5) by (auto simp: has_key_def same_key_def)

lemma arp_ok_cached: "arp_ok low_ok s \<Longrightarrow> i < ARP_TABLE_SIZE \<Longrightarrow> arp_ok low_ok (s\<lparr>etharp_cached_entry := of_nat i\<rparr>)"
  by (simp add: arp_ok_def unat_u8_of_nat)

lemma output_unicast_stable:
  assumes ok: "arp_ok low_ok s" and i: "i < ARP_TABLE_SIZE" "has_key n dst (arp_table s ! i)" "is_stable (arp_table s ! i)"
  shows "\<exists>c. unat c < ARP_TABLE_SIZE \<and> etharp_output_unicast e n q dst s = etharp_output_to_arp_index e n q i (s\<lparr>etharp_cached_entry := c\<rparr>)"
proof -
  let ?c = "etharp_cached_entry s" and ?tbl = "arp_table s"
  have l: "length ?tbl = ARP_TABLE_SIZE" and c: "unat ?c < ARP_TABLE_SIZE" using arp_okD [OF ok] by blast+
  have key: "is_stable en \<and> anetif en = Some n \<and> dst = aip en \<longleftrightarrow> is_stable en \<and> has_key n dst en" for en
    using stable_not_pending(2) by (auto simp: has_key_def)
  show ?thesis
  proof (cases "is_stable (?tbl ! unat ?c) \<and> has_key n dst (?tbl ! unat ?c)")
    case True
    then have "unat ?c = i" using key_unique [OF arp_okD(1) [OF ok] c _ i(1,2)] by blast
    then show ?thesis using True c l by (intro exI [of _ ?c]) (simp add: etharp_output_unicast_def entry_def key)
  next
    case False
    obtain j where j: "find_stable_loop dst n 0 ?tbl = Some j"
      using find_stable_loop_None [of dst n 0 ?tbl "?tbl ! i"] i l by (cases "find_stable_loop dst n 0 ?tbl") auto
    then have "j = i" using find_stable_loop_Some [OF j] key_unique [OF arp_okD(1) [OF ok] _ _ i(1,2)] l by auto
    then show ?thesis
      using False c l j i(1) by (intro exI [of _ "of_nat i"]) (auto simp: etharp_output_unicast_def entry_def key unat_u8_of_nat)
  qed
qed

lemma output_unicast_query:
  assumes ok: "arp_ok low_ok s" and none: "\<not> list_ex (\<lambda>en. is_stable en \<and> has_key n dst en) (arp_table s)"
  shows "etharp_output_unicast e n q dst s = etharp_query e n dst (Some q) s"
proof -
  let ?c = "etharp_cached_entry s" and ?tbl = "arp_table s"
  have l: "length ?tbl = ARP_TABLE_SIZE" and c: "unat ?c < ARP_TABLE_SIZE" using arp_okD [OF ok] by blast+
  have key: "is_stable en \<and> anetif en = Some n \<and> dst = aip en \<longleftrightarrow> is_stable en \<and> has_key n dst en" for en
    using stable_not_pending(2) by (auto simp: has_key_def)
  have no: "\<not> (is_stable (?tbl ! j) \<and> has_key n dst (?tbl ! j))" if "j < ARP_TABLE_SIZE" for j using none that l by (auto simp: list_ex_length)
  have "find_stable_loop dst n 0 ?tbl = None"
  proof (rule ccontr)
    assume "find_stable_loop dst n 0 ?tbl \<noteq> None"
    then obtain j where "find_stable_loop dst n 0 ?tbl = Some j" by blast
    from find_stable_loop_Some [OF this] show False using no [of j] l by simp
  qed
  then show ?thesis using no [OF c] c l by (auto simp: etharp_output_unicast_def entry_def key)
qed

context link_layer
begin

lemma output_resolved:
  assumes ok: "arp_ok low_ok s" and nf: "nifs s n = Some nf" "netif_ok nf" and q: "handed s q xs"
    and i: "i < ARP_TABLE_SIZE" "has_key n dst (arp_table s ! i)" "is_stable (arp_table s ! i)"
  shows "\<exists>r s' fs. etharp_output_unicast e n q dst s = Some (r, s') \<and> arp_ok low_ok s' \<and> nifs s' = nifs s \<and>
    offers full accepts (low s) (fs @ ip_frame (aheap s) nf (ethaddr (arp_table s ! i)) q) (low s') \<and>
    (fs = [] \<or> (\<exists>to. fs = [request_frame nf to dst]) \<and> ctime (arp_table s ! i) \<ge> ARP_AGE_REREQUEST_USED_UNICAST)"
proof -
  obtain c where c: "unat c < ARP_TABLE_SIZE" "etharp_output_unicast e n q dst s = etharp_output_to_arp_index e n q i (s\<lparr>etharp_cached_entry := c\<rparr>)"
    using output_unicast_stable [OF ok i] by blast
  define s1 where "s1 = s\<lparr>etharp_cached_entry := c\<rparr>"
  have f: "arp_table s1 = arp_table s" "nifs s1 = nifs s" "aheap s1 = aheap s" "low s1 = low s" by (simp_all add: s1_def)
  have "arp_ok low_ok s1" "handed s1 q xs" using ok q c(1) by (simp_all add: s1_def arp_ok_def handed_def)
  from output_to_index_ok [OF this(1) _ nf(2) i(1) _ this(2), of n] show ?thesis
    using nf(1) i(2,3) c(2) by (simp add: f has_key_def flip: s1_def)
qed

lemma output_any:
  assumes ok: "arp_ok low_ok s" and nf: "nifs s n = Some nf" "netif_ok nf" and q: "handed s q xs"
  shows "\<exists>r s'. etharp_output e n q ip s = Some (r, s') \<and> arp_ok low_ok s' \<and> nifs s' = nifs s"
proof -
  have len: "length (hwaddr nf) = 6" "length (multicast_mac ip) = 6" using nf(2) by (simp_all add: netif_ok_def multicast_mac_def)
  have pk: "packet (aheap s) q xs" "set xs \<inter> held (aheap s) (map aq (arp_table s)) = {}" using q by (simp_all add: handed_def)
  have eth: "\<exists>r s'. ethernet_output e n q (hwaddr nf) dst ETHTYPE_IP s = Some (r, s') \<and> arp_ok low_ok s' \<and> nifs s' = nifs s" if "length dst = 6" for dst
    using output_ok [OF ok nf pk that len(1), of ETHTYPE_IP] by auto
  have query: "\<exists>r s'. etharp_query e n dst (Some q) s = Some (r, s') \<and> arp_ok low_ok s' \<and> nifs s' = nifs s"
    if "\<not> list_ex (\<lambda>en. is_stable en \<and> has_key n dst en) (arp_table s)" for dst
  proof (cases "unicast nf dst")
    case False
    then show ?thesis using nf ok by (auto simp: etharp_query_def unicast_def)
  next
    case uni: True
    show ?thesis
    proof (cases "list_ex (has_key n dst) (arp_table s)")
      case False
      from query_new [OF ok nf uni False q] show ?thesis by auto
    next
      case True
      then obtain i where i: "i < ARP_TABLE_SIZE" "has_key n dst (arp_table s ! i)" using arp_okD(2) [OF ok] by (auto simp: list_ex_length)
      then have "pending (arp_table s ! i)" using that arp_okD(2) [OF ok] live_iff by (auto simp: list_ex_length has_key_def)
      moreover obtain b where "aheap s q = Some b" using packet_alloc [OF pk(1) packet_head [OF pk(1)]] by blast
      ultimately show ?thesis using query_pending [OF ok nf(1) uni i _ q] queue_ok [OF ok i(1) _ q] by auto
    qed
  qed
  have "\<exists>r s'. etharp_output_unicast e n q dst s = Some (r, s') \<and> arp_ok low_ok s' \<and> nifs s' = nifs s" for dst
  proof (cases "list_ex (\<lambda>en. is_stable en \<and> has_key n dst en) (arp_table s)")
    case True
    then obtain i where "i < ARP_TABLE_SIZE" "has_key n dst (arp_table s ! i)" "is_stable (arp_table s ! i)" using arp_okD(2) [OF ok] by (auto simp: list_ex_length)
    from output_resolved [OF ok nf q this] show ?thesis by auto
  next
    case False
    then show ?thesis using output_unicast_query [OF ok False] query by simp
  qed
  then show ?thesis using eth len(2) ok by (simp add: etharp_output_eq [OF nf(1)] split: option.split)
qed

end

end
