(* ===== verification/Lwip_Etharp_Input.thy ===== *)
theory Lwip_Etharp_Input
  imports Lwip_Etharp_Output
begin

text \<open>Received ARP packets and Ethernet frames: \<open>etharp_input\<close> and \<open>ethernet_input\<close> under the invariant.\<close>

section \<open>Reading packets\<close>

lemma pread_data: "poff b + unat (plen b) \<le> length (pmem b) \<Longrightarrow> i + k \<le> unat (plen b) \<Longrightarrow> pread b i k = Some (sub_at i k (bdata b))"
  by (simp add: pread_def bdata_def sub_at_def drop_take min_def add.commute)

lemma PP_HTONS_consts:
  "PP_HTONS ARP_REQUEST = t1s_lwip_htons ARP_REQUEST" "PP_HTONS ARP_REPLY = t1s_lwip_htons ARP_REPLY"
  "PP_HTONS ETHTYPE_IP = t1s_lwip_htons ETHTYPE_IP" "PP_HTONS ETHTYPE_ARP = t1s_lwip_htons ETHTYPE_ARP"
  by (simp_all add: t1s_lwip_htons_def PP_HTONS_def push_bit_eq_mult drop_bit_eq_div)

lemma htons_inj: "t1s_lwip_htons x = t1s_lwip_htons y \<longleftrightarrow> x = y"
  using htons_twice by metis

lemma mem32_load32: "length bs = 4 \<Longrightarrow> mem32 (load32 bs) = bs"
proof -
  assume "length bs = 4"
  then obtain a b c d where bs: "bs = [a, b, c, d]" by (auto simp: length_Suc_conv numeral_eq_Suc)
  have eq: "ucast (load32 [a, b, c, d]) = a" "ucast (drop_bit 8 (load32 [a, b, c, d])) = b"
    "ucast (drop_bit 16 (load32 [a, b, c, d])) = c" "ucast (drop_bit 24 (load32 [a, b, c, d])) = d"
    unfolding load32_def by (rule bit_word_eqI, auto simp: bit_simps dest: bit_imp_le_length)+
  show "mem32 (load32 bs) = bs" unfolding bs mem32_def eq ..
qed

text \<open>The fields of an ARP packet, as \<open>etharp_input\<close> reads them, and the packet that has given fields.\<close>

lemma arp_fields:
  fixes opcode spa tpa rest
  assumes "length sha = 6" "length tha = 6"
  defines "d \<equiv> arp_packet opcode sha spa tha tpa @ rest"
  shows "sub_at 0 2 d = [0, 1]" "sub_at 2 2 d = [8, 0]" "sub_at 4 (Suc 0) d = [6]" "sub_at 5 (Suc 0) d = [4]" "load16 (sub_at 6 2 d) = t1s_lwip_htons opcode"
    "sub_at 8 6 d = sha" "load32 (sub_at 14 4 d) = spa" "load32 (sub_at 24 4 d) = tpa" "28 \<le> length d"
proof -
  have op: "sub_at 6 2 d = mem16 (t1s_lwip_htons opcode)" by (simp add: d_def arp_packet_def sub_at_def)
  have ip: "sub_at 14 4 d = mem32 spa" "sub_at 24 4 d = mem32 tpa" using assms(1,2) by (simp_all add: d_def arp_packet_def sub_at_def)
  show "load16 (sub_at 6 2 d) = t1s_lwip_htons opcode" "load32 (sub_at 14 4 d) = spa" "load32 (sub_at 24 4 d) = tpa" by (simp_all add: op ip)
  show "sub_at 0 2 d = [0, 1]" "sub_at 2 2 d = [8, 0]" "sub_at 4 (Suc 0) d = [6]" "sub_at 5 (Suc 0) d = [4]" "sub_at 8 6 d = sha" "28 \<le> length d"
    using assms(1,2) by (simp_all add: d_def arp_packet_def sub_at_def)
qed

lemma arp_packet_parse:
  assumes "28 \<le> length d" "take 6 d = [0, 1, 8, 0, 6, 4]"
  obtains opcode sha spa tha tpa where "length sha = 6" "length tha = 6" "d = arp_packet opcode sha spa tha tpa @ drop 28 d"
proof
  let ?op = "t1s_lwip_htons (load16 (sub_at 6 2 d))"
  show "length (sub_at 8 6 d) = 6" "length (sub_at 18 6 d) = 6" using assms(1) by simp_all
  have "d = sub_at 0 6 d @ sub_at 6 2 d @ sub_at 8 6 d @ sub_at 14 4 d @ sub_at 18 6 d @ sub_at 24 4 d @ drop 28 d"
  proof -
    have "d = sub_at 0 (6 + 2 + 6 + 4 + 6 + 4) d @ drop 28 d" by (simp add: sub_at_def)
    then show ?thesis unfolding sub_at_add by simp
  qed
  moreover have "sub_at 0 6 d = [0, 1, 8, 0, 6, 4]" using assms(2) by (simp add: sub_at_def)
  moreover have "mem16 (load16 (sub_at 6 2 d)) = sub_at 6 2 d" using assms(1) by (intro mem16_load16) simp
  moreover have "mem32 (load32 (sub_at 14 4 d)) = sub_at 14 4 d" "mem32 (load32 (sub_at 24 4 d)) = sub_at 24 4 d" using assms(1) by (intro mem32_load32; simp)+
  ultimately show "d = arp_packet ?op (sub_at 8 6 d) (load32 (sub_at 14 4 d)) (sub_at 18 6 d) (load32 (sub_at 24 4 d)) @ drop 28 d"
    by (simp add: arp_packet_def htons_twice)
qed

section \<open>What is learned from a packet\<close>

text \<open>
  A packet from the address \<open>ip\<close> with the hardware address \<open>mac\<close>: an entry that has the address is resolved, and what waits on it goes out; only if \<open>new\<close> is an
  address that is not in the table given an entry.
\<close>

definition learns :: "netif \<Rightarrow> nat \<Rightarrow> u32 \<Rightarrow> bytes \<Rightarrow> bool \<Rightarrow> heap \<Rightarrow> arp_entry list \<Rightarrow> arp_entry list \<Rightarrow> bytes list \<Rightarrow> bool" where
  "learns nf n ip mac new h tbl tbl' fs \<longleftrightarrow>
    (if unicast nf ip \<and> (new \<or> list_ex (has_key n ip) tbl)
     then \<exists>i. slot tbl n ip i \<and> tbl' = tbl[i := resolved n ip mac (tbl ! i)] \<and> fs = (if list_ex (has_key n ip) tbl then waiting_frame h nf mac (tbl ! i) else [])
     else tbl' = tbl \<and> fs = [])"

lemma learns_held:
  assumes "learns nf n ip mac new h tbl tbl' fs" "waits h (map aq tbl)"
    and "\<And>x. x \<in> held h (map aq tbl') \<Longrightarrow> h' x = h x"
  shows "held h' (map aq tbl') \<subseteq> held h (map aq tbl)"
proof (cases "tbl' = tbl")
  case True
  then show ?thesis using waits_cong(2) [OF assms(2), of h'] assms(3) by simp
next
  case False
  then obtain i where "tbl' = tbl[i := resolved n ip mac (tbl ! i)]" using assms(1) by (auto simp: learns_def split: if_splits)
  then have q: "map aq tbl' = (map aq tbl)[i := None]" by (simp add: map_update resolved_def)
  have "held h' ((map aq tbl)[i := None]) = held h ((map aq tbl)[i := None])"
    using waits_cong(2) [OF waits_remove(1) [OF assms(2), of i], of h'] assms(3) q by simp
  then show ?thesis using held_mono q by simp
qed


context link_layer
begin

lemma update_learns:
  assumes ok: "arp_ok low_ok s" and nf: "nifs s n = Some nf" "netif_ok nf" and mac: "length mac = 6"
  shows "\<exists>r tbl' h' w' fs s'. etharp_update_arp_entry e n ip mac (if new then ETHARP_FLAG_TRY_HARD else ETHARP_FLAG_FIND_ONLY) s = Some (r, s') \<and>
    arp_ok low_ok s' \<and> s' = s\<lparr>arp_table := tbl', aheap := h', low := w'\<rparr> \<and> learns nf n ip mac new (aheap s) (arp_table s) tbl' fs \<and>
    offers full accepts (low s) fs w' \<and> (\<forall>x. x \<notin> held (aheap s) (map aq (arp_table s)) \<longrightarrow> h' x = aheap s x) \<and>
    held h' (map aq tbl') \<subseteq> held (aheap s) (map aq (arp_table s))"
proof (cases "unicast nf ip \<and> (new \<or> list_ex (has_key n ip) (arp_table s))")
  case True
  let ?fl = "if new then ETHARP_FLAG_TRY_HARD else ETHARP_FLAG_FIND_ONLY"
  obtain i h' w' where u: "slot (arp_table s) n ip i"
    "etharp_update_arp_entry e n ip mac ?fl s = Some (ERR_OK, s\<lparr>arp_table := (arp_table s)[i := resolved n ip mac (arp_table s ! i)], aheap := h', low := w'\<rparr>)"
    "arp_ok low_ok (s\<lparr>arp_table := (arp_table s)[i := resolved n ip mac (arp_table s ! i)], aheap := h', low := w'\<rparr>)"
    "\<forall>x. x \<notin> held (aheap s) (map aq (arp_table s)) \<longrightarrow> h' x = aheap s x" "\<forall>x \<in> held (aheap s) ((map aq (arp_table s))[i := None]). h' x = aheap s x"
    "offers full accepts (low s) (if list_ex (has_key n ip) (arp_table s) then waiting_frame (aheap s) nf mac (arp_table s ! i) else []) w'"
    using update_slot [OF ok nf _ mac, of ip ?fl] True by auto
  define tbl' where "tbl' = (arp_table s)[i := resolved n ip mac (arp_table s ! i)]"
  have lr: "learns nf n ip mac new (aheap s) (arp_table s) tbl'
      (if list_ex (has_key n ip) (arp_table s) then waiting_frame (aheap s) nf mac (arp_table s ! i) else [])"
    using True u(1) by (auto simp: learns_def tbl'_def)
  have "map aq tbl' = (map aq (arp_table s))[i := None]" by (simp add: tbl'_def map_update resolved_def)
  then have "held h' (map aq tbl') \<subseteq> held (aheap s) (map aq (arp_table s))" using learns_held [OF lr arp_okD(3) [OF ok]] u(5) by simp
  then show ?thesis using u(2-4,6) lr unfolding tbl'_def by blast
next
  case False
  then have "learns nf n ip mac new (aheap s) (arp_table s) (arp_table s) []" by (auto simp: learns_def)
  moreover have "\<exists>r. etharp_update_arp_entry e n ip mac (if new then ETHARP_FLAG_TRY_HARD else ETHARP_FLAG_FIND_ONLY) s = Some (r, s)"
    using update_ignored [OF ok nf] False by (cases "unicast nf ip") auto
  moreover have "s = s\<lparr>arp_table := arp_table s, aheap := aheap s, low := low s\<rparr>" by simp
  ultimately show ?thesis using ok by (metis offers.simps(1) order_refl)
qed

end

section \<open>Received ARP packets\<close>

text \<open>A received packet: none of its buffers waits in the table.\<close>

definition received :: "'w arp \<Rightarrow> nat \<Rightarrow> nat list \<Rightarrow> bool" where
  "received s p xs \<longleftrightarrow> packet (aheap s) p xs \<and> set xs \<inter> held (aheap s) (map aq (arp_table s)) = {}"

lemma received_keep:
  assumes "received s p xs" "\<And>x. x \<in> set xs \<Longrightarrow> aheap s' x = aheap s x" "held (aheap s') (map aq (arp_table s')) \<subseteq> held (aheap s) (map aq (arp_table s))"
  shows "received s' p xs"
  using assms packet_cong [of xs "aheap s'" "aheap s" p] by (auto simp: received_def)

lemma received_ext:
  assumes "arp_ok low_ok s" "received s p xs" "heap_ext (aheap s) (aheap s')" "arp_table s' = arp_table s"
  shows "received s' p xs"
proof (rule received_keep [OF assms(2)])
  have pk: "packet (aheap s) p xs" using assms(2) by (simp add: received_def)
  show "aheap s' x = aheap s x" if "x \<in> set xs" for x using packet_alloc [OF pk that] assms(3) by (simp add: heap_ext_def)
  have "aheap s' x = aheap s x" if "x \<in> held (aheap s) (map aq (arp_table s))" for x
    using held_alloc [OF arp_okD(3) [OF assms(1)] that] assms(3) by (simp add: heap_ext_def)
  from waits_cong(2) [OF arp_okD(3) [OF assms(1)] this] show "held (aheap s') (map aq (arp_table s')) \<subseteq> held (aheap s) (map aq (arp_table s))"
    using assms(4) by simp
qed

lemma received_freed:
  assumes "arp_ok low_ok s" "received s p xs"
  shows "\<exists>c. pbuf_free (aheap s) (Some p) = Some (c, freed (aheap s) xs)" "arp_ok low_ok (s\<lparr>aheap := freed (aheap s) xs\<rparr>)"
proof -
  show "\<exists>c. pbuf_free (aheap s) (Some p) = Some (c, freed (aheap s) xs)" using free_packet assms(2) by (simp add: received_def)
  have "waits (freed (aheap s) xs) (map aq (arp_table s))"
    using assms(2) by (intro waits_cong(1) [OF arp_okD(3) [OF assms(1)]]) (metis disjoint_iff freed_other received_def)
  then show "arp_ok low_ok (s\<lparr>aheap := freed (aheap s) xs\<rparr>)" using assms(1) by (simp add: arp_ok_def)
qed

text \<open>The answer to a request.\<close>

definition reply_frame :: "netif \<Rightarrow> bytes \<Rightarrow> u32 \<Rightarrow> bytes" where
  "reply_frame nf sha spa = arp_frame (hwaddr nf) sha ARP_REPLY (hwaddr nf) (nip nf) sha spa"

text \<open>
  What the ARP module relies on of DHCP: \<open>dhcp_arp_reply\<close> returns, at most sends frames (a \<open>DHCPDECLINE\<close> is broadcast), and changes neither the table nor buffers in use.
\<close>

definition dhcp_ok :: "'w arp_env \<Rightarrow> ('w \<Rightarrow> bool) \<Rightarrow> ('w \<Rightarrow> bool) \<Rightarrow> ('w \<Rightarrow> bytes \<Rightarrow> 'w \<Rightarrow> bool) \<Rightarrow> bool" where
  "dhcp_ok e low_ok full accepts \<longleftrightarrow> (\<forall>n ip s. arp_ok low_ok s \<longrightarrow> nifs s n \<noteq> None \<longrightarrow>
     (\<exists>h' w' fs. dhcp_arp_reply e n ip s = Some (s\<lparr>aheap := h', low := w'\<rparr>) \<and> heap_ext (aheap s) h' \<and> low_ok w' \<and> offers full accepts (low s) fs w'))"

lemma input_bad:
  assumes "nifs s n = Some nf" "packet (aheap s) p xs" "aheap s p = Some b" "28 \<le> unat (plen b)" "take 6 (bdata b) \<noteq> [0, 1, 8, 0, 6, 4]"
  shows "etharp_input e p n s = Some (s\<lparr>aheap := freed (aheap s) xs\<rparr>)"
proof -
  have fit: "poff b + unat (plen b) \<le> length (pmem b)" by (rule packetE [OF assms(2)]) (use assms(3) in simp)
  note rd = pread_data [OF fit]
  have l: "length (bdata b) = unat (plen b)" using fit by (rule length_bdata)
  obtain c where "pbuf_free (aheap s) (Some p) = Some (c, freed (aheap s) xs)" using free_packet [OF assms(2)] by blast
  moreover have "load16 (sub_at 0 2 (bdata b)) \<noteq> PP_HTONS 1 \<or> hd (sub_at 4 1 (bdata b)) \<noteq> ETH_HWADDR_LEN \<or> hd (sub_at 5 1 (bdata b)) \<noteq> 4 \<or>
      load16 (sub_at 2 2 (bdata b)) \<noteq> PP_HTONS ETHTYPE_IP"
  proof (rule ccontr)
    assume "\<not> ?thesis"
    then have "load16 (sub_at 0 2 (bdata b)) = PP_HTONS 1" "hd (sub_at 4 1 (bdata b)) = 6" "hd (sub_at 5 1 (bdata b)) = 4" "load16 (sub_at 2 2 (bdata b)) = PP_HTONS ETHTYPE_IP"
      by simp_all
    moreover have "sub_at i 1 (bdata b) = [hd (sub_at i 1 (bdata b))]" if "i < 28" for i
      using l assms(4) that by (cases "drop i (bdata b)") (auto simp: sub_at_def)
    from this [of 4] this [of 5] have "sub_at 4 1 (bdata b) = [hd (sub_at 4 1 (bdata b))]" "sub_at 5 1 (bdata b) = [hd (sub_at 5 1 (bdata b))]" by simp_all
    moreover have "mem16 (load16 (sub_at i 2 (bdata b))) = sub_at i 2 (bdata b)" if "i < 26" for i using l assms(4) that by (intro mem16_load16) simp
    from this [of 0] this [of 2] have "mem16 (load16 (sub_at 0 2 (bdata b))) = sub_at 0 2 (bdata b)" "mem16 (load16 (sub_at 2 2 (bdata b))) = sub_at 2 2 (bdata b)" by simp_all
    ultimately have "sub_at 0 2 (bdata b) = [0, 1]" "sub_at 2 2 (bdata b) = [8, 0]" "sub_at 4 1 (bdata b) = [6]" "sub_at 5 1 (bdata b) = [4]"
      using htons_consts(3,4) by metis+
    moreover have "take 6 (bdata b) = sub_at 0 (2 + 2 + 1 + 1) (bdata b)" by (simp add: sub_at_def)
    then have "take 6 (bdata b) = sub_at 0 2 (bdata b) @ sub_at 2 2 (bdata b) @ sub_at 4 1 (bdata b) @ sub_at 5 1 (bdata b)"
      unfolding sub_at_add by (simp flip: numeral_2_eq_2)
    ultimately show False using assms(5) by simp
  qed
  ultimately show ?thesis using assms(1,3,4) rd by (auto simp: etharp_input_def)
qed

context link_layer
begin

text \<open>What follows the update: a request for our address is answered, a reply is passed on to DHCP.\<close>

lemma input_answer:
  assumes ok: "arp_ok low_ok s" and nf: "nifs s n = Some nf" "netif_ok nf" and sha: "length sha = 6" and dhcp: "dhcp_ok e low_ok full accepts"
  shows "\<exists>h' w' gs. (if opcode = ARP_REQUEST then
        (if for_us then map_option snd (etharp_raw e n (hwaddr nf) sha (hwaddr nf) (nip nf) sha spa ARP_REPLY s) else Some s)
      else if opcode = ARP_REPLY then dhcp_arp_reply e n spa s else Some s) = Some (s\<lparr>aheap := h', low := w'\<rparr>) \<and>
    heap_ext (aheap s) h' \<and> low_ok w' \<and> offers full accepts (low s) gs w' \<and>
    (opcode \<noteq> ARP_REPLY \<longrightarrow> gs = [] \<or> opcode = ARP_REQUEST \<and> for_us \<and> gs = [reply_frame nf sha spa]) \<and>
    (opcode = ARP_REQUEST \<and> for_us \<and> room (amalloc e) (aheap s) \<longrightarrow> gs \<noteq> [])"
proof -
  have len: "length (hwaddr nf) = 6" using nf(2) by (simp add: netif_ok_def)
  have none: "s = s\<lparr>aheap := aheap s, low := low s\<rparr>" "low_ok (low s)" using arp_okD(4) [OF ok] by simp_all
  consider (reply) "opcode = ARP_REPLY" | (answer) "opcode = ARP_REQUEST" "for_us" | (rest) "opcode \<noteq> ARP_REPLY" "\<not> (opcode = ARP_REQUEST \<and> for_us)" by blast
  then show ?thesis
  proof cases
    case reply
    then show ?thesis using dhcp ok nf(1) by (simp add: dhcp_ok_def)
  next
    case answer
    note raw = etharp_raw_sends [OF nf arp_okD(4) [OF ok] len sha len sha, of "nip nf" spa ARP_REPLY]
    show ?thesis
    proof (cases "amalloc e (aheap s) 44 = None")
      case True
      then have "\<not> room (amalloc e) (aheap s)" using room_now by blast
      then show ?thesis using raw answer none True by (intro exI [of _ "aheap s"] exI [of _ "low s"] exI [of _ "[]"]) simp
    next
      case False
      then obtain h' w' where "etharp_raw e n (hwaddr nf) sha (hwaddr nf) (nip nf) sha spa ARP_REPLY s = Some (ERR_OK, s\<lparr>aheap := h', low := w'\<rparr>)"
        "offered full accepts (low s) (reply_frame nf sha spa) w'" "low_ok w'" "heap_ext (aheap s) h'" using raw by (auto simp: reply_frame_def)
      then show ?thesis using answer by (intro exI [of _ h'] exI [of _ w'] exI [of _ "[reply_frame nf sha spa]"]) simp
    qed
  next
    case rest
    then show ?thesis using none by (intro exI [of _ "aheap s"] exI [of _ "low s"] exI [of _ "[]"]) auto
  qed
qed

lemma input_effect:
  assumes ok: "arp_ok low_ok s" and nf: "nifs s n = Some nf" "netif_ok nf" and p: "received s p xs" "aheap s p = Some b"
    and d: "bdata b = arp_packet opcode sha spa tha tpa @ rest" "length sha = 6" "length tha = 6" and dhcp: "dhcp_ok e low_ok full accepts"
  defines "for_us \<equiv> nip nf \<noteq> IPADDR_ANY \<and> tpa = nip nf"
  shows "\<exists>h' fs gs s'. etharp_input e p n s = Some s' \<and> arp_ok low_ok s' \<and> nifs s' = nifs s \<and>
    learns nf n spa sha for_us (aheap s) (arp_table s) (arp_table s') fs \<and> offers full accepts (low s) (fs @ gs) (low s') \<and>
    (opcode \<noteq> ARP_REPLY \<longrightarrow> gs = [] \<or> opcode = ARP_REQUEST \<and> for_us \<and> gs = [reply_frame nf sha spa]) \<and>
    (opcode = ARP_REQUEST \<and> for_us \<and> room (amalloc e) (aheap s) \<longrightarrow> gs \<noteq> []) \<and>
    aheap s' = freed h' xs \<and> (\<forall>x \<in> set xs. h' x = aheap s x)"
proof -
  have pk: "packet (aheap s) p xs" and dis: "set xs \<inter> held (aheap s) (map aq (arp_table s)) = {}" using p(1) by (simp_all add: received_def)
  have fit: "poff b + unat (plen b) \<le> length (pmem b)" by (rule packetE [OF pk]) (use p(2) in simp)
  note fields = arp_fields [OF d(2,3), of opcode spa tpa rest, folded d(1)]
  have l: "28 \<le> unat (plen b)" using fields(9) length_bdata [OF fit] by simp
  obtain r tbl' h1 w1 fs where u: "etharp_update_arp_entry e n spa sha (if for_us then ETHARP_FLAG_TRY_HARD else ETHARP_FLAG_FIND_ONLY) s =
      Some (r, s\<lparr>arp_table := tbl', aheap := h1, low := w1\<rparr>)" "arp_ok low_ok (s\<lparr>arp_table := tbl', aheap := h1, low := w1\<rparr>)"
    "learns nf n spa sha for_us (aheap s) (arp_table s) tbl' fs" "offers full accepts (low s) fs w1"
    "\<forall>x. x \<notin> held (aheap s) (map aq (arp_table s)) \<longrightarrow> h1 x = aheap s x" "held h1 (map aq tbl') \<subseteq> held (aheap s) (map aq (arp_table s))"
    using update_learns [OF ok nf d(2), of spa for_us] by auto
  define s1 where "s1 = s\<lparr>arp_table := tbl', aheap := h1, low := w1\<rparr>"
  have f1: "aheap s1 = h1" "arp_table s1 = tbl'" "nifs s1 = nifs s" "low s1 = w1" by (simp_all add: s1_def)
  have ok1: "arp_ok low_ok s1" using u(2) by (simp add: s1_def)
  have same: "h1 x = aheap s x" if "x \<in> set xs" for x using u(5) dis that by blast
  then have rec1: "received s1 p xs" using u(6) by (intro received_keep [OF p(1)]) (simp_all add: f1)
  have nf1: "nifs s1 n = Some nf" using nf(1) by (simp add: f1)
  obtain h2 w2 gs where a: "(if opcode = ARP_REQUEST then
        (if for_us then map_option snd (etharp_raw e n (hwaddr nf) sha (hwaddr nf) (nip nf) sha spa ARP_REPLY s1) else Some s1)
      else if opcode = ARP_REPLY then dhcp_arp_reply e n spa s1 else Some s1) = Some (s1\<lparr>aheap := h2, low := w2\<rparr>)"
    "heap_ext (aheap s1) h2" "low_ok w2" "offers full accepts (low s1) gs w2"
    "opcode \<noteq> ARP_REPLY \<longrightarrow> gs = [] \<or> opcode = ARP_REQUEST \<and> for_us \<and> gs = [reply_frame nf sha spa]"
    "opcode = ARP_REQUEST \<and> for_us \<and> room (amalloc e) (aheap s1) \<longrightarrow> gs \<noteq> []"
    using input_answer [OF ok1 nf1 nf(2) d(2) dhcp, where for_us = for_us and opcode = opcode and spa = spa] by blast
  define s2 where "s2 = s1\<lparr>aheap := h2, low := w2\<rparr>"
  have ok2: "arp_ok low_ok s2" using arp_ok_ext [OF ok1 a(2,3)] by (simp add: s2_def)
  have rec2: "received s2 p xs" using a(2) by (intro received_ext [OF ok1 rec1]) (simp_all add: s2_def)
  have same2: "h2 x = aheap s x" if "x \<in> set xs" for x
    using same [OF that] a(2) packet_alloc [OF pk that] by (simp add: heap_ext_def f1)
  obtain c where c: "pbuf_free (aheap s2) (Some p) = Some (c, freed (aheap s2) xs)" using received_freed(1) [OF ok2 rec2] by blast
  have "etharp_input e p n s = Some (s2\<lparr>aheap := freed h2 xs\<rparr>)"
  proof -
    have "(if nip nf = IPADDR_ANY then False else tpa = nip nf) = for_us" by (simp add: for_us_def)
    moreover have "load16 [0, 1] = PP_HTONS 1" "load16 [8, 0] = PP_HTONS ETHTYPE_IP" using load16_mem16 htons_consts(3,4) by metis+
    ultimately show ?thesis
      using p(2) nf(1) l pread_data [OF fit] u(1) a(1) c
      by (simp add: etharp_input_def fields PP_HTONS_consts htons_inj s2_def flip: s1_def cong: if_cong split del: if_split)
  qed
  moreover have "offers full accepts (low s) (fs @ gs) w2" using u(4) a(4) by (auto simp: offers_append f1)
  moreover have "h1 x = None" if "aheap s x = None" for x using u(5) held_alloc [OF arp_okD(3) [OF ok]] that by metis
  then have "room (amalloc e) (aheap s) \<Longrightarrow> room (amalloc e) (aheap s1)" using room_less [of "amalloc e" "aheap s" h1] by (simp add: f1)
  ultimately show ?thesis
    using received_freed(2) [OF ok2 rec2] u(3) a(5,6) same2
    by (intro exI [of _ h2] exI [of _ fs] exI [of _ gs] exI [of _ "s2\<lparr>aheap := freed h2 xs\<rparr>"]) (simp add: s2_def f1)
qed

end

section \<open>Received frames\<close>

lemma packet_head_upd:
  assumes "packet h p xs" "h p = Some b" "pnext b' = pnext b" "ref b' = ref b" "pflags b' AND 2 = 0" "type_internal b' = type_internal b"
    and "poff b' + unat (plen b') \<le> length (pmem b')" "unat (tot_len b') + unat (plen b) = unat (tot_len b) + unat (plen b')"
  shows "packet (h(p \<mapsto> b')) p xs"
proof -
  obtain xs' where x: "xs = p # xs'" "p \<notin> set xs'" "plink h (pnext b) xs'" "pwf h xs'" "unat (tot_len b) = unat (plen b) + length (pdata h xs')"
    "ref b \<noteq> 0" "ref b \<noteq> 255" "list_all (freeable h) xs'" "type_internal b AND 0x0F \<le> 2"
    by (rule packetE [OF assms(1)]) (use assms(2) in simp)
  have fr: "list_all (freeable (h(p \<mapsto> b'))) xs'" using x(2,8) by (auto simp: list_all_iff freeable_def)
  have fp: "freeable (h(p \<mapsto> b')) p" using assms(4-6) x(6,9) by (simp add: freeable_def)
  have ne: "\<forall>y \<in> set xs'. \<forall>c. (h(p \<mapsto> b')) y = Some c \<longrightarrow> plen c \<noteq> 0" using assms(1) x(1,2) by (auto simp: packet_def)
  have "pchain (h(p \<mapsto> b')) (Some p) xs" using x(1-5) assms(3,7,8) chain_upd_out [OF x(2)] by simp
  then show ?thesis using fr fp ne assms(1,4) x(1,7) by (simp add: packet_def)
qed

text \<open>The first buffer of a frame as \<open>ethernet_input\<close> marks it, and without the header.\<close>

definition marked :: "netif \<Rightarrow> pbuf \<Rightarrow> pbuf" where
  "marked nf b = b\<lparr>if_idx := if if_idx b = 0 then num nf + 1 else if_idx b, pflags := link_flags (sub_at 0 6 (bdata b)) (pflags b)\<rparr>"

definition stripped :: "pbuf \<Rightarrow> pbuf" where
  "stripped b = b\<lparr>poff := poff b + 14, plen := plen b - 14, tot_len := tot_len b - 14\<rparr>"

lemma marked_fields [simp]:
  "pnext (marked nf b) = pnext b" "ref (marked nf b) = ref b" "type_internal (marked nf b) = type_internal b" "poff (marked nf b) = poff b"
  "plen (marked nf b) = plen b" "tot_len (marked nf b) = tot_len b" "pmem (marked nf b) = pmem b" "bdata (marked nf b) = bdata b"
  by (simp_all add: marked_def bdata_def)

lemma marked_flags: "pflags b AND 2 = 0 \<Longrightarrow> pflags (marked nf b) AND 2 = 0"
  by (simp add: marked_def link_flags_def bit.conj_disj_distrib2)

lemma stripped_data:
  assumes "14 \<le> unat (plen b)"
  shows "unat (plen (stripped b)) = unat (plen b) - 14" "bdata (stripped b) = drop 14 (bdata b)"
proof -
  have "14 \<le> plen b" using assms by (simp add: u16_le_nat)
  then show l: "unat (plen (stripped b)) = unat (plen b) - 14" by (simp add: stripped_def unat_sub)
  show "bdata (stripped b) = drop 14 (bdata b)" unfolding bdata_def l by (simp add: stripped_def sub_at_def drop_take add.commute)
qed

lemma frame_packets:
  assumes "packet h p xs" "h p = Some b" "14 \<le> unat (plen b)"
  shows "packet (h(p \<mapsto> marked nf b)) p xs" "packet (h(p \<mapsto> stripped (marked nf b))) p xs"
proof -
  have x: "poff b + unat (plen b) \<le> length (pmem b)" "unat (plen b) \<le> unat (tot_len b)" "pflags b AND 2 = 0"
    by (rule packetE [OF assms(1)], use assms(2) in simp)+
  show "packet (h(p \<mapsto> marked nf b)) p xs" using marked_flags [OF x(3)] x(1) by (intro packet_head_upd [OF assms(1,2)]) simp_all
  have "14 \<le> tot_len b" using x(2) assms(3) by (simp add: u16_le_nat)
  then have "unat (tot_len b - 14) = unat (tot_len b) - 14" by (simp add: unat_sub)
  then show "packet (h(p \<mapsto> stripped (marked nf b))) p xs"
    using marked_flags [OF x(3), of nf] x(1,2) assms(3) stripped_data(1) [of "marked nf b"]
    by (intro packet_head_upd [OF assms(1,2)]) (simp_all add: stripped_def)
qed

lemma received_upd:
  assumes "arp_ok low_ok s" "received s p xs" "packet ((aheap s)(p \<mapsto> b')) p xs"
  shows "received (s\<lparr>aheap := (aheap s)(p \<mapsto> b')\<rparr>) p xs" "arp_ok low_ok (s\<lparr>aheap := (aheap s)(p \<mapsto> b')\<rparr>)"
proof -
  have "p \<in> set xs" by (rule packet_head [OF assms(3)])
  then have eq: "((aheap s)(p \<mapsto> b')) x = aheap s x" if "x \<in> held (aheap s) (map aq (arp_table s))" for x using assms(2) that by (auto simp: received_def)
  have "waits ((aheap s)(p \<mapsto> b')) (map aq (arp_table s))" "held ((aheap s)(p \<mapsto> b')) (map aq (arp_table s)) = held (aheap s) (map aq (arp_table s))"
    by (rule waits_cong [OF arp_okD(3) [OF assms(1)] eq], assumption)+
  then show "received (s\<lparr>aheap := (aheap s)(p \<mapsto> b')\<rparr>) p xs" "arp_ok low_ok (s\<lparr>aheap := (aheap s)(p \<mapsto> b')\<rparr>)"
    using assms by (simp_all add: received_def arp_ok_def)
qed

lemma ethernet_input_eq:
  assumes nf: "nifs s n = Some nf" and p: "packet (aheap s) p xs" "aheap s p = Some b" and l: "14 < unat (plen b)"
  shows "ethernet_input e p n s =
    (if nflags nf AND NETIF_FLAG_ETHARP \<noteq> 0 \<and> sub_at 12 2 (bdata b) = [8, 0] then
       map_option (Pair ERR_OK) (ip4_input e p n (s\<lparr>aheap := (aheap s)(p \<mapsto> stripped (marked nf b))\<rparr>))
     else if nflags nf AND NETIF_FLAG_ETHARP \<noteq> 0 \<and> sub_at 12 2 (bdata b) = [8, 6] then
       map_option (Pair ERR_OK) (etharp_input e p n (s\<lparr>aheap := (aheap s)(p \<mapsto> stripped (marked nf b))\<rparr>))
     else Some (ERR_OK, s\<lparr>aheap := freed ((aheap s)(p \<mapsto> marked nf b)) xs\<rparr>))"
proof -
  let ?m = "(aheap s)(p \<mapsto> marked nf b)"
  have fit: "poff b + unat (plen b) \<le> length (pmem b)" by (rule packetE [OF p(1)]) (use p(2) in simp)
  define b0 where "b0 = (if if_idx b = 0 then b\<lparr>if_idx := num nf + 1\<rparr> else b)"
  have rd: "pread b0 i k = Some (sub_at i k (bdata b))" if "i + k \<le> unat (plen b)" for i k
    using pread_data [OF fit that] by (auto simp: b0_def pread_def split: if_splits)
  have mk: "b0\<lparr>pflags := link_flags (sub_at 0 6 (bdata b)) (pflags b0)\<rparr> = marked nf b" by (simp add: b0_def marked_def)
  obtain c where c: "pbuf_free ?m (Some p) = Some (c, freed ?m xs)" using free_packet [OF frame_packets(1) [OF p]] l by auto
  have rm: "pbuf_remove_header ?m (Some p) (of_nat SIZEOF_ETH_HDR) = Some (0, (aheap s)(p \<mapsto> stripped (marked nf b)))"
    using l by (simp add: pbuf_remove_header_def stripped_def u16_le_nat)
  have len: "length (sub_at 12 2 (bdata b)) = 2" using l length_bdata [OF fit] by simp
  have ty: "load16 (sub_at 12 2 (bdata b)) = PP_HTONS ETHTYPE_IP \<longleftrightarrow> sub_at 12 2 (bdata b) = [8, 0]"
    "load16 (sub_at 12 2 (bdata b)) = PP_HTONS ETHTYPE_ARP \<longleftrightarrow> sub_at 12 2 (bdata b) = [8, 6]"
    using mem16_load16 [OF len] load16_mem16 htons_consts(1,2) PP_HTONS_consts(3,4) by metis+
  show ?thesis
    using nf p(2) l rd rm c mk ty
    by (simp add: ethernet_input_def Let_def flip: b0_def)
qed

text \<open>Changes of a received frame do not reach the packets that wait.\<close>

lemma learns_upd:
  assumes ok: "arp_ok low_ok s" and r: "received s p xs"
  shows "learns nf n ip mac new ((aheap s)(p \<mapsto> b')) (arp_table s) tbl' fs \<longleftrightarrow> learns nf n ip mac new (aheap s) (arp_table s) tbl' fs"
proof -
  let ?h = "(aheap s)(p \<mapsto> b')"
  have p: "p \<in> set xs" using r packet_head by (auto simp: received_def)
  have "waiting_frame ?h nf mac (arp_table s ! i) = waiting_frame (aheap s) nf mac (arp_table s ! i)" if i: "i < ARP_TABLE_SIZE" for i
  proof (cases "aq (arp_table s ! i)")
    case (Some q)
    then obtain ys where y: "packet (aheap s) q ys" using arp_ok_queues(2) [OF ok i] by blast
    have "queue_at (map aq (arp_table s)) i q" using Some i arp_okD(2) [OF ok] by (simp add: queue_at_def)
    then have "p \<notin> set ys" using heldI [of _ i q "aheap s" ys p] y r p by (auto simp: received_def packet_def)
    then have "?h x = aheap s x" if "x \<in> set ys" for x using that by auto
    then have y': "packet ?h q ys" "pdata ?h ys = pdata (aheap s) ys" "?h q = aheap s q"
      using packet_cong [of ys ?h "aheap s" q] chain_cong(1) [of ys ?h "aheap s"] y packet_head [OF y] by blast+
    then have "packet_data ?h q = packet_data (aheap s) q"
      using packet_data_eq [of ?h q ys] packet_data_eq [of "aheap s" q ys] y unfolding packet_def by metis
    then show ?thesis using Some y'(3) by (simp add: waiting_frame_def headroom_def)
  qed (simp add: waiting_frame_def)
  then show ?thesis using arp_okD(2) [OF ok] by (auto simp: learns_def slot_def cong: conj_cong)
qed

text \<open>
  What is relied on of IP: \<open>ip4_input\<close> takes a packet, returns, leaves the table of the ARP module well-formed, which it uses to send answers, and does not change
  hardware addresses (it may change IP addresses, for DHCP).
\<close>

definition netifs_kept :: "'w arp \<Rightarrow> 'w arp \<Rightarrow> bool" where
  "netifs_kept s s' \<longleftrightarrow> (\<forall>n nf'. nifs s' n = Some nf' \<longrightarrow> (\<exists>nf. nifs s n = Some nf \<and> hwaddr_len nf' = hwaddr_len nf \<and> hwaddr nf' = hwaddr nf))"

definition ip_ok :: "'w arp_env \<Rightarrow> ('w \<Rightarrow> bool) \<Rightarrow> bool" where
  "ip_ok e low_ok \<longleftrightarrow> (\<forall>n p xs s. arp_ok low_ok s \<longrightarrow> nifs s n \<noteq> None \<longrightarrow> received s p xs \<longrightarrow> 
     (\<exists>s'. ip4_input e p n s = Some s' \<and> arp_ok low_ok s' \<and> netifs_kept s s'))"

lemma netifs_kept_same: "nifs s' = nifs s \<Longrightarrow> netifs_kept s s'"
  by (simp add: netifs_kept_def)

lemma short_frame:
  assumes "arp_ok low_ok s" "nifs s n = Some nf" "received s p xs" "aheap s p = Some b" "unat (plen b) \<le> 14"
  shows "ethernet_input e p n s = Some (ERR_OK, s\<lparr>aheap := freed (aheap s) xs\<rparr>)"
  using received_freed(1) [OF assms(1,3)] assms(2,4,5) by (auto simp: ethernet_input_def)

context link_layer
begin

lemma ethernet_input_arp:
  assumes ok: "arp_ok low_ok s" and nf: "nifs s n = Some nf" "netif_ok nf" "nflags nf AND NETIF_FLAG_ETHARP \<noteq> 0"
    and p: "received s p xs" "aheap s p = Some b"
    and d: "bdata b = dst @ src @ [8, 6] @ arp_packet opcode sha spa tha tpa @ rest" "length dst = 6" "length src = 6" "length sha = 6" "length tha = 6"
    and dhcp: "dhcp_ok e low_ok full accepts"
  defines "for_us \<equiv> nip nf \<noteq> IPADDR_ANY \<and> tpa = nip nf"
  shows "\<exists>fs gs s'. ethernet_input e p n s = Some (ERR_OK, s') \<and> arp_ok low_ok s' \<and> nifs s' = nifs s \<and>
    learns nf n spa sha for_us (aheap s) (arp_table s) (arp_table s') fs \<and> offers full accepts (low s) (fs @ gs) (low s') \<and>
    (opcode \<noteq> ARP_REPLY \<longrightarrow> gs = [] \<or> opcode = ARP_REQUEST \<and> for_us \<and> gs = [reply_frame nf sha spa]) \<and>
    (opcode = ARP_REQUEST \<and> for_us \<and> room (amalloc e) (aheap s) \<longrightarrow> gs \<noteq> []) \<and>
    (list_all (single (aheap s)) xs \<longrightarrow> (\<forall>x \<in> set xs. aheap s' x = None))"
proof -
  let ?b = "stripped (marked nf b)"
  define s1 where "s1 = s\<lparr>aheap := (aheap s)(p \<mapsto> ?b)\<rparr>"
  have f1: "aheap s1 = (aheap s)(p \<mapsto> ?b)" "arp_table s1 = arp_table s" "nifs s1 = nifs s" "low s1 = low s" by (simp_all add: s1_def)
  have pk: "packet (aheap s) p xs" using p(1) by (simp add: received_def)
  have fit: "poff b + unat (plen b) \<le> length (pmem b)" by (rule packetE [OF pk]) (use p(2) in simp)
  have l: "unat (plen b) = length (bdata b)" using length_bdata [OF fit] by simp
  then have l14: "14 < unat (plen b)" unfolding d(1) using d(2-5) by (simp add: arp_packet_def)
  have ty: "sub_at 12 2 (bdata b) = [8, 6]" unfolding d(1) using d(2,3) by (simp add: sub_at_def)
  have d1: "bdata ?b = arp_packet opcode sha spa tha tpa @ rest" using stripped_data(2) [of "marked nf b"] l14 d(1-3) by simp
  have ok1: "arp_ok low_ok s1" and r1: "received s1 p xs"
    using received_upd [OF ok p(1) frame_packets(2) [OF pk p(2)]] l14 by (simp_all add: s1_def)
  have eth: "ethernet_input e p n s = map_option (Pair ERR_OK) (etharp_input e p n s1)"
    using ethernet_input_eq [OF nf(1) pk p(2) l14, of e] nf(3) ty by (simp add: s1_def)
  obtain h' fs gs s' where i: "etharp_input e p n s1 = Some s'" "arp_ok low_ok s'" "nifs s' = nifs s1"
    "learns nf n spa sha for_us (aheap s1) (arp_table s1) (arp_table s') fs" "offers full accepts (low s1) (fs @ gs) (low s')"
    "opcode \<noteq> ARP_REPLY \<longrightarrow> gs = [] \<or> opcode = ARP_REQUEST \<and> for_us \<and> gs = [reply_frame nf sha spa]"
    "opcode = ARP_REQUEST \<and> for_us \<and> room (amalloc e) (aheap s1) \<longrightarrow> gs \<noteq> []" "aheap s' = freed h' xs" "\<forall>x \<in> set xs. h' x = aheap s1 x"
    using input_effect [OF ok1 _ nf(2) r1 _ d1 d(4,5) dhcp, of n] nf(1) unfolding f1 for_us_def fun_upd_same by blast
  have "aheap s' x = None" if "list_all (single (aheap s)) xs" "x \<in> set xs" for x
  proof -
    have "single h' y" if "y \<in> set xs" for y
      using that \<open>list_all (single (aheap s)) xs\<close> i(9) p(2) by (auto simp: list_all_iff single_def f1 stripped_def)
    then have "list_all (single h') xs" by (simp add: list_all_iff)
    moreover have "distinct xs" using pk plink_distinct by (auto simp: packet_def)
    ultimately show ?thesis using that(2) freed_single i(8) by metis
  qed
  moreover have "room (amalloc e) (aheap s) \<Longrightarrow> room (amalloc e) (aheap s1)" by (erule room_less) (use p(2) in \<open>auto simp: f1\<close>)
  ultimately show ?thesis using eth i(1-7) learns_upd [OF ok p(1)] by (intro exI [of _ fs] exI [of _ gs] exI [of _ s']) (simp add: f1)
qed

lemma ethernet_input_any:
  assumes ok: "arp_ok low_ok s" and nf: "nifs s n = Some nf" "netif_ok nf" and p: "received s p xs" "aheap s p = Some b"
    and l: "unat (plen b) \<le> 14 \<or> 42 \<le> unat (plen b)" and dhcp: "dhcp_ok e low_ok full accepts" and ip: "ip_ok e low_ok"
  shows "\<exists>s'. ethernet_input e p n s = Some (ERR_OK, s') \<and> arp_ok low_ok s' \<and> netifs_kept s s'"
proof (cases "unat (plen b) \<le> 14")
  case True
  then show ?thesis using short_frame [OF ok nf(1) p] received_freed(2) [OF ok p(1)] by (simp add: netifs_kept_def)
next
  case False
  let ?b = "stripped (marked nf b)"
  define s1 where "s1 = s\<lparr>aheap := (aheap s)(p \<mapsto> ?b)\<rparr>"
  have pk: "packet (aheap s) p xs" using p(1) by (simp add: received_def)
  have l14: "14 < unat (plen b)" "14 \<le> unat (plen b)" "28 \<le> unat (plen ?b)" using False l stripped_data(1) [of "marked nf b"] by simp_all
  note up = received_upd [OF ok p(1) frame_packets(1) [OF pk p(2) l14(2)], of nf] received_upd [OF ok p(1) frame_packets(2) [OF pk p(2) l14(2)], of nf, folded s1_def]
  have n1: "nifs s1 n = Some nf" "aheap s1 p = Some ?b" using nf(1) by (simp_all add: s1_def)
  have "\<exists>s'. etharp_input e p n s1 = Some s' \<and> arp_ok low_ok s' \<and> nifs s' = nifs s1"
  proof (cases "take 6 (bdata ?b) = [0, 1, 8, 0, 6, 4]")
    case True
    have pk1: "packet (aheap s1) p xs" using up(3) by (simp add: received_def)
    have "poff ?b + unat (plen ?b) \<le> length (pmem ?b)" by (rule packetE [OF pk1]) (use n1(2) in simp)
    then have "28 \<le> length (bdata ?b)" using length_bdata l14(3) by simp
    from arp_packet_parse [OF this True] obtain opcode sha spa tha tpa where
      "length sha = 6" "length tha = 6" "bdata ?b = arp_packet opcode sha spa tha tpa @ drop 28 (bdata ?b)" .
    from input_effect [OF up(4) n1(1) nf(2) up(3) n1(2) this(3,1,2) dhcp] show ?thesis by blast
  next
    case False
    have "packet (aheap s1) p xs" using up(3) by (simp add: received_def)
    from input_bad [OF n1(1) this n1(2) l14(3) False] received_freed(2) [OF up(4,3)] show ?thesis by simp
  qed
  moreover have "\<exists>s'. ip4_input e p n s1 = Some s' \<and> arp_ok low_ok s' \<and> netifs_kept s1 s'" using ip up(3,4) n1(1) unfolding ip_ok_def by blast
  moreover have "arp_ok low_ok (s\<lparr>aheap := freed ((aheap s)(p \<mapsto> marked nf b)) xs\<rparr>)" using received_freed(2) [OF up(2,1)] by simp
  moreover have "nifs s1 = nifs s" by (simp add: s1_def)
  ultimately show ?thesis unfolding ethernet_input_eq [OF nf(1) pk p(2) l14(1), of e, folded s1_def] netifs_kept_def by auto
qed

end

section \<open>Removing an interface\<close>

lemma cleanup_loop_ok:
  assumes "arp_ok low_ok s" "list_all (\<lambda>i. i < ARP_TABLE_SIZE) is"
  shows "\<exists>s'. etharp_cleanup_loop n is s = Some s' \<and> arp_ok low_ok s' \<and> nifs s' = nifs s \<and>
    (\<forall>j<ARP_TABLE_SIZE. if j \<in> set is \<and> anetif (arp_table s ! j) = Some n then \<not> live (arp_table s' ! j) else arp_table s' ! j = arp_table s ! j)"
  using assms
proof (induction "is" arbitrary: s)
  case (Cons i "is")
  have i: "i < ARP_TABLE_SIZE" and l: "length (arp_table s) = ARP_TABLE_SIZE" using Cons.prems arp_okD(2) by auto
  let ?en = "arp_table s ! i"
  show ?case
  proof (cases "live ?en \<and> anetif ?en = Some n")
    case True
    obtain s1 where s1: "etharp_free_entry i s = Some s1" "arp_ok low_ok s1" "nifs s1 = nifs s" "arp_table s1 = (arp_table s)[i := ?en\<lparr>aq := None, astate := ETHARP_STATE_EMPTY\<rparr>]"
      using free_entry_ok [OF Cons.prems(1) i] by auto
    from Cons.IH [OF s1(2)] Cons.prems(2) obtain s' where s': "etharp_cleanup_loop n is s1 = Some s'" "arp_ok low_ok s'" "nifs s' = nifs s1"
      "\<forall>j<ARP_TABLE_SIZE. if j \<in> set is \<and> anetif (arp_table s1 ! j) = Some n then \<not> live (arp_table s' ! j) else arp_table s' ! j = arp_table s1 ! j" by auto
    have "if j \<in> set (i # is) \<and> anetif (arp_table s ! j) = Some n then \<not> live (arp_table s' ! j) else arp_table s' ! j = arp_table s ! j" if "j < ARP_TABLE_SIZE" for j
      using s'(4) [rule_format, OF that] that True l i by (cases "j = i") (auto simp: s1(4) split: if_splits)
    then show ?thesis using s'(1-3) s1(1,3) True i l by (auto simp: entry_def)
  next
    case False
    from Cons.IH [OF Cons.prems(1)] Cons.prems(2) obtain s' where s': "etharp_cleanup_loop n is s = Some s'" "arp_ok low_ok s'" "nifs s' = nifs s"
      "\<forall>j<ARP_TABLE_SIZE. if j \<in> set is \<and> anetif (arp_table s ! j) = Some n then \<not> live (arp_table s' ! j) else arp_table s' ! j = arp_table s ! j" by auto
    have "if j \<in> set (i # is) \<and> anetif (arp_table s ! j) = Some n then \<not> live (arp_table s' ! j) else arp_table s' ! j = arp_table s ! j" if "j < ARP_TABLE_SIZE" for j
      using s'(4) [rule_format, OF that] False by (cases "j = i") (auto split: if_splits)
    then show ?thesis using s'(1-3) False i l by (auto simp: entry_def)
  qed
qed simp

end
