(* ===== verification/Lwip_Etharp_Driver.thy ===== *)
theory Lwip_Etharp_Driver
  imports Lwip_Etharp_Input Arduino_Netif_Tx
begin

text \<open>
  The ARP module over the driver of the repository: \<open>lwIpOut\<close> keeps the contract of the link layer, and what the ARP module promises then holds of the frames in the driver's queue.

  The state below is that of the driver and of the SPI bus. The reference on a packet buffer that \<open>lwIpOut\<close> takes is given back when the transmit callback of the entry is run;
  the callbacks are part of the driver's notes.
\<close>

definition t1s_env :: "('d \<Rightarrow> bytes \<Rightarrow> bytes \<times> 'd) \<Rightarrow> malloc \<Rightarrow> (nat \<Rightarrow> nat \<Rightarrow> (tc6 \<times> 'd) arp \<Rightarrow> (tc6 \<times> 'd) arp option) \<Rightarrow>
  (nat \<Rightarrow> u32 \<Rightarrow> (tc6 \<times> 'd) arp \<Rightarrow> (tc6 \<times> 'd) arp option) \<Rightarrow> (tc6 \<times> 'd) arp_env" where
  "t1s_env dev malloc ip dhcp = \<lparr>linkoutput = (\<lambda>n (g, bus) h p. map_option (\<lambda>(r, g, bus, h). (r, (g, bus), h)) (lwIpOut (TC6_Io_spiTransaction dev) g bus h p)),
     amalloc = malloc, ip4_input = ip, dhcp_arp_reply = dhcp\<rparr>"

text \<open>An allocator that keeps the contract of \<open>malloc\<close>: it returns memory of the size asked for, at an address that is not in use.\<close>

definition checked :: "malloc \<Rightarrow> malloc" where
  "checked malloc h n = (case malloc h n of None \<Rightarrow> None | Some (a, m) \<Rightarrow> if h a = None \<and> length m = n then Some (a, m) else None)"

lemma checked_ok: "malloc_ok (checked malloc)"
  by (auto simp: malloc_ok_def checked_def split: option.splits if_splits)

lemma checked_id: "malloc_ok malloc \<Longrightarrow> checked malloc = malloc"
  by (auto simp: malloc_ok_def checked_def fun_eq_iff split: option.split)

text \<open>The driver takes a frame: an entry with the frame is put behind those that wait, and the data service runs unless the call comes from an interrupt.\<close>

definition takes :: "('d \<Rightarrow> bytes \<Rightarrow> bytes \<times> 'd) \<Rightarrow> tc6 \<times> 'd \<Rightarrow> bytes \<Rightarrow> tc6 \<times> 'd \<Rightarrow> bool" where
  "takes dev w f w' \<longleftrightarrow> (\<exists>g1 e. qtxeth_list (eth_q g1) = qtxeth_list (eth_q (fst w)) @ [e] \<and> frame e = f \<and>
     (if intContext (fst w) then w' = (g1, snd w) else \<exists>s. serviceData (TC6_Io_spiTransaction dev) False g1 (snd w) = Some (s, w')))"

lemma sendable_segs:
  assumes "sendable h p xs" "h p = Some b"
  shows "pchain h (Some p) xs" "ref b + 1 \<noteq> 0" "length xs \<le> 8" "\<forall>x \<in> set xs. segLen (pbuf_seg h x) \<noteq> 0"
proof -
  show c: "pchain h (Some p) xs" and "length xs \<le> 8" using assms(1) by (simp_all add: sendable_def)
  show "ref b + 1 \<noteq> 0" using assms by (simp add: sendable_def u8_Suc_zero)
  have "h x \<noteq> None" if "x \<in> set xs" for x using plink_alloc c that by (auto simp: list_all_iff)
  then show "\<forall>x \<in> set xs. segLen (pbuf_seg h x) \<noteq> 0" using assms(1) by (fastforce simp: sendable_def pbuf_seg_def)
qed

interpretation t1s: link_layer "t1s_env dev (checked malloc) ip dhcp" "\<lambda>w. core_ok (fst w)" "\<lambda>w. sendWouldBlock (fst w)" "takes dev"
  for dev :: "'d \<Rightarrow> bytes \<Rightarrow> bytes \<times> 'd" and malloc ip dhcp
proof
  fix w :: "tc6 \<times> 'd" and n h p xs
  assume "sendWouldBlock (fst w)"
  then show "linkoutput (t1s_env dev (checked malloc) ip dhcp) n w h p = Some (ERR_WOULDBLOCK, w, h)"
    by (cases w) (simp add: t1s_env_def sendWouldBlock_def lwIpOut_def)
next
  fix w :: "tc6 \<times> 'd" and n h p xs b
  assume a: "core_ok (fst w)" "\<not> sendWouldBlock (fst w)" "sendable h p xs" "h p = Some b"
  obtain g bus where w: "w = (g, bus)" by (cases w)
  note sd = sendable_segs [OF a(3,4)]
  obtain g' bus' where r: "lwIpOut (TC6_Io_spiTransaction dev) g bus h p = Some (ERR_OK, g', bus', h(p \<mapsto> b\<lparr>ref := ref b + 1\<rparr>))" "core_ok g'"
    "if intContext g then g' = g\<lparr>eth_q := qtxeth_put (out_entry g h p xs (tot_len b)) (eth_q g)\<rparr> \<and> bus' = bus
     else \<exists>s. serviceData (TC6_Io_spiTransaction dev) False (g\<lparr>eth_q := qtxeth_put (out_entry g h p xs (tot_len b)) (eth_q g)\<rparr>) bus = Some (s, g', bus')"
    using lwIpOut_queues(1) [OF _ sd(1) a(4) sd(2-4), of g dev bus] a(1,2) w by auto
  have "takes dev w (pdata h xs) (g', bus')"
    using lwIpOut_queues(2,3) [OF _ sd(1) a(4) sd(2-4), of g] a(1,2) w r(3)
    unfolding takes_def by (intro exI [of _ "g\<lparr>eth_q := qtxeth_put (out_entry g h p xs (tot_len b)) (eth_q g)\<rparr>"] exI [of _ "out_entry g h p xs (tot_len b)"]) auto
  then show "\<exists>w'. linkoutput (t1s_env dev (checked malloc) ip dhcp) n w h p = Some (ERR_OK, w', h(p \<mapsto> b\<lparr>ref := ref b + 1\<rparr>)) \<and> takes dev w (pdata h xs) w' \<and> core_ok (fst w')"
    using r(1,2) w by (intro exI [of _ "(g', bus')"]) (simp add: t1s_env_def)
qed (simp add: t1s_env_def checked_ok)

end
