(* ===== verification/Lwip_Etharp_Correct.thy ===== *)
theory Lwip_Etharp_Correct
  imports Lwip_Etharp_Driver
begin

text \<open>
  What the ARP module of lwIP does over the driver: the table is a cache of hardware addresses, entries expire, packets to unknown addresses are sent when the answer comes,
  requests for our address are answered, and no sequence of operations leads to a state in which one fails.
\<close>

abbreviation t1s_ok :: "tc6 \<times> 'd \<Rightarrow> bool" where "t1s_ok w \<equiv> core_ok (fst w)"

abbreviation t1s_full :: "tc6 \<times> 'd \<Rightarrow> bool" where "t1s_full w \<equiv> sendWouldBlock (fst w)"

section \<open>The table as a cache\<close>

text \<open>The hardware address that the table gives for an address: the result of \<open>etharp_find_addr\<close>.\<close>

definition lookup :: "nat \<Rightarrow> u32 \<Rightarrow> 'w arp \<Rightarrow> bytes option" where
  "lookup n ip s = (case etharp_find_addr (Some n) ip s of Some (Some (_, eth, _), _) \<Rightarrow> Some eth | _ \<Rightarrow> None)"

lemma find_addr_found:
  assumes "table_ok (arp_table s)" "i < ARP_TABLE_SIZE" "has_key n ip (arp_table s ! i)"
  shows "etharp_find_addr (Some n) ip s = Some (if is_stable (arp_table s ! i) then Some (i, ethaddr (arp_table s ! i), ip) else None, s)"
  using find_entry_found [OF assms, of ETHARP_FLAG_FIND_ONLY] assms table_okD(1) [OF assms(1)] by (auto simp: etharp_find_addr_def entry_def has_key_def)

lemma find_addr_missing:
  assumes "table_ok (arp_table s)" "\<not> list_ex (has_key n ip) (arp_table s)"
  shows "etharp_find_addr (Some n) ip s = Some (None, s)"
proof -
  have "list_all (\<lambda>en. \<not> has_key n ip en) (arp_table s)" using assms(2) by (auto simp: list_all_iff list_ex_iff)
  from find_entry_only [OF assms(1) this] show ?thesis by (simp add: etharp_find_addr_def)
qed

lemma lookup_eq:
  assumes "table_ok (arp_table s)"
  shows "lookup n ip s = Some eth \<longleftrightarrow> (\<exists>i<ARP_TABLE_SIZE. has_key n ip (arp_table s ! i) \<and> is_stable (arp_table s ! i) \<and> ethaddr (arp_table s ! i) = eth)"
proof (cases "list_ex (has_key n ip) (arp_table s)")
  case True
  then obtain i where i: "i < ARP_TABLE_SIZE" "has_key n ip (arp_table s ! i)" using table_okD(1) [OF assms] by (auto simp: list_ex_length)
  have "lookup n ip s = (if is_stable (arp_table s ! i) then Some (ethaddr (arp_table s ! i)) else None)" by (simp add: lookup_def find_addr_found [OF assms i])
  moreover have "j = i" if "j < ARP_TABLE_SIZE" "has_key n ip (arp_table s ! j)" for j using key_unique [OF assms that i] .
  ultimately show ?thesis using i by (metis option.distinct(1) option.inject)
next
  case False
  then have "\<not> has_key n ip (arp_table s ! i)" if "i < ARP_TABLE_SIZE" for i using that table_okD(1) [OF assms] by (simp add: list_ex_length)
  moreover have "lookup n ip s = None" by (simp add: lookup_def find_addr_missing [OF assms False])
  ultimately show ?thesis by (metis option.distinct(1))
qed

text \<open>One entry is given to an address: all others keep what they give.\<close>

lemma lookup_resolved:
  assumes "table_ok (arp_table s)" "slot (arp_table s) n ip i" "length eth = 6" "arp_table s' = (arp_table s)[i := resolved n ip eth (arp_table s ! i)]"
  shows "lookup m a s' = (if (m, a) = (n, ip) then Some eth else if has_key m a (arp_table s ! i) then None else lookup m a s)"
proof -
  let ?tbl = "arp_table s"
  have l: "length ?tbl = ARP_TABLE_SIZE" by (rule table_okD [OF assms(1)])
  have i: "i < ARP_TABLE_SIZE" using assms(2) l by (simp add: slot_def)
  have ok': "table_ok (arp_table s')" using table_ok_resolved [OF assms(1-3)] assms(4) by simp
  have nth: "arp_table s' ! j = (if j = i then resolved n ip eth (?tbl ! i) else ?tbl ! j)" if "j < ARP_TABLE_SIZE" for j using assms(4) l that by simp
  have key: "has_key m a (resolved n ip eth en) \<longleftrightarrow> (m, a) = (n, ip)" for m a en by (auto simp: has_key_def resolved_def)
  consider (new) "(m, a) = (n, ip)" | (lost) "(m, a) \<noteq> (n, ip)" "has_key m a (?tbl ! i)" | (kept) "(m, a) \<noteq> (n, ip)" "\<not> has_key m a (?tbl ! i)" by blast
  then show ?thesis
  proof cases
    case new
    have "is_stable (resolved n ip eth (?tbl ! i))" "ethaddr (resolved n ip eth (?tbl ! i)) = eth" by (rule entry_ok_resolved, simp add: resolved_def)
    moreover have "has_key m a (resolved n ip eth (?tbl ! i))" using key new by blast
    ultimately have "lookup m a s' = Some eth" unfolding lookup_eq [OF ok'] using nth [OF i] i by (intro exI [of _ i]) simp
    then show ?thesis using new by simp
  next
    case lost
    have "\<not> has_key m a (?tbl ! j)" if "j < ARP_TABLE_SIZE" "j \<noteq> i" for j using key_unique [OF assms(1) i lost(2) that(1)] that(2) by blast
    then have "\<not> has_key m a (arp_table s' ! j)" if "j < ARP_TABLE_SIZE" for j using nth [OF that] key lost(1) that by (cases "j = i") auto
    then have "lookup m a s' \<noteq> Some x" for x unfolding lookup_eq [OF ok'] by blast
    then show ?thesis unfolding if_not_P [OF lost(1)] if_P [OF lost(2)] by (metis option.exhaust)
  next
    case kept
    have eq: "has_key m a (arp_table s' ! j) \<and> is_stable (arp_table s' ! j) \<and> ethaddr (arp_table s' ! j) = x \<longleftrightarrow>
        has_key m a (?tbl ! j) \<and> is_stable (?tbl ! j) \<and> ethaddr (?tbl ! j) = x" if "j < ARP_TABLE_SIZE" for j x
      using kept nth [OF that] key by (cases "j = i") auto
    have "lookup m a s' = Some x \<longleftrightarrow> lookup m a s = Some x" for x
      unfolding lookup_eq [OF ok'] lookup_eq [OF assms(1)] by (rule ex_cong1, rule conj_cong [OF refl], rule eq)
    then have "lookup m a s' = lookup m a s" by (metis option.exhaust)
    then show ?thesis unfolding if_not_P [OF kept(1)] if_not_P [OF kept(2)] .
  qed
qed

text \<open>
  C22. The table is a cache of hardware addresses: after \<open>etharp_update_arp_entry\<close> with an address of a host, looking it up gives the new hardware address, and any other
  address gives what it gave before. Only if the table is full and has no entry for the address is another one given up: the oldest of the resolved ones, if there is none
  the oldest on which no packet waits, if there is none the oldest.
\<close>

theorem arp_table_is_a_cache:
  assumes "malloc_ok malloc" "arp_ok t1s_ok s" "nifs s n = Some nf" "netif_ok nf" "unicast nf ip" "length eth = 6"
  shows "\<exists>s' lost. etharp_update_arp_entry (t1s_env dev malloc ipi dhcp) n ip eth ETHARP_FLAG_TRY_HARD s = Some (ERR_OK, s') \<and> arp_ok t1s_ok s' \<and>
    (\<forall>m a. lookup m a s' = (if (m, a) = (n, ip) then Some eth else if (m, a) \<in> lost then None else lookup m a s)) \<and>
    (lost = {} \<or> list_all live (arp_table s) \<and> \<not> list_ex (has_key n ip) (arp_table s) \<and>
      (\<exists>i. victim (arp_table s) i \<and> lost = {(m, a). has_key m a (arp_table s ! i)}))"
proof -
  let ?tbl = "arp_table s"
  obtain i s' where u: "slot ?tbl n ip i" "etharp_update_arp_entry (t1s_env dev malloc ipi dhcp) n ip eth ETHARP_FLAG_TRY_HARD s = Some (ERR_OK, s')" "arp_ok t1s_ok s'"
    "arp_table s' = ?tbl[i := resolved n ip eth (?tbl ! i)]"
    using t1s.update_slot [OF assms(2-6), of ETHARP_FLAG_TRY_HARD dev malloc ipi dhcp] by (auto simp: checked_id [OF assms(1)])
  note look = lookup_resolved [OF arp_okD(1) [OF assms(2)] u(1) assms(6) u(4)]
  consider (same) "list_ex (has_key n ip) ?tbl" | (free) "\<not> list_ex (has_key n ip) ?tbl" "\<not> list_all live ?tbl"
    | (full) "\<not> list_ex (has_key n ip) ?tbl" "list_all live ?tbl" by blast
  then show ?thesis
  proof cases
    case same
    then have "has_key n ip (?tbl ! i)" using u(1) by (simp add: slot_def)
    then have "has_key m a (?tbl ! i) \<Longrightarrow> (m, a) = (n, ip)" for m a by (auto simp: has_key_def)
    then have "lookup m a s' = (if (m, a) = (n, ip) then Some eth else if (m, a) \<in> {} then None else lookup m a s)" for m a using look [of m a] by auto
    then show ?thesis using u(2,3) by blast
  next
    case free
    then have "\<not> has_key m a (?tbl ! i)" for m a using u(1) by (auto simp: slot_def victim_def has_key_def)
    then have "lookup m a s' = (if (m, a) = (n, ip) then Some eth else if (m, a) \<in> {} then None else lookup m a s)" for m a using look [of m a] by auto
    then show ?thesis using u(2,3) by blast
  next
    case full
    then have "victim ?tbl i" using u(1) by (simp add: slot_def)
    moreover have "lookup m a s' = (if (m, a) = (n, ip) then Some eth else if (m, a) \<in> {(m, a). has_key m a (?tbl ! i)} then None else lookup m a s)" for m a using look [of m a] by simp
    ultimately show ?thesis using u(2,3) full by blast
  qed
qed

section \<open>Expiry\<close>

text \<open>The timer runs \<open>k\<close> times, once a second (\<open>ARP_TMR_INTERVAL\<close>).\<close>

fun ticks :: "'w arp_env \<Rightarrow> nat \<Rightarrow> 'w arp \<Rightarrow> 'w arp option" where
  "ticks e 0 s = Some s"
| "ticks e (Suc k) s = Option.bind (etharp_tmr e s) (ticks e k)"

definition survives :: "nat \<Rightarrow> arp_entry \<Rightarrow> bool" where
  "survives k en \<longleftrightarrow> live en \<and> (k = 0 \<or> unat (ctime en) + k < (if pending en then 5 else 300))"

definition same_entry :: "arp_entry \<Rightarrow> arp_entry \<Rightarrow> bool" where
  "same_entry x y \<longleftrightarrow> same_key x y \<and> ethaddr x = ethaddr y"

lemma survives_aged:
  assumes "entry_ok en"
  shows "survives k (aged en) \<longleftrightarrow> survives (Suc k) en" "live (aged en) \<Longrightarrow> same_entry (aged en) en"
proof -
  have "ethaddr (aged en) = ethaddr en" by (simp add: aged_def)
  then show "live (aged en) \<Longrightarrow> same_entry (aged en) en" using aged_live(2) [OF assms] by (simp add: same_entry_def)
  show "survives k (aged en) \<longleftrightarrow> survives (Suc k) en"
  proof (cases "live (aged en)")
    case True
    then show ?thesis using aged_live(1,3,4) [OF assms] by (cases k) (simp_all add: survives_def)
  next
    case False
    then show ?thesis using aged_live(1) [OF assms] by (auto simp: survives_def)
  qed
qed


section \<open>Answers\<close>

lemma learns_slot:
  assumes "learns nf n ip eth new h tbl tbl' fs" "unicast nf ip" "new \<or> list_ex (has_key n ip) tbl"
  obtains i where "slot tbl n ip i" "tbl' = tbl[i := resolved n ip eth (tbl ! i)]" "fs = (if list_ex (has_key n ip) tbl then waiting_frame h nf eth (tbl ! i) else [])"
  using assms by (auto simp: learns_def)

text \<open>
  C21. Requests for our address are answered: a frame with an ARP request for the address of the interface is consumed, the sender is in the table afterwards, and exactly one
  reply goes out, to the sender, with the hardware address of the interface. Only packets that wait for the sender's address go out before it.
\<close>

theorem arp_requests_answered:
  assumes "malloc_ok malloc" "dhcp_ok (t1s_env dev malloc ipi dhcp) t1s_ok t1s_full (takes dev)" "room malloc (aheap s)" "arp_ok t1s_ok s"
    and "nifs s n = Some nf" "netif_ok nf" "nflags nf AND NETIF_FLAG_ETHARP \<noteq> 0" "nip nf \<noteq> IPADDR_ANY" "unicast nf spa"
    and "received s p xs" "list_all (single (aheap s)) xs" "aheap s p = Some b"
    and "bdata b = dst @ src @ [8, 6] @ arp_packet ARP_REQUEST sha spa tha (nip nf) @ rest" "length dst = 6" "length src = 6" "length sha = 6" "length tha = 6"
  shows "\<exists>s' fs. ethernet_input (t1s_env dev malloc ipi dhcp) p n s = Some (ERR_OK, s') \<and> arp_ok t1s_ok s' \<and> (\<forall>x \<in> set xs. aheap s' x = None) \<and>
    lookup n spa s' = Some sha \<and> offers t1s_full (takes dev) (low s) (fs @ [arp_frame (hwaddr nf) sha ARP_REPLY (hwaddr nf) (nip nf) sha spa]) (low s') \<and>
    (\<not> list_ex (has_key n spa) (arp_table s) \<longrightarrow> fs = [])"
proof -
  have "room (amalloc (t1s_env dev (checked malloc) ipi dhcp)) (aheap s)" using assms(3) by (simp add: t1s_env_def checked_id [OF assms(1)])
  then obtain fs s' where i: "ethernet_input (t1s_env dev malloc ipi dhcp) p n s = Some (ERR_OK, s')" "arp_ok t1s_ok s'"
    "learns nf n spa sha True (aheap s) (arp_table s) (arp_table s') fs" "offers t1s_full (takes dev) (low s) (fs @ [reply_frame nf sha spa]) (low s')"
    "\<forall>x \<in> set xs. aheap s' x = None"
    using t1s.ethernet_input_arp [OF assms(4-7,10,12-17), where dev = dev and malloc = malloc and ip = ipi and dhcp = dhcp] assms(2,8,11) unfolding checked_id [OF assms(1)] by auto
  from learns_slot [OF i(3) assms(9)] obtain j where j: "slot (arp_table s) n spa j" "arp_table s' = (arp_table s)[j := resolved n spa sha (arp_table s ! j)]"
    "fs = (if list_ex (has_key n spa) (arp_table s) then waiting_frame (aheap s) nf sha (arp_table s ! j) else [])" by blast
  then show ?thesis using i lookup_resolved [OF arp_okD(1) [OF assms(4)] j(1) assms(16) j(2)] by (auto simp: reply_frame_def)
qed

section \<open>Resolution\<close>


text \<open>
  C19. When an ARP packet from the host comes in, request or reply, the packet that waits for the host goes out first of all, to the hardware address in that ARP packet, which is
  in the table from then on; no packet waits for the host any more.
\<close>

theorem arp_packet_released:
  assumes "malloc_ok malloc" "dhcp_ok (t1s_env dev malloc ipi dhcp) t1s_ok t1s_full (takes dev)" "arp_ok t1s_ok s"
    and "nifs s n = Some nf" "netif_ok nf" "nflags nf AND NETIF_FLAG_ETHARP \<noteq> 0" "unicast nf host"
    and "i < ARP_TABLE_SIZE" "has_key n host (arp_table s ! i)" "aq (arp_table s ! i) = Some q" "headroom (aheap s) q"
    and "received s p xs" "aheap s p = Some b"
    and "bdata b = dst @ src @ [8, 6] @ arp_packet opcode sha host tha tpa @ rest" "length dst = 6" "length src = 6" "length sha = 6" "length tha = 6"
  shows "\<exists>s' gs. ethernet_input (t1s_env dev malloc ipi dhcp) p n s = Some (ERR_OK, s') \<and> arp_ok t1s_ok s' \<and>
    offers t1s_full (takes dev) (low s) ((sha @ hwaddr nf @ [8, 0] @ packet_data (aheap s) q) # gs) (low s') \<and>
    lookup n host s' = Some sha \<and> aq (arp_table s' ! i) = None"
proof -
  obtain new fs gs s' where e: "ethernet_input (t1s_env dev malloc ipi dhcp) p n s = Some (ERR_OK, s')" "arp_ok t1s_ok s'"
    "learns nf n host sha new (aheap s) (arp_table s) (arp_table s') fs" "offers t1s_full (takes dev) (low s) (fs @ gs) (low s')"
    using t1s.ethernet_input_arp [OF assms(3-6,12-18), where dev = dev and malloc = malloc and ip = ipi and dhcp = dhcp] assms(2) unfolding checked_id [OF assms(1)] by metis
  have has: "list_ex (has_key n host) (arp_table s)" using assms(8,9) arp_okD(2) [OF assms(3)] by (auto simp: list_ex_length)
  obtain j where j: "slot (arp_table s) n host j" "arp_table s' = (arp_table s)[j := resolved n host sha (arp_table s ! j)]" "fs = waiting_frame (aheap s) nf sha (arp_table s ! j)"
    using learns_slot [OF e(3) assms(7)] has by metis
  have "j < ARP_TABLE_SIZE" "has_key n host (arp_table s ! j)" using j(1) has arp_okD(2) [OF assms(3)] by (simp_all add: slot_def)
  from key_unique [OF arp_okD(1) [OF assms(3)] this assms(8,9)] have ji: "j = i" .
  then have "fs = [sha @ hwaddr nf @ [8, 0] @ packet_data (aheap s) q]" using j(3) assms(10,11) by (simp add: waiting_frame_def)
  moreover have "lookup n host s' = Some sha" using lookup_resolved [OF arp_okD(1) [OF assms(3)] j(1) assms(17) j(2)] by simp
  moreover have "aq (arp_table s' ! i) = None" using j(2) ji assms(8) arp_okD(2) [OF assms(3)] by (simp add: resolved_def)
  ultimately show ?thesis using e(1,2,4) by auto
qed

section \<open>All sequences of operations\<close>

definition no_entry :: arp_entry where
  "no_entry = \<lparr>aq = None, aip = 0, anetif = None, ethaddr = replicate 6 0, ctime = 0, astate = ETHARP_STATE_EMPTY\<rparr>"

text \<open>
  The states that the ARP module reaches from the empty table: by its timer, packets to send, queries, received frames, the removal of an interface, and whatever the driver and the rest of the
  stack do with buffers that do not wait in the table. A received frame has at least the 42 bytes that \<open>TC6_CB_OnRxEthernetPacket\<close> asks for (\<open>MIN_HEADER_LEN\<close>).
\<close>

inductive arp_reach :: "'w arp_env \<Rightarrow> ('w \<Rightarrow> bool) \<Rightarrow> 'w arp \<Rightarrow> bool" for e low_ok where
  arp_start: "arp_table s = replicate ARP_TABLE_SIZE no_entry \<Longrightarrow> etharp_cached_entry s = 0 \<Longrightarrow> low_ok (low s) \<Longrightarrow>
    (\<And>n nf. nifs s n = Some nf \<Longrightarrow> netif_ok nf) \<Longrightarrow> arp_reach e low_ok s"
| arp_tick: "arp_reach e low_ok s \<Longrightarrow> etharp_tmr e s = Some s' \<Longrightarrow> arp_reach e low_ok s'"
| arp_output: "arp_reach e low_ok s \<Longrightarrow> nifs s n = Some nf \<Longrightarrow> handed s q xs \<Longrightarrow> etharp_output e n q ip s = Some (r, s') \<Longrightarrow> arp_reach e low_ok s'"
| arp_query: "arp_reach e low_ok s \<Longrightarrow> nifs s n = Some nf \<Longrightarrow> etharp_query e n ip None s = Some (r, s') \<Longrightarrow> arp_reach e low_ok s'"
| arp_input: "arp_reach e low_ok s \<Longrightarrow> nifs s n = Some nf \<Longrightarrow> received s p xs \<Longrightarrow> aheap s p = Some b \<Longrightarrow> 42 \<le> unat (plen b) \<Longrightarrow>
    ethernet_input e p n s = Some (r, s') \<Longrightarrow> arp_reach e low_ok s'"
| arp_cleanup: "arp_reach e low_ok s \<Longrightarrow> etharp_cleanup_netif n s = Some s' \<Longrightarrow> arp_reach e low_ok s'"
| arp_other: "arp_reach e low_ok s \<Longrightarrow> (\<And>x. x \<in> held (aheap s) (map aq (arp_table s)) \<Longrightarrow> h x = aheap s x) \<Longrightarrow> low_ok w \<Longrightarrow>
    arp_reach e low_ok (s\<lparr>aheap := h, low := w\<rparr>)"

definition netifs_ok :: "'w arp \<Rightarrow> bool" where
  "netifs_ok s \<longleftrightarrow> (\<forall>n nf. nifs s n = Some nf \<longrightarrow> netif_ok nf)"

lemma netifs_ok_kept: "netifs_ok s \<Longrightarrow> netifs_kept s s' \<Longrightarrow> netifs_ok s'"
  by (fastforce simp: netifs_ok_def netifs_kept_def netif_ok_def)

lemma table_ok_start: "table_ok (replicate ARP_TABLE_SIZE no_entry)"
  by (simp add: table_ok_def entry_ok_def same_key_def no_entry_def list_all_length)

lemma arp_ok_start:
  assumes "arp_table s = replicate ARP_TABLE_SIZE no_entry" "etharp_cached_entry s = 0" "low_ok (low s)"
  shows "arp_ok low_ok s"
proof -
  have "waits h (map aq (replicate ARP_TABLE_SIZE no_entry))" for h by (rule waitsI) (auto simp: queue_at_def no_entry_def)
  moreover have "\<not> live en" if "en \<in> set (replicate ARP_TABLE_SIZE no_entry)" for en using that by (simp add: no_entry_def)
  ultimately show ?thesis unfolding arp_ok_def assms(1,2) using assms(3) table_ok_start by simp
qed

lemma cleanup_ok: "arp_ok low_ok s \<Longrightarrow> \<exists>s'. etharp_cleanup_netif n s = Some s' \<and> arp_ok low_ok s' \<and> nifs s' = nifs s"
  using cleanup_loop_ok [of low_ok s "[0..<ARP_TABLE_SIZE]" n] by (auto simp: etharp_cleanup_netif_def list_all_iff)

context link_layer
begin

lemma reach_ok:
  assumes "dhcp_ok e low_ok full accepts" "ip_ok e low_ok" "arp_reach e low_ok s"
  shows "arp_ok low_ok s \<and> netifs_ok s"
  using assms(3)
proof (induction rule: arp_reach.induct)
  case (arp_start s)
  then show ?case using arp_ok_start [of s low_ok] by (simp add: netifs_ok_def)
next
  case (arp_tick s s')
  then show ?case using tmr_ages [of s] by (auto simp: netifs_ok_def)
next
  case (arp_output s n nf q xs ip r s')
  then show ?case using output_any [of s n nf q xs ip] by (auto simp: netifs_ok_def)
next
  case (arp_query s n nf ip r s')
  then show ?case using query_plain [of s n nf ip] by (auto simp: netifs_ok_def)
next
  case (arp_input s n nf p xs b r s')
  then have "netif_ok nf" "unat (plen b) \<le> 14 \<or> 42 \<le> unat (plen b)" by (simp_all add: netifs_ok_def)
  then show ?case using ethernet_input_any [of s n nf p xs b] arp_input assms(1,2) netifs_ok_kept [of s] by fastforce
next
  case (arp_cleanup s n s')
  then show ?case using cleanup_ok [of low_ok s n] by (auto simp: netifs_ok_def)
next
  case (arp_other s h w)
  then show ?case using waits_cong(1) [OF arp_okD(3), of low_ok s h] by (simp add: arp_ok_def netifs_ok_def)
qed

end


section \<open>Examples\<close>

text \<open>An interface with the address 10.0.0.1, the hosts 10.0.0.2, which is known, and 10.0.0.3, for which a packet may wait.\<close>

definition arp_netif :: netif where
  "arp_netif = lwIpInit [2, 0, 0, 0, 0, 1] \<lparr>nip = 0x0100000A, nmask = 0x00FFFFFF, ngw = 0xFE00000A, hwaddr = [], hwaddr_len = 0, nflags = 0, num = 0\<rparr>"

definition known_host :: arp_entry where
  "known_host = no_entry\<lparr>aip := 0x0200000A, anetif := Some 0, ethaddr := [2, 0, 0, 0, 0, 2], ctime := 298, astate := ETHARP_STATE_STABLE\<rparr>"

definition waiting_host :: arp_entry where
  "waiting_host = no_entry\<lparr>aip := 0x0300000A, anetif := Some 0, astate := ETHARP_STATE_PENDING, aq := Some 5\<rparr>"

definition one_host :: "arp_entry list" where
  "one_host = (replicate ARP_TABLE_SIZE no_entry)[0 := known_host]"

definition two_hosts :: "arp_entry list" where
  "two_hosts = one_host[1 := waiting_host]"

text \<open>A frame with an ARP packet from 10.0.0.3 for our address at 3, a packet to send at 5.\<close>

definition arp_heap :: "u16 \<Rightarrow> heap" where
  "arp_heap opcode = [3 \<mapsto> pbuf_init_alloced_pbuf (arp_frame [2, 0, 0, 0, 0, 3] ethbroadcast opcode [2, 0, 0, 0, 0, 3] 0x0300000A ethzero 0x0100000A @ replicate 18 0) 0 60 60 PBUF_RAM 0,
     5 \<mapsto> pbuf_init_alloced_pbuf (replicate 16 0 @ [1, 2, 3, 4]) 16 4 4 PBUF_RAM 0]"

definition arp_state :: "arp_entry list \<Rightarrow> heap \<Rightarrow> (tc6 \<times> nat) arp" where
  "arp_state tbl h = \<lparr>arp_table = tbl, etharp_cached_entry = 0, aheap = h, nifs = [0 \<mapsto> arp_netif], low = (wire_example, 0)\<rparr>"

definition example_env :: "(tc6 \<times> nat) arp_env" where
  "example_env = t1s_env (\<lambda>n tx. (tx, n + 1)) one_malloc (\<lambda>p n s. map_option (\<lambda>(_, h). s\<lparr>aheap := h\<rparr>) (pbuf_free (aheap s) (Some p))) (\<lambda>n ip s. Some s)"

lemma arp_netif: "netif_ok arp_netif" "nflags arp_netif AND NETIF_FLAG_ETHARP \<noteq> 0" "nip arp_netif = 0x0100000A" "hwaddr arp_netif = [2, 0, 0, 0, 0, 1]"
  "unicast arp_netif 0x0300000A" "next_hop arp_netif 0x0300000A = Some 0x0300000A" "\<not> ip4_addr_isbroadcast 0x0300000A arp_netif" "\<not> ip4_addr_ismulticast 0x0300000A"
  by code_simp+

lemma no_queue: "list_all (\<lambda>q. q = None) qs \<Longrightarrow> waits h qs" "list_all (\<lambda>q. q = None) qs \<Longrightarrow> held h qs = {}"
  by (auto intro!: waitsI simp: queue_at_def held_def list_all_length)

lemma packet_new: "h p = Some (pbuf_init_alloced_pbuf m off l l PBUF_RAM 0) \<Longrightarrow> off + unat l \<le> length m \<Longrightarrow> packet h p [p]"
  by (simp add: packet_def freeable_def pbuf_init_alloced_pbuf_def)

lemma arp_state_ok:
  assumes "table_ok tbl" "waits h (map aq tbl)" "\<forall>en \<in> set tbl. anetif en = Some 0 \<or> \<not> live en"
  shows "arp_ok t1s_ok (arp_state tbl h)"
  using assms arp_netif(1) wire_example(1) by (auto simp: arp_ok_def arp_state_def)

lemma arp_heap_packets: "packet (arp_heap opcode) 3 [3]" "packet (arp_heap opcode) 5 [5]" "headroom (arp_heap opcode) 5" "room one_malloc (arp_heap opcode)"
proof -
  show "packet (arp_heap opcode) 3 [3]" "packet (arp_heap opcode) 5 [5]"
    by (rule packet_new, simp add: arp_heap_def, simp add: arp_frame_def arp_packet_def)+
  show "headroom (arp_heap opcode) 5" by (simp add: headroom_def arp_heap_def pbuf_init_alloced_pbuf_def)
  show "room one_malloc (arp_heap opcode)" by (simp add: room_def one_malloc_def arp_heap_def)
qed

lemma arp_tables: "table_ok one_host" "table_ok two_hosts"
proof -
  show one: "table_ok one_host" unfolding one_host_def
    by (rule table_ok_upd [OF table_ok_start]) (simp_all add: entry_ok_def same_key_def known_host_def no_entry_def)
  show "table_ok two_hosts" unfolding two_hosts_def
    by (rule table_ok_upd [OF one]) (simp_all add: entry_ok_def same_key_def known_host_def waiting_host_def no_entry_def one_host_def nth_list_update)
qed

lemma arp_states:
  "arp_ok t1s_ok (arp_state one_host (arp_heap opcode))" "arp_ok t1s_ok (arp_state two_hosts (arp_heap opcode))"
  "received (arp_state one_host (arp_heap opcode)) 3 [3]" "received (arp_state two_hosts (arp_heap opcode)) 3 [3]" "handed (arp_state one_host (arp_heap opcode)) 5 [5]"
proof -
  have q1: "map aq one_host = replicate 10 None"
    by (simp add: one_host_def map_update known_host_def no_entry_def list_update_same_conv)
  then have q: "map aq one_host = replicate 10 None" "map aq two_hosts = (replicate 10 None)[1 := Some 5]"
    by (simp_all add: two_hosts_def map_update waiting_host_def)
  have none: "waits h (replicate 10 None)" "held h (replicate 10 None) = {}" for h using no_queue [of "replicate 10 None"] by (simp_all add: list_all_length)
  have "(replicate 10 None)[1 := None] = replicate 10 (None :: nat option)" by (simp add: list_update_same_conv)
  then have two: "waits (arp_heap opcode) (map aq two_hosts)"
    unfolding q(2) using none by (intro waits_add [OF _ arp_heap_packets(2)]) (simp_all del: One_nat_def)
  have one: "\<forall>en \<in> set one_host. anetif en = Some 0 \<or> \<not> live en"
    using set_update_subset_insert [of "replicate ARP_TABLE_SIZE no_entry" 0 known_host] by (fastforce simp: one_host_def known_host_def no_entry_def)
  then have set: "\<forall>en \<in> set one_host. anetif en = Some 0 \<or> \<not> live en" "\<forall>en \<in> set two_hosts. anetif en = Some 0 \<or> \<not> live en"
    using set_update_subset_insert [of one_host 1 waiting_host] by (auto simp: two_hosts_def waiting_host_def)
  show "arp_ok t1s_ok (arp_state one_host (arp_heap opcode))" using arp_state_ok [OF arp_tables(1) _ set(1)] q(1) none by simp
  show "arp_ok t1s_ok (arp_state two_hosts (arp_heap opcode))" using arp_state_ok [OF arp_tables(2) two set(2)] .
  show "received (arp_state one_host (arp_heap opcode)) 3 [3]" "handed (arp_state one_host (arp_heap opcode)) 5 [5]"
    using arp_heap_packets(1,2) none by (simp_all add: received_def handed_def arp_state_def q(1)) (simp_all add: arp_heap_def pbuf_init_alloced_pbuf_def)
  have "3 \<notin> held (arp_heap opcode) (map aq two_hosts)"
  proof
    assume "3 \<in> held (arp_heap opcode) (map aq two_hosts)"
    then obtain j p xs where "queue_at ((replicate 10 None)[1 := Some 5]) j p" "plink (arp_heap opcode) (Some p) xs" "3 \<in> set xs" unfolding q(2) held_def by blast
    moreover from this have "p = 5" by (auto simp: queue_at_def nth_list_update split: if_splits)
    ultimately show False using plink_unique [of "arp_heap opcode" "Some 5" xs "[5]"] arp_heap_packets(2) [of opcode] by (simp add: packet_def)
  qed
  then show "received (arp_state two_hosts (arp_heap opcode)) 3 [3]" using arp_heap_packets(1) by (simp add: received_def arp_state_def)
qed

lemma example_env_ok: "dhcp_ok example_env t1s_ok t1s_full (takes (\<lambda>n tx. (tx, n + 1)))" "ip_ok example_env t1s_ok"
proof -
  have "\<exists>h' w' fs. Some s = Some (s\<lparr>aheap := h', low := w'\<rparr>) \<and> heap_ext (aheap s) h' \<and> t1s_ok w' \<and> offers t1s_full (takes (\<lambda>n tx. (tx, n + 1))) (low s) fs w'"
    if "arp_ok t1s_ok s" for s :: "(tc6 \<times> nat) arp"
    using arp_okD(4) [OF that] by (intro exI [of _ "aheap s"] exI [of _ "low s"] exI [of _ "[]"]) simp
  then show "dhcp_ok example_env t1s_ok t1s_full (takes (\<lambda>n tx. (tx, n + 1)))"
    unfolding dhcp_ok_def example_env_def t1s_env_def arp_env.simps by blast
  show "ip_ok example_env t1s_ok"
    unfolding ip_ok_def using received_freed [of t1s_ok] by (fastforce simp: example_env_def t1s_env_def netifs_kept_def)
qed

lemma arp_state_simps: "nifs (arp_state tbl h) 0 = Some arp_netif" "aheap (arp_state tbl h) = h" "low (arp_state tbl h) = (wire_example, 0)" "arp_table (arp_state tbl h) = tbl"
  by (simp_all add: arp_state_def)

theorem arp_table_is_a_cache_witness:
  "\<exists>s'. etharp_update_arp_entry example_env 0 0x0300000A [2, 0, 0, 0, 0, 3] ETHARP_FLAG_TRY_HARD (arp_state one_host (arp_heap 2)) = Some (ERR_OK, s') \<and>
    lookup 0 0x0300000A s' = Some [2, 0, 0, 0, 0, 3] \<and> lookup 0 0x0200000A s' = Some [2, 0, 0, 0, 0, 2]"
proof -
  have old: "lookup 0 0x0200000A (arp_state one_host (arp_heap 2)) = Some [2, 0, 0, 0, 0, 2]"
    using arp_tables(1) by (subst lookup_eq) (auto simp: arp_state_simps one_host_def known_host_def has_key_def is_stable_def intro!: exI [of _ 0])
  have free: "\<not> list_all live one_host" by (simp add: one_host_def no_entry_def list_all_length) (rule exI [of _ 1], simp)
  show ?thesis
    using arp_table_is_a_cache [OF one_malloc_ok(1) arp_states(1) [of 2] arp_state_simps(1) arp_netif(1,5), of "[2, 0, 0, 0, 0, 3]"] old free
    unfolding example_env_def arp_state_simps by fastforce
qed


lemma arp_frame_data:
  "bdata (the (arp_heap opcode 3)) = ethbroadcast @ [2, 0, 0, 0, 0, 3] @ [8, 6] @ arp_packet opcode [2, 0, 0, 0, 0, 3] 0x0300000A ethzero 0x0100000A @ replicate 18 0"
  "arp_heap opcode 3 = Some (the (arp_heap opcode 3))" "packet_data (arp_heap opcode) 5 = [1, 2, 3, 4]" "list_all (single (arp_heap opcode)) [3]" "plen (the (arp_heap opcode 3)) = 60"
proof -
  show "bdata (the (arp_heap opcode 3)) = ethbroadcast @ [2, 0, 0, 0, 0, 3] @ [8, 6] @ arp_packet opcode [2, 0, 0, 0, 0, 3] 0x0300000A ethzero 0x0100000A @ replicate 18 0"
    by (simp add: bdata_def arp_heap_def pbuf_init_alloced_pbuf_def sub_at_def arp_frame_def arp_packet_def)
  have "packet_data (arp_heap opcode) 5 = pdata (arp_heap opcode) [5]" using packet_data_eq [of "arp_heap opcode" 5 "[5]"] arp_heap_packets(2) [of opcode] unfolding packet_def by blast
  then show "packet_data (arp_heap opcode) 5 = [1, 2, 3, 4]" by (simp add: arp_heap_def pbuf_init_alloced_pbuf_def bdata_def sub_at_def)
qed (simp_all add: arp_heap_def pbuf_init_alloced_pbuf_def single_def)

lemma new_host: "\<not> list_ex (has_key 0 0x0300000A) one_host" "two_hosts ! 1 = waiting_host" "has_key 0 0x0300000A waiting_host" "aq waiting_host = Some 5"
  by (simp_all add: one_host_def two_hosts_def known_host_def waiting_host_def no_entry_def has_key_def list_ex_length nth_list_update)

theorem arp_requests_answered_witness:
  "\<exists>s'. ethernet_input example_env 3 0 (arp_state one_host (arp_heap ARP_REQUEST)) = Some (ERR_OK, s') \<and> lookup 0 0x0300000A s' = Some [2, 0, 0, 0, 0, 3] \<and> aheap s' 3 = None \<and>
    offers t1s_full (takes (\<lambda>n tx. (tx, n + 1))) (wire_example, 0)
      [arp_frame [2, 0, 0, 0, 0, 1] [2, 0, 0, 0, 0, 3] ARP_REPLY [2, 0, 0, 0, 0, 1] 0x0100000A [2, 0, 0, 0, 0, 3] 0x0300000A] (low s')"
  using arp_requests_answered [where s = "arp_state one_host (arp_heap ARP_REQUEST)", unfolded arp_state_simps, OF one_malloc_ok(1) example_env_ok(1) [unfolded example_env_def]
      arp_heap_packets(4) arp_states(1) _ arp_netif(1,2) _ arp_netif(5) arp_states(3) arp_frame_data(4,2), of 0 ethbroadcast "[2, 0, 0, 0, 0, 3]" "[2, 0, 0, 0, 0, 3]" ethzero "replicate 18 0"]
    new_host(1) arp_frame_data(1) [of ARP_REQUEST] arp_state_simps(1)
  unfolding example_env_def arp_netif by (fastforce simp: arp_netif)


theorem arp_packet_released_witness:
  "\<exists>s' gs. ethernet_input example_env 3 0 (arp_state two_hosts (arp_heap ARP_REPLY)) = Some (ERR_OK, s') \<and> lookup 0 0x0300000A s' = Some [2, 0, 0, 0, 0, 3] \<and>
    offers t1s_full (takes (\<lambda>n tx. (tx, n + 1))) (wire_example, 0) (([2, 0, 0, 0, 0, 3] @ [2, 0, 0, 0, 0, 1] @ [8, 0] @ [1, 2, 3, 4]) # gs) (low s')"
  using arp_packet_released [where s = "arp_state two_hosts (arp_heap ARP_REPLY)" and i = 1, unfolded arp_state_simps new_host, OF one_malloc_ok(1) example_env_ok(1) [unfolded example_env_def]
      arp_states(2) _ arp_netif(1,2,5) _ new_host(3) refl arp_heap_packets(3) arp_states(4) arp_frame_data(2,1)] arp_state_simps(1)
  unfolding example_env_def arp_netif arp_frame_data by (fastforce simp: arp_netif)


end
