(* ===== verification/Spec2Isabelle.thy ===== *)
theory Spec2Isabelle
  imports Tc6_Regs_Service Lan86xx_Config Arduino_Netif_Tx Arduino_Udp Arduino_Http_Memory Lwip_Pbuf_Alloc Lwip_Checksum Lwip_Timeouts Lwip_Etharp_Correct
begin

text \<open>
  A verification of the 10BASE-T1S library for Arduino and of the Linux driver that comes with it.

  \<^bold>\<open>The program.\<close> A LAN865x is an Ethernet MAC and PHY in one chip (a MACPHY) that is attached to a micro controller by SPI and speaks the OPEN
  Alliance TC6 protocol: frames are cut into chunks of 64 bytes, registers are accessed by control requests. The library has these parts.

  \<^item> \<open>libtc6/src/tc6.cpp\<close> with \<open>tc6-queue.h\<close>: the TC6 driver, one instance per chip with three ring queues (frames to send, SPI buffers, register
    operations), a service function and the completion interrupt of the SPI transfer.
  \<^item> \<open>libtc6/src/tc6-regs.cpp\<close>: initialisation of the chip and handling of its status registers by chains of callbacks.
  \<^item> \<open>microchip/TC6_Arduino_10BASE_T1S.cpp\<close> and \<open>TC6_Io.cpp\<close>: the network interface between the driver and the lwIP stack, with SPI and interrupt pin.
  \<^item> \<open>Arduino_10BASE_T1S_UDP.cpp\<close>: UDP sockets for sketches. \<open>Arduino_10BASE_T1S_HTTP.cpp\<close>: an HTTP server that runs in the callbacks of lwIP's TCP.
  \<^item> \<open>MacAddress.cpp\<close>, \<open>T1SPlcaSettings.cpp\<close>, \<open>T1SMacSettings.cpp\<close>, \<open>lib/lwip_sys_now.cpp\<close>: settings, and what lwIP needs of the board.
  \<^item> \<open>lib/liblwip\<close>: the lwIP stack, vendored, of which the packet buffers (\<open>core/pbuf.c\<close>) are the interface to the rest, and whose checksum
    (\<open>core/inet_chksum.c\<close>) every packet and whose timers (\<open>core/timeouts.c\<close>) every protocol depends on. Its Ethernet and ARP modules (\<open>netif/ethernet.c\<close>,
    \<open>core/ipv4/etharp.c\<close>) are what the network interface gives received frames to and what IP gives packets to: they call \<open>lwIpOut\<close>.
  \<^item> \<open>extras/.../microchip_t1s.c\<close>: the Linux driver for PHYs of the same family.

  A received frame runs through the receive path of the driver, the network interface, the stack and a socket; a frame to send takes the opposite way.

  \<^bold>\<open>The theories.\<close> A stateful function becomes a function on a record of its state; \<open>None\<close> stands for an access outside of memory, a failed assertion or
  a loop that does not end, so that a result \<open>Some\<close> is also a statement of safety and termination. Machine integers are words of their width. Calls to the
  integrator are recorded in a trace (\<open>calls\<close>); the SPI bus, the MDIO bus, the memory allocator, the time, the UDP and the TCP layer of lwIP, the entries of IP and DHCP that ARP calls and the handlers of HTTP requests are arguments.

  \<^item> \<open>Prelude\<close>: types, memory as lists of bytes, arithmetic of words.
  \<^item> \<open>Tc6_Queue\<close> (\<open>tc6-queue.h\<close>): the queues on counters that wrap around; locales for staged and for first-in first-out queues, interpreted on all three.
  \<^item> \<open>Tc6_Frame\<close> (headers, footers, parity and control requests of \<open>tc6.cpp\<close>): round trips, parity, detection of corrupted answers.
  \<^item> \<open>Tc6_State\<close>, \<open>Tc6_Core\<close> (the instance and its operations), \<open>Tc6_Tx\<close>, \<open>Tc6_Rx\<close> (the two data paths).
  \<^item> \<open>Tc6_Spec\<close>: what chunks mean by the TC6 specification, independent of the code. \<open>Tc6_Tx_Stream\<close> and \<open>Tc6_Rx_Stream\<close> show that the data
    paths refine it, errors included.
  \<^item> \<open>Tc6_Service\<close>: the invariant of the driver, kept by every operation, and that every operation returns; \<open>Tc6_Wire\<close>: reachable states, one
    round of service on the wire, reset. \<open>Tc6_Register\<close>: register accesses end to end against a model of the MACPHY's registers.
  \<^item> \<open>Tc6_Regs\<close> (\<open>tc6-regs.cpp\<close>) and \<open>Tc6_Regs_Service\<close>: the callbacks return and never wait, status bits are reported and cleared, arithmetic of the
    chip configuration.
  \<^item> \<open>Lan86xx_Phy\<close> (\<open>microchip_t1s.c\<close>) and \<open>Lan86xx_Config\<close>: what the configuration leaves in the registers, and errors on the bus.
  \<^item> \<open>Lwip_Pbuf\<close> (\<open>core/pbuf.c\<close>), \<open>Lwip_Pbuf_Chain\<close> and \<open>Lwip_Pbuf_Alloc\<close>: chains in a heap, reference counts, copying, shrinking, allocation.
  \<^item> \<open>Arduino_Netif\<close> (the network interface), \<open>Arduino_Netif_Rx\<close> and \<open>Arduino_Netif_Tx\<close>: no packet buffer is leaked or freed twice, and the frames on the
    wire are those that lwIP gets and sends. \<open>Arduino_Udp\<close>: sockets as queues of datagrams.
  \<^item> \<open>C_String\<close>: strings in arrays and the functions of C on them. \<open>Arduino_Http\<close> (the HTTP server); \<open>Arduino_Http_Parse\<close>: its request parser against a
    description on lists; \<open>Arduino_Http_Server\<close>: a request is answered once, however it is cut into segments; \<open>Arduino_Http_Memory\<close>: the step relation of the
    server under the events of lwIP, with the invariant that connection states are owned by connections, and safety of every callback.
  \<^item> \<open>Arduino_Settings\<close> (the settings and the port of lwIP): texts are printed whole, byte order. \<open>Lwip_Checksum\<close> (\<open>core/inet_chksum.c\<close>): the
    checksum over chains is that of RFC 1071. \<open>Lwip_Timeouts\<close> (\<open>core/timeouts.c\<close>): the timers on the wrapping clock refine a sorted agenda on a clock that
    never wraps.
  \<^item> \<open>Lwip_Etharp\<close> (\<open>etharp.c\<close>, \<open>ethernet.c\<close> and the address tests they use, \<open>lwIpInit\<close>): the state is the ARP table, the packet buffers, the interfaces and the state of the driver.
    \<open>Lwip_Etharp_Table\<close>: the table and the choice of the entry to give up. \<open>Lwip_Etharp_Link\<close>: the contract of the driver below as a locale, frames and ARP packets.
    \<open>Lwip_Etharp_Update\<close>: waiting packets, the invariant of table and packets, updates. \<open>Lwip_Etharp_Ops\<close>, \<open>Lwip_Etharp_Output\<close>, \<open>Lwip_Etharp_Input\<close>: the timer and both
    directions, under the contract. \<open>Lwip_Etharp_Driver\<close>: \<open>lwIpOut\<close> keeps the contract (the interpretation). \<open>Lwip_Etharp_Correct\<close>: the table is a cache, entries expire, a packet to an
    unknown host waits and goes out when the host is heard, requests are answered, and no reachable state lets an operation fail.
  \<^item> This theory compares the calibration of the two drivers for the chip.

  \<^bold>\<open>Bounds.\<close> Loops of the code are recursion over the data they walk along, \<open>while\<close> with a termination proof or \<open>partial_function\<close>;
  no fuel is used except in the waiting loops of the initialisation, which are \<open>partial_function\<close>s as they wait for hardware. Frames are limited by the 16-bit offsets of the driver,
  which the specification of the chunks states.

  \<^bold>\<open>Not modelled.\<close> Pin and SPI set-up, output on the console, multicast (calls to lwIP), custom pbufs and checksums while copying or over parts of a chain, what is compiled out of the ARP module (static
  entries, queues of packets, VLAN, AutoIP), and the rest of lwIP, IP itself included, a stack of its own with 25 times the code of the library: the interface hands frames over to it and takes frames from it. Segments of a frame
  to be sent are modelled with the bytes they point to, not as pointers.
\<close>

section \<open>Two drivers, one chip\<close>

text \<open>What \<open>InitChip\<close> keeps of a register: \<open>(uint8_t)val\<close>, stored to 16 bits.\<close>

definition low_byte :: "u16 \<Rightarrow> u16" where
  "low_byte x = ucast ((ucast x :: u32) AND 0xFF)"

lemma numeral_scast: "numeral k + scast c = (word_of_int (numeral k + sint c) :: 'a::len word)" for c :: "8 word"
  by (simp add: signed_def)

lemma lan865x_cfg_results_cfg_or:
  "lan865x_cfg_results ps a b =
    [cfg_or (cfg_or (ps ! 0 AND 0x000F) 9 a 10) 14 a 4, cfg_or (ps ! 1 AND 0x3FF) 40 b 10,
     cfg_or (cfg_or (ps ! 2 AND 0xC0C0) 5 a 8) 9 a 0, cfg_or (cfg_or (ps ! 3 AND 0xC0C0) 9 a 8) 14 a 0,
     cfg_or (cfg_or (ps ! 4 AND 0xC0C0) 17 a 8) 22 a 0]"
proof -
  have "ucast (ucast x :: u64) = x" for x :: u16
    by (rule bit_word_eqI) (simp add: bit_simps)
  moreover have "ucast (word_of_int v :: u64) = (word_of_int v :: u16)" for v
    by (rule bit_word_eqI) (simp add: bit_simps)
  then have "ucast (numeral k + scast c :: u64) = (numeral k + scast c :: u16)" for k and c :: "8 word"
    by (simp only: numeral_scast)
  ultimately show ?thesis
    by (simp add: lan865x_cfg_results_def cfg_or_def ucast_OR ucast_FIELD_PREP or.assoc)
qed

lemma or_eq_disjoint: "w AND (y OR z) = 0 \<Longrightarrow> (y OR w) OR z = y OR z \<longleftrightarrow> w = 0" for w y z :: "'a::len word"
proof
  assume "w AND (y OR z) = 0" "(y OR w) OR z = y OR z"
  moreover have "w AND ((y OR w) OR z) = w" by (rule bit_word_eqI) (auto simp: bit_simps)
  ultimately show "w = 0" by metis
qed simp

lemma low_byte_and: "low_byte x = x AND 0xFF"
  unfolding low_byte_def by (rule bit_word_eqI) (auto simp: bit_simps)

lemma low_byte_masks:
  "low_byte x AND 0xF = x AND 0xF" "x AND 0x3FF = (low_byte x AND 0x3FF) OR (x AND 0x300)"
  "x AND 0xC0C0 = (low_byte x AND 0xC0C0) OR (x AND 0xC000)"
  by (simp_all add: low_byte_and and.assoc, (simp flip: bit.conj_disj_distrib)+)

lemma low_byte_masked:
  "x AND 0x3FF = low_byte x AND 0x3FF \<longleftrightarrow> x AND 0x300 = 0" "x AND 0xC0C0 = low_byte x AND 0xC0C0 \<longleftrightarrow> x AND 0xC000 = 0"
proof -
  have disjoint: "(x AND h) AND ((low_byte x AND k) OR 0) = 0" if "h AND 0xFF = 0" for h k :: u16
  proof -
    have "(x AND h) AND ((low_byte x AND k) OR 0) = x AND k AND (h AND 0xFF)"
      unfolding low_byte_and by (rule bit_word_eqI) (auto simp: bit_simps)
    then show ?thesis using that by simp
  qed
  show "x AND 0x3FF = low_byte x AND 0x3FF \<longleftrightarrow> x AND 0x300 = 0" "x AND 0xC0C0 = low_byte x AND 0xC0C0 \<longleftrightarrow> x AND 0xC000 = 0"
    using or_eq_disjoint [OF disjoint [of "0x300" "0x3FF"]] or_eq_disjoint [OF disjoint [of "0xC000" "0xC0C0"]]
    unfolding low_byte_masks(2,3) [of x] by simp_all
qed

lemma field_bound: "- 5 \<le> sint a \<Longrightarrow> sint a < 16 \<Longrightarrow> 5 \<le> k \<Longrightarrow> k \<le> 22 \<Longrightarrow> unat (of_nat k + scast a :: u16) < 64" for a :: "8 word"
  by (subst offset_field) auto

lemma GetSignedVal_offset_of: "GetSignedVal (ucast r AND 0x1F) = offset_of (uint r)" for r :: u16
proof -
  have "unat (ucast r AND 0x1F :: u32) = unat r mod 32"
    using word_and_mask_mod [of "ucast r :: u32" 5] by (simp add: unsigned_ucast_eq take_bit_eq_mod mod_mod_cancel)
  moreover have "uint r mod 32 = int (unat r mod 32)" by (simp add: zmod_int)
  ultimately have "sint (GetSignedVal (ucast r AND 0x1F)) = sint (offset_of (uint r))"
    by (simp only: GetSignedVal_sint sint_offset_of) (simp add: GetSignedVal_sint)
  then show ?thesis by (rule signed_word_eqI)
qed



end
